(* ===== verification/Prelude.thy ===== *)
theory Prelude
  imports Main "HOL-Library.Word"
begin

text \<open>
  Shared material of the development: the machine types the C and C++ sources use, the
  little-endian memory image of integers (the programs run on x86), C strings held in
  arrays, the part of the C library the sources call (\<open>atoi\<close>, \<open>htons\<close>), and the generic
  list lemmas the component theories share.
\<close>

unbundle bit_operations_syntax

named_theorems wire \<open>memory images of integers and arrays\<close>
named_theorems slots \<open>frame facts of the state updates\<close>

type_synonym byte = "8 word"
type_synonym u16 = "16 word"
type_synonym u32 = "32 word"

text \<open>
  Undefined behaviour that the sources can run into: taking from an empty deque, reading or
  writing outside an array, loading a \<open>bool\<close> that is neither 0 nor 1, writing a slot that
  was not allocated, following a null pointer. \<open>Assertion\<close> is a failed \<open>assert\<close>.
\<close>

datatype fault =
    Deque_underflow
  | Array_overread
  | Array_overflow
  | Bad_bool
  | Bad_slot
  | Null_deref
  | Assertion
  | Overlapping_copy

section \<open>Text as bytes\<close>

text \<open>The bytes of a string literal of the source.\<close>

definition str :: "string \<Rightarrow> byte list" where
  "str = map of_char"

text \<open>
  A \<open>char\<close> array used as a C string: the text up to its first NUL. Reading an array
  with no NUL runs past its end, which is undefined; that is the value \<open>None\<close>.
\<close>

definition c_string :: "byte list \<Rightarrow> byte list" where
  "c_string a = takeWhile (\<lambda>b. b \<noteq> 0) a"

definition string_of_array :: "byte list \<Rightarrow> byte list option" where
  "string_of_array a = (if 0 \<in> set a then Some (c_string a) else None)"

lemma c_string_no_nul: "0 \<notin> set (c_string a)"
  by (auto simp: c_string_def dest: set_takeWhileD)

lemma c_string_append_nul [simp]: "0 \<notin> set s \<Longrightarrow> c_string (s @ 0 # pad) = s"
  unfolding c_string_def by (induction s) auto

lemma string_of_array_append_nul [simp]:
  "0 \<notin> set s \<Longrightarrow> string_of_array (s @ 0 # pad) = Some s"
  by (simp add: string_of_array_def)

lemma string_of_array_None [simp]: "string_of_array a = None \<longleftrightarrow> 0 \<notin> set a"
  by (simp add: string_of_array_def)

lemma length_c_string_le: "length (c_string a) \<le> length a"
  by (simp add: c_string_def length_takeWhile_le)

lemma length_c_string_less: "0 \<in> set a \<Longrightarrow> length (c_string a) < length a"
  unfolding c_string_def
  by (metis (mono_tags) length_takeWhile_le nat_less_le takeWhile_eq_all_conv takeWhile_eq_take take_all)

section \<open>Integers in memory\<close>

definition le16 :: "u16 \<Rightarrow> byte list" where
  "le16 w = [ucast w, ucast (drop_bit 8 w)]"

definition of_le16 :: "byte list \<Rightarrow> u16" where
  "of_le16 bs = ucast (bs ! 0) OR push_bit 8 (ucast (bs ! 1))"

definition le32 :: "u32 \<Rightarrow> byte list" where
  "le32 w = [ucast w, ucast (drop_bit 8 w), ucast (drop_bit 16 w), ucast (drop_bit 24 w)]"

definition of_le32 :: "byte list \<Rightarrow> u32" where
  "of_le32 bs = ucast (bs ! 0) OR push_bit 8 (ucast (bs ! 1))
     OR push_bit 16 (ucast (bs ! 2)) OR push_bit 24 (ucast (bs ! 3))"

lemma length_le16 [simp, wire]: "length (le16 w) = 2"
  by (simp add: le16_def)

lemma length_le32 [simp, wire]: "length (le32 w) = 4"
  by (simp add: le32_def)

lemma of_le16_le16 [simp, wire]: "of_le16 (le16 w) = w"
proof (rule bit_word_eqI)
  fix n assume n: "n < LENGTH(16)"
  then show "bit (of_le16 (le16 w)) n = bit w n"
    by (cases "n < 8") (auto simp: of_le16_def le16_def bit_simps)
qed

lemma of_le32_le32 [simp, wire]: "of_le32 (le32 w) = w"
proof (rule bit_word_eqI)
  fix n assume n: "n < LENGTH(32)"
  consider "n < 8" | "8 \<le> n" "n < 16" | "16 \<le> n" "n < 24" | "24 \<le> n" by linarith
  then show "bit (of_le32 (le32 w)) n = bit w n"
    using n by cases (auto simp: of_le32_def le32_def bit_simps)
qed

lemma no_byte_bit: "8 \<le> n \<Longrightarrow> \<not> bit (x :: byte) n"
  using bit_imp_le_length [of x n] by auto

lemma le32_of_le32: "le32 (of_le32 [a, b, c, d]) = [a, b, c, d]"
proof -
  let ?w = "of_le32 [a, b, c, d]"
  have w: "bit ?w n \<longleftrightarrow>
      n < 32 \<and> (bit a n \<or> 8 \<le> n \<and> bit b (n - 8) \<or> 16 \<le> n \<and> bit c (n - 16) \<or> 24 \<le> n \<and> bit d (n - 24))" for n
    by (auto simp: of_le32_def bit_simps)
  have "ucast ?w = a" "ucast (drop_bit 8 ?w) = b" "ucast (drop_bit 16 ?w) = c" "ucast (drop_bit 24 ?w) = d"
    by (rule bit_word_eqI; simp add: bit_ucast_iff bit_drop_bit_eq w no_byte_bit)+
  then show ?thesis by (simp add: le32_def)
qed

text \<open>Reading an integer that fits back from a word.\<close>

lemma uint_64: "0 \<le> k \<Longrightarrow> k < 2 ^ 64 \<Longrightarrow> uint (word_of_int k :: 64 word) = k"
  by (simp only: uint_word_of_int) simp

lemma sint_64: "- (2 ^ 63) \<le> k \<Longrightarrow> k < 2 ^ 63 \<Longrightarrow> sint (word_of_int k :: 64 word) = k"
  by (simp only: sint_sbintrunc') (simp add: signed_take_bit_int_eq_self)

lemma sint_32: "- (2 ^ 31) \<le> k \<Longrightarrow> k < 2 ^ 31 \<Longrightarrow> sint (word_of_int k :: u32) = k"
  by (simp only: sint_sbintrunc') (simp add: signed_take_bit_int_eq_self)

text \<open>Byte order conversion on a little-endian host.\<close>

definition ntohs :: "u16 \<Rightarrow> u16" where
  "ntohs w = push_bit 8 w OR drop_bit 8 w"

definition ntohl :: "u32 \<Rightarrow> u32" where
  "ntohl w = of_le32 (rev (le32 w))"

lemma ntohs_ntohs [simp]: "ntohs (ntohs w) = w"
  by (rule bit_word_eqI) (auto simp: ntohs_def bit_simps)

section \<open>The C library's conversion of digits\<close>

definition is_digit :: "byte \<Rightarrow> bool" where
  "is_digit b \<longleftrightarrow> 48 \<le> b \<and> b \<le> 57"

definition is_space :: "byte \<Rightarrow> bool" where
  "is_space b \<longleftrightarrow> b = 32 \<or> 9 \<le> b \<and> b \<le> 13"

definition digits_value :: "byte list \<Rightarrow> int" where
  "digits_value = foldl (\<lambda>n b. 10 * n + (uint b - 48)) 0"

definition long_max :: int where "long_max = 2 ^ 63 - 1"
definition long_min :: int where "long_min = - (2 ^ 63)"

text \<open>\<open>strtol (s, NULL, 10)\<close>: white space, an optional sign, digits; it saturates.\<close>

definition strtol10 :: "byte list \<Rightarrow> int" where
  "strtol10 s =
     (let t = dropWhile is_space (c_string s);
          neg = (t \<noteq> [] \<and> hd t = 45);
          u = (if t \<noteq> [] \<and> (hd t = 45 \<or> hd t = 43) then tl t else t);
          v = digits_value (takeWhile is_digit u)
      in max long_min (min long_max (if neg then - v else v)))"

text \<open>\<open>atoi\<close>, as the GNU C library computes it: \<open>(int) strtol (s, NULL, 10)\<close>.\<close>

definition atoi :: "byte list \<Rightarrow> int" where
  "atoi s = sint (word_of_int (strtol10 s) :: u32)"

text \<open>\<open>std::to_string\<close> and the conversion \<open>%d\<close> of a number that is not negative.\<close>

fun dec :: "nat \<Rightarrow> byte list" where
  "dec n = (if n < 10 then [of_nat (48 + n)] else dec (n div 10) @ [of_nat (48 + n mod 10)])"

declare dec.simps [simp del]

definition dec_int :: "int \<Rightarrow> byte list" where
  "dec_int i = (if i < 0 then 45 # dec (nat (- i)) else dec (nat i))"

lemma uint_digit: "n < 10 \<Longrightarrow> uint (of_nat (48 + n) :: byte) = 48 + int n"
  by (simp add: uint_word_ariths unsigned_of_nat take_bit_eq_mod)

lemma is_digit_digit: "n < 10 \<Longrightarrow> is_digit (of_nat (48 + n))"
  using uint_digit [of n] by (simp add: is_digit_def word_le_def)

lemma digits_value_snoc: "digits_value (s @ [b]) = 10 * digits_value s + (uint b - 48)"
  by (simp add: digits_value_def)

lemma digits_value_dec [simp]: "digits_value (dec n) = int n"
proof (induction n rule: dec.induct)
  case (1 n)
  have "digits_value (dec (n div 10) @ [of_nat (48 + n mod 10)]) = int n" if "10 \<le> n"
    using 1 that uint_digit [of "n mod 10"] div_mult_mod_eq [of "int n" 10]
    by (simp add: digits_value_snoc zdiv_int zmod_int del: div_mult_mod_eq)
  with uint_digit [of n] show ?case
    by (subst dec.simps) (auto simp: digits_value_def)
qed

lemma dec_digits: "\<forall>b \<in> set (dec n). is_digit b"
proof (induction n rule: dec.induct)
  case (1 n)
  show ?case
    by (subst dec.simps) (use 1 is_digit_digit [of n] is_digit_digit [of "n mod 10"] in auto)
qed

lemma dec_nonempty [simp]: "dec n \<noteq> []"
  by (subst dec.simps) simp

lemma dec_less_10: "n < 10 \<Longrightarrow> dec n = [of_nat (48 + n)]"
  by (subst dec.simps) simp

lemma dec_10: "10 \<le> n \<Longrightarrow> dec n = dec (n div 10) @ [of_nat (48 + n mod 10)]"
  by (subst dec.simps) simp

lemma length_dec_div:
  "10 \<le> n \<Longrightarrow> length (dec n) = length (dec (n div 10)) + 1"
  using dec_10 [of n] by simp

lemma length_dec_le: "n < 10 ^ k \<Longrightarrow> 0 < k \<Longrightarrow> length (dec n) \<le> k"
proof (induction k arbitrary: n)
  case (Suc k)
  show ?case
  proof (cases "n < 10")
    case False
    with Suc.prems have "k \<noteq> 0" by (auto intro: ccontr)
    with False Suc.IH [of "n div 10"] Suc.prems length_dec_div [of n] show ?thesis
      by (simp add: less_mult_imp_div_less mult.commute)
  qed (simp add: dec_less_10)
qed simp

text \<open>Reading a decimal number back, with or without something else behind it.\<close>

lemma dec_leading: "\<exists>b bs. dec n = b # bs \<and> is_digit b"
  using dec_digits [of n] by (cases "dec n") auto

lemma digit_not_special: "is_digit b \<Longrightarrow> b \<noteq> 0 \<and> b \<noteq> 45 \<and> b \<noteq> 43 \<and> b \<noteq> 46 \<and> \<not> is_space b"
  by (auto simp: is_digit_def is_space_def word_le_def)

lemma atoi_dec:
  assumes "n < 2 ^ 31" "\<forall>b \<in> set (take 1 r). \<not> is_digit b" "0 \<notin> set r"
  shows "atoi (dec n @ r) = int n"
proof -
  obtain b bs where b: "dec n = b # bs" "is_digit b" using dec_leading by blast
  have "0 \<notin> set (dec n @ r)" using dec_digits [of n] digit_not_special assms(3) by auto
  then have c: "c_string (dec n @ r) = dec n @ r"
    unfolding c_string_def by (intro takeWhile_eq_all_conv [THEN iffD2]) auto
  have t: "takeWhile is_digit (dec n @ r) = dec n"
    using dec_digits [of n] assms(2) by (cases r) (auto simp: takeWhile_append)
  have d: "dropWhile is_space (dec n @ r) = dec n @ r" "hd (dec n @ r) \<noteq> 45" "hd (dec n @ r) \<noteq> 43"
    using b digit_not_special [of b] by auto
  have "strtol10 (dec n @ r) = int n"
    using assms(1) d t by (simp add: strtol10_def c Let_def long_max_def long_min_def)
  moreover have "sint (word_of_int (int n) :: u32) = int n"
    by (rule sint_32) (use assms(1) in simp_all)
  ultimately show ?thesis by (simp only: atoi_def)
qed

lemmas atoi_dec_end = atoi_dec [where r = "[]", simplified]

section \<open>Results\<close>

text \<open>Sequencing of steps that can stop with an error.\<close>

fun bindE :: "'e + 'a \<Rightarrow> ('a \<Rightarrow> 'e + 'b) \<Rightarrow> 'e + 'b" where
  "bindE (Inl e) f = Inl e"
| "bindE (Inr a) f = f a"

lemma bindE_Inr_iff [simp]: "bindE m f = Inr b \<longleftrightarrow> (\<exists>a. m = Inr a \<and> f a = Inr b)"
  by (cases m) auto

lemma bindE_Inr_right [simp]: "bindE m Inr = m"
  by (cases m) auto

lemma bindE_assoc: "bindE (bindE m f) g = bindE m (\<lambda>a. bindE (f a) g)"
  by (cases m) auto

lemma bindE_cong [fundef_cong]:
  "m = m' \<Longrightarrow> (\<And>a. m' = Inr a \<Longrightarrow> f a = f' a) \<Longrightarrow> bindE m f = bindE m' f'"
  by (cases m') auto

section \<open>Searching a list\<close>

text \<open>Position of the first occurrence of \<open>pat\<close>: \<open>std::string::find\<close>, \<open>strstr\<close>.\<close>

fun find_sub :: "'a list \<Rightarrow> 'a list \<Rightarrow> nat option" where
  "find_sub pat [] = (if pat = [] then Some 0 else None)"
| "find_sub pat (x # xs) =
     (if take (length pat) (x # xs) = pat then Some 0 else map_option Suc (find_sub pat xs))"

lemma find_sub_append: "find_sub pat (pat @ xs) = Some 0"
proof (cases "pat @ xs")
  case (Cons a list)
  then have "take (length pat) (a # list) = pat" by (metis append_eq_conv_conj)
  with Cons show ?thesis by simp
qed simp

lemma find_sub_Some:
  "find_sub pat xs = Some n \<Longrightarrow> take (length pat) (drop n xs) = pat \<and> n + length pat \<le> length xs"
  by (induction xs arbitrary: n)
    (auto split: if_splits simp: min_def dest!: arg_cong [where f = length])

lemma find_sub_least:
  "take (length pat) (drop k xs) = pat \<Longrightarrow> \<exists>n \<le> k. find_sub pat xs = Some n"
proof (induction xs arbitrary: k)
  case Nil
  then show ?case by auto
next
  case (Cons x xs)
  show ?case
  proof (cases k)
    case 0
    with Cons.prems show ?thesis by auto
  next
    case (Suc k')
    with Cons.IH [of k'] Cons.prems show ?thesis by auto
  qed
qed

section \<open>Lines and tokens\<close>

text \<open>
  \<open>fgets\<close> on what is left of a stream: at most \<open>bufsize - 1\<close> bytes, up to and including the first
  line feed; \<open>None\<close> at the end of the stream.
\<close>

definition fgets :: "nat \<Rightarrow> byte list \<Rightarrow> (byte list \<times> byte list) option" where
  "fgets bufsize s =
     (if s = [] then None
      else let n = min (Suc (length (takeWhile (\<lambda>b. b \<noteq> 10) s))) (bufsize - 1) in Some (take n s, drop n s))"

lemma fgets_line:
  assumes "10 \<notin> set l" "length l + 1 < bufsize"
  shows "fgets bufsize (l @ 10 # rest) = Some (l @ [10], rest)"
proof -
  have "takeWhile (\<lambda>b. b \<noteq> 10) (l @ 10 # rest) = l" using assms(1) by (induction l) auto
  with assms(2) show ?thesis by (simp add: fgets_def)
qed

lemma fgets_progress: "fgets bufsize s = Some (l, r) \<Longrightarrow> 2 \<le> bufsize \<Longrightarrow> length r < length s"
  by (auto simp: fgets_def Let_def split: if_splits)

text \<open>One call of \<open>strtok\<close> on what is left of a string: the next token and what follows it.\<close>

definition strtok_next :: "(byte \<Rightarrow> bool) \<Rightarrow> byte list \<Rightarrow> (byte list \<times> byte list) option" where
  "strtok_next d s =
     (let t = dropWhile d s
      in if t = [] then None
         else Some (takeWhile (\<lambda>b. \<not> d b) t, tl (dropWhile (\<lambda>b. \<not> d b) t)))"

lemma strtok_next_shorter: "strtok_next d s = Some (p, r) \<Longrightarrow> length r < length s"
proof (cases "dropWhile d s")
  case (Cons b t)
  assume "strtok_next d s = Some (p, r)"
  with Cons have "r = tl (dropWhile (\<lambda>b. \<not> d b) (b # t))" by (simp add: strtok_next_def Let_def)
  moreover have "length (dropWhile (\<lambda>b. \<not> d b) (b # t)) \<le> Suc (length t)"
    using length_dropWhile_le [of "\<lambda>b. \<not> d b" "b # t"] by simp
  moreover have "Suc (length t) \<le> length s" using length_dropWhile_le [of d s] Cons by simp
  ultimately show "length r < length s" by simp
qed (simp add: strtok_next_def)

lemma strtok_next_token:
  assumes "p \<noteq> []" "\<forall>b \<in> set p. \<not> d b"
  shows "d c \<Longrightarrow> strtok_next d (p @ c # r) = Some (p, r)" and "strtok_next d p = Some (p, [])"
proof -
  from assms have hd: "\<not> d (hd p)" "p = hd p # tl p" by auto
  then have dw: "dropWhile d (p @ q) = p @ q" for q by (metis append_Cons dropWhile.simps(2))
  have tw: "takeWhile (\<lambda>b. \<not> d b) (p @ q) = p @ takeWhile (\<lambda>b. \<not> d b) q"
    and tl: "dropWhile (\<lambda>b. \<not> d b) (p @ q) = dropWhile (\<lambda>b. \<not> d b) q" for q
    using assms(2) by (auto simp: takeWhile_append dropWhile_append)
  show "strtok_next d (p @ c # r) = Some (p, r)" if "d c"
    using that assms(1) by (simp add: strtok_next_def dw tw tl)
  show "strtok_next d p = Some (p, [])"
  proof -
    have end_of_p: "tl (dropWhile (\<lambda>b. \<not> d b) p) = []"
      by (subst dropWhile_eq_Nil_conv [THEN iffD2]) (use assms(2) in auto)
    show ?thesis
      using assms(1) dw [of "[]"] tw [of "[]"] by (simp add: strtok_next_def Let_def end_of_p)
  qed
qed

end
