(* ===== verification/Route_Table.thy ===== *)
theory Route_Table
  imports Prelude "HOL-Library.Multiset"
begin

text \<open>
  The routing table of \<open>tema1\<close>: \<open>read_rtable\<close> and the address parsers of \<open>skel.c\<close>, the order
  \<open>rtable_comp\<close> and the recursive \<open>binary_search\<close> of \<open>router.c\<close>. An address in a field is the
  32-bit integer whose memory image holds its four bytes in network order, so on the
  little-endian host the first byte is the least significant one.
\<close>

section \<open>Entries (skel.h)\<close>

record route_table_entry =
  prefix :: u32
  next_hop :: u32
  mask :: u32
  r_interface :: int

definition zero_entry :: route_table_entry where
  "zero_entry = \<lparr>prefix = 0, next_hop = 0, mask = 0, r_interface = 0\<rparr>"

text \<open>The array \<open>route_table\<close>, a global variable.\<close>

definition ROUTES :: nat where
  "ROUTES = 100005"

section \<open>Reading the table (skel.c)\<close>

text \<open>\<open>*(((unsigned char * ) &field) + i) = b\<close>.\<close>

definition set_byte :: "nat \<Rightarrow> byte \<Rightarrow> u32 \<Rightarrow> u32" where
  "set_byte i b w = of_le32 ((le32 w)[i := b])"

definition set_field :: "nat \<Rightarrow> byte list \<Rightarrow> route_table_entry \<Rightarrow> route_table_entry" where
  "set_field i p e =
     (if i < 4 then e\<lparr>prefix := set_byte (i mod 4) (word_of_int (atoi p)) (prefix e)\<rparr>
      else if i < 8 then e\<lparr>next_hop := set_byte (i mod 4) (word_of_int (atoi p)) (next_hop e)\<rparr>
      else if i < 12 then e\<lparr>mask := set_byte (i mod 4) (word_of_int (atoi p)) (mask e)\<rparr>
      else if i = 12 then e\<lparr>r_interface := atoi p\<rparr>
      else e)"

definition table_delim :: "byte \<Rightarrow> bool" where
  "table_delim b \<longleftrightarrow> b = 32 \<or> b = 46"

text \<open>The tokens of one line go into entry \<open>j\<close>; past the array that is an overflow.\<close>

function read_fields ::
  "nat \<Rightarrow> nat \<Rightarrow> byte list \<Rightarrow> route_table_entry list \<Rightarrow> fault + route_table_entry list" where
  "read_fields j i s rtable =
     (case strtok_next table_delim s of
        None \<Rightarrow> Inr rtable
      | Some (p, r) \<Rightarrow>
          if i \<le> 12 \<and> length rtable \<le> j then Inl Array_overflow
          else read_fields j (i + 1) r (rtable[j := set_field i p (rtable ! j)]))"
  by pat_completeness auto

termination
  by (relation "measure (\<lambda>(j, i, s, rtable). length s)") (auto dest: strtok_next_shorter)

function read_lines ::
  "nat \<Rightarrow> byte list \<Rightarrow> route_table_entry list \<Rightarrow> fault + nat \<times> route_table_entry list" where
  "read_lines j file rtable =
     (case fgets 64 file of
        None \<Rightarrow> Inr (j, rtable)
      | Some (line, rest) \<Rightarrow>
          bindE (read_fields j 0 (c_string line) rtable) (\<lambda>rtable. read_lines (j + 1) rest rtable))"
  by pat_completeness auto

termination
  by (relation "measure (\<lambda>(j, file, rtable). length file)") (auto dest: fgets_progress)

declare read_fields.simps [simp del] read_lines.simps [simp del]

text \<open>The file is \<open>None\<close> when \<open>fopen\<close> fails: the code hands the null pointer to \<open>fgets\<close>.\<close>

definition read_rtable ::
  "byte list option \<Rightarrow> route_table_entry list \<Rightarrow> fault + nat \<times> route_table_entry list" where
  "read_rtable fp rtable =
     (case fp of None \<Rightarrow> Inl Null_deref | Some file \<Rightarrow> read_lines 0 file rtable)"

section \<open>Hardware addresses (skel.c)\<close>

definition hex2num :: "byte \<Rightarrow> int" where
  "hex2num c =
     (if 48 \<le> c \<and> c \<le> 57 then uint c - 48
      else if 97 \<le> c \<and> c \<le> 102 then uint c - 97 + 10
      else if 65 \<le> c \<and> c \<le> 70 then uint c - 65 + 10
      else -1)"

definition hex2byte :: "byte \<Rightarrow> byte \<Rightarrow> int" where
  "hex2byte h l =
     (if hex2num h < 0 then -1
      else if hex2num l < 0 then -1
      else (push_bit 4 (hex2num h)) OR hex2num l)"

text \<open>
  The loop of \<open>hwaddr_aton\<close> with \<open>i\<close> groups read; \<open>txt\<close> is what is left of the string (its end
  stands for the NUL, which is no digit), and \<open>addr\<close> the bytes stored so far.
\<close>

fun hwaddr_loop :: "nat \<Rightarrow> byte list \<Rightarrow> byte list \<Rightarrow> int \<times> byte list" where
  "hwaddr_loop i txt addr =
     (if 6 \<le> i then (0, addr)
      else case txt of
        [] \<Rightarrow> (-1, addr)
      | h # txt \<Rightarrow>
          if hex2num h < 0 then (-1, addr)
          else case txt of
            [] \<Rightarrow> (-1, addr)
          | l # txt \<Rightarrow>
              if hex2num l < 0 then (-1, addr)
              else let addr = addr @ [word_of_int (push_bit 4 (hex2num h) OR hex2num l)]
                   in if i < 5 then
                        (case txt of
                           [] \<Rightarrow> (-1, addr)
                         | c # txt \<Rightarrow> if c \<noteq> 58 then (-1, addr) else hwaddr_loop (i + 1) txt addr)
                      else hwaddr_loop (i + 1) txt addr)"

definition hwaddr_aton :: "byte list \<Rightarrow> int \<times> byte list" where
  "hwaddr_aton txt = hwaddr_loop 0 txt []"

section \<open>Order and search (router.c)\<close>

definition rtable_comp :: "route_table_entry \<Rightarrow> route_table_entry \<Rightarrow> int" where
  "rtable_comp aa bb =
     (if prefix aa > prefix bb then 1
      else if prefix aa < prefix bb then -1
      else if mask aa > mask bb then 1
      else if mask aa < mask bb then -1
      else 0)"

text \<open>\<open>qsort\<close> of the GNU C library merges, so it keeps the order of equal elements.\<close>

fun sort_insert :: "('a \<Rightarrow> 'a \<Rightarrow> int) \<Rightarrow> 'a \<Rightarrow> 'a list \<Rightarrow> 'a list" where
  "sort_insert cmp x [] = [x]"
| "sort_insert cmp x (y # ys) = (if cmp x y \<le> 0 then x # y # ys else y # sort_insert cmp x ys)"

definition qsort :: "('a \<Rightarrow> 'a \<Rightarrow> int) \<Rightarrow> 'a list \<Rightarrow> 'a list" where
  "qsort cmp xs = foldr (sort_insert cmp) xs []"

text \<open>An element of the array, by index.\<close>

definition entry_at :: "route_table_entry list \<Rightarrow> int \<Rightarrow> fault + route_table_entry" where
  "entry_at rt i = (if 0 \<le> i \<and> nat i < length rt then Inr (rt ! nat i) else Inl Array_overread)"

text \<open>Division of \<open>int\<close> truncates.\<close>

definition half :: "int \<Rightarrow> int" where
  "half h = (if h < 0 then - (- h div 2) else h div 2)"

text \<open>\<open>low\<close> is the index of the entry the pointer points to; \<open>None\<close> is a call that never returns.\<close>

partial_function (option) binary_search ::
  "route_table_entry list \<Rightarrow> int \<Rightarrow> int \<Rightarrow> u32 \<Rightarrow> (fault + int) option" where
  "binary_search rt low high search =
     (if high = 0 then Some (Inr low)
      else if high = 1 then
        (case entry_at rt (low + 1) of
           Inl f \<Rightarrow> Some (Inl f)
         | Inr e \<Rightarrow> Some (Inr (if search AND mask e = prefix e then low + 1 else low)))
      else
        (case entry_at rt (low + half high) of
           Inl f \<Rightarrow> Some (Inl f)
         | Inr e \<Rightarrow>
             if prefix e > search AND mask e then binary_search rt low (half high) search
             else binary_search rt (low + half high) (high - half high) search))"

end
