(* ===== verification/Checksum.thy ===== *)
theory Checksum
  imports Prelude
begin

text \<open>
  The two checksums of \<open>tema1/skel.c\<close>. Memory is a list of bytes; the accumulators keep their 64
  bits. \<open>ip_checksum\<close> takes the address of its data, of which only the remainder by four matters.
  The second half of the theory shows that it computes the Internet checksum (RFC 1071) of its
  bytes whatever that remainder is.
\<close>

section \<open>The code\<close>

text \<open>
  \<open>icmp_checksum\<close>: \<open>data\<close> is the memory from the pointer on, of which \<open>size\<close> bytes are summed.
  For an odd size the last load takes one byte more.
\<close>

fun icmp_sum :: "nat \<Rightarrow> byte list \<Rightarrow> 64 word \<Rightarrow> fault + 64 word" where
  "icmp_sum sz (a # b # data) cksum =
     (if sz > 1 then icmp_sum (sz - 2) data (cksum + ucast (of_le16 [a, b]))
      else if sz \<noteq> 0 then Inr (cksum + ucast (of_le16 [a, b]))
      else Inr cksum)"
| "icmp_sum sz _ cksum = (if sz = 0 then Inr cksum else Inl Array_overread)"

definition icmp_checksum :: "byte list \<Rightarrow> nat \<Rightarrow> fault + u16" where
  "icmp_checksum data sz =
     bindE (icmp_sum sz data 0) (\<lambda>cksum.
       let cksum = drop_bit 16 cksum + (cksum AND 0xFFFF);
           cksum = cksum + drop_bit 16 cksum
       in Inr (ucast (NOT cksum)))"

text \<open>\<open>uint32_t word = 0; memcpy (offset + (char * ) &word, data, count)\<close>.\<close>

definition partial_word :: "nat \<Rightarrow> byte list \<Rightarrow> u32" where
  "partial_word off bs = of_le32 (take 4 (replicate off 0 @ bs @ replicate 4 0))"

fun ip_blocks :: "byte list \<Rightarrow> 64 word \<Rightarrow> 64 word \<times> byte list" where
  "ip_blocks (a # b # c # d # data) acc = ip_blocks data (acc + ucast (ntohl (of_le32 [a, b, c, d])))"
| "ip_blocks data acc = (acc, data)"

lemma low_word: "unat (w AND 0xFFFF :: 64 word) = unat w mod 65536"
proof -
  have "(0xFFFF :: 64 word) = mask 16" by (simp add: mask_eq_exp_minus_1)
  then have "w AND 0xFFFF = w mod 65536" by (simp only: take_bit_eq_mask [symmetric]) (simp add: take_bit_eq_mod)
  then show ?thesis by (simp add: unat_mod)
qed

lemma word64_less: "unat (w :: 64 word) < 18446744073709551616"
proof -
  have "unat w < 2 ^ LENGTH(64)" by (rule unsigned_less)
  then show ?thesis by simp
qed

lemma high_word: "n < 64 \<Longrightarrow> unat (drop_bit n (w :: 64 word)) = unat w div 2 ^ n"
proof -
  have "take_bit 64 (unat w) = unat w" using word64_less [of w] by (simp add: take_bit_nat_eq_self)
  then show ?thesis by (simp only: unsigned_drop_bit_eq) (simp add: drop_bit_eq_div)
qed

lemma word64_add: "unat a + unat b < 18446744073709551616 \<Longrightarrow> unat (a + b :: 64 word) = unat a + unat b"
  by (subst unat_add_lem [THEN iffD1]) simp_all

lemma carry_le: "(n :: nat) mod 65536 + n div 65536 \<le> n"
  using div_mult_mod_eq [of n 65536] by linarith

lemma carry_value:
  "unat ((w AND 0xFFFF) + drop_bit 16 w :: 64 word) = unat w mod 65536 + unat w div 65536"
proof -
  have "unat w mod 65536 + unat w div 65536 < 18446744073709551616"
    using le_less_trans [OF carry_le word64_less] .
  then show ?thesis by (subst word64_add) (simp_all add: low_word high_word)
qed

lemma carry_less:
  assumes "65536 \<le> (n :: nat)"
  shows "n mod 65536 + n div 65536 < n"
proof -
  have "1 \<le> n div 65536" using assms by (simp add: div_greater_zero_iff Suc_le_eq)
  with div_mult_mod_eq [of n 65536] show ?thesis by linarith
qed

lemma high_word_nonzero: "drop_bit 16 (w :: 64 word) \<noteq> 0 \<longleftrightarrow> 65536 \<le> unat w"
proof -
  have "drop_bit 16 w = 0 \<longleftrightarrow> unat w div 65536 = 0"
    by (simp only: unat_eq_zero [symmetric]) (simp add: high_word)
  then show ?thesis by (simp add: div_eq_0_iff not_less)
qed

function fold_carries :: "64 word \<Rightarrow> 64 word" where
  "fold_carries acc =
     (if drop_bit 16 acc \<noteq> 0 then fold_carries ((acc AND 0xFFFF) + drop_bit 16 acc) else acc)"
  by pat_completeness auto

termination
  by (relation "measure unat") (simp_all add: carry_value high_word_nonzero carry_less)

declare fold_carries.simps [simp del]

text \<open>The address of the data enters as its remainder by four.\<close>

definition ip_checksum :: "nat \<Rightarrow> byte list \<Rightarrow> u16" where
  "ip_checksum offset data =
     (let count = (if offset \<noteq> 0 then min (4 - offset) (length data) else 0);
          acc = (0xFFFF :: 64 word);
          acc = (if offset \<noteq> 0 then acc + ucast (ntohl (partial_word offset (take count data))) else acc);
          (acc, rest) = ip_blocks (drop count data) acc;
          acc = (if rest \<noteq> [] then acc + ucast (ntohl (partial_word 0 rest)) else acc);
          acc = (acc AND 0xFFFFFFFF) + drop_bit 32 acc;
          acc = fold_carries acc;
          acc = (if odd offset then drop_bit 8 (acc AND 0xFF00) OR push_bit 8 (acc AND 0x00FF) else acc)
      in ntohs (ucast (NOT acc)))"

section \<open>The reference\<close>

text \<open>The sum of the 16-bit words in network order, a last odd byte taken as the high one.\<close>

fun rfc_sum :: "byte list \<Rightarrow> nat" where
  "rfc_sum (a # b # data) = 256 * unat a + unat b + rfc_sum data"
| "rfc_sum [a] = 256 * unat a"
| "rfc_sum [] = 0"

lemma rfc_sum_append: "even (length xs) \<Longrightarrow> rfc_sum (xs @ ys) = rfc_sum xs + rfc_sum ys"
  by (induction xs rule: rfc_sum.induct) auto

lemma rfc_sum_zeros: "rfc_sum (data @ replicate n 0) = rfc_sum data"
proof (induction data rule: rfc_sum.induct)
  have z: "rfc_sum (replicate n 0) = 0" for n
    by (induction n rule: induct_nat_012) auto
  case (2 a)
  then show ?case by (cases n) (auto simp: z)
  case 3
  then show ?case by (simp add: z)
qed auto

text \<open>Shifting the bytes by one swaps the two halves, that is, multiplies by 256 modulo 65535.\<close>

lemma rfc_sum_Cons: "rfc_sum (b # data) = 256 * unat b + rfc_sum (0 # data)"
  by (cases data) auto

lemma rfc_sum_shift: "rfc_sum (0 # data) mod 65535 = 256 * rfc_sum data mod 65535"
proof (induction data rule: rfc_sum.induct)
  case (1 a b data)
  have "256 * (256 * unat a + unat b + rfc_sum data) mod 65535
      = (65535 * unat a + (unat a + 256 * unat b + 256 * rfc_sum data)) mod 65535"
    by (simp add: algebra_simps)
  also have "\<dots> = (unat a + 256 * unat b + 256 * rfc_sum data) mod 65535" by (rule mod_mult_self4)
  also have "\<dots> = (unat a + 256 * unat b + rfc_sum (0 # data)) mod 65535"
    using 1 by (intro mod_add_cong) auto
  finally show ?case by (simp add: rfc_sum_Cons [of b] add.assoc)
next
  case (2 a)
  have "256 * (256 * unat a) mod 65535 = (65535 * unat a + unat a) mod 65535" by simp
  also have "\<dots> = unat a mod 65535" by (rule mod_mult_self4)
  finally show ?case by simp
qed simp

section \<open>The code computes it\<close>

lemma byte_less: "unat (b :: byte) < 256"
proof -
  have "unat b < 2 ^ LENGTH(8)" by (rule unsigned_less)
  then show ?thesis by simp
qed

text \<open>Words whose bits lie below \<open>k\<close>, extended by a byte.\<close>

definition below :: "nat \<Rightarrow> u32 \<Rightarrow> bool" where
  "below k w \<longleftrightarrow> (\<forall>n. bit w n \<longrightarrow> n < k)"

lemma or_byte:
  fixes b :: byte
  assumes "below k w"
  shows "w OR push_bit k (ucast b) = w + of_nat (2 ^ k * unat b)" (is ?sum)
    and "below (k + 8) (w OR push_bit k (ucast b))" (is ?below)
proof -
  have "w AND push_bit k (ucast b) = 0"
    using assms by (intro bit_word_eqI) (auto simp: below_def bit_simps)
  then have "w OR push_bit k (ucast b) = w + push_bit k (ucast b)"
    by (simp add: disjunctive_add_eq_or)
  then show ?sum by (simp add: push_bit_eq_mult mult.commute)
  show ?below
    unfolding below_def
  proof (intro allI impI)
    fix n assume "bit (w OR push_bit k (ucast b)) n"
    then have "bit w n \<or> k \<le> n \<and> bit b (n - k)" by (auto simp: bit_simps)
    then show "n < k + 8"
      using assms no_byte_bit [of "n - k" b] by (cases "8 \<le> n - k") (auto simp: below_def)
  qed
qed

lemma unat_small: "n < 4294967296 \<Longrightarrow> unat (of_nat n :: u32) = n"
  by (simp add: unsigned_of_nat take_bit_nat_eq_self)

lemma of_le32_nat:
  "unat (of_le32 [a, b, c, d]) = unat a + 256 * unat b + 65536 * unat c + 16777216 * unat d"
proof -
  let ?n = "unat a + 256 * unat b + 65536 * unat c + 16777216 * unat d"
  let ?a = "ucast a :: u32"
  have a: "below 8 ?a" using or_byte(2) [of 0 0 a] by (simp add: below_def)
  note b = or_byte [OF a, of b]
  note c = or_byte [OF b(2), of c]
  note d = or_byte [OF c(2), of d]
  have "of_le32 [a, b, c, d] = of_nat ?n"
    using b(1) c(1) d(1) by (simp add: of_le32_def or.assoc [symmetric])
  moreover have "?n < 4294967296" using byte_less [of a] byte_less [of b] byte_less [of c] byte_less [of d] by simp
  ultimately show ?thesis by (simp only: unat_small)
qed

lemma ntohl_nat:
  "unat (ntohl (of_le32 [a, b, c, d])) = unat d + 256 * unat c + 65536 * unat b + 16777216 * unat a"
  by (simp add: ntohl_def le32_of_le32 of_le32_nat)

lemma block_mod:
  "unat (ntohl (of_le32 [a, b, c, d])) mod 65535 = rfc_sum [a, b, c, d] mod 65535"
proof -
  have "unat (ntohl (of_le32 [a, b, c, d])) = rfc_sum [a, b, c, d] + (unat b + 256 * unat a) * 65535"
    by (simp add: ntohl_nat)
  then show ?thesis by (simp only: mod_mult_self1)
qed

lemma word32_less: "unat (w :: u32) < 4294967296"
proof -
  have "unat w < 2 ^ LENGTH(32)" by (rule unsigned_less)
  then show ?thesis by simp
qed

lemma add_u32:
  fixes acc :: "64 word" and w :: u32
  assumes "unat acc < 2 ^ 63"
  shows "unat (acc + ucast w) = unat acc + unat w"
  using assms word32_less [of w] by (subst word64_add) (simp_all add: unsigned_ucast_eq take_bit_nat_eq_self)

text \<open>The main loop, with the bound that keeps the accumulator from wrapping.\<close>

lemma ip_blocks_sum:
  assumes "ip_blocks data acc = (acc', rest)" "unat acc + 1073741824 * length data < 2 ^ 62"
  shows "\<exists>pre. data = pre @ rest \<and> even (length pre) \<and> length rest < 4
    \<and> unat acc' mod 65535 = (unat acc + rfc_sum pre) mod 65535
    \<and> unat acc \<le> unat acc' \<and> unat acc' + 1073741824 * length rest < 2 ^ 62"
  using assms
proof (induction data acc rule: ip_blocks.induct)
  case (1 a b c d data acc)
  let ?w = "ntohl (of_le32 [a, b, c, d])"
  have w: "unat (acc + ucast ?w) = unat acc + unat ?w"
    using 1(3) by (intro add_u32) simp
  have "unat (acc + ucast ?w) + 1073741824 * length data < 2 ^ 62"
    using 1(3) word32_less [of ?w] w by simp
  from 1(1) [OF _ this] 1(2) obtain pre where pre: "data = pre @ rest" "even (length pre)" "length rest < 4"
    "unat acc' mod 65535 = (unat (acc + ucast ?w) + rfc_sum pre) mod 65535"
    "unat (acc + ucast ?w) \<le> unat acc'" "unat acc' + 1073741824 * length rest < 2 ^ 62" by auto
  have "(unat acc + unat ?w + rfc_sum pre) mod 65535
      = (unat acc + rfc_sum [a, b, c, d] + rfc_sum pre) mod 65535"
    by (intro mod_add_cong block_mod) simp_all
  then show ?case
    using pre w by (intro exI [of _ "a # b # c # d # pre"]) (auto simp: algebra_simps)
qed (auto intro!: exI [of _ "[]"])

text \<open>The partial words at either end.\<close>

lemma partial_mod:
  assumes "off + length bs \<le> 4" "off < 4"
  shows "unat (ntohl (partial_word off bs)) mod 65535 = rfc_sum (replicate off 0 @ bs) mod 65535"
proof -
  define ws where "ws = take 4 (replicate off 0 @ bs @ replicate 4 (0 :: byte))"
  have "length ws = 4" using assms by (simp add: ws_def)
  then obtain a b c d where w: "ws = [a, b, c, d]"
    by (auto simp: numeral_eq_Suc length_Suc_conv)
  have "ws = (replicate off 0 @ bs) @ replicate (4 - off - length bs) 0"
    using assms by (simp add: ws_def min_def)
  then have "rfc_sum ws = rfc_sum (replicate off 0 @ bs)" by (simp only: rfc_sum_zeros)
  moreover have "partial_word off bs = of_le32 ws" by (simp only: partial_word_def ws_def)
  ultimately show ?thesis using block_mod [of a b c d] by (simp only: w)
qed

lemma fold_carries_value:
  "acc \<noteq> 0 \<Longrightarrow> unat (fold_carries acc) mod 65535 = unat acc mod 65535
    \<and> 0 < unat (fold_carries acc) \<and> unat (fold_carries acc) < 65536"
proof (induction acc rule: fold_carries.induct)
  case (1 acc)
  let ?next = "(acc AND 0xFFFF) + drop_bit 16 acc"
  show ?case
  proof (cases "drop_bit 16 acc = 0")
    case True
    with 1(2) show ?thesis
      using high_word_nonzero [of acc] by (simp add: fold_carries.simps [of acc] unat_gt_0)
  next
    case False
    have v: "unat ?next = unat acc mod 65536 + unat acc div 65536" by (rule carry_value)
    have "65536 \<le> unat acc" using False high_word_nonzero [of acc] by simp
    then have "0 < unat acc div 65536" by (simp add: div_greater_zero_iff)
    with v have "?next \<noteq> 0" by (simp add: unat_eq_0 [symmetric] del: unat_eq_0)
    moreover have "unat ?next mod 65535 = unat acc mod 65535"
    proof -
      have "unat acc = unat ?next + unat acc div 65536 * 65535"
        using div_mult_mod_eq [of "unat acc" 65536] v by simp
      then show ?thesis by (metis mod_mult_self1)
    qed
    ultimately show ?thesis
      using 1(1) [OF False] False by (simp add: fold_carries.simps [of acc])
  qed
qed

lemma low_word_32: "unat (w AND 0xFFFFFFFF :: 64 word) = unat w mod 4294967296"
proof -
  have "(0xFFFFFFFF :: 64 word) = mask 32" by (simp add: mask_eq_exp_minus_1)
  then have "w AND 0xFFFFFFFF = w mod 4294967296"
    by (simp only: take_bit_eq_mask [symmetric]) (simp add: take_bit_eq_mod)
  then show ?thesis by (simp add: unat_mod)
qed

lemma halves_32:
  fixes acc :: "64 word"
  assumes "0 < unat acc" "unat acc < 2 ^ 63"
  shows "unat ((acc AND 0xFFFFFFFF) + drop_bit 32 acc) mod 65535 = unat acc mod 65535"
    and "(acc AND 0xFFFFFFFF) + drop_bit 32 acc \<noteq> 0"
proof -
  let ?q = "unat acc div 4294967296" and ?r = "unat acc mod 4294967296"
  have d: "unat acc = ?r + ?q * 4294967296" by (simp add: mod_div_mult_eq)
  have v: "unat ((acc AND 0xFFFFFFFF) + drop_bit 32 acc) = ?r + ?q"
    using d assms(2) by (subst word64_add) (simp_all add: low_word_32 high_word)
  have "unat acc = (?r + ?q) + (65537 * ?q) * 65535" using d by simp
  then show "unat ((acc AND 0xFFFFFFFF) + drop_bit 32 acc) mod 65535 = unat acc mod 65535"
    using v by (metis mod_mult_self1)
  from d assms(1) have "?r + ?q \<noteq> 0" by auto
  with v show "(acc AND 0xFFFFFFFF) + drop_bit 32 acc \<noteq> 0"
    by (metis unat_0)
qed

text \<open>The swap that an odd address needs.\<close>

lemma swap_value:
  fixes acc :: "64 word"
  assumes "unat acc < 65536"
  shows "unat (drop_bit 8 (acc AND 0xFF00) OR push_bit 8 (acc AND 0x00FF))
    = 256 * (unat acc mod 256) + unat acc div 256"
proof -
  define lo hi where "lo = unat acc mod 256" and "hi = unat acc div 256"
  have hi: "hi < 256" and lo: "lo < 256" using assms by (auto simp: hi_def lo_def less_mult_imp_div_less)
  have acc: "acc = of_nat (256 * hi + lo)"
    by (simp add: hi_def lo_def del: of_nat_add of_nat_mult)
  have "drop_bit 8 (acc AND 0xFF00) OR push_bit 8 (acc AND 0x00FF)
      = push_bit 8 (take_bit 8 acc) OR drop_bit 8 (take_bit 16 acc)"
  proof -
    have "(0xFF00 :: 64 word) = push_bit 8 (mask 8)" "(0xFF :: 64 word) = mask 8"
      by (simp_all add: mask_eq_exp_minus_1 push_bit_eq_mult)
    moreover have "bit (push_bit 8 (mask 8) :: 64 word) n \<longleftrightarrow> 8 \<le> n \<and> n < 16"
      "bit (mask 8 :: 64 word) n \<longleftrightarrow> n < 8" for n by (auto simp: bit_push_bit_iff bit_mask_iff)
    ultimately have m: "bit (0xFF00 :: 64 word) n \<longleftrightarrow> 8 \<le> n \<and> n < 16" "bit (0xFF :: 64 word) n \<longleftrightarrow> n < 8" for n
      by (simp_all only:)
    show ?thesis
      by (rule bit_word_eqI) (auto simp: bit_or_iff bit_and_iff bit_drop_bit_eq bit_push_bit_iff bit_take_bit_iff m
          simp del: bit_numeral_word_iff)
  qed
  also have "\<dots> = push_bit 8 (take_bit 8 acc) + drop_bit 8 (take_bit 16 acc)"
    by (subst disjunctive_add_eq_or) (auto intro!: bit_word_eqI simp: bit_simps)
  also have "\<dots> = of_nat (256 * lo + hi)"
  proof -
    have "take_bit 8 acc = of_nat lo" "drop_bit 8 (take_bit 16 acc) = of_nat hi"
      using hi lo assms
      by (simp_all add: word_unat_eq_iff unsigned_take_bit_eq unsigned_drop_bit_eq take_bit_eq_mod drop_bit_eq_div
          unsigned_of_nat hi_def lo_def unat_mod unat_div)
    then show ?thesis by (simp add: push_bit_eq_mult)
  qed
  finally show ?thesis
    using hi lo by (simp only: unsigned_of_nat) (simp add: take_bit_nat_eq_self hi_def lo_def)
qed

lemma swap_mod:
  assumes "0 < (r :: nat)" "r < 65536"
  shows "(256 * (r mod 256) + r div 256) mod 65535 = 256 * r mod 65535"
    and "0 < 256 * (r mod 256) + r div 256" "256 * (r mod 256) + r div 256 < 65536"
proof -
  have d: "r = r mod 256 + r div 256 * 256" by (simp add: mod_div_mult_eq)
  have "256 * r = (256 * (r mod 256) + r div 256) + r div 256 * 65535" using d by linarith
  then show "(256 * (r mod 256) + r div 256) mod 65535 = 256 * r mod 65535" by (metis mod_mult_self1)
  show "0 < 256 * (r mod 256) + r div 256" using assms(1) d by (cases "r mod 256"; cases "r div 256") auto
  have "r div 256 < 256" using assms(2) by (simp add: less_mult_imp_div_less)
  moreover have "r mod 256 < 256" by simp
  ultimately show "256 * (r mod 256) + r div 256 < 65536" by linarith
qed

lemma not_value:
  fixes acc :: "64 word"
  assumes "unat acc < 65536"
  shows "unat (ucast (NOT acc) :: u16) = 65535 - unat acc"
proof -
  have "(ucast (NOT acc) :: u16) = NOT (ucast acc)" by (rule bit_word_eqI) (auto simp: bit_simps)
  moreover have "unat (NOT w) = 65535 - unat w" for w :: u16
  proof -
    have "NOT w = - 1 - w" by (simp add: not_eq_complement)
    moreover have "unat (- 1 :: u16) = 65535" by (simp add: unsigned_minus_1_eq_mask mask_eq_exp_minus_1)
    ultimately show ?thesis by (simp only: unat_sub [OF word_order.extremum])
  qed
  moreover have "unat (ucast acc :: u16) = unat acc"
    using assms by (simp add: unsigned_ucast_eq take_bit_nat_eq_self)
  ultimately show ?thesis by simp
qed

lemma odd_offset_mod:
  assumes "off < 4"
  shows "rfc_sum (replicate off 0 @ data) mod 65535
    = (if odd off then 256 * rfc_sum data mod 65535 else rfc_sum data mod 65535)"
proof -
  consider "off = 0" | "off = 1" | "off = 2" | "off = 3" using assms by linarith
  then show ?thesis
  proof cases
    case 3
    have "replicate 2 (0 :: byte) = [0, 0]" by (simp add: numeral_2_eq_2)
    with 3 show ?thesis by simp
  next
    case 4
    have "replicate 3 (0 :: byte) = [0, 0, 0]" by (simp add: numeral_3_eq_3)
    with 4 show ?thesis by (simp add: rfc_sum_shift)
  qed (simp_all add: rfc_sum_shift)
qed

text \<open>Everything the accumulator has taken in when the loops are done.\<close>

lemma accumulated:
  assumes "off < 4" "length data < 2 ^ 30"
    and "count = (if off \<noteq> 0 then min (4 - off) (length data) else 0)"
    and "acc1 = (if off \<noteq> 0 then 0xFFFF + ucast (ntohl (partial_word off (take count data))) else 0xFFFF)"
    and "ip_blocks (drop count data) acc1 = (acc2, rest)"
    and "acc3 = (if rest \<noteq> [] then acc2 + ucast (ntohl (partial_word 0 rest)) else acc2)"
  shows "unat (acc3 :: 64 word) mod 65535 = rfc_sum (replicate off 0 @ data) mod 65535"
    and "0 < unat acc3" "unat acc3 < 2 ^ 63"
proof -
  let ?head = "if off \<noteq> 0 then replicate off 0 @ take count data else []"
  have count: "off \<noteq> 0 \<Longrightarrow> off + length (take count data) \<le> 4" "drop count data \<noteq> [] \<Longrightarrow> even (length ?head)"
    using assms(1,3) by (auto simp: min_def split: if_splits)
  have acc1: "unat acc1 mod 65535 = rfc_sum ?head mod 65535" "0 < unat acc1" "unat acc1 < 2 ^ 33"
  proof -
    let ?w = "ntohl (partial_word off (take count data))"
    have w: "unat (0xFFFF + ucast ?w :: 64 word) = 65535 + unat ?w"
      by (subst add_u32) simp_all
    show "unat acc1 mod 65535 = rfc_sum ?head mod 65535"
      using partial_mod [OF count(1) assms(1)] by (simp add: assms(4) w)
    show "0 < unat acc1" "unat acc1 < 2 ^ 33" using w word32_less [of ?w] by (simp_all add: assms(4))
  qed
  have "unat acc1 + 1073741824 * length (drop count data) < 2 ^ 62"
    using acc1(3) assms(2) by simp
  from ip_blocks_sum [OF assms(5) this] obtain pre where
    pre: "drop count data = pre @ rest" "even (length pre)" "length rest < 4"
      "unat acc2 mod 65535 = (unat acc1 + rfc_sum pre) mod 65535"
      "unat acc1 \<le> unat acc2" "unat acc2 + 1073741824 * length rest < 2 ^ 62" by blast
  let ?w = "ntohl (partial_word 0 rest)"
  have w: "unat (acc2 + ucast ?w) = unat acc2 + unat ?w"
    using pre(6) by (intro add_u32) simp
  show "0 < unat acc3" using acc1(2) pre(5) w by (simp add: assms(6))
  show "unat acc3 < 2 ^ 63" using pre(6) w word32_less [of ?w] by (simp add: assms(6))
  have "unat acc3 mod 65535 = (unat acc2 + rfc_sum rest) mod 65535"
    using w pre(3) partial_mod [of 0 rest] by (auto simp: assms(6) intro!: mod_add_cong)
  also have "\<dots> = (rfc_sum ?head + rfc_sum pre + rfc_sum rest) mod 65535"
  proof (rule mod_add_cong)
    have "(unat acc1 + rfc_sum pre) mod 65535 = (rfc_sum ?head + rfc_sum pre) mod 65535"
      using acc1(1) by (rule mod_add_cong) simp
    with pre(4) show "unat acc2 mod 65535 = (rfc_sum ?head + rfc_sum pre) mod 65535" by simp
  qed simp
  also have "rfc_sum ?head + rfc_sum pre + rfc_sum rest = rfc_sum ?head + rfc_sum (drop count data)"
    using pre(1,2) by (simp add: rfc_sum_append)
  also have "\<dots> = rfc_sum (?head @ drop count data)"
    using count(2) by (cases "drop count data = []") (simp_all add: rfc_sum_append)
  also have "?head @ drop count data = replicate off 0 @ data"
    using assms(3) by simp
  finally show "unat acc3 mod 65535 = rfc_sum (replicate off 0 @ data) mod 65535" .
qed

lemma complement_mod:
  assumes "a mod 65535 = s mod 65535" "0 < a" "a < (65536 :: nat)"
  shows "65535 - a = (65535 - s mod 65535) mod 65535"
proof (cases "a = 65535")
  case True
  with assms(1) have "s mod 65535 = 0" by simp
  with True show ?thesis by simp
next
  case False
  with assms have "s mod 65535 = a" by simp
  with assms(2) show ?thesis by simp
qed

lemma ip_checksum_value:
  assumes "offset < 4" "length data < 2 ^ 30"
  shows "unat (ntohs (ip_checksum offset data)) = (65535 - rfc_sum data mod 65535) mod 65535"
proof -
  define count where "count = (if offset \<noteq> 0 then min (4 - offset) (length data) else 0)"
  define acc1 where "acc1 = (if offset \<noteq> 0 then (0xFFFF :: 64 word) + ucast (ntohl (partial_word offset (take count data))) else 0xFFFF)"
  obtain acc2 rest where b: "ip_blocks (drop count data) acc1 = (acc2, rest)" by (cases "ip_blocks (drop count data) acc1")
  define acc3 where "acc3 = (if rest \<noteq> [] then acc2 + ucast (ntohl (partial_word 0 rest)) else acc2)"
  note acc = accumulated [OF assms count_def acc1_def b acc3_def]
  define acc5 where "acc5 = fold_carries ((acc3 AND 0xFFFFFFFF) + drop_bit 32 acc3)"
  have acc5: "unat acc5 mod 65535 = rfc_sum (replicate offset 0 @ data) mod 65535"
    "0 < unat acc5" "unat acc5 < 65536"
    using fold_carries_value [OF halves_32(2) [OF acc(2,3)]] halves_32(1) [OF acc(2,3)] acc(1)
    by (simp_all add: acc5_def)
  define acc6 where "acc6 = (if odd offset then drop_bit 8 (acc5 AND 0xFF00) OR push_bit 8 (acc5 AND 0x00FF) else acc5)"
  have c: "ip_checksum offset data = ntohs (ucast (NOT acc6))"
    by (simp only: ip_checksum_def Let_def count_def [symmetric] acc1_def [symmetric] b prod.case
        acc3_def [symmetric] acc5_def [symmetric] acc6_def [symmetric])
  have "unat acc6 mod 65535 = rfc_sum data mod 65535 \<and> 0 < unat acc6 \<and> unat acc6 < 65536"
  proof (cases "odd offset")
    case True
    have "unat acc6 = 256 * (unat acc5 mod 256) + unat acc5 div 256"
      by (simp only: acc6_def if_P [OF True] swap_value [OF acc5(3)])
    moreover have "256 * unat acc5 mod 65535 = 256 * (256 * rfc_sum data) mod 65535"
      using acc5(1) True odd_offset_mod [OF assms(1), of data] by (metis mod_mult_right_eq)
    moreover have "256 * (256 * rfc_sum data) mod 65535 = rfc_sum data mod 65535"
      using mod_mult_self4 [of 65535 "rfc_sum data" "rfc_sum data"] by simp
    ultimately show ?thesis using swap_mod [OF acc5(2,3)] by simp
  next
    case False
    with acc5 odd_offset_mod [OF assms(1), of data] show ?thesis by (simp add: acc6_def)
  qed
  then show ?thesis using complement_mod [of "unat acc6" "rfc_sum data"] by (simp add: c not_value)
qed

text \<open>
  C5. \<open>ip_checksum\<close> returns, in network order, the Internet checksum of its bytes: the one
  16-bit number below 65535 that makes the sum of the words vanish modulo 65535. The address of
  the data does not matter: neither the partial words at the ends nor the final swap for an odd
  address change the value.
\<close>

theorem ip_checksum_rfc1071:
  assumes "offset < 4" "length data < 2 ^ 30"
  shows "unat (ntohs (ip_checksum offset data)) = (65535 - rfc_sum data mod 65535) mod 65535"
  using assms by (rule ip_checksum_value)

theorem ip_checksum_rfc1071_witness:
  "unat (ntohs (ip_checksum 2 [0x45, 0, 0, 0x54])) = (65535 - rfc_sum [0x45, 0, 0, 0x54] mod 65535) mod 65535"
  by (rule ip_checksum_rfc1071) simp_all

end
