(* ===== verification/Fifo_Queue.thy ===== *)
theory Fifo_Queue
  imports Prelude
begin

text \<open>
  \<open>tema1/list.c\<close> and \<open>tema1/queue.c\<close>: linked cells on the heap and the queue the router keeps
  its pending packets and its ARP entries in. A queue is modelled with the cells its \<open>cons\<close>
  allocated: an address is an index into that list, a freed cell is \<open>None\<close>, and \<open>NULL\<close> is no
  address. No cell is shared between two queues in the program. Reaching through \<open>NULL\<close> or a
  freed cell is the fault \<open>Null_deref\<close>.

  The locale \<open>fifo\<close> is the contract the router relies on; the interpretation \<open>queue_c\<close>
  discharges it for the code.
\<close>

section \<open>Cells (list.c)\<close>

record 'a cell =
  element :: 'a
  next_cell :: "nat option"

record 'a queue =
  cells :: "'a cell option list"
  head :: "nat option"
  tail :: "nat option"

definition fetch :: "'a queue \<Rightarrow> nat option \<Rightarrow> fault + 'a cell" where
  "fetch q p =
     (case p of
        None \<Rightarrow> Inl Null_deref
      | Some a \<Rightarrow> (if a < length (cells q) then case cells q ! a of None \<Rightarrow> Inl Null_deref | Some c \<Rightarrow> Inr c
                  else Inl Null_deref))"

definition cons :: "'a \<Rightarrow> nat option \<Rightarrow> 'a queue \<Rightarrow> nat \<times> 'a queue" where
  "cons e l q = (length (cells q), q\<lparr>cells := cells q @ [Some \<lparr>element = e, next_cell = l\<rparr>]\<rparr>)"

definition cdr_and_free :: "nat option \<Rightarrow> 'a queue \<Rightarrow> fault + nat option \<times> 'a queue" where
  "cdr_and_free l q =
     bindE (fetch q l) (\<lambda>c. Inr (next_cell c, q\<lparr>cells := (cells q)[the l := None]\<rparr>))"

definition set_next :: "nat option \<Rightarrow> nat option \<Rightarrow> 'a queue \<Rightarrow> fault + 'a queue" where
  "set_next p n q =
     bindE (fetch q p) (\<lambda>c. Inr (q\<lparr>cells := (cells q)[the p := Some (c\<lparr>next_cell := n\<rparr>)]\<rparr>))"

section \<open>Operations (queue.c)\<close>

definition queue_create :: "'a queue" where
  "queue_create = \<lparr>cells = [], head = None, tail = None\<rparr>"

definition queue_empty :: "'a queue \<Rightarrow> bool" where
  "queue_empty q \<longleftrightarrow> head q = None"

definition queue_enq :: "'a queue \<Rightarrow> 'a \<Rightarrow> fault + 'a queue" where
  "queue_enq q e =
     (if queue_empty q then
        (case cons e None q of (c, q) \<Rightarrow> Inr (q\<lparr>head := Some c, tail := Some c\<rparr>))
      else
        (case cons e None q of (c, q) \<Rightarrow>
           bindE (set_next (tail q) (Some c) q) (\<lambda>q.
             bindE (fetch q (tail q)) (\<lambda>t. Inr (q\<lparr>tail := next_cell t\<rparr>)))))"

definition queue_deq :: "'a queue \<Rightarrow> fault + 'a \<times> 'a queue" where
  "queue_deq q =
     (if queue_empty q then Inl Assertion
      else bindE (fetch q (head q)) (\<lambda>c.
        bindE (cdr_and_free (head q) q) (\<lambda>(l, q). Inr (element c, q\<lparr>head := l\<rparr>))))"

text \<open>
  The cells from a pointer on, as a loop \<open>current = current->next\<close> visits them. The number of
  cells bounds the length of a chain without a cycle; a chain that is longer has one, and the
  loop would not end.
\<close>

fun cells_from :: "nat \<Rightarrow> nat option \<Rightarrow> 'a queue \<Rightarrow> fault + 'a list option" where
  "cells_from _ None q = Inr (Some [])"
| "cells_from 0 (Some a) q = Inr None"
| "cells_from (Suc n) (Some a) q =
     bindE (fetch q (Some a)) (\<lambda>c.
       bindE (cells_from n (next_cell c) q) (\<lambda>r. Inr (map_option ((#) (element c)) r)))"

definition live_cells :: "'a queue \<Rightarrow> nat" where
  "live_cells q = length (filter (\<lambda>c. c \<noteq> None) (cells q))"

lemma live_cells_free:
  "a < length (cells q) \<Longrightarrow> cells q ! a \<noteq> None \<Longrightarrow>
   live_cells (q\<lparr>cells := (cells q)[a := None]\<rparr>) < live_cells q"
  by (simp add: live_cells_def upd_conv_take_nth_drop)
    (subst (2) id_take_nth_drop [of a "cells q"], simp_all)

text \<open>Every cell taken out of a queue is freed, so a loop that empties one ends.\<close>

lemma queue_deq_frees: "queue_deq q = Inr (x, q') \<Longrightarrow> live_cells q' < live_cells q"
proof -
  assume d: "queue_deq q = Inr (x, q')"
  then obtain a c where a: "head q = Some a" "fetch q (Some a) = Inr c"
    by (auto simp: queue_deq_def queue_empty_def split: if_splits)
  then have "a < length (cells q)" "cells q ! a \<noteq> None"
    by (auto simp: fetch_def split: if_splits option.splits)
  from live_cells_free [OF this] d a show ?thesis
    by (auto simp: queue_deq_def queue_empty_def cdr_and_free_def live_cells_def)
qed

section \<open>The contract\<close>

text \<open>
  \<open>holds q xs\<close>: the queue is well formed and its elements are \<open>xs\<close>, the oldest first.
\<close>

locale fifo =
  fixes create :: 'q
    and empty :: "'q \<Rightarrow> bool"
    and enq :: "'q \<Rightarrow> 'a \<Rightarrow> fault + 'q"
    and deq :: "'q \<Rightarrow> fault + 'a \<times> 'q"
    and holds :: "'q \<Rightarrow> 'a list \<Rightarrow> bool"
  assumes holds_create: "holds create []"
    and empty_iff: "holds q xs \<Longrightarrow> empty q \<longleftrightarrow> xs = []"
    and enq_holds: "holds q xs \<Longrightarrow> \<exists>q'. enq q x = Inr q' \<and> holds q' (xs @ [x])"
    and deq_holds: "holds q (x # xs) \<Longrightarrow> \<exists>q'. deq q = Inr (x, q') \<and> holds q' xs"
    and deq_empty: "holds q [] \<Longrightarrow> deq q = Inl Assertion"
begin

text \<open>The elements of a queue are determined by it.\<close>

lemma holds_unique: "holds q xs \<Longrightarrow> holds q ys \<Longrightarrow> xs = ys"
proof (induction xs arbitrary: q ys)
  case Nil
  then show ?case using empty_iff by blast
next
  case (Cons x xs)
  then have "ys \<noteq> []" using empty_iff by blast
  then obtain y ys' where ys: "ys = y # ys'" by (cases ys) auto
  from deq_holds [OF Cons.prems(1)] obtain q1 where 1: "deq q = Inr (x, q1)" "holds q1 xs" by blast
  from deq_holds [OF Cons.prems(2) [unfolded ys]] obtain q2 where
    2: "deq q = Inr (y, q2)" "holds q2 ys'" by blast
  from 1 2 Cons.IH [of q1 ys'] ys show ?case by simp
qed

text \<open>A sequence of insertions, and a sequence of removals.\<close>

fun enq_all :: "'q \<Rightarrow> 'a list \<Rightarrow> fault + 'q" where
  "enq_all q [] = Inr q"
| "enq_all q (x # xs) = bindE (enq q x) (\<lambda>q. enq_all q xs)"

fun deq_n :: "nat \<Rightarrow> 'q \<Rightarrow> fault + 'a list \<times> 'q" where
  "deq_n 0 q = Inr ([], q)"
| "deq_n (Suc n) q = bindE (deq q) (\<lambda>(x, q). bindE (deq_n n q) (\<lambda>(xs, q). Inr (x # xs, q)))"

lemma enq_all_holds: "holds q xs \<Longrightarrow> \<exists>q'. enq_all q ys = Inr q' \<and> holds q' (xs @ ys)"
proof (induction ys arbitrary: q xs)
  case (Cons y ys)
  from enq_holds [OF Cons.prems, of y] obtain q1 where
    q1: "enq q y = Inr q1" "holds q1 (xs @ [y])" by blast
  from Cons.IH [OF q1(2)] q1(1) show ?case by simp
qed simp

lemma deq_n_holds: "holds q (xs @ ys) \<Longrightarrow> \<exists>q'. deq_n (length xs) q = Inr (xs, q') \<and> holds q' ys"
proof (induction xs arbitrary: q)
  case (Cons x xs)
  from Cons.prems have "holds q (x # xs @ ys)" by simp
  from deq_holds [OF this] obtain q1 where q1: "deq q = Inr (x, q1)" "holds q1 (xs @ ys)" by blast
  from Cons.IH [OF q1(2)] q1(1) show ?case by auto
qed simp

lemma first_in_first_out:
  "\<exists>q q'. enq_all create xs = Inr q \<and> deq_n (length xs) q = Inr (xs, q') \<and> empty q'"
proof -
  from enq_all_holds [OF holds_create, of xs] obtain q where
    q: "enq_all create xs = Inr q" "holds q (xs @ [])" by auto
  from deq_n_holds [OF q(2)] q(1) empty_iff [of _ "[]"] show ?thesis by blast
qed

end

section \<open>The linked cells keep it\<close>

text \<open>The cells at the addresses \<open>ps\<close>, linked in this order from \<open>p\<close>, hold \<open>xs\<close>.\<close>

fun linked :: "'a cell option list \<Rightarrow> nat option \<Rightarrow> nat list \<Rightarrow> 'a list \<Rightarrow> bool" where
  "linked cs p [] [] \<longleftrightarrow> p = None"
| "linked cs p (a # ps) (x # xs) \<longleftrightarrow>
     p = Some a \<and> a < length cs \<and>
     (\<exists>n. cs ! a = Some \<lparr>element = x, next_cell = n\<rparr> \<and> linked cs n ps xs)"
| "linked cs p _ _ \<longleftrightarrow> False"

definition queue_holds :: "'a queue \<Rightarrow> 'a list \<Rightarrow> bool" where
  "queue_holds q xs \<longleftrightarrow>
     (\<exists>ps. distinct ps \<and> linked (cells q) (head q) ps xs \<and> (ps \<noteq> [] \<longrightarrow> tail q = Some (last ps)))"

lemma linked_Nil_iff: "linked cs p ps [] \<longleftrightarrow> ps = [] \<and> p = None"
  by (cases ps) auto

lemma linked_Cons_iff:
  "linked cs p ps (x # xs) \<longleftrightarrow>
     (\<exists>a qs n. ps = a # qs \<and> p = Some a \<and> a < length cs
        \<and> cs ! a = Some \<lparr>element = x, next_cell = n\<rparr> \<and> linked cs n qs xs)"
  by (cases ps) auto

lemma linked_length: "linked cs p ps xs \<Longrightarrow> length ps = length xs"
  by (induction cs p ps xs rule: linked.induct) auto

lemma linked_bound: "linked cs p ps xs \<Longrightarrow> \<forall>a \<in> set ps. a < length cs"
  by (induction cs p ps xs rule: linked.induct) auto

lemma linked_append_cell: "linked cs p ps xs \<Longrightarrow> linked (cs @ [c]) p ps xs"
  by (induction cs p ps xs rule: linked.induct) (auto simp: nth_append)

lemma linked_update_other: "a \<notin> set ps \<Longrightarrow> linked (cs[a := c]) p ps xs = linked cs p ps xs"
  by (induction cs p ps xs rule: linked.induct) auto

text \<open>Setting the link of the last cell to a new one.\<close>

lemma linked_snoc:
  assumes "linked cs p ps xs" "distinct ps" "ps \<noteq> []"
  shows "\<exists>c. cs ! last ps = Some c
    \<and> linked ((cs @ [Some \<lparr>element = e, next_cell = None\<rparr>])[last ps := Some (c\<lparr>next_cell := Some (length cs)\<rparr>)])
        p (ps @ [length cs]) (xs @ [e])"
  using assms
proof (induction cs p ps xs rule: linked.induct)
  case (2 cs p a ps x xs)
  then obtain n where a: "p = Some a" "a < length cs" "cs ! a = Some \<lparr>element = x, next_cell = n\<rparr>"
    and l: "linked cs n ps xs" by auto
  show ?case
  proof (cases ps)
    case Nil
    with l have "xs = []" "n = None" by (cases xs; simp)+
    with a Nil show ?thesis by (simp add: nth_append)
  next
    case (Cons b qs)
    with 2 l have d: "distinct ps" "ps \<noteq> []" "a \<noteq> last ps" by auto
    from 2(1) [OF l d(1,2)] obtain c where c: "cs ! last ps = Some c"
      "linked ((cs @ [Some \<lparr>element = e, next_cell = None\<rparr>])[last ps := Some (c\<lparr>next_cell := Some (length cs)\<rparr>)])
        n (ps @ [length cs]) (xs @ [e])" by blast
    with a d show ?thesis by (auto simp: nth_append)
  qed
qed auto

lemma queue_holds_create: "queue_holds queue_create []"
  by (simp add: queue_holds_def queue_create_def exI [of _ "[]"])

lemma queue_holds_empty: "queue_holds q xs \<Longrightarrow> queue_empty q \<longleftrightarrow> xs = []"
  by (cases xs) (auto simp: queue_holds_def queue_empty_def linked_Nil_iff linked_Cons_iff)

lemma queue_holds_deq:
  assumes "queue_holds q (x # xs)"
  shows "\<exists>q'. queue_deq q = Inr (x, q') \<and> queue_holds q' xs"
proof -
  from assms obtain a ps n where d: "distinct (a # ps)" "tail q = Some (last (a # ps))"
    and h: "head q = Some a" "a < length (cells q)"
      "cells q ! a = Some \<lparr>element = x, next_cell = n\<rparr>" "linked (cells q) n ps xs"
    by (auto simp: queue_holds_def linked_Cons_iff)
  let ?q = "q\<lparr>cells := (cells q)[a := None], head := n\<rparr>"
  have "queue_deq q = Inr (x, ?q)"
    using h by (simp add: queue_deq_def queue_empty_def fetch_def cdr_and_free_def)
  moreover have "queue_holds ?q xs"
    unfolding queue_holds_def using d h
    by (intro exI [of _ ps]) (auto simp: linked_update_other)
  ultimately show ?thesis by blast
qed

lemma queue_holds_enq:
  assumes "queue_holds q xs"
  shows "\<exists>q'. queue_enq q e = Inr q' \<and> queue_holds q' (xs @ [e])"
proof (cases "queue_empty q")
  case True
  with assms queue_holds_empty have "xs = []" by blast
  with True show ?thesis
    by (auto simp: queue_enq_def cons_def queue_holds_def intro!: exI [of _ "[length (cells q)]"])
next
  case False
  from assms obtain ps where ps: "distinct ps" "linked (cells q) (head q) ps xs"
    "ps \<noteq> [] \<longrightarrow> tail q = Some (last ps)" unfolding queue_holds_def by blast
  with False have ne: "ps \<noteq> []" by (cases xs) (auto simp: queue_empty_def)
  let ?n = "length (cells q)"
  have last: "last ps < ?n" using linked_bound [OF ps(2)] ne by simp
  from linked_snoc [OF ps(2,1) ne, of e] obtain c where c: "cells q ! last ps = Some c"
    "linked ((cells q @ [Some \<lparr>element = e, next_cell = None\<rparr>])[last ps := Some (c\<lparr>next_cell := Some ?n\<rparr>)])
        (head q) (ps @ [?n]) (xs @ [e])" by blast
  let ?q = "q\<lparr>cells := (cells q @ [Some \<lparr>element = e, next_cell = None\<rparr>])[last ps := Some (c\<lparr>next_cell := Some ?n\<rparr>)],
              tail := Some ?n\<rparr>"
  have "queue_enq q e = Inr ?q"
    using False ps(3) ne last c(1)
    by (simp add: queue_enq_def cons_def set_next_def fetch_def nth_append)
  moreover have "queue_holds ?q (xs @ [e])"
    unfolding queue_holds_def using ps c(2) linked_bound [OF ps(2)]
    by (intro exI [of _ "ps @ [?n]"]) auto
  ultimately show ?thesis by blast
qed

lemma queue_holds_deq_empty: "queue_holds q [] \<Longrightarrow> queue_deq q = Inl Assertion"
  using queue_holds_empty [of q "[]"] by (simp add: queue_deq_def)

interpretation queue_c: fifo queue_create queue_empty queue_enq queue_deq queue_holds
  by unfold_locales
    (simp_all add: queue_holds_create queue_holds_empty queue_holds_enq queue_holds_deq queue_holds_deq_empty)

text \<open>Walking over the cells reads the elements in order.\<close>

lemma cells_from_linked:
  "linked (cells q) p ps xs \<Longrightarrow> length ps \<le> n \<Longrightarrow> cells_from n p q = Inr (Some xs)"
proof (induction "cells q" p ps xs arbitrary: n rule: linked.induct)
  case (2 p a ps x xs)
  then show ?case by (cases n) (auto simp: fetch_def)
qed auto

lemma cells_from_holds: "queue_holds q xs \<Longrightarrow> cells_from (length (cells q)) (head q) q = Inr (Some xs)"
proof -
  assume "queue_holds q xs"
  then obtain ps where ps: "distinct ps" "linked (cells q) (head q) ps xs"
    unfolding queue_holds_def by blast
  have "set ps \<subseteq> {..<length (cells q)}" using linked_bound [OF ps(2)] by auto
  from card_mono [OF _ this] distinct_card [OF ps(1)] have "length ps \<le> length (cells q)" by simp
  with cells_from_linked [OF ps(2)] show ?thesis .
qed

end
