(* ===== verification/Router.thy ===== *)
theory Router
  imports Route_Table Checksum Fifo_Queue
begin

text \<open>
  \<open>tema1/router.c\<close> and the packet functions of \<open>tema1/skel.c\<close>: the handlers of the router, one
  definition each, and its loop. A packet is the C structure with its 1600 bytes, and a header
  is read and written at its offset in them (Ethernet at 0, IP at 14, ICMP at 34, ARP at 14).
  The addresses of the interfaces, the frames that arrive and the contents of uninitialised
  memory are arguments. A call that does not return is \<open>None\<close>, undefined behaviour a \<open>fault\<close>.
\<close>

section \<open>Results\<close>

type_synonym 'a run = "(fault + 'a) option"

fun bindR :: "'a run \<Rightarrow> ('a \<Rightarrow> 'b run) \<Rightarrow> 'b run" where
  "bindR None f = None"
| "bindR (Some (Inl e)) f = Some (Inl e)"
| "bindR (Some (Inr a)) f = f a"

lemma bindR_Inr_iff [simp]:
  "bindR r f = Some (Inr b) \<longleftrightarrow> (\<exists>a. r = Some (Inr a) \<and> f a = Some (Inr b))"
  by (cases "(r, f)" rule: bindR.cases) auto

section \<open>Packets (skel.h)\<close>

record packet =
  len :: int
  payload :: "byte list"
  p_interface :: int

definition MAX_LEN :: nat where "MAX_LEN = 1600"
definition ROUTER_NUM_INTERFACES :: nat where "ROUTER_NUM_INTERFACES = 3"

record arp_entry =
  arp_ip :: u32
  arp_mac :: "byte list"

record packet_with_best =
  w_best :: route_table_entry
  w_packet :: packet

text \<open>
  What \<open>ioctl\<close> says of the interfaces, and what becomes of a \<open>memcpy\<close> whose source and destination overlap, which C
  leaves undefined: from the packet before it, \<open>overlap\<close> gives the bytes it leaves at its destination, or none when
  the program does not go on.
\<close>

record host =
  if_ip :: "nat \<Rightarrow> u32"
  if_mac :: "nat \<Rightarrow> byte list"
  overlap :: "byte list \<Rightarrow> byte list option"

definition bytes_at :: "nat \<Rightarrow> nat \<Rightarrow> packet \<Rightarrow> byte list" where
  "bytes_at off n m = take n (drop off (payload m))"

definition put :: "nat \<Rightarrow> byte list \<Rightarrow> packet \<Rightarrow> packet" where
  "put off bs m =
     m\<lparr>payload := take off (payload m) @ bs @ drop (off + length bs) (payload m)\<rparr>"

text \<open>The fields the code uses.\<close>

definition ether_dhost :: "packet \<Rightarrow> byte list" where "ether_dhost m = bytes_at 0 6 m"
definition ether_shost :: "packet \<Rightarrow> byte list" where "ether_shost m = bytes_at 6 6 m"
definition ether_type :: "packet \<Rightarrow> u16" where "ether_type m = of_le16 (bytes_at 12 2 m)"
definition ip_ttl :: "packet \<Rightarrow> byte" where "ip_ttl m = payload m ! 22"
definition ip_protocol :: "packet \<Rightarrow> byte" where "ip_protocol m = payload m ! 23"
definition ip_check :: "packet \<Rightarrow> u16" where "ip_check m = of_le16 (bytes_at 24 2 m)"
definition ip_saddr :: "packet \<Rightarrow> u32" where "ip_saddr m = of_le32 (bytes_at 26 4 m)"
definition ip_daddr :: "packet \<Rightarrow> u32" where "ip_daddr m = of_le32 (bytes_at 30 4 m)"
definition arp_op :: "packet \<Rightarrow> u16" where "arp_op m = of_le16 (bytes_at 20 2 m)"
definition arp_sha :: "packet \<Rightarrow> byte list" where "arp_sha m = bytes_at 22 6 m"
definition arp_spa :: "packet \<Rightarrow> u32" where "arp_spa m = of_le32 (bytes_at 28 4 m)"
definition arp_tpa :: "packet \<Rightarrow> u32" where "arp_tpa m = of_le32 (bytes_at 38 4 m)"

section \<open>Interfaces and frames (skel.c)\<close>

definition interface_index :: "int \<Rightarrow> fault + nat" where
  "interface_index i =
     (if 0 \<le> i \<and> nat i < ROUTER_NUM_INTERFACES then Inr (nat i) else Inl Array_overread)"

definition get_interface_ip :: "host \<Rightarrow> int \<Rightarrow> fault + u32" where
  "get_interface_ip H i = bindE (interface_index i) (\<lambda>k. Inr (if_ip H k))"

definition get_interface_mac :: "host \<Rightarrow> int \<Rightarrow> fault + byte list" where
  "get_interface_mac H i = bindE (interface_index i) (\<lambda>k. Inr (take 6 (if_mac H k)))"

text \<open>What \<open>write\<close> was given: the interface and the bytes, the latest last.\<close>

type_synonym trace = "(nat \<times> byte list) list"

definition send_packet :: "packet \<Rightarrow> trace \<Rightarrow> fault + trace" where
  "send_packet m out =
     bindE (interface_index (p_interface m)) (\<lambda>k. Inr (out @ [(k, take (nat (len m)) (payload m))]))"

text \<open>\<open>read\<close> fills the front of the payload; the bytes behind it stay.\<close>

definition socket_receive_message :: "byte list \<Rightarrow> packet \<Rightarrow> packet" where
  "socket_receive_message frame m =
     (let n = min MAX_LEN (length frame)
      in m\<lparr>len := int n, payload := take n frame @ drop n (payload m)\<rparr>)"

text \<open>
  \<open>get_packet\<close>: the first interface that is ready is read. The argument lists for each
  interface the frame that waits on it, if any; when there is none the loop waits on.
\<close>

fun first_ready :: "nat \<Rightarrow> byte list option list \<Rightarrow> (nat \<times> byte list) option" where
  "first_ready i [] = None"
| "first_ready i (Some frame # fs) = Some (i, frame)"
| "first_ready i (None # fs) = first_ready (i + 1) fs"

definition get_packet :: "byte list option list \<Rightarrow> packet \<Rightarrow> packet option" where
  "get_packet ready m =
     (case first_ready 0 (take ROUTER_NUM_INTERFACES ready) of
        None \<Rightarrow> None
      | Some (i, frame) \<Rightarrow> Some ((socket_receive_message frame m)\<lparr>p_interface := int i\<rparr>))"

section \<open>ICMP and IP (router.c)\<close>

definition MAX_TTL :: byte where "MAX_TTL = 62"
definition ECHO_REPLY_TYPE :: byte where "ECHO_REPLY_TYPE = 0"
definition ECHO_REQUEST_TYPE :: byte where "ECHO_REQUEST_TYPE = 8"
definition ICMP_TLE_TYPE :: byte where "ICMP_TLE_TYPE = 11"
definition ICMP_DEST_UNREACHABLE :: byte where "ICMP_DEST_UNREACHABLE = 3"
definition IP_ICMP_PROTOCOL :: byte where "IP_ICMP_PROTOCOL = 1"
definition HLEN_MAC :: byte where "HLEN_MAC = 6"
definition PLEN_IP :: byte where "PLEN_IP = 4"
definition ARP_REQUEST :: u16 where "ARP_REQUEST = 1"
definition ARP_REPLY :: u16 where "ARP_REPLY = 2"

text \<open>\<open>icmp_hdr->checksum = 0; icmp_hdr->checksum = icmp_checksum (icmp_hdr, 8)\<close>.\<close>

definition fill_icmp_checksum :: "packet \<Rightarrow> fault + packet" where
  "fill_icmp_checksum m =
     (let m = put 36 [0, 0] m
      in bindE (icmp_checksum (drop 34 (payload m)) 8) (\<lambda>c. Inr (put 36 (le16 c) m)))"

text \<open>
  \<open>memcpy (payload, icmp_hdr, 64)\<close> from offset 34 to offset 42: the two overlap, so that it is undefined behaviour,
  and any 64 bytes may be there afterwards.
\<close>

definition copy_header :: "host \<Rightarrow> packet \<Rightarrow> fault + packet" where
  "copy_header H m =
     (case overlap H (payload m) of
        None \<Rightarrow> Inl Overlapping_copy
      | Some bs \<Rightarrow> Inr (put 42 (take 64 (bs @ replicate 64 0)) m))"

definition create_error_icmp :: "host \<Rightarrow> packet \<Rightarrow> byte \<Rightarrow> byte \<Rightarrow> fault + packet" where
  "create_error_icmp H m type code =
     bindE (copy_header H m) (\<lambda>m.
     let m = put 34 [type, code] m
     in bindE (fill_icmp_checksum m) (\<lambda>m.
        let ip = ip_saddr m
        in bindE (get_interface_ip H (p_interface m)) (\<lambda>my_ip.
           let m = put 26 (le32 my_ip) m;
               m = put 30 (le32 ip) m;
               m = put 23 [IP_ICMP_PROTOCOL] m;
               tot_len = 14 + 8 + 64 :: u16;
               m = put 16 (le16 tot_len) m;
               m = put 22 [MAX_TTL] m
           in Inr (m\<lparr>len := 14 + uint tot_len\<rparr>))))"

text \<open>The header lies at an address that leaves the remainder 2 by four.\<close>

definition header_checksum :: "packet \<Rightarrow> u16" where
  "header_checksum m = ip_checksum 2 (bytes_at 14 20 m)"

definition refresh_check :: "packet \<Rightarrow> packet" where
  "refresh_check m =
     (let m = put 24 [0, 0] m in put 24 (le16 (header_checksum m)) m)"

text \<open>
  The recursion ends when the destination that the packet has by then is routed; \<open>None\<close> is the
  recursion that does not end.
\<close>

partial_function (option) best_route_search ::
  "host \<Rightarrow> route_table_entry list \<Rightarrow> int \<Rightarrow> packet \<Rightarrow> (packet \<times> route_table_entry) run" where
  "best_route_search H rt rtable_len m =
     (case binary_search rt 0 (rtable_len - 1) (ip_daddr m) of
        None \<Rightarrow> None
      | Some (Inl f) \<Rightarrow> Some (Inl f)
      | Some (Inr k) \<Rightarrow>
     (case entry_at rt k of
        Inl f \<Rightarrow> Some (Inl f)
      | Inr best \<Rightarrow>
          if mask best AND ip_daddr m \<noteq> prefix best then
            (case create_error_icmp H m ICMP_DEST_UNREACHABLE 0 of
               Inl f \<Rightarrow> Some (Inl f)
             | Inr m \<Rightarrow> best_route_search H rt rtable_len (refresh_check m))
          else Some (Inr (m, best))))"

definition create_echo_reply :: "packet \<Rightarrow> fault + packet" where
  "create_echo_reply m =
     (if payload m ! 34 \<noteq> ECHO_REQUEST_TYPE \<or> payload m ! 35 \<noteq> 0 then Inr m
      else
        let m = put 34 [ECHO_REPLY_TYPE, 0] m
        in bindE (fill_icmp_checksum m) (\<lambda>m.
           let m = put 40 (le16 (of_le16 (bytes_at 40 2 m) + 1)) m
           in Inr (put 22 [MAX_TTL] m)))"

text \<open>\<open>actual_checksum - ~prev_ttl - new_ttl - 1\<close>, on \<open>int\<close>, stored in 16 bits.\<close>

definition update_check :: "u16 \<Rightarrow> byte \<Rightarrow> byte \<Rightarrow> u16" where
  "update_check actual prev_ttl new_ttl =
     word_of_int (uint actual - (- uint prev_ttl - 1) - uint new_ttl - 1)"

text \<open>
  The packet is returned with the route, or without one where the code returns \<open>false\<close>.
\<close>

definition forward_ip ::
  "host \<Rightarrow> route_table_entry list \<Rightarrow> int \<Rightarrow> packet \<Rightarrow> (packet \<times> route_table_entry option) run" where
  "forward_ip H rt rtable_len m =
     (let ip = ip_daddr m
      in bindR (Some (get_interface_ip H (p_interface m))) (\<lambda>my_ip.
         let received_checksum = ip_check m;
             m = put 24 [0, 0] m;
             actual_checksum = header_checksum m
         in if received_checksum \<noteq> actual_checksum then Some (Inr (m, None))
            else
              let prev_ttl = ip_ttl m;
                  m = put 22 [prev_ttl - 1] m;
                  new_ttl = ip_ttl m;
                  m = put 24 (le16 (update_check actual_checksum prev_ttl new_ttl)) m
              in bindR (Some (if ip = my_ip \<and> ip_protocol m = IP_ICMP_PROTOCOL then create_echo_reply m
                              else if ip_ttl m \<le> 0
                                then bindE (create_error_icmp H m ICMP_TLE_TYPE 0) (\<lambda>m. Inr (refresh_check m))
                              else Inr m)) (\<lambda>m.
                 bindR (best_route_search H rt rtable_len m) (\<lambda>(m, best). Some (Inr (m, Some best))))))"

section \<open>ARP (router.c)\<close>

text \<open>
  Memory that \<open>create_arp\<close> does not initialise: the heap block for the ARP header and the packet
  on the stack.
\<close>

record junk =
  heap_block :: "byte list"
  stack_packet :: "byte list"

definition create_arp :: "host \<Rightarrow> junk \<Rightarrow> route_table_entry \<Rightarrow> fault + packet" where
  "create_arp H junk best =
     bindE (get_interface_ip H (r_interface best)) (\<lambda>spa.
     bindE (get_interface_mac H (r_interface best)) (\<lambda>mac.
       let arp_hdr = le16 (ntohs 1) @ le16 (ntohs 2048) @ [HLEN_MAC, PLEN_IP] @ le16 (ntohs ARP_REQUEST)
              @ mac @ le32 spa @ take 6 (drop 18 (heap_block junk)) @ le32 (next_hop best);
           eth_hdr = replicate 6 255 @ mac @ le16 (ntohs 0x0806);
           result = \<lparr>len = 14 + 28, payload = stack_packet junk, p_interface = r_interface best\<rparr>
       in Inr (put 14 arp_hdr (put 0 eth_hdr result))))"

text \<open>The loop over the ARP entries: every match overwrites the destination.\<close>

definition resolve :: "u32 \<Rightarrow> arp_entry list \<Rightarrow> packet \<Rightarrow> bool \<times> packet" where
  "resolve hop entries m =
     foldl (\<lambda>(found, m) a. if arp_ip a = hop then (True, put 0 (arp_mac a) m) else (found, m))
       (False, m) entries"

record router =
  route_table :: "route_table_entry list"
  rtable_len :: int
  arp_entries :: "arp_entry queue"
  messages_to_send :: "packet_with_best queue"
  cur :: packet
  sent :: trace

text \<open>The elements that a loop over a queue visits; it never ends on a cyclic one.\<close>

definition elements :: "'a queue \<Rightarrow> 'a list run" where
  "elements q =
     (case cells_from (length (cells q)) (head q) q of
        Inl f \<Rightarrow> Some (Inl f)
      | Inr None \<Rightarrow> None
      | Inr (Some xs) \<Rightarrow> Some (Inr xs))"

definition do_arp :: "host \<Rightarrow> junk \<Rightarrow> packet \<Rightarrow> route_table_entry \<Rightarrow> router \<Rightarrow> router run" where
  "do_arp H junk m best s =
     bindR (elements (arp_entries s)) (\<lambda>entries.
       case resolve (next_hop best) entries m of (found, m) \<Rightarrow>
         let m = m\<lparr>p_interface := r_interface best\<rparr>
         in bindR (Some (get_interface_mac H (p_interface m))) (\<lambda>mac.
            let m = put 6 mac m
            in Some (if \<not> found then
                 bindE (queue_enq (messages_to_send s) \<lparr>w_best = best, w_packet = m\<rparr>) (\<lambda>q.
                 bindE (create_arp H junk best) (\<lambda>arp_packet.
                 bindE (send_packet arp_packet (sent s)) (\<lambda>out.
                   Inr (s\<lparr>messages_to_send := q, sent := out\<rparr>))))
               else bindE (send_packet m (sent s)) (\<lambda>out. Inr (s\<lparr>sent := out\<rparr>)))))"

text \<open>
  The loop that empties the queue of waiting packets: those for \<open>spa\<close> are sent, the others go
  into the new queue.
\<close>

function release :: "u32 \<Rightarrow> byte list \<Rightarrow> packet_with_best queue \<Rightarrow> packet_with_best queue \<Rightarrow> trace
    \<Rightarrow> fault + packet_with_best queue \<times> trace" where
  "release spa sha q new_q out =
     (if head q \<noteq> None then
        (case queue_deq q of
           Inl f \<Rightarrow> Inl f
         | Inr (x, q) \<Rightarrow>
             if next_hop (w_best x) = spa then
               bindE (send_packet (put 0 sha (w_packet x)) out) (\<lambda>out. release spa sha q new_q out)
             else bindE (queue_enq new_q x) (\<lambda>new_q. release spa sha q new_q out))
      else Inr (new_q, out))"
  by pat_completeness auto

termination
  by (relation "measure (\<lambda>(spa, sha, q, new_q, out). live_cells q)") (auto dest: queue_deq_frees)

declare release.simps [simp del]

text \<open>The answer to a request for the router's own address.\<close>

definition answer_arp :: "byte list \<Rightarrow> packet \<Rightarrow> packet" where
  "answer_arp mac m =
     (let m = put 20 (le16 (ntohs ARP_REPLY)) m;
          m = put 0 (ether_shost m) m;
          m = put 6 mac m;
          m = put 32 (arp_sha m) m;
          aux = arp_spa m;
          m = put 28 (le32 (arp_tpa m)) m;
          m = put 38 (le32 aux) m;
          m = put 22 mac m
      in m\<lparr>len := 14 + 28\<rparr>)"

definition learn_arp :: "packet \<Rightarrow> router \<Rightarrow> fault + router" where
  "learn_arp m s =
     bindE (queue_enq (arp_entries s) \<lparr>arp_ip = arp_spa m, arp_mac = arp_sha m\<rparr>) (\<lambda>entries.
     bindE (release (arp_spa m) (arp_sha m) (messages_to_send s) queue_create (sent s)) (\<lambda>(new_q, out).
       Inr (s\<lparr>arp_entries := entries, messages_to_send := new_q, sent := out\<rparr>)))"

section \<open>The loop\<close>

definition handle_arp :: "host \<Rightarrow> packet \<Rightarrow> router \<Rightarrow> fault + router" where
  "handle_arp H m s =
     bindE (if arp_op m = ntohs ARP_REQUEST
            then bindE (get_interface_ip H (p_interface m)) (\<lambda>ip. Inr (ip = arp_tpa m))
            else Inr False) (\<lambda>for_me.
       if for_me then
         bindE (get_interface_mac H (p_interface m)) (\<lambda>mac.
           let m = answer_arp mac m
           in bindE (send_packet m (sent s)) (\<lambda>out. Inr (s\<lparr>cur := m, sent := out\<rparr>)))
       else learn_arp m s)"

definition handle_packet :: "host \<Rightarrow> junk \<Rightarrow> packet \<Rightarrow> router \<Rightarrow> router run" where
  "handle_packet H junk m s =
     (if len m < 14 then Some (Inr s)
      else bindR (Some (get_interface_mac H (p_interface m))) (\<lambda>my_mac.
        let mine = (ether_dhost m = my_mac);
            is_broadcast = (ether_dhost m = replicate 6 255)
        in if ntohs (ether_type m) = 0x0800 then
             (if \<not> mine \<and> \<not> is_broadcast then Some (Inr s)
              else bindR (forward_ip H (route_table s) (rtable_len s) m) (\<lambda>(m, route).
                case route of
                  None \<Rightarrow> Some (Inr (s\<lparr>cur := m\<rparr>))
                | Some best \<Rightarrow> do_arp H junk m best (s\<lparr>cur := m\<rparr>)))
           else if ntohs (ether_type m) = 0x0806 then Some (handle_arp H m s)
           else Some (Inr s)))"

text \<open>One round: the frames that wait on the interfaces, and the uninitialised memory.\<close>

definition router_step :: "host \<Rightarrow> byte list option list \<times> junk \<Rightarrow> router \<Rightarrow> router run" where
  "router_step H = (\<lambda>(ready, junk) s.
     case get_packet ready (cur s) of
       None \<Rightarrow> Some (Inr s)
     | Some m \<Rightarrow> handle_packet H junk m (s\<lparr>cur := m\<rparr>))"

fun router_run :: "host \<Rightarrow> (byte list option list \<times> junk) list \<Rightarrow> router \<Rightarrow> router run" where
  "router_run H [] s = Some (Inr s)"
| "router_run H (e # es) s = bindR (router_step H e s) (router_run H es)"

text \<open>The state before the loop; the stack holds anything in \<open>m\<close>.\<close>

definition router_init :: "byte list option \<Rightarrow> packet \<Rightarrow> fault + router" where
  "router_init file m =
     bindE (read_rtable file (replicate ROUTES zero_entry)) (\<lambda>(n, rt).
       Inr \<lparr>route_table = qsort rtable_comp (take n rt) @ drop n rt, rtable_len = int n,
            arp_entries = queue_create, messages_to_send = queue_create, cur = m, sent = []\<rparr>)"

definition router_main ::
  "host \<Rightarrow> byte list option \<Rightarrow> packet \<Rightarrow> (byte list option list \<times> junk) list \<Rightarrow> router run" where
  "router_main H file m es = bindR (Some (router_init file m)) (router_run H es)"

end
