(* ===== verification/Route_Table_Props.thy ===== *)
theory Route_Table_Props
  imports Route_Table
begin

text \<open>
  Facts on the routing table: the search ends and stays in the table, what it finds in a table
  whose entries have one mask, a table on which it misses a route, the sorting, and the
  reading of a file of routes and of a hardware address.
\<close>

section \<open>The order and the sorting\<close>

lemma rtable_comp_le:
  "rtable_comp a b \<le> 0 \<longleftrightarrow> prefix a < prefix b \<or> prefix a = prefix b \<and> mask a \<le> mask b"
  by (auto simp: rtable_comp_def)

lemma rtable_comp_total: "\<not> rtable_comp a b \<le> 0 \<Longrightarrow> rtable_comp b a \<le> 0"
  by (auto simp: rtable_comp_le)

lemma rtable_comp_trans: "rtable_comp a b \<le> 0 \<Longrightarrow> rtable_comp b c \<le> 0 \<Longrightarrow> rtable_comp a c \<le> 0"
  by (auto simp: rtable_comp_le)

lemma mset_sort_insert [simp]: "mset (sort_insert cmp x ys) = add_mset x (mset ys)"
  by (induction ys) auto

lemma set_sort_insert [simp]: "set (sort_insert cmp x ys) = insert x (set ys)"
  by (induction ys) auto

lemma mset_qsort [simp]: "mset (qsort cmp xs) = mset xs"
  by (induction xs) (auto simp: qsort_def)

lemma length_qsort [simp]: "length (qsort cmp xs) = length xs"
  by (metis mset_qsort size_mset)

lemma set_qsort [simp]: "set (qsort cmp xs) = set xs"
  by (metis mset_qsort set_mset_mset)

lemma sorted_sort_insert:
  "sorted_wrt (\<lambda>a b. rtable_comp a b \<le> 0) ys \<Longrightarrow>
   sorted_wrt (\<lambda>a b. rtable_comp a b \<le> 0) (sort_insert rtable_comp x ys)"
  by (induction ys) (auto intro: rtable_comp_trans dest: rtable_comp_total)

lemma sorted_qsort: "sorted_wrt (\<lambda>a b. rtable_comp a b \<le> 0) (qsort rtable_comp xs)"
  by (induction xs) (auto simp: qsort_def sorted_sort_insert)

lemma qsort_prefix_mono:
  "i \<le> j \<Longrightarrow> j < length xs \<Longrightarrow>
   prefix (qsort rtable_comp xs ! i) \<le> prefix (qsort rtable_comp xs ! j)"
  using sorted_wrt_nth_less [OF sorted_qsort, of i j xs]
  by (cases "i = j") (auto simp: rtable_comp_le)

section \<open>The search\<close>

lemma half_bounds: "2 \<le> h \<Longrightarrow> 1 \<le> half h \<and> half h < h"
  by (auto simp: half_def)

lemma entry_at_in: "0 \<le> i \<Longrightarrow> i < int (length rt) \<Longrightarrow> entry_at rt i = Inr (rt ! nat i)"
  by (auto simp: entry_at_def)

text \<open>Induction over the interval that is left.\<close>

lemma search_induct [consumes 1, case_names zero one split]:
  assumes "0 \<le> high"
    and "\<And>low. P low 0"
    and "\<And>low. P low 1"
    and "\<And>low high. 2 \<le> high \<Longrightarrow> P low (half high) \<Longrightarrow> P (low + half high) (high - half high) \<Longrightarrow> P low high"
  shows "P low (high :: int)"
  using assms(1)
proof (induction "nat high" arbitrary: low high rule: less_induct)
  case less
  consider "high = 0" | "high = 1" | "2 \<le> high" using less.prems by linarith
  then show ?case
  proof cases
    case 3
    note h = half_bounds [OF 3]
    have "P low (half high)" "P (low + half high) (high - half high)"
      by (rule less.hyps; use h in linarith)+
    with 3 show ?thesis by (rule assms(4))
  qed (simp_all add: assms(2,3))
qed

text \<open>With a table that is not empty, the search ends at an entry of the interval.\<close>

lemma binary_search_in_range:
  assumes "0 \<le> high" "0 \<le> low" "low + high < int (length rt)"
  shows "\<exists>k. binary_search rt low high s = Some (Inr k) \<and> low \<le> k \<and> k \<le> low + high"
  using assms(1,2,3)
proof (induction low high rule: search_induct)
  case (zero low)
  then show ?case by (simp add: binary_search.simps)
next
  case (one low)
  then show ?case by (simp add: binary_search.simps entry_at_in)
next
  case (split low high)
  with half_bounds [OF split(1)] show ?case
    by (subst binary_search.simps) (auto simp: entry_at_in; force)
qed

lemma binary_search_same_mask:
  assumes "0 \<le> high" "0 \<le> low" "low + high < int (length rt)"
    and "\<forall>i j. low \<le> i \<and> i \<le> j \<and> j \<le> low + high \<longrightarrow> prefix (rt ! nat i) \<le> prefix (rt ! nat j)"
    and "\<forall>i. low \<le> i \<and> i \<le> low + high \<longrightarrow> mask (rt ! nat i) = m"
    and "low \<le> i" "i \<le> low + high" "prefix (rt ! nat i) = s AND m"
    and "binary_search rt low high s = Some (Inr k)"
  shows "prefix (rt ! nat k) = s AND m"
  using assms
proof (induction low high arbitrary: i rule: search_induct)
  case (zero low)
  then have "i = low" "k = low" by (auto simp: binary_search.simps)
  with zero show ?case by simp
next
  case (one low)
  then have "k = (if s AND m = prefix (rt ! nat (low + 1)) then low + 1 else low)"
    by (auto simp: binary_search.simps [of rt low 1] entry_at_in)
  moreover have "i = low \<or> i = low + 1" using one by linarith
  ultimately show ?case using one by (auto split: if_splits)
next
  case (split low high)
  note h = half_bounds [OF split(1)]
  let ?mid = "low + half high"
  have e: "entry_at rt ?mid = Inr (rt ! nat ?mid)" "mask (rt ! nat ?mid) = m"
    using h split.prems(1-4) by (auto simp: entry_at_in)
  show ?case
  proof (cases "prefix (rt ! nat ?mid) > s AND m")
    case True
    have "i < ?mid"
    proof (rule ccontr)
      assume "\<not> i < ?mid"
      with h split.prems(6)
      have "low \<le> ?mid \<and> ?mid \<le> i \<and> i \<le> low + high" by linarith
      with split.prems(3) have "prefix (rt ! nat ?mid) \<le> prefix (rt ! nat i)" by blast
      with True split.prems(7) show False by simp
    qed
    moreover have "binary_search rt low (half high) s = Some (Inr k)"
      using split.prems(8) h True e split.hyps by (simp add: binary_search.simps [of rt low high])
    ultimately show ?thesis
      using split.prems h by (intro split.IH(1)) auto
  next
    case False
    have k: "binary_search rt ?mid (high - half high) s = Some (Inr k)"
      using split.prems(8) h False e split.hyps by (simp add: binary_search.simps [of rt low high])
    have "\<exists>j. ?mid \<le> j \<and> j \<le> low + high \<and> prefix (rt ! nat j) = s AND m"
    proof (cases "i \<le> ?mid")
      case True
      then have "prefix (rt ! nat i) \<le> prefix (rt ! nat ?mid)"
        using split.prems(3,5) h by auto
      with False split.prems(7) h have "prefix (rt ! nat ?mid) = s AND m" by auto
      with h show ?thesis by (intro exI [of _ ?mid]) auto
    next
      case False
      with split.prems(5-7) show ?thesis by (intro exI [of _ i]) auto
    qed
    then obtain j where j: "?mid \<le> j" "j \<le> low + high" "prefix (rt ! nat j) = s AND m" by blast
    show ?thesis
      by (rule split.IH(2) [where i = j]) (use split.prems h j k in auto)
  qed
qed

text \<open>
  C34. In a sorted table whose routes have one netmask, in the first places of the array, the
  search ends at a route of the table, and that route leads to the address if any route does.
\<close>

theorem search_finds_route:
  assumes "es \<noteq> []" "\<forall>e \<in> set es. mask e = m"
  shows "\<exists>k. binary_search (qsort rtable_comp es @ pad) 0 (int (length es) - 1) ip = Some (Inr k)
    \<and> 0 \<le> k \<and> nat k < length es
    \<and> (let found = qsort rtable_comp es ! nat k
       in ip AND mask found = prefix found \<longleftrightarrow> (\<exists>e \<in> set es. ip AND mask e = prefix e))"
proof -
  let ?rt = "qsort rtable_comp es @ pad" and ?h = "int (length es) - 1"
  have h: "0 \<le> ?h" "0 + ?h < int (length ?rt)" using assms(1) by (cases es; simp)+
  from binary_search_in_range [OF h(1) _ h(2)] obtain k where
    k: "binary_search ?rt 0 ?h ip = Some (Inr k)" "0 \<le> k" "k \<le> ?h" by auto
  have nth: "?rt ! i = qsort rtable_comp es ! i" if "i < length es" for i
    using that by (simp add: nth_append)
  have m: "mask (qsort rtable_comp es ! i) = m" if "i < length es" for i
    using that assms(2) by (metis length_qsort nth_mem set_qsort)
  have "ip AND mask (qsort rtable_comp es ! nat k) = prefix (qsort rtable_comp es ! nat k)"
    if e: "e \<in> set es" "ip AND mask e = prefix e" for e
  proof -
    from e(1) obtain i where i: "i < length es" "qsort rtable_comp es ! i = e"
      by (metis in_set_conv_nth length_qsort set_qsort)
    have "prefix (?rt ! nat k) = ip AND m"
    proof (rule binary_search_same_mask [OF h(1) _ h(2) _ _ _ _ _ k(1), where i = "int i"])
      show "\<forall>i j. 0 \<le> i \<and> i \<le> j \<and> j \<le> 0 + ?h \<longrightarrow> prefix (?rt ! nat i) \<le> prefix (?rt ! nat j)"
        by (auto simp: nth nat_less_iff intro!: qsort_prefix_mono)
      show "\<forall>i. 0 \<le> i \<and> i \<le> 0 + ?h \<longrightarrow> mask (?rt ! nat i) = m"
        by (auto simp: nth nat_less_iff m)
      show "prefix (?rt ! nat (int i)) = ip AND m" using i e assms(2) by (simp add: nth)
    qed (use i in auto)
    with k h show ?thesis by (simp add: nth m nat_less_iff)
  qed
  note found = this
  have len: "nat k < length es" using k h by linarith
  show ?thesis
  proof (intro exI [of _ k] conjI)
    have "qsort rtable_comp es ! nat k \<in> set es"
      using len by (metis length_qsort nth_mem set_qsort)
    with found show "let found = qsort rtable_comp es ! nat k
       in ip AND mask found = prefix found \<longleftrightarrow> (\<exists>e \<in> set es. ip AND mask e = prefix e)"
      unfolding Let_def by blast
  qed (use k len in auto)
qed

theorem search_finds_route_witness:
  "\<exists>k. binary_search (qsort rtable_comp [\<lparr>prefix = 0x000401C0, next_hop = 1, mask = 0x00FFFFFF, r_interface = 1\<rparr>] @ [zero_entry])
      0 (int (length [\<lparr>prefix = 0x000401C0, next_hop = 1, mask = 0x00FFFFFF, r_interface = 1\<rparr>]) - 1) 0x630401C0 = Some (Inr k)
    \<and> 0 \<le> k \<and> nat k < length [\<lparr>prefix = 0x000401C0, next_hop = 1, mask = 0x00FFFFFF, r_interface = 1\<rparr>]
    \<and> (let found = qsort rtable_comp [\<lparr>prefix = 0x000401C0, next_hop = 1, mask = 0x00FFFFFF, r_interface = 1\<rparr>] ! nat k
       in 0x630401C0 AND mask found = prefix found
         \<longleftrightarrow> (\<exists>e \<in> set [\<lparr>prefix = 0x000401C0, next_hop = 1, mask = 0x00FFFFFF, r_interface = 1\<rparr>]. 0x630401C0 AND mask e = prefix e))"
  by (rule search_finds_route [where m = "0x00FFFFFF"]) simp_all

text \<open>
  With masks of different lengths the search can miss a route: the prefixes are compared as
  integers whose most significant byte is the last one of the address, masked by whatever mask
  the middle entry has. In a sorted table with the routes 3.0.0.0/8, 1.1.0.0/16 and
  2.1.0.0/16, the address 3.9.0.1 is sent to an entry that does not lead to it.
\<close>

lemma search_misses_route:
  "\<exists>es ip e k. distinct es \<and> e \<in> set es \<and> ip AND mask e = prefix e
    \<and> sorted_wrt (\<lambda>a b. rtable_comp a b \<le> 0) es
    \<and> binary_search es 0 (int (length es) - 1) ip = Some (Inr k)
    \<and> ip AND mask (es ! nat k) \<noteq> prefix (es ! nat k)"
proof (intro exI conjI)
  let ?e = "\<lparr>prefix = 0x3, next_hop = 1, mask = 0xFF, r_interface = 0\<rparr>"
  let ?es = "[?e, \<lparr>prefix = 0x0101, next_hop = 2, mask = 0xFFFF, r_interface = 1\<rparr>,
    \<lparr>prefix = 0x0102, next_hop = 3, mask = 0xFFFF, r_interface = 2\<rparr>]"
  show "distinct ?es" by simp
  show "?e \<in> set ?es" by simp
  show "0x01000903 AND mask ?e = prefix ?e" by simp
  show "sorted_wrt (\<lambda>a b. rtable_comp a b \<le> 0) ?es" by (simp add: rtable_comp_def)
  show "binary_search ?es 0 (int (length ?es) - 1) 0x01000903 = Some (Inr 1)"
    by (simp add: binary_search.simps half_def entry_at_def)
  show "0x01000903 AND mask (?es ! nat 1) \<noteq> prefix (?es ! nat 1)" by simp
qed

text \<open>
  With no route at all, \<open>rtable_len - 1\<close> is negative and the search calls itself for ever.
\<close>

lemma search_empty_table: "rt ! 0 = zero_entry \<Longrightarrow> binary_search rt 0 (- 1) ip = Some r \<Longrightarrow> r = Inl Array_overread"
proof (cases "rt = []")
  case False
  assume z: "rt ! 0 = zero_entry" and r: "binary_search rt 0 (- 1) ip = Some r"
  have "rt' = rt \<and> low = 0 \<and> high = - 1 \<longrightarrow> False" if "binary_search rt' low high s = Some r" for rt' low high s
    using that
    by (rule binary_search.raw_induct [of "\<lambda>rt' low high s r. rt' = rt \<and> low = 0 \<and> high = - 1 \<longrightarrow> False", rotated])
      (use False z in \<open>auto simp: entry_at_def half_def zero_entry_def split: if_splits; blast\<close>)
  from this [OF r] show ?thesis by simp
qed (auto simp: binary_search.simps entry_at_def half_def)

section \<open>Hardware addresses\<close>

definition hex_digit :: "nat \<Rightarrow> byte" where
  "hex_digit n = (if n < 10 then of_nat (48 + n) else of_nat (87 + n))"

definition mac_text :: "byte list \<Rightarrow> byte list" where
  "mac_text a = concat (map (\<lambda>i. (if i = 0 then [] else [58]) @
     [hex_digit (unat (a ! i) div 16), hex_digit (unat (a ! i) mod 16)]) [0..<6])"

lemma hex2num_digit: "n < 16 \<Longrightarrow> hex2num (hex_digit n) = int n"
proof -
  assume "n < 16"
  then have "n \<in> set [0..<16]" by simp
  moreover have "\<forall>n \<in> set [0..<16]. hex2num (hex_digit n) = int n" by code_simp
  ultimately show ?thesis by blast
qed

lemma byte_of_digits:
  "word_of_int (push_bit 4 (int (unat b div 16)) OR int (unat b mod 16)) = (b :: byte)"
proof -
  have "push_bit 4 (drop_bit 4 (uint b)) OR take_bit 4 (uint b) = uint b"
    by (rule bit_eqI) (auto simp: bit_simps)
  moreover have "int (unat b div 16) = drop_bit 4 (uint b)" "int (unat b mod 16) = take_bit 4 (uint b)"
    by (simp_all add: drop_bit_eq_div take_bit_eq_mod of_nat_div of_nat_mod)
  ultimately show ?thesis by simp
qed

lemma digit_bounds: "unat (b :: byte) div 16 < 16"
proof -
  have "unat b < 2 ^ LENGTH(8)" by (rule unsigned_less)
  then show ?thesis by (simp add: less_mult_imp_div_less)
qed

lemma hwaddr_loop_byte:
  "i < 5 \<Longrightarrow> hwaddr_loop i (hex_digit (unat b div 16) # hex_digit (unat b mod 16) # 58 # r) addr
    = hwaddr_loop (i + 1) r (addr @ [b])"
  "i = 5 \<Longrightarrow> hwaddr_loop i [hex_digit (unat b div 16), hex_digit (unat b mod 16)] addr = (0, addr @ [b])"
  using digit_bounds [of b]
  by (simp_all only: hwaddr_loop.simps [of _ "_ # _"] hwaddr_loop.simps [of 6] hex2num_digit byte_of_digits Let_def list.case)
    (simp_all add: hex2num_digit hwaddr_loop.simps [of 6])

text \<open>\<open>hwaddr_aton\<close> reads back the six bytes of an address written in hexadecimal.\<close>

lemma hwaddr_aton_text: "length a = 6 \<Longrightarrow> hwaddr_aton (mac_text a) = (0, a)"
proof -
  assume "length a = 6"
  then obtain a0 a1 a2 a3 a4 a5 where a: "a = [a0, a1, a2, a3, a4, a5]"
    by (auto simp: numeral_eq_Suc length_Suc_conv)
  have "[0..<6] = [0, 1, 2, 3, 4, 5 :: nat]" by (simp add: upt_rec)
  then show ?thesis
    by (simp add: a hwaddr_aton_def mac_text_def hwaddr_loop_byte del: hwaddr_loop.simps)
qed

section \<open>The file of routes\<close>

text \<open>An address as it is written, and the line of one entry.\<close>

definition octet :: "nat \<Rightarrow> u32 \<Rightarrow> byte list" where
  "octet i w = dec (unat (le32 w ! i))"

definition dotted :: "u32 \<Rightarrow> byte list" where
  "dotted w = octet 0 w @ 46 # octet 1 w @ 46 # octet 2 w @ 46 # octet 3 w"

definition route_line :: "route_table_entry \<Rightarrow> byte list" where
  "route_line e =
     dotted (prefix e) @ 32 # dotted (next_hop e) @ 32 # dotted (mask e) @ 32 # dec (nat (r_interface e))"

definition route_ok :: "route_table_entry \<Rightarrow> bool" where
  "route_ok e \<longleftrightarrow> 0 \<le> r_interface e \<and> r_interface e < 2 ^ 31"

lemma dec_no_delim: "b \<in> set (dec n) \<Longrightarrow> \<not> table_delim b"
  using dec_digits [of n] by (auto simp: table_delim_def is_digit_def word_le_def)

lemma octet_no_delim: "\<forall>b \<in> set (octet i w). \<not> table_delim b" and octet_nonempty: "octet i w \<noteq> []"
  by (auto simp: octet_def dec_no_delim)

lemma length_octet: "length (octet i w) \<le> 3"
proof -
  have "unat (le32 w ! i) < 2 ^ LENGTH(8)" by (rule unsigned_less)
  then show ?thesis using length_dec_le [of "unat (le32 w ! i)" 3] by (simp add: octet_def)
qed

lemma atoi_octet: "word_of_int (atoi (octet i w)) = le32 w ! i"
proof -
  have "unat (le32 w ! i) < 2 ^ LENGTH(8)" by (rule unsigned_less)
  then have "unat (le32 w ! i) < 2147483648" by simp
  from atoi_dec_end [OF this] show ?thesis by (simp add: octet_def)
qed

lemma set_bytes:
  "set_byte 3 d (set_byte 2 c (set_byte (Suc 0) b (set_byte 0 a w))) = of_le32 [a, b, c, d]"
proof -
  have s: "set_byte i x (of_le32 [p, q, r, s]) = of_le32 ([p, q, r, s][i := x])" for i x p q r s
    by (simp add: set_byte_def le32_of_le32)
  obtain p q r s where w: "le32 w = [p, q, r, s]" by (simp add: le32_def)
  then have "w = of_le32 [p, q, r, s]" by (metis of_le32_le32)
  then show ?thesis by (simp add: s numeral_eq_Suc)
qed

lemmas set_bytes_at = set_bytes set_bytes [unfolded numeral_2_eq_2]

lemma entry_fields:
  "(x :: route_table_entry)\<lparr>prefix := prefix e, next_hop := next_hop e, mask := mask e, r_interface := r_interface e\<rparr> = e"
  by (cases e; cases x) simp

lemma of_le32_nth: "of_le32 [le32 w ! 0, le32 w ! Suc 0, le32 w ! 2, le32 w ! 3] = w"
proof -
  have "[le32 w ! 0, le32 w ! Suc 0, le32 w ! 2, le32 w ! 3] = le32 w"
    by (simp add: le32_def numeral_eq_Suc)
  then show ?thesis by simp
qed

lemma strtok_next_Nil: "strtok_next d [] = None"
  by (simp add: strtok_next_def)

lemma read_fields_token:
  "p \<noteq> [] \<Longrightarrow> \<forall>b \<in> set p. \<not> table_delim b \<Longrightarrow> table_delim c \<Longrightarrow> j < length rt \<Longrightarrow>
   read_fields j i (p @ c # r) rt = read_fields j (i + 1) r (rt[j := set_field i p (rt ! j)])"
  by (subst read_fields.simps) (simp add: strtok_next_token(1))

lemma read_fields_last:
  "p \<noteq> [] \<Longrightarrow> \<forall>b \<in> set p. \<not> table_delim b \<Longrightarrow> j < length rt \<Longrightarrow>
   read_fields j i p rt = Inr (rt[j := set_field i p (rt ! j)])"
  using read_fields.simps [of j i p rt] read_fields.simps [of j "i + 1" "[]" "rt[j := set_field i p (rt ! j)]"]
  by (simp add: strtok_next_token(2) strtok_next_Nil)

lemma read_fields_address:
  assumes "table_delim c" "j < length rt"
  shows "read_fields j i (dotted w @ c # r) rt
    = read_fields j (i + 4) r (rt[j := set_field (i + 3) (octet 3 w) (set_field (i + 2) (octet 2 w)
        (set_field (i + 1) (octet 1 w) (set_field i (octet 0 w) (rt ! j))))])"
proof -
  have "table_delim 46" by (simp add: table_delim_def)
  with assms show ?thesis
    by (simp add: dotted_def read_fields_token octet_nonempty octet_no_delim add.assoc)
      (simp add: numeral_eq_Suc)
qed

lemma read_fields_line:
  assumes "route_ok e" "j < length rt"
  shows "read_fields j 0 (route_line e @ [10]) rt = Inr (rt[j := e])"
proof -
  have d: "table_delim 32" by (simp add: table_delim_def)
  let ?p = "dec (nat (r_interface e)) @ [10]"
  have p: "?p \<noteq> []" "\<forall>b \<in> set ?p. \<not> table_delim b" by (auto simp: dec_no_delim) (simp add: table_delim_def)
  have "nat (r_interface e) < 2 ^ 31" using assms(1) by (simp add: route_ok_def nat_less_iff)
  from atoi_dec [OF this, of "[10]"] have i: "atoi ?p = r_interface e"
    using assms(1) by (simp add: route_ok_def is_digit_def word_le_def)
  show ?thesis
    using assms(2) d p
    by (simp add: route_line_def read_fields_address read_fields_last set_field_def atoi_octet i
        set_bytes_at of_le32_nth entry_fields)
qed

lemma route_line_short: "route_ok e \<Longrightarrow> length (route_line e) < 62"
proof -
  assume "route_ok e"
  then have "length (dec (nat (r_interface e))) \<le> 10"
    by (intro length_dec_le) (auto simp: route_ok_def)
  moreover have "length (dotted w) \<le> 15" for w
    using length_octet [of 0 w] length_octet [of 1 w] length_octet [of 2 w] length_octet [of 3 w]
    by (simp add: dotted_def)
  then have "length (dotted (prefix e)) \<le> 15" "length (dotted (next_hop e)) \<le> 15" "length (dotted (mask e)) \<le> 15"
    by blast+
  ultimately show ?thesis by (simp add: route_line_def)
qed

lemma dec_text: "b \<in> set (dec n) \<Longrightarrow> b \<noteq> 0 \<and> b \<noteq> 10"
  using dec_digits [of n] by (auto simp: is_digit_def word_le_def)

lemma route_line_text: "b \<in> set (route_line e) \<Longrightarrow> b \<noteq> 0 \<and> b \<noteq> 10"
  using dec_text by (fastforce simp: route_line_def dotted_def octet_def)

lemma read_lines_text:
  assumes "\<forall>e \<in> set es. route_ok e" "j + length es \<le> length rt"
  shows "read_lines j (concat (map (\<lambda>e. route_line e @ [10]) es)) rt
    = Inr (j + length es, take j rt @ es @ drop (j + length es) rt)"
  using assms
proof (induction es arbitrary: j rt)
  case Nil
  then show ?case by (simp add: read_lines.simps [of j "[]"] fgets_def)
next
  case (Cons e es)
  let ?rest = "concat (map (\<lambda>e. route_line e @ [10]) es)"
  have nul: "c_string (route_line e @ [10]) = route_line e @ [10]"
    unfolding c_string_def by (intro takeWhile_eq_all_conv [THEN iffD2]) (auto dest: route_line_text)
  have "fgets 64 (route_line e @ 10 # ?rest) = Some (route_line e @ [10], ?rest)"
    using Cons.prems(1) route_line_short [of e] by (intro fgets_line) (auto dest: route_line_text)
  then have "read_lines j (concat (map (\<lambda>e. route_line e @ [10]) (e # es))) rt
      = read_lines (j + 1) ?rest (rt[j := e])"
    using Cons.prems by (subst read_lines.simps) (simp add: nul read_fields_line)
  also have "\<dots> = Inr (j + 1 + length es, take (j + 1) (rt[j := e]) @ es @ drop (j + 1 + length es) (rt[j := e]))"
    using Cons.prems by (intro Cons.IH) auto
  finally show ?case using Cons.prems by (simp add: take_Suc_conv_app_nth)
qed

text \<open>
  C35. The lines of a file that lists routes in dotted decimal form, each interface a number
  that fits \<open>int\<close>, are read back as exactly these routes, in order, in the first places of the
  array, and their number is returned.
\<close>

theorem read_rtable_routes:
  assumes "\<forall>e \<in> set es. route_ok e" "length es \<le> ROUTES"
  shows "read_rtable (Some (concat (map (\<lambda>e. route_line e @ [10]) es))) (replicate ROUTES zero_entry)
    = Inr (length es, es @ replicate (ROUTES - length es) zero_entry)"
  using read_lines_text [of es 0 "replicate ROUTES zero_entry"] assms
  by (simp add: read_rtable_def)

theorem read_rtable_routes_witness:
  "read_rtable
     (Some (concat (map (\<lambda>e. route_line e @ [10])
        [\<lparr>prefix = 0x000401C0, next_hop = 0x020401C0, mask = 0x00FFFFFF, r_interface = 1\<rparr>])))
     (replicate ROUTES zero_entry)
   = Inr (length [\<lparr>prefix = 0x000401C0, next_hop = 0x020401C0, mask = 0x00FFFFFF, r_interface = 1\<rparr>],
       [\<lparr>prefix = 0x000401C0, next_hop = 0x020401C0, mask = 0x00FFFFFF, r_interface = 1\<rparr>]
       @ replicate (ROUTES - length [\<lparr>prefix = 0x000401C0, next_hop = 0x020401C0, mask = 0x00FFFFFF, r_interface = 1\<rparr>])
         zero_entry)"
  by (rule read_rtable_routes) (simp_all add: route_ok_def ROUTES_def)

end
