(* ===== verification/Router_Facts.thy ===== *)
theory Router_Facts
  imports Router Route_Table_Props
begin

text \<open>
  Facts on the steps of the router: what a write to a header leaves alone, what an ICMP error
  message looks like, when the search of a route returns, what the release of waiting packets
  sends, and the invariant of the router's state.
\<close>

section \<open>Reading behind writes\<close>

named_theorems header \<open>what is read after a header field was written\<close>

lemma put_frame [simp]: "len (put off bs m) = len m" "p_interface (put off bs m) = p_interface m"
  by (simp_all add: put_def)

lemma length_put [simp]:
  "off + length bs \<le> length (payload m) \<Longrightarrow> length (payload (put off bs m)) = length (payload m)"
  by (simp add: put_def)

lemma bytes_at_put_same [header]:
  "off + length bs \<le> length (payload m) \<Longrightarrow> n = length bs \<Longrightarrow> bytes_at off n (put off bs m) = bs"
  by (simp add: bytes_at_def put_def min_def)

lemma bytes_at_put_before [header]:
  "off2 + n \<le> off \<Longrightarrow> off + length bs \<le> length (payload m) \<Longrightarrow> bytes_at off2 n (put off bs m) = bytes_at off2 n m"
  by (simp add: bytes_at_def put_def take_drop min_def)

lemma bytes_at_put_after [header]:
  "off + length bs \<le> off2 \<Longrightarrow> off + length bs \<le> length (payload m) \<Longrightarrow> bytes_at off2 n (put off bs m) = bytes_at off2 n m"
  by (simp add: bytes_at_def put_def)

lemma nth_put_before [header]:
  "i < off \<Longrightarrow> off + length bs \<le> length (payload m) \<Longrightarrow> payload (put off bs m) ! i = payload m ! i"
  by (simp add: put_def nth_append)

lemma nth_put_after [header]:
  "off + length bs \<le> i \<Longrightarrow> off + length bs \<le> length (payload m) \<Longrightarrow> payload (put off bs m) ! i = payload m ! i"
  by (auto simp: put_def nth_append)

lemma nth_put_same [header]:
  "off \<le> i \<Longrightarrow> i < off + length bs \<Longrightarrow> off + length bs \<le> length (payload m) \<Longrightarrow>
   payload (put off bs m) ! i = bs ! (i - off)"
  by (auto simp: put_def nth_append)

lemma length_bytes_at [simp]: "length (bytes_at off n m) = min n (length (payload m) - off)"
  by (simp add: bytes_at_def)

lemma bytes_at_len_update [simp]: "bytes_at off n (m\<lparr>len := l\<rparr>) = bytes_at off n m"
  by (simp add: bytes_at_def)

definition full :: "packet \<Rightarrow> bool" where
  "full m \<longleftrightarrow> length (payload m) = MAX_LEN"

lemma full_put [simp]: "off + length bs \<le> 1600 \<Longrightarrow> full m \<Longrightarrow> full (put off bs m)"
  by (simp add: full_def MAX_LEN_def)

lemma full_length: "full m \<Longrightarrow> length (payload m) = 1600"
  by (simp add: full_def MAX_LEN_def)

lemma full_updates [simp]: "full (m\<lparr>len := l\<rparr>) = full m" "full (m\<lparr>p_interface := i\<rparr>) = full m"
  by (simp_all add: full_def)

section \<open>ICMP messages\<close>

lemma icmp_sum_total: "even sz \<Longrightarrow> sz \<le> length data \<Longrightarrow> \<exists>c. icmp_sum sz data acc = Inr c"
proof (induction sz data acc rule: icmp_sum.induct)
  case (1 sz a b data acc)
  then show ?case by (cases "sz > 1") (auto simp: less_Suc_eq not_less le_Suc_eq)
qed auto

lemma fill_icmp_checksum_total: "full m \<Longrightarrow> \<exists>c. fill_icmp_checksum m = Inr (put 36 (le16 c) (put 36 [0, 0] m))"
  using icmp_sum_total [of 8 "drop 34 (payload (put 36 [0, 0] m))" 0]
  by (auto simp: fill_icmp_checksum_def Let_def icmp_checksum_def full_length)

definition valid_interface :: "int \<Rightarrow> bool" where
  "valid_interface i \<longleftrightarrow> 0 \<le> i \<and> i < 3"

lemma interface_index_valid: "valid_interface i \<Longrightarrow> interface_index i = Inr (nat i)"
  by (simp add: interface_index_def valid_interface_def ROUTER_NUM_INTERFACES_def nat_less_iff)

lemma get_interface_valid:
  "valid_interface i \<Longrightarrow> get_interface_ip H i = Inr (if_ip H (nat i))"
  "valid_interface i \<Longrightarrow> get_interface_mac H i = Inr (take 6 (if_mac H (nat i)))"
  by (simp_all add: get_interface_ip_def get_interface_mac_def interface_index_valid)

lemma send_packet_valid:
  "valid_interface (p_interface m) \<Longrightarrow>
   send_packet m out = Inr (out @ [(nat (p_interface m), take (nat (len m)) (payload m))])"
  by (simp add: send_packet_def interface_index_valid)

text \<open>An error message goes back to the sender, from the address of the interface.\<close>

lemma create_error_icmp_stops: "overlap H (payload m) = None \<Longrightarrow> create_error_icmp H m t c = Inl Overlapping_copy"
  by (simp add: create_error_icmp_def copy_header_def)

lemma create_error_icmp_total:
  assumes "full m" "valid_interface (p_interface m)" "overlap H (payload m) \<noteq> None"
  shows "\<exists>m'. create_error_icmp H m t c = Inr m' \<and> full m' \<and> p_interface m' = p_interface m
    \<and> ip_daddr m' = ip_saddr m \<and> ip_saddr m' = if_ip H (nat (p_interface m))
    \<and> ip_ttl m' = MAX_TTL \<and> ip_protocol m' = IP_ICMP_PROTOCOL \<and> bytes_at 16 2 m' = [86, 0] \<and> len m' = 100
    \<and> bytes_at 34 2 m' = [t, c]"
proof -
  obtain bs where copied: "copy_header H m = Inr (put 42 bs m)" and n: "length bs = 64"
    using assms(3) by (auto simp: copy_header_def intro: that [rotated])
  let ?m = "put 34 [t, c] (put 42 bs m)"
  have f: "full ?m" using assms(1) n by (simp add: full_length)
  from fill_icmp_checksum_total [OF f] obtain ck where
    ck: "fill_icmp_checksum ?m = Inr (put 36 (le16 ck) (put 36 [0, 0] ?m))" by blast
  have s: "ip_saddr (put 36 (le16 ck) (put 36 [0, 0] ?m)) = ip_saddr m"
    using assms(1) n by (simp add: ip_saddr_def header full_length)
  show ?thesis
    using assms f n
    by (simp add: create_error_icmp_def copied ck get_interface_valid Let_def s header full_length
        ip_daddr_def ip_saddr_def ip_ttl_def ip_protocol_def)
      (simp add: le16_def)
qed

lemma refresh_check_frame:
  assumes "full m"
  shows "full (refresh_check m)" "p_interface (refresh_check m) = p_interface m"
    "ip_daddr (refresh_check m) = ip_daddr m" "ip_saddr (refresh_check m) = ip_saddr m"
    "len (refresh_check m) = len m" "ip_ttl (refresh_check m) = ip_ttl m"
  using assms
  by (simp_all add: refresh_check_def Let_def ip_daddr_def ip_saddr_def ip_ttl_def header full_length)

section \<open>The search for a route\<close>

text \<open>\<open>leads rt n ip e\<close>: the binary search ends at \<open>e\<close>, and \<open>e\<close> is a route to \<open>ip\<close>.\<close>

definition leads :: "route_table_entry list \<Rightarrow> int \<Rightarrow> u32 \<Rightarrow> route_table_entry \<Rightarrow> bool" where
  "leads rt n ip e \<longleftrightarrow>
     (\<exists>k. binary_search rt 0 (n - 1) ip = Some (Inr k) \<and> entry_at rt k = Inr e) \<and> mask e AND ip = prefix e"

definition table_ok :: "route_table_entry list \<Rightarrow> int \<Rightarrow> bool" where
  "table_ok rt n \<longleftrightarrow> 1 \<le> n \<and> n \<le> int (length rt)"

lemma search_entry:
  assumes "table_ok rt n"
  shows "\<exists>k. binary_search rt 0 (n - 1) ip = Some (Inr k) \<and> entry_at rt k = Inr (rt ! nat k) \<and> nat k < nat n"
proof -
  have h: "0 \<le> n - 1" "0 + (n - 1) < int (length rt)" using assms by (auto simp: table_ok_def)
  from binary_search_in_range [OF h(1) _ h(2)] obtain k where
    "binary_search rt 0 (n - 1) ip = Some (Inr k)" "0 \<le> k" "k \<le> 0 + (n - 1)" by auto
  with assms show ?thesis by (intro exI [of _ k]) (auto simp: entry_at_in table_ok_def)
qed

lemma best_route_search_leads:
  "leads rt n (ip_daddr m) e \<Longrightarrow> best_route_search H rt n m = Some (Inr (m, e))"
  by (subst best_route_search.simps) (auto simp: leads_def)

lemma best_route_search_error:
  assumes "table_ok rt n" "\<nexists>e. leads rt n (ip_daddr m) e"
    and "create_error_icmp H m ICMP_DEST_UNREACHABLE 0 = Inr m'"
  shows "best_route_search H rt n m = best_route_search H rt n (refresh_check m')"
  using search_entry [OF assms(1), of "ip_daddr m"] assms(2,3)
  by (subst best_route_search.simps) (auto simp: leads_def)

text \<open>
  The program stops at an overlapping copy, and does so on this machine; and the machines on which it goes on with
  whatever bytes.
\<close>

definition stopped :: "host \<Rightarrow> fault \<Rightarrow> bool" where
  "stopped H f \<longleftrightarrow> f = Overlapping_copy \<and> (\<exists>bs. overlap H bs = None)"

definition goes_on :: "host \<Rightarrow> bool" where
  "goes_on H \<longleftrightarrow> (\<forall>bs. overlap H bs \<noteq> None)"

lemma create_error_icmp_stopped: "overlap H (payload m) = None \<Longrightarrow> create_error_icmp H m t c = Inl f \<Longrightarrow> stopped H f"
  by (auto simp: create_error_icmp_stops stopped_def)

text \<open>What a search that returns gives back; it runs into no other undefined behaviour.\<close>

lemma best_route_search_result:
  assumes "full m" "valid_interface (p_interface m)" "table_ok rt n" "0 \<le> len m"
    and "best_route_search H rt n m = Some r"
  shows "(\<exists>f. r = Inl f \<and> stopped H f) \<or> (\<exists>m' e. r = Inr (m', e) \<and> full m' \<and> p_interface m' = p_interface m
    \<and> leads rt n (ip_daddr m') e \<and> 0 \<le> len m' \<and> e \<in> set (take (nat n) rt))"
proof -
  let ?post = "\<lambda>m0 r. (\<exists>f. r = Inl f \<and> stopped H f) \<or> (\<exists>m' e. r = Inr (m', e) \<and> full m' \<and> p_interface m' = p_interface m0
    \<and> leads rt n (ip_daddr m') e \<and> 0 \<le> len m' \<and> e \<in> set (take (nat n) rt))"
  let ?P = "\<lambda>H' rt' n' m0 r. H' = H \<longrightarrow> rt' = rt \<longrightarrow> n' = n \<longrightarrow> full m0
      \<longrightarrow> valid_interface (p_interface m0) \<longrightarrow> 0 \<le> len m0 \<longrightarrow> ?post m0 r"
  have "?P H rt n m r" using assms(5)
  proof (rule best_route_search.raw_induct [where P = ?P, rotated], intro impI, goal_cases)
    case (1 f H' rt' n' m0 r)
    then obtain k where k: "binary_search rt 0 (n - 1) (ip_daddr m0) = Some (Inr k)"
      "entry_at rt k = Inr (rt ! nat k)" "nat k < nat n"
      using search_entry [OF assms(3)] by blast
    show ?case
    proof (cases "mask (rt ! nat k) AND ip_daddr m0 = prefix (rt ! nat k)")
      case True
      have "rt ! nat k \<in> set (take (nat n) rt)"
        using k(3) assms(3) by (auto simp: table_ok_def in_set_conv_nth intro!: exI [of _ "nat k"])
      with True 1 k show ?thesis by (auto simp: leads_def)
    next
      case error: False
      show ?thesis
      proof (cases "overlap H (payload m0)")
        case None
        with 1 k error show ?thesis by (auto simp: create_error_icmp_stops stopped_def)
      next
        case (Some bs)
        with create_error_icmp_total [of m0 H ICMP_DEST_UNREACHABLE 0] 1 obtain m1 where
          m1: "create_error_icmp H m0 ICMP_DEST_UNREACHABLE 0 = Inr m1" "full m1" "p_interface m1 = p_interface m0" "len m1 = 100"
          by blast
        with 1 k error have "f H rt n (refresh_check m1) = Some r" by simp
        from 1(1) [OF this] 1 m1 show ?thesis by (simp add: refresh_check_frame)
      qed
    qed
  qed
  with assms show ?thesis by blast
qed

text \<open>Without a route to any of three addresses, the search never returns.\<close>

lemma best_route_search_loops:
  assumes "full m" "valid_interface (p_interface m)" "table_ok rt n" "goes_on H"
    and "\<nexists>e. leads rt n (ip_daddr m) e" "\<nexists>e. leads rt n (ip_saddr m) e"
    and "\<nexists>e. leads rt n (if_ip H (nat (p_interface m))) e"
  shows "best_route_search H rt n m = None"
proof (rule ccontr)
  assume "best_route_search H rt n m \<noteq> None"
  then obtain r where "best_route_search H rt n m = Some r" by blast
  then have "(\<lambda>H' rt' n' m0. H' = H \<and> rt' = rt \<and> n' = n \<and> full m0 \<and> p_interface m0 = p_interface m
      \<and> (\<nexists>e. leads rt n (ip_daddr m0) e) \<and> (\<nexists>e. leads rt n (ip_saddr m0) e) \<longrightarrow> False) H rt n m"
  proof (rule best_route_search.raw_induct [rotated, where P = "\<lambda>H' rt' n' m0 r. H' = H \<and> rt' = rt \<and> n' = n
      \<and> full m0 \<and> p_interface m0 = p_interface m
      \<and> (\<nexists>e. leads rt n (ip_daddr m0) e) \<and> (\<nexists>e. leads rt n (ip_saddr m0) e) \<longrightarrow> False"], goal_cases)
    case (1 f H' rt' n' m0 r)
    show ?case
    proof (intro impI, elim conjE)
      assume eq: "H' = H" "rt' = rt" "n' = n" and m0: "full m0" "p_interface m0 = p_interface m"
        and no: "\<nexists>e. leads rt n (ip_daddr m0) e" "\<nexists>e. leads rt n (ip_saddr m0) e"
      obtain k b where k: "binary_search rt 0 (n - 1) (ip_daddr m0) = Some (Inr k)" "entry_at rt k = Inr b"
        using search_entry [OF assms(3)] by blast
      from create_error_icmp_total [of m0 H ICMP_DEST_UNREACHABLE 0] m0 assms(2,4) obtain m1 where
        m1: "create_error_icmp H m0 ICMP_DEST_UNREACHABLE 0 = Inr m1" "full m1" "p_interface m1 = p_interface m"
          "ip_daddr m1 = ip_saddr m0" "ip_saddr m1 = if_ip H (nat (p_interface m))" by (auto simp: goes_on_def)
      from k no(1) have "mask b AND ip_daddr m0 \<noteq> prefix b" by (auto simp: leads_def)
      with 1(2) eq k m1 have "f H rt n (refresh_check m1) = Some r" by simp
      from 1(1) [OF this] m1 no assms(7) show False by (simp add: refresh_check_frame)
    qed
  qed
  with assms show False by blast
qed

section \<open>Forwarding\<close>

lemma create_echo_reply_total:
  "full m \<Longrightarrow> \<exists>m'. create_echo_reply m = Inr m' \<and> full m' \<and> p_interface m' = p_interface m \<and> len m' = len m
    \<and> ip_daddr m' = ip_daddr m \<and> ip_saddr m' = ip_saddr m
    \<and> (bytes_at 34 2 m = [8, 0] \<longrightarrow> bytes_at 34 2 m' = [0, 0] \<and> ip_ttl m' = MAX_TTL
        \<and> ip_check m' = ip_check m \<and> ip_protocol m' = ip_protocol m \<and> bytes_at 14 8 m' = bytes_at 14 8 m
        \<and> bytes_at 24 2 m' = bytes_at 24 2 m \<and> bytes_at 26 8 m' = bytes_at 26 8 m)"
proof -
  assume f: "full m"
  let ?m = "put 34 [ECHO_REPLY_TYPE, 0] m"
  have f1: "full ?m" using f by simp
  from fill_icmp_checksum_total [OF f1] obtain c where
    c: "fill_icmp_checksum ?m = Inr (put 36 (le16 c) (put 36 [0, 0] ?m))" by blast
  have "bytes_at 34 2 m = [payload m ! 34, payload m ! 35]"
    using full_length [OF f] by (simp add: bytes_at_def take_Suc_conv_app_nth numeral_2_eq_2)
  then show ?thesis
    using f c
    by (cases "payload m ! 34 = 8 \<and> payload m ! 35 = 0")
      (auto simp: create_echo_reply_def Let_def header full_length ip_daddr_def ip_saddr_def ip_ttl_def ip_check_def ip_protocol_def
        ECHO_REQUEST_TYPE_def ECHO_REPLY_TYPE_def)
qed

lemma forward_ip_result:
  assumes "full m" "valid_interface (p_interface m)" "table_ok rt n" "0 \<le> len m"
    and "forward_ip H rt n m = Some r"
  shows "(\<exists>f. r = Inl f \<and> stopped H f) \<or> (\<exists>m' b. r = Inr (m', b) \<and> full m' \<and> p_interface m' = p_interface m \<and> 0 \<le> len m'
    \<and> (\<forall>e. b = Some e \<longrightarrow> leads rt n (ip_daddr m') e \<and> e \<in> set (take (nat n) rt)))"
proof -
  let ?m = "put 24 [0, 0] m"
  let ?m1 = "put 22 [ip_ttl ?m - 1] ?m"
  let ?m2 = "put 24 (le16 (update_check (header_checksum ?m) (ip_ttl ?m) (ip_ttl ?m1))) ?m1"
  let ?step = "if ip_daddr m = if_ip H (nat (p_interface m)) \<and> ip_protocol ?m2 = IP_ICMP_PROTOCOL then create_echo_reply ?m2
      else if ip_ttl ?m2 \<le> 0 then bindE (create_error_icmp H ?m2 ICMP_TLE_TYPE 0) (\<lambda>m. Inr (refresh_check m))
      else Inr ?m2"
  have m2: "full ?m2" "p_interface ?m2 = p_interface m" "0 \<le> len ?m2" using assms by simp_all
  have step: "?step = Inl Overlapping_copy \<and> stopped H Overlapping_copy
      \<or> (\<exists>m3. ?step = Inr m3 \<and> full m3 \<and> p_interface m3 = p_interface m \<and> 0 \<le> len m3)"
    using create_echo_reply_total [OF m2(1)] create_error_icmp_total [OF m2(1), of H ICMP_TLE_TYPE 0]
      create_error_icmp_stops [of H ?m2 ICMP_TLE_TYPE 0] m2 assms(2)
    by (cases "overlap H (payload ?m2)") (auto simp: refresh_check_frame stopped_def)
  consider (dropped) "ip_check m \<noteq> header_checksum ?m"
    | (stop) "ip_check m = header_checksum ?m" "?step = Inl Overlapping_copy" "stopped H Overlapping_copy"
    | (on) m3 where "ip_check m = header_checksum ?m"
        "?step = Inr m3" "full m3" "p_interface m3 = p_interface m" "0 \<le> len m3"
    using step by blast
  then show ?thesis
  proof cases
    case dropped
    with assms show ?thesis by (auto simp: forward_ip_def get_interface_valid Let_def)
  next
    case stop
    then have "forward_ip H rt n m = Some (Inl Overlapping_copy)"
      using assms(2) by (simp add: forward_ip_def get_interface_valid Let_def)
    with assms(5) stop(3) show ?thesis by auto
  next
    case m3: (on m3)
    then have "forward_ip H rt n m = bindR (best_route_search H rt n m3) (\<lambda>(m, best). Some (Inr (m, Some best)))"
      using assms(2) m3(1,2) by (simp add: forward_ip_def get_interface_valid Let_def)
    with assms(5) obtain r' where "best_route_search H rt n m3 = Some r'"
      and r: "Some r = bindR (Some r') (\<lambda>(m, best). Some (Inr (m, Some best)))"
      by (cases "best_route_search H rt n m3") auto
    from best_route_search_result [OF m3(3) _ assms(3) m3(5) this(1)] m3(4) assms(2) r show ?thesis by auto
  qed
qed

section \<open>Waiting packets\<close>

text \<open>The bytes a packet is sent with once its hardware address is known.\<close>

definition sent_as :: "byte list \<Rightarrow> packet \<Rightarrow> nat \<times> byte list" where
  "sent_as mac m = (nat (p_interface m), take (nat (len m)) (payload (put 0 mac m)))"

lemma release_holds:
  assumes "queue_holds q ws" "queue_holds nq ns" "\<forall>w \<in> set ws. valid_interface (p_interface (w_packet w))"
  shows "\<exists>nq'. release spa sha q nq out
      = Inr (nq', out @ map (\<lambda>w. sent_as sha (w_packet w)) (filter (\<lambda>w. next_hop (w_best w) = spa) ws))
    \<and> queue_holds nq' (ns @ filter (\<lambda>w. next_hop (w_best w) \<noteq> spa) ws)"
  using assms
proof (induction ws arbitrary: q nq ns out)
  case Nil
  then have "head q = None" using queue_c.empty_iff [of q "[]"] by (simp add: queue_empty_def)
  with Nil show ?case by (simp add: release.simps)
next
  case (Cons w ws)
  from queue_c.deq_holds [OF Cons.prems(1)] obtain q' where
    q': "queue_deq q = Inr (w, q')" "queue_holds q' ws" by blast
  have ne: "head q \<noteq> None" using queue_c.empty_iff [OF Cons.prems(1)] by (simp add: queue_empty_def)
  have rest: "\<forall>w \<in> set ws. valid_interface (p_interface (w_packet w))" using Cons.prems(3) by simp
  show ?case
  proof (cases "next_hop (w_best w) = spa")
    case True
    have "send_packet (put 0 sha (w_packet w)) out = Inr (out @ [sent_as sha (w_packet w)])"
      using Cons.prems(3) by (simp add: send_packet_valid sent_as_def)
    with Cons.IH [OF q'(2) Cons.prems(2) rest, of "out @ [sent_as sha (w_packet w)]"] True ne q'(1)
    show ?thesis by (simp add: release.simps [of spa sha q])
  next
    case False
    from queue_c.enq_holds [OF Cons.prems(2), of w] obtain nq1 where
      nq1: "queue_enq nq w = Inr nq1" "queue_holds nq1 (ns @ [w])" by blast
    from Cons.IH [OF q'(2) nq1(2) rest, of out] False ne q'(1) nq1(1)
    show ?thesis by (simp add: release.simps [of spa sha q])
  qed
qed

lemma elements_holds: "queue_holds q xs \<Longrightarrow> elements q = Some (Inr xs)"
  by (simp add: elements_def cells_from_holds)

lemma put_twice:
  "length a = length b \<Longrightarrow> off + length a \<le> length (payload m) \<Longrightarrow> put off b (put off a m) = put off b m"
  by (cases b) (auto simp: put_def min_def)

text \<open>The last entry for the next hop decides.\<close>

lemma resolve_cases:
  assumes "full m" "\<forall>a \<in> set entries. length (arp_mac a) = 6"
  shows "resolve hop entries m =
    (if hop \<in> arp_ip ` set entries
     then (True, put 0 (arp_mac (last (filter (\<lambda>a. arp_ip a = hop) entries))) m) else (False, m))"
  using assms(2)
proof (induction entries rule: rev_induct)
  case (snoc a entries)
  have f: "filter (\<lambda>a. arp_ip a = hop) entries \<noteq> [] \<longleftrightarrow> hop \<in> arp_ip ` set entries"
    by (auto simp: filter_empty_conv)
  have "last (filter (\<lambda>a. arp_ip a = hop) entries) \<in> set entries" if "hop \<in> arp_ip ` set entries"
    using that f last_in_set [of "filter (\<lambda>a. arp_ip a = hop) entries"] by auto
  with snoc f show ?case
    using assms(1) by (auto simp: resolve_def put_twice full_length)
qed (simp add: resolve_def)

section \<open>The invariant\<close>

definition waiting_ok :: "arp_entry list \<Rightarrow> packet_with_best \<Rightarrow> bool" where
  "waiting_ok as w \<longleftrightarrow>
     full (w_packet w) \<and> 0 \<le> len (w_packet w) \<and> p_interface (w_packet w) = r_interface (w_best w)
     \<and> valid_interface (r_interface (w_best w)) \<and> next_hop (w_best w) \<notin> arp_ip ` set as"

definition queues_ok :: "router \<Rightarrow> arp_entry list \<Rightarrow> packet_with_best list \<Rightarrow> bool" where
  "queues_ok s as ws \<longleftrightarrow>
     queue_holds (arp_entries s) as \<and> (\<forall>a \<in> set as. length (arp_mac a) = 6)
     \<and> queue_holds (messages_to_send s) ws \<and> (\<forall>w \<in> set ws. waiting_ok as w)"

definition routes_ok :: "router \<Rightarrow> bool" where
  "routes_ok s \<longleftrightarrow> table_ok (route_table s) (rtable_len s)
     \<and> (\<forall>e \<in> set (take (nat (rtable_len s)) (route_table s)). valid_interface (r_interface e))"

definition router_ok :: "router \<Rightarrow> bool" where
  "router_ok s \<longleftrightarrow> routes_ok s \<and> full (cur s) \<and> (\<exists>as ws. queues_ok s as ws)"

definition packet_ok :: "packet \<Rightarrow> bool" where
  "packet_ok m \<longleftrightarrow> full m \<and> valid_interface (p_interface m) \<and> 0 \<le> len m"

text \<open>A change of the received packet or of the trace leaves the rest of the invariant alone.\<close>

lemma router_ok_frame [simp]:
  "routes_ok (s\<lparr>cur := m\<rparr>) = routes_ok s" "routes_ok (s\<lparr>sent := out\<rparr>) = routes_ok s"
  "routes_ok (s\<lparr>messages_to_send := q\<rparr>) = routes_ok s" "routes_ok (s\<lparr>arp_entries := a\<rparr>) = routes_ok s"
  "queues_ok (s\<lparr>cur := m\<rparr>) = queues_ok s" "queues_ok (s\<lparr>sent := out\<rparr>) = queues_ok s"
  by (simp_all add: routes_ok_def queues_ok_def fun_eq_iff)

lemma create_arp_total:
  "valid_interface (r_interface e) \<Longrightarrow>
   \<exists>p. create_arp H junk e = Inr p \<and> p_interface p = r_interface e \<and> len p = 42"
  by (simp add: create_arp_def get_interface_valid Let_def)

lemma do_arp_ok:
  assumes "router_ok s" "packet_ok m" "valid_interface (r_interface e)"
  shows "\<exists>s'. do_arp H junk m e s = Some (Inr s') \<and> router_ok s'"
proof -
  from assms(1) obtain as ws where q: "queues_ok s as ws" and s: "routes_ok s" "full (cur s)"
    unfolding router_ok_def by blast
  then have a: "elements (arp_entries s) = Some (Inr as)" "\<forall>a \<in> set as. length (arp_mac a) = 6"
    by (simp_all add: queues_ok_def elements_holds)
  have m: "full m" "0 \<le> len m" using assms(2) by (simp_all add: packet_ok_def)
  let ?mac = "take 6 (if_mac H (nat (r_interface e)))"
  show ?thesis
  proof (cases "next_hop e \<in> arp_ip ` set as")
    case True
    then show ?thesis
      using assms(3) a s q
      by (auto simp: do_arp_def resolve_cases [OF m(1) a(2)] get_interface_valid send_packet_valid Let_def router_ok_def)
  next
    case False
    let ?p = "put 6 ?mac (m\<lparr>p_interface := r_interface e\<rparr>)"
    let ?w = "\<lparr>w_best = e, w_packet = ?p\<rparr>"
    from q have "queue_holds (messages_to_send s) ws" by (simp add: queues_ok_def)
    from queue_c.enq_holds [OF this, of ?w] obtain mq where
      mq: "queue_enq (messages_to_send s) ?w = Inr mq" "queue_holds mq (ws @ [?w])" by blast
    obtain ap where ap: "create_arp H junk e = Inr ap" "p_interface ap = r_interface e"
      using create_arp_total [OF assms(3)] by blast
    let ?s = "s\<lparr>messages_to_send := mq, sent := sent s @ [(nat (p_interface ap), take (nat (len ap)) (payload ap))]\<rparr>"
    have "do_arp H junk m e s = Some (Inr ?s)"
      using a False assms(3) ap
      by (simp add: do_arp_def resolve_cases [OF m(1) a(2)] get_interface_valid send_packet_valid Let_def mq(1))
    moreover have "waiting_ok as ?w"
      using m assms(3) False by (simp add: waiting_ok_def)
    then have "queues_ok ?s as (ws @ [?w])"
      using q mq(2) by (simp add: queues_ok_def)
    ultimately show ?thesis using s by (auto simp: router_ok_def)
  qed
qed

lemma learn_arp_ok:
  assumes "queues_ok s as ws" "full m"
  shows "\<exists>entries q. learn_arp m s = Inr (s\<lparr>arp_entries := entries, messages_to_send := q,
      sent := sent s @ map (\<lambda>w. sent_as (arp_sha m) (w_packet w)) (filter (\<lambda>w. next_hop (w_best w) = arp_spa m) ws)\<rparr>)
    \<and> queues_ok (s\<lparr>arp_entries := entries, messages_to_send := q\<rparr>)
        (as @ [\<lparr>arp_ip = arp_spa m, arp_mac = arp_sha m\<rparr>]) (filter (\<lambda>w. next_hop (w_best w) \<noteq> arp_spa m) ws)"
proof -
  let ?e = "\<lparr>arp_ip = arp_spa m, arp_mac = arp_sha m\<rparr>"
  have h: "queue_holds (arp_entries s) as" "queue_holds (messages_to_send s) ws"
    "\<forall>w \<in> set ws. valid_interface (p_interface (w_packet w))"
    using assms(1) by (auto simp: queues_ok_def waiting_ok_def)
  from queue_c.enq_holds [OF h(1), of ?e] obtain entries where
    e: "queue_enq (arp_entries s) ?e = Inr entries" "queue_holds entries (as @ [?e])" by blast
  from release_holds [OF h(2) queue_c.holds_create h(3), of "arp_spa m" "arp_sha m" "sent s"] obtain q where
    r: "release (arp_spa m) (arp_sha m) (messages_to_send s) queue_create (sent s)
      = Inr (q, sent s @ map (\<lambda>w. sent_as (arp_sha m) (w_packet w)) (filter (\<lambda>w. next_hop (w_best w) = arp_spa m) ws))"
      "queue_holds q (filter (\<lambda>w. next_hop (w_best w) \<noteq> arp_spa m) ws)" by auto
  have "length (arp_sha m) = 6" using assms(2) by (simp add: arp_sha_def full_length)
  with assms(1) e r have "queues_ok (s\<lparr>arp_entries := entries, messages_to_send := q\<rparr>)
      (as @ [?e]) (filter (\<lambda>w. next_hop (w_best w) \<noteq> arp_spa m) ws)"
    by (auto simp: queues_ok_def waiting_ok_def)
  with e(1) r(1) show ?thesis by (auto simp: learn_arp_def)
qed

lemma answer_arp_ok:
  assumes "packet_ok m" "length mac \<le> 6"
  shows "full (answer_arp mac m)" "p_interface (answer_arp mac m) = p_interface m" "0 \<le> len (answer_arp mac m)"
proof -
  have f: "full m" using assms(1) by (simp add: packet_ok_def)
  have s: "length (ether_shost p) \<le> 1600" "32 + length (arp_sha p) \<le> 1600" for p
    by (simp_all add: ether_shost_def arp_sha_def min_le_iff_disj)
  show "full (answer_arp mac m)"
    unfolding answer_arp_def Let_def full_updates
    by (intro full_put f) (use assms(2) s in simp_all)
  show "p_interface (answer_arp mac m) = p_interface m" "0 \<le> len (answer_arp mac m)"
    by (simp_all add: answer_arp_def Let_def)
qed

lemma handle_arp_ok:
  assumes "router_ok s" "packet_ok m"
  shows "\<exists>s'. handle_arp H m s = Inr s' \<and> router_ok s'"
proof -
  obtain as ws where q: "queues_ok s as ws" using assms(1) unfolding router_ok_def by blast
  have m: "full m" "valid_interface (p_interface m)" using assms(2) by (simp_all add: packet_ok_def)
  show ?thesis
  proof (cases "arp_op m = ntohs ARP_REQUEST \<and> if_ip H (nat (p_interface m)) = arp_tpa m")
    case True
    note ans = answer_arp_ok [OF assms(2), of "take 6 (if_mac H (nat (p_interface m)))"]
    with True m assms(1) show ?thesis
      by (auto simp: handle_arp_def get_interface_valid send_packet_valid Let_def router_ok_def)
  next
    case False
    then have "handle_arp H m s = learn_arp m s"
      using m by (auto simp: handle_arp_def get_interface_valid)
    moreover obtain entries mq out as' ws' where
      "learn_arp m s = Inr (s\<lparr>arp_entries := entries, messages_to_send := mq, sent := out\<rparr>)"
      "queues_ok (s\<lparr>arp_entries := entries, messages_to_send := mq\<rparr>) as' ws'"
      using learn_arp_ok [OF q m(1)] by blast
    ultimately show ?thesis using assms(1) by (auto simp: router_ok_def)
  qed
qed

lemma handle_packet_ok:
  assumes "router_ok s" "packet_ok m" "handle_packet H junk m s = Some r"
  shows "(\<exists>f. r = Inl f \<and> stopped H f) \<or> (\<exists>s'. r = Inr s' \<and> router_ok s')"
proof -
  have s: "table_ok (route_table s) (rtable_len s)"
    "\<forall>e \<in> set (take (nat (rtable_len s)) (route_table s)). valid_interface (r_interface e)"
    using assms(1) by (simp_all add: router_ok_def routes_ok_def)
  have m: "full m" "valid_interface (p_interface m)" "0 \<le> len m" using assms(2) by (simp_all add: packet_ok_def)
  let ?mine = "ether_dhost m = take 6 (if_mac H (nat (p_interface m)))"
  consider (ip) "\<not> len m < 14" "ntohs (ether_type m) = 0x0800" "?mine \<or> ether_dhost m = replicate 6 255"
    | (arp) "\<not> len m < 14" "ntohs (ether_type m) = 0x0806" "ntohs (ether_type m) \<noteq> 0x0800"
    | (ignored) "handle_packet H junk m s = Some (Inr s)"
  proof (cases "len m < 14")
    case True
    with ignored show ?thesis by (simp add: handle_packet_def)
  next
    case False
    with m(2) that show ?thesis
      by (cases "ntohs (ether_type m) = 0x0800"; cases "ntohs (ether_type m) = 0x0806"; cases ?mine;
          cases "ether_dhost m = replicate 6 255")
        (auto simp: handle_packet_def get_interface_valid Let_def)
  qed
  then show ?thesis
  proof cases
    case ip
    then have h: "handle_packet H junk m s = bindR (forward_ip H (route_table s) (rtable_len s) m) (\<lambda>(m, route).
        case route of None \<Rightarrow> Some (Inr (s\<lparr>cur := m\<rparr>)) | Some best \<Rightarrow> do_arp H junk m best (s\<lparr>cur := m\<rparr>))"
      using m(2) by (auto simp: handle_packet_def get_interface_valid Let_def)
    with assms(3) obtain f where f: "forward_ip H (route_table s) (rtable_len s) m = Some f"
      by (cases "forward_ip H (route_table s) (rtable_len s) m") auto
    from forward_ip_result [OF m(1,2) s(1) m(3) f] consider (stop) e where "f = Inl e" "stopped H e"
      | (on) m' b where "f = Inr (m', b)" "full m'" "p_interface m' = p_interface m" "0 \<le> len m'"
          "\<forall>e. b = Some e \<longrightarrow> e \<in> set (take (nat (rtable_len s)) (route_table s))" by blast
    then show ?thesis
    proof cases
    case stop
    with h f assms(3) show ?thesis by auto
    next
    case m': (on m' b)
    note b = m'(5)
    have ok: "router_ok (s\<lparr>cur := m'\<rparr>)" "packet_ok m'"
      using assms(1) m' m(2) by (auto simp: router_ok_def packet_ok_def)
    show ?thesis
    proof (cases b)
      case None
      with h f m'(1) assms(3) ok(1) show ?thesis by auto
    next
      case (Some e)
      with b s(2) have "valid_interface (r_interface e)" by blast
      from do_arp_ok [OF ok this, of H junk] h f m'(1) Some assms(3) show ?thesis by auto
    qed
    qed
  next
    case arp
    then have "handle_packet H junk m s = Some (handle_arp H m s)"
      using m(2) by (simp add: handle_packet_def get_interface_valid Let_def)
    with handle_arp_ok [OF assms(1,2), of H] assms(3) show ?thesis by auto
  next
    case ignored
    with assms show ?thesis by auto
  qed
qed

lemma first_ready_index: "first_ready i fs = Some (k, frame) \<Longrightarrow> i \<le> k \<and> k < i + length fs"
  by (induction i fs rule: first_ready.induct) auto

lemma get_packet_ok: "full c \<Longrightarrow> get_packet ready c = Some m \<Longrightarrow> packet_ok m"
  using first_ready_index [of 0 "take ROUTER_NUM_INTERFACES ready"]
  by (fastforce simp: get_packet_def packet_ok_def socket_receive_message_def Let_def full_def valid_interface_def
      ROUTER_NUM_INTERFACES_def split: option.splits)

lemma router_step_ok:
  assumes "router_ok s" "router_step H e s = Some r"
  shows "(\<exists>f. r = Inl f \<and> stopped H f) \<or> (\<exists>s'. r = Inr s' \<and> router_ok s')"
proof (cases "get_packet (fst e) (cur s)")
  case None
  with assms show ?thesis by (auto simp: router_step_def split: prod.splits)
next
  case (Some m)
  have "packet_ok m" using get_packet_ok [OF _ Some] assms(1) by (simp add: router_ok_def)
  moreover have "router_ok (s\<lparr>cur := m\<rparr>)"
    using assms(1) calculation by (auto simp: router_ok_def packet_ok_def)
  ultimately show ?thesis
    using assms(2) Some handle_packet_ok [of "s\<lparr>cur := m\<rparr>" m H "snd e" r]
    by (auto simp: router_step_def split: prod.splits)
qed

lemma router_run_ok:
  "router_ok s \<Longrightarrow> router_run H es s = Some r \<Longrightarrow>
   (\<exists>f. r = Inl f \<and> stopped H f) \<or> (\<exists>s'. r = Inr s' \<and> router_ok s')"
proof (induction es arbitrary: s)
  case (Cons e es)
  from Cons.prems(2) obtain r1 where r1: "router_step H e s = Some r1"
    by (cases "router_step H e s") auto
  from router_step_ok [OF Cons.prems(1) this] consider f where "r1 = Inl f" "stopped H f" | s1 where "r1 = Inr s1" "router_ok s1"
    by blast
  then show ?case using Cons r1 by cases auto
qed auto

lemma router_init_ok:
  assumes "\<forall>e \<in> set es. route_ok e \<and> valid_interface (r_interface e)" "es \<noteq> []" "length es \<le> ROUTES" "full m"
  shows "\<exists>s. router_init (Some (concat (map (\<lambda>e. route_line e @ [10]) es))) m = Inr s \<and> router_ok s
    \<and> route_table s = qsort rtable_comp es @ replicate (ROUTES - length es) zero_entry \<and> rtable_len s = int (length es)
    \<and> cur s = m \<and> sent s = []"
proof -
  have r: "read_rtable (Some (concat (map (\<lambda>e. route_line e @ [10]) es))) (replicate ROUTES zero_entry)
      = Inr (length es, es @ replicate (ROUTES - length es) zero_entry)"
    using read_lines_text [of es 0 "replicate ROUTES zero_entry"] assms(1,3) by (simp add: read_rtable_def)
  show ?thesis
    using assms(1,2,4)
    by (auto simp: router_init_def r router_ok_def routes_ok_def table_ok_def queues_ok_def Suc_le_eq
        intro!: exI [of _ "[]"] queue_c.holds_create)
qed

end
