(* ===== verification/Router_Props.thy ===== *)
theory Router_Props
  imports Router_Facts
begin

text \<open>
  The properties of the router of \<open>tema1\<close>: its runs reach no undefined behaviour but one, the packets
  that wait, their release, the end of the route search, and what forwarding does to the IP
  header. The last section shows where the replies it makes go wrong.
\<close>

section \<open>The header of a forwarded packet\<close>

lemma bytes_at_split: "bytes_at off (a + b) m = bytes_at off a m @ bytes_at (off + a) b m"
  by (simp add: bytes_at_def take_add add.commute)

lemma bytes_at_one: "off < length (payload m) \<Longrightarrow> bytes_at off (Suc 0) m = [payload m ! off]"
  by (simp add: bytes_at_def take_Suc_conv_app_nth hd_drop_conv_nth take_Suc)

text \<open>The sum over the header, by its parts.\<close>

lemma header_sum:
  assumes "full m"
  shows "rfc_sum (bytes_at 14 20 m) = rfc_sum (bytes_at 14 8 m) + (256 * unat (ip_ttl m) + unat (ip_protocol m))
    + rfc_sum (bytes_at 24 2 m) + rfc_sum (bytes_at 26 8 m)"
proof -
  have "bytes_at 14 20 m = bytes_at 14 8 m @ bytes_at 22 1 m @ bytes_at 23 1 m @ bytes_at 24 2 m @ bytes_at 26 8 m"
    using bytes_at_split [of 14 8 12 m] bytes_at_split [of 22 1 11 m] bytes_at_split [of 23 1 10 m]
      bytes_at_split [of 24 2 8 m] by simp
  then show ?thesis
    using full_length [OF assms] by (simp add: bytes_at_one rfc_sum_append ip_ttl_def ip_protocol_def)
qed

lemma word16_less: "unat (w :: u16) < 65536"
proof -
  have "unat w < 2 ^ LENGTH(16)" by (rule unsigned_less)
  then show ?thesis by simp
qed

lemma no_bit_16: "16 \<le> n \<Longrightarrow> \<not> bit (w :: u16) n"
  using bit_imp_le_length [of w n] by auto

lemma ntohs_nat: "unat (ntohs w) = 256 * (unat w mod 256) + unat w div 256"
proof -
  have a: "ntohs w = push_bit 8 w + drop_bit 8 w"
    unfolding ntohs_def
    by (subst disjunctive_add_eq_or) (auto intro!: bit_word_eqI simp: bit_simps no_bit_16)
  have d: "unat (drop_bit 8 w) = unat w div 256"
    using word16_less [of w] by (simp only: unsigned_drop_bit_eq) (simp add: drop_bit_eq_div take_bit_nat_eq_self)
  have "unat w * 256 mod 65536 = 256 * (unat w mod 256)"
    using mult_mod_right [of 256 "unat w" 256] by (simp add: mult.commute)
  then have p: "unat (push_bit 8 w) = 256 * (unat w mod 256)"
    by (simp only: unsigned_push_bit_eq) (simp add: push_bit_eq_mult take_bit_eq_mod)
  have "256 * (unat w mod 256) + unat w div 256 < 65536"
    using word16_less [of w] by (cases "w = 0") (use swap_mod(3) [of "unat w"] in \<open>simp_all add: unat_gt_0\<close>)
  then show ?thesis unfolding a using p d by (subst unat_add_lem [THEN iffD1]) simp_all
qed

lemma ntohs_mod: "unat (ntohs w) mod 65535 = 256 * unat w mod 65535"
  using swap_mod(1) [of "unat w"] word16_less [of w] by (cases "w = 0") (simp_all add: ntohs_nat unat_gt_0)

text \<open>The two bytes that store a checksum, summed as the header is.\<close>

lemma rfc_sum_le16: "rfc_sum (le16 c) = unat (ntohs c)"
proof -
  have "unat (ucast c :: byte) = unat c mod 256" "unat (ucast (drop_bit 8 c) :: byte) = unat c div 256"
    using word16_less [of c]
    by (simp_all add: unsigned_ucast_eq take_bit_eq_mod unsigned_drop_bit_eq drop_bit_eq_div unat_div less_mult_imp_div_less)
  then show ?thesis by (simp add: le16_def ntohs_nat)
qed

lemma unat_pred: "1 \<le> unat (t :: byte) \<Longrightarrow> unat (t - 1) = unat t - 1"
  by (simp add: unat_minus_one unat_gt_0 Suc_le_eq)

lemma complement_zero: "(65535 - s mod 65535 + s) mod 65535 = (0 :: nat)"
proof -
  have "(65535 - s mod 65535 + s) mod 65535 = (65535 - s mod 65535 + s mod 65535) mod 65535"
    by (simp only: mod_add_right_eq)
  moreover have "s mod 65535 < 65535" by simp
  ultimately show ?thesis by simp
qed

text \<open>Decreasing the TTL by one makes the update formula add one.\<close>

lemma update_check_decrement:
  assumes "1 \<le> unat t"
  shows "update_check c t (t - 1) = c + 1"
proof -
  have "1 \<le> uint t" using assms by (simp only: unat_eq_nat_uint)
  then have "uint (1 :: byte) \<le> uint t" by simp
  then have "uint (t - 1) = uint t - uint (1 :: byte)" by (rule uint_sub_lem [THEN iffD1])
  then have "uint c - (- uint t - 1) - uint (t - 1) - 1 = uint c + 1" by simp
  then have "update_check c t (t - 1) = word_of_int (uint c + 1)" by (simp only: update_check_def)
  then show ?thesis by simp
qed

lemma header_checksum_sum:
  "full m \<Longrightarrow> unat (ntohs (header_checksum m)) = (65535 - rfc_sum (bytes_at 14 20 m) mod 65535) mod 65535"
  unfolding header_checksum_def by (rule ip_checksum_value) (simp_all add: full_length)

text \<open>The packet that \<open>forward_ip\<close> hands to the route search.\<close>

definition forwarded :: "packet \<Rightarrow> packet" where
  "forwarded m =
     (let m0 = put 24 [0, 0] m
      in put 24 (le16 (update_check (header_checksum m0) (ip_ttl m) (ip_ttl m - 1))) (put 22 [ip_ttl m - 1] m0))"

lemma forwarded_fields:
  assumes "full m"
  shows "full (forwarded m)" "p_interface (forwarded m) = p_interface m" "len (forwarded m) = len m"
    "ip_ttl (forwarded m) = ip_ttl m - 1" "ip_daddr (forwarded m) = ip_daddr m" "ip_saddr (forwarded m) = ip_saddr m"
    "ip_protocol (forwarded m) = ip_protocol m"
    "i \<notin> {22, 24, 25} \<Longrightarrow> payload (forwarded m) ! i = payload m ! i"
    "bytes_at 34 2 (forwarded m) = bytes_at 34 2 m"
  using assms
  by (simp_all add: forwarded_def Let_def header full_length ip_ttl_def ip_daddr_def ip_saddr_def ip_protocol_def)
    (cases "i < 22 \<or> i = 23 \<or> 26 \<le> i"; auto simp: header full_length)

lemma forward_ip_accepts:
  assumes "full m" "valid_interface (p_interface m)" "ip_check m = header_checksum (put 24 [0, 0] m)"
  shows "forward_ip H rt n m =
    bindR (Some (if ip_daddr m = if_ip H (nat (p_interface m)) \<and> ip_protocol m = IP_ICMP_PROTOCOL
        then create_echo_reply (forwarded m)
      else if ip_ttl m - 1 \<le> 0 then bindE (create_error_icmp H (forwarded m) ICMP_TLE_TYPE 0) (\<lambda>m. Inr (refresh_check m))
      else Inr (forwarded m))) (\<lambda>m.
    bindR (best_route_search H rt n m) (\<lambda>(m, best). Some (Inr (m, Some best))))"
proof -
  have z: "ip_ttl (put 24 [0, 0] m) = ip_ttl m" using assms(1) by (simp add: ip_ttl_def header full_length)
  have f: "put 24 (le16 (update_check (header_checksum (put 24 [0, 0] m)) (ip_ttl (put 24 [0, 0] m))
      (ip_ttl (put 22 [ip_ttl (put 24 [0, 0] m) - 1] (put 24 [0, 0] m)))))
      (put 22 [ip_ttl (put 24 [0, 0] m) - 1] (put 24 [0, 0] m)) = forwarded m"
    using assms(1) by (simp add: forwarded_def Let_def z) (simp add: ip_ttl_def header full_length)
  show ?thesis
    using assms(2,3) forwarded_fields [OF assms(1)]
    by (simp add: forward_ip_def get_interface_valid Let_def f)
qed

text \<open>The new checksum is right: the header sums up to a multiple of 65535 again.\<close>

lemma forwarded_sum:
  assumes "full m" "1 \<le> unat (ip_ttl m)"
  shows "rfc_sum (bytes_at 14 20 (forwarded m)) mod 65535 = 0"
proof -
  let ?m0 = "put 24 [0, 0] m"
  let ?a = "header_checksum ?m0"
  let ?S = "rfc_sum (bytes_at 14 20 ?m0)"
  let ?A = "rfc_sum (bytes_at 14 8 m)" and ?B = "rfc_sum (bytes_at 26 8 m)"
  let ?t = "unat (ip_ttl m)" and ?p = "unat (ip_protocol m)"
  have f0: "full ?m0" using assms(1) by simp
  have z: "ip_ttl ?m0 = ip_ttl m" "ip_protocol ?m0 = ip_protocol m" "bytes_at 14 8 ?m0 = bytes_at 14 8 m"
    "bytes_at 24 2 ?m0 = [0, 0]" "bytes_at 26 8 ?m0 = bytes_at 26 8 m"
    using assms(1) by (simp_all add: ip_ttl_def ip_protocol_def header full_length)
  have S: "?S = ?A + (256 * ?t + ?p) + ?B" using header_sum [OF f0] by (simp add: z)
  have c: "unat (ntohs ?a) = (65535 - ?S mod 65535) mod 65535" by (rule header_checksum_sum [OF f0])
  have a: "unat (?a + 1) = unat ?a + 1"
  proof -
    have "unat ?a \<noteq> 65535"
    proof
      assume "unat ?a = 65535"
      then have "unat (ntohs ?a) = 65535" by (simp add: ntohs_nat)
      with c show False by (metis mod_less_divisor nat_less_le zero_less_numeral)
    qed
    then have "unat ?a + 1 < 65536" using word16_less [of ?a] by simp
    then show ?thesis by (subst unat_add_lem [THEN iffD1]) simp_all
  qed
  have u: "update_check ?a (ip_ttl m) (ip_ttl m - 1) = ?a + 1" by (rule update_check_decrement [OF assms(2)])
  have parts: "bytes_at 14 8 (forwarded m) = bytes_at 14 8 m" "bytes_at 26 8 (forwarded m) = bytes_at 26 8 m"
    "bytes_at 24 2 (forwarded m) = le16 (?a + 1)"
    using assms(1) by (simp_all add: forwarded_def Let_def u header full_length)
  have t: "unat (ip_ttl m - 1) = ?t - 1" by (rule unat_pred [OF assms(2)])
  have "rfc_sum (bytes_at 14 20 (forwarded m)) = ?A + (256 * (?t - 1) + ?p) + unat (ntohs (?a + 1)) + ?B"
    using header_sum [OF forwarded_fields(1) [OF assms(1)]] forwarded_fields [OF assms(1)]
    by (simp add: parts t rfc_sum_le16)
  also have "\<dots> mod 65535 = (?A + (256 * (?t - 1) + ?p) + (unat (ntohs ?a) + 256) + ?B) mod 65535"
  proof -
    have "unat (ntohs (?a + 1)) mod 65535 = (256 * unat ?a + 256) mod 65535"
      by (simp only: ntohs_mod a) (simp add: algebra_simps)
    also have "\<dots> = (unat (ntohs ?a) + 256) mod 65535"
      by (rule mod_add_cong) (simp_all add: ntohs_mod)
    finally show ?thesis by (intro mod_add_cong) simp_all
  qed
  also have "?A + (256 * (?t - 1) + ?p) + (unat (ntohs ?a) + 256) + ?B = unat (ntohs ?a) + ?S"
    using assms(2) S by (simp add: diff_mult_distrib2)
  also have "(unat (ntohs ?a) + ?S) mod 65535 = 0"
    unfolding c by (simp only: mod_add_left_eq complement_zero)
  finally show ?thesis .
qed

section \<open>Samples\<close>

text \<open>
  A frame for the router: an IP packet that fills the buffer, with TTL \<open>ttl\<close>, protocol \<open>proto\<close>, ICMP type 8,
  destination 0.0.0.0 and the checksum that makes it acceptable; and two hosts, one on which an overlapping copy
  leaves zeros and one on which it ends the program.
\<close>

definition sample :: "byte \<Rightarrow> byte \<Rightarrow> packet" where
  "sample ttl proto = refresh_check
     \<lparr>len = 1600, payload = replicate 6 1 @ replicate 6 0 @ [8, 0] @ replicate 8 0 @ [ttl, proto] @ replicate 10 0 @ [8] @ replicate 1565 0, p_interface = 0\<rparr>"

definition sample_host :: host where
  "sample_host = \<lparr>if_ip = (\<lambda>_. 7), if_mac = (\<lambda>_. replicate 6 1), overlap = (\<lambda>_. Some [])\<rparr>"

definition strict_host :: host where
  "strict_host = sample_host\<lparr>overlap := (\<lambda>_. None)\<rparr>"

lemma sample_ok:
  "full (sample ttl proto)" "valid_interface (p_interface (sample ttl proto))" "ip_ttl (sample ttl proto) = ttl"
  "ip_protocol (sample ttl proto) = proto" "ip_daddr (sample ttl proto) = 0" "bytes_at 34 2 (sample ttl proto) = [8, 0]"
  "ip_check (sample ttl proto) = header_checksum (put 24 [0, 0] (sample ttl proto))"
proof -
  let ?m = "\<lparr>len = 1600, payload = replicate 6 1 @ replicate 6 0 @ [8, 0] @ replicate 8 0 @ [ttl, proto] @ replicate 10 0 @ [8] @ replicate 1565 0, p_interface = 0\<rparr>"
  have f: "full ?m" by (simp add: full_def MAX_LEN_def)
  show "full (sample ttl proto)" "valid_interface (p_interface (sample ttl proto))" "ip_ttl (sample ttl proto) = ttl"
    using f refresh_check_frame [OF f] by (simp_all add: sample_def valid_interface_def) (simp add: ip_ttl_def nth_append)
  have d: "bytes_at 30 4 ?m = [0, 0, 0, 0]" by (simp add: bytes_at_def eval_nat_numeral)
  show "ip_daddr (sample ttl proto) = 0"
    using refresh_check_frame [OF f] d by (simp add: sample_def) (simp add: ip_daddr_def of_le32_def)
  show "ip_protocol (sample ttl proto) = proto"
    using f by (simp add: sample_def refresh_check_def Let_def ip_protocol_def header full_length) (simp add: nth_append)
  have "bytes_at 34 2 ?m = [8, 0]" by (simp add: bytes_at_def eval_nat_numeral)
  then show "bytes_at 34 2 (sample ttl proto) = [8, 0]"
    using f by (simp add: sample_def refresh_check_def Let_def header full_length)
  have "put 24 [0, 0] (put 24 (le16 x) (put 24 [0, 0] ?m)) = put 24 [0, 0] ?m" for x
    using f by (simp add: put_twice full_length)
  then show "ip_check (sample ttl proto) = header_checksum (put 24 [0, 0] (sample ttl proto))"
    using f by (simp add: sample_def refresh_check_def Let_def ip_check_def header full_length)
qed

lemma leads_default: "leads [zero_entry] 1 ip zero_entry"
  by (auto simp: leads_def binary_search.simps entry_at_def zero_entry_def)

text \<open>A table with a default route, and the frame on the first interface of a router that uses it.\<close>

definition sample_route :: route_table_entry where
  "sample_route = \<lparr>prefix = 0, next_hop = 0x020401C0, mask = 0, r_interface = 1\<rparr>"

definition sample_file :: "byte list" where
  "sample_file = concat (map (\<lambda>e. route_line e @ [10]) [sample_route])"

definition sample_start :: packet where
  "sample_start = \<lparr>len = 0, payload = replicate 1600 0, p_interface = 0\<rparr>"

definition sample_junk :: junk where
  "sample_junk = \<lparr>heap_block = replicate 28 0, stack_packet = replicate 1600 0\<rparr>"

definition sample_event :: "byte \<Rightarrow> byte \<Rightarrow> byte list option list \<times> junk" where
  "sample_event ttl proto = ([Some (payload (sample ttl proto)), None, None], sample_junk)"

lemma sample_routes:
  "\<forall>e \<in> set [sample_route]. route_ok e \<and> valid_interface (r_interface e)" "[sample_route] \<noteq> []"
  "length [sample_route] \<le> ROUTES" "full sample_start"
  by (simp_all add: sample_route_def sample_start_def route_ok_def valid_interface_def ROUTES_def full_def MAX_LEN_def)

lemma sample_started:
  obtains s where "router_init (Some sample_file) sample_start = Inr s" "router_ok s" "rtable_len s = 1"
    "\<And>ip. leads (route_table s) 1 ip sample_route" "cur s = sample_start" "sent s = []"
proof -
  from router_init_ok [OF sample_routes] obtain s where
    s: "router_init (Some sample_file) sample_start = Inr s" "router_ok s" "rtable_len s = 1" "cur s = sample_start" "sent s = []"
      and rt: "route_table s = qsort rtable_comp [sample_route] @ replicate (ROUTES - 1) zero_entry"
    by (auto simp: sample_file_def)
  have "qsort rtable_comp [sample_route] = [sample_route]" by (simp add: qsort_def)
  then have "leads (route_table s) 1 ip sample_route" for ip
    by (auto simp: rt leads_def binary_search.simps entry_at_def sample_route_def)
  with s that show thesis by blast
qed

lemma sample_received:
  assumes "full c"
  shows "get_packet (fst (sample_event ttl proto)) c = Some (sample ttl proto)"
proof -
  have f: "length (payload (sample ttl proto)) = 1600" using sample_ok(1) by (simp add: full_length)
  have "len (sample ttl proto) = 1600" "p_interface (sample ttl proto) = 0" by (simp_all add: sample_def refresh_check_def Let_def)
  then show ?thesis
    using f assms by (simp add: sample_event_def get_packet_def ROUTER_NUM_INTERFACES_def socket_receive_message_def MAX_LEN_def
        full_length)
qed

lemma sample_handled:
  assumes "if_mac H 0 = replicate 6 1"
  shows "handle_packet H junk (sample ttl proto) s =
    bindR (forward_ip H (route_table s) (rtable_len s) (sample ttl proto)) (\<lambda>(m, route).
      case route of None \<Rightarrow> Some (Inr (s\<lparr>cur := m\<rparr>)) | Some best \<Rightarrow> do_arp H junk m best (s\<lparr>cur := m\<rparr>))"
proof -
  let ?m = "\<lparr>len = 1600, payload = replicate 6 1 @ replicate 6 0 @ [8, 0] @ replicate 8 0 @ [ttl, proto] @ replicate 10 0 @ [8] @ replicate 1565 0,
    p_interface = 0\<rparr>"
  have f: "full ?m" by (simp add: full_def MAX_LEN_def)
  have "bytes_at 0 6 ?m = replicate 6 1" "bytes_at 12 2 ?m = [8, 0]" by (simp_all add: bytes_at_def eval_nat_numeral)
  then have "ether_dhost (sample ttl proto) = replicate 6 1" "ether_type (sample ttl proto) = of_le16 [8, 0]"
    using f by (simp_all add: sample_def refresh_check_def Let_def ether_dhost_def ether_type_def header full_length)
  moreover have "ntohs (of_le16 [8, 0]) = 0x0800" by (simp add: of_le16_def ntohs_def)
  moreover have "len (sample ttl proto) = 1600" "p_interface (sample ttl proto) = 0" by (simp_all add: sample_def refresh_check_def Let_def)
  moreover have "get_interface_mac H 0 = Inr (replicate 6 1)"
    using assms by (simp add: get_interface_mac_def interface_index_def ROUTER_NUM_INTERFACES_def)
  ultimately show ?thesis by (simp add: handle_packet_def)
qed

section \<open>Runs\<close>

text \<open>
  C3. Started with a file that lists at least one route, all through existing interfaces, the
  router reaches no undefined behaviour but one, whatever frames arrive on its interfaces: there is no access
  outside the arrays or through a null or freed list cell, and no failed assertion. The one is the \<open>memcpy\<close> of
  \<open>create_error_icmp\<close>, whose source and destination overlap; the run stops there only on a machine on
  which such a copy does not leave some bytes and go on.
\<close>

theorem router_faults_only_by_overlap:
  assumes "\<forall>e \<in> set es. route_ok e \<and> valid_interface (r_interface e)" "es \<noteq> []" "length es \<le> ROUTES" "full m"
    and "router_main H (Some (concat (map (\<lambda>e. route_line e @ [10]) es))) m events = Some (Inl f)"
  shows "f = Overlapping_copy \<and> (\<exists>bs. overlap H bs = None)"
proof -
  from router_init_ok [OF assms(1-4)] obtain s where
    s: "router_init (Some (concat (map (\<lambda>e. route_line e @ [10]) es))) m = Inr s" "router_ok s" by blast
  with assms(5) have "router_run H events s = Some (Inl f)" by (simp add: router_main_def)
  from router_run_ok [OF s(2) this] show ?thesis by (auto simp: stopped_def)
qed

text \<open>A packet whose TTL runs out, on a machine where the copy ends the program.\<close>

theorem router_faults_only_by_overlap_witness:
  "\<exists>f. router_main strict_host (Some sample_file) sample_start [sample_event 1 17] = Some (Inl f)
    \<and> f = Overlapping_copy \<and> (\<exists>bs. overlap strict_host bs = None)"
proof (rule sample_started)
  fix s assume s: "router_init (Some sample_file) sample_start = Inr s" "router_ok s" "rtable_len s = 1" "cur s = sample_start"
  have "forward_ip strict_host (route_table s) 1 (sample 1 17) = Some (Inl Overlapping_copy)"
    using sample_ok [of 1 17] by (simp add: forward_ip_accepts IP_ICMP_PROTOCOL_def create_error_icmp_stops strict_host_def)
  then have "handle_packet strict_host sample_junk (sample 1 17) (s\<lparr>cur := sample 1 17\<rparr>) = Some (Inl Overlapping_copy)"
    using s(3) by (simp add: sample_handled strict_host_def sample_host_def)
  then have "router_main strict_host (Some sample_file) sample_start [sample_event 1 17] = Some (Inl Overlapping_copy)"
    using s sample_received [OF sample_routes(4), of 1 17] by (simp add: router_main_def router_step_def sample_event_def)
  with router_faults_only_by_overlap [OF sample_routes this [unfolded sample_file_def]] show ?thesis by blast
qed

text \<open>
  C17. In every state such a run reaches, both queues are intact, and a packet waits only as long
  as no ARP entry resolves its next hop; it waits with the interface of its route.
\<close>

theorem router_waits_for_arp:
  assumes "\<forall>e \<in> set es. route_ok e \<and> valid_interface (r_interface e)" "es \<noteq> []" "length es \<le> ROUTES" "full m"
    and "router_main H (Some (concat (map (\<lambda>e. route_line e @ [10]) es))) m events = Some (Inr s)"
  shows "\<exists>as ws. queue_holds (arp_entries s) as \<and> queue_holds (messages_to_send s) ws
    \<and> (\<forall>w \<in> set ws. next_hop (w_best w) \<notin> arp_ip ` set as \<and> p_interface (w_packet w) = r_interface (w_best w))"
proof -
  from router_init_ok [OF assms(1-4)] obtain s0 where
    s0: "router_init (Some (concat (map (\<lambda>e. route_line e @ [10]) es))) m = Inr s0" "router_ok s0" by blast
  with assms(5) have "router_run H events s0 = Some (Inr s)" by (simp add: router_main_def)
  from router_run_ok [OF s0(2) this] obtain as ws where "queues_ok s as ws" by (auto simp: router_ok_def)
  then show ?thesis by (intro exI [of _ as] exI [of _ ws]) (auto simp: queues_ok_def waiting_ok_def)
qed

text \<open>The run that receives one packet to forward: an ARP request is sent, and the packet waits.\<close>

lemma do_arp_waits:
  assumes "queue_holds (arp_entries s) []" "queue_holds (messages_to_send s) []" "valid_interface (r_interface e)"
  obtains s' w where "do_arp H junk m e s = Some (Inr s')" "queue_holds (arp_entries s') []"
    "queue_holds (messages_to_send s') [w]" "w_best w = e" "length (sent s') = length (sent s) + 1"
proof -
  let ?w = "\<lparr>w_best = e, w_packet = put 6 (take 6 (if_mac H (nat (r_interface e)))) (m\<lparr>p_interface := r_interface e\<rparr>)\<rparr>"
  obtain q where q: "queue_enq (messages_to_send s) ?w = Inr q" "queue_holds q [?w]"
    using queue_c.enq_holds [OF assms(2), of ?w] by auto
  obtain ap where ap: "create_arp H junk e = Inr ap" "p_interface ap = r_interface e"
    using create_arp_total [OF assms(3)] by blast
  let ?s = "s\<lparr>messages_to_send := q, sent := sent s @ [(nat (p_interface ap), take (nat (len ap)) (payload ap))]\<rparr>"
  have "do_arp H junk m e s = Some (Inr ?s)"
    using assms q(1) ap by (simp add: do_arp_def elements_holds resolve_def get_interface_valid send_packet_valid Let_def)
  with that [of ?s ?w] q(2) assms(1) show thesis by simp
qed

theorem router_waits_for_arp_witness:
  "\<exists>s w. router_main sample_host (Some sample_file) sample_start [sample_event 64 17] = Some (Inr s)
    \<and> queue_holds (arp_entries s) [] \<and> queue_holds (messages_to_send s) [w] \<and> length (sent s) = 1
    \<and> next_hop (w_best w) = 0x020401C0 \<and> p_interface (w_packet w) = r_interface (w_best w)"
proof (rule sample_started)
  fix s assume s: "router_init (Some sample_file) sample_start = Inr s" "router_ok s" "rtable_len s = 1" "cur s = sample_start"
    "sent s = []" and leads: "\<And>ip. leads (route_table s) 1 ip sample_route"
  have q: "arp_entries s = queue_create" "messages_to_send s = queue_create"
    using s(1) by (auto simp: router_init_def)
  have "\<not> (64 :: byte) - 1 \<le> 0" by simp
  then have "forward_ip sample_host (route_table s) 1 (sample 64 17) = Some (Inr (forwarded (sample 64 17), Some sample_route))"
    using sample_ok [of 64 17] best_route_search_leads [OF leads] by (simp add: forward_ip_accepts IP_ICMP_PROTOCOL_def)
  then have "handle_packet sample_host sample_junk (sample 64 17) (s\<lparr>cur := sample 64 17\<rparr>)
      = do_arp sample_host sample_junk (forwarded (sample 64 17)) sample_route (s\<lparr>cur := forwarded (sample 64 17)\<rparr>)"
    using s(3) by (simp add: sample_handled sample_host_def)
  moreover obtain s' w where s': "do_arp sample_host sample_junk (forwarded (sample 64 17)) sample_route (s\<lparr>cur := forwarded (sample 64 17)\<rparr>)
      = Some (Inr s')" "queue_holds (arp_entries s') []" "queue_holds (messages_to_send s') [w]" "w_best w = sample_route" "length (sent s') = 1"
    by (rule do_arp_waits [of "s\<lparr>cur := forwarded (sample 64 17)\<rparr>" sample_route sample_host sample_junk "forwarded (sample 64 17)"])
      (use q s(5) in \<open>auto simp: queue_c.holds_create sample_route_def valid_interface_def\<close>)
  ultimately have run: "router_main sample_host (Some sample_file) sample_start [sample_event 64 17] = Some (Inr s')"
    using s sample_received [OF sample_routes(4), of 64 17] by (simp add: router_main_def router_step_def sample_event_def)
  from router_waits_for_arp [OF sample_routes run [unfolded sample_file_def]] obtain ws where
    ws: "queue_holds (messages_to_send s') ws" "\<forall>w \<in> set ws. p_interface (w_packet w) = r_interface (w_best w)" by blast
  have "ws = [w]" by (rule queue_c.holds_unique [OF ws(1) s'(3)])
  with run ws(2) s' show ?thesis by (auto simp: sample_route_def)
qed

text \<open>
  C28. An ARP frame that is not a request for the router's own address adds an entry for its sender, and the packets
  that wait for the sender are sent to the hardware address it names, once each and in the order
  they came; the others wait on in their order.
\<close>

theorem arp_frame_releases:
  assumes "queue_holds (arp_entries s) as" "queue_holds (messages_to_send s) ws"
    and "\<forall>w \<in> set ws. valid_interface (p_interface (w_packet w))"
    and "14 \<le> len m" "valid_interface (p_interface m)" "ntohs (ether_type m) = 0x0806"
    and "arp_op m \<noteq> ntohs ARP_REQUEST \<or> arp_tpa m \<noteq> if_ip H (nat (p_interface m))"
  shows "\<exists>s'. handle_packet H junk m s = Some (Inr s')
    \<and> queue_holds (arp_entries s') (as @ [\<lparr>arp_ip = arp_spa m, arp_mac = arp_sha m\<rparr>])
    \<and> queue_holds (messages_to_send s') (filter (\<lambda>w. next_hop (w_best w) \<noteq> arp_spa m) ws)
    \<and> sent s' = sent s @ map (\<lambda>w. (nat (p_interface (w_packet w)),
          take (nat (len (w_packet w))) (arp_sha m @ drop (length (arp_sha m)) (payload (w_packet w)))))
        (filter (\<lambda>w. next_hop (w_best w) = arp_spa m) ws)"
proof -
  let ?e = "\<lparr>arp_ip = arp_spa m, arp_mac = arp_sha m\<rparr>"
  have "handle_packet H junk m s = Some (learn_arp m s)"
    using assms(4-7) by (auto simp: handle_packet_def handle_arp_def get_interface_valid Let_def)
  moreover from queue_c.enq_holds [OF assms(1), of ?e] obtain entries where
    e: "queue_enq (arp_entries s) ?e = Inr entries" "queue_holds entries (as @ [?e])" by blast
  from release_holds [OF assms(2) queue_c.holds_create assms(3), of "arp_spa m" "arp_sha m" "sent s"] e
  have "\<exists>s'. learn_arp m s = Inr s' \<and> queue_holds (arp_entries s') (as @ [?e])
    \<and> queue_holds (messages_to_send s') (filter (\<lambda>w. next_hop (w_best w) \<noteq> arp_spa m) ws)
    \<and> sent s' = sent s @ map (\<lambda>w. (nat (p_interface (w_packet w)),
          take (nat (len (w_packet w))) (arp_sha m @ drop (length (arp_sha m)) (payload (w_packet w)))))
        (filter (\<lambda>w. next_hop (w_best w) = arp_spa m) ws)"
    by (auto simp: learn_arp_def sent_as_def put_def)
  ultimately show ?thesis by auto
qed

text \<open>A reply from 192.1.4.2, for which one of two waiting packets waits.\<close>

definition sample_reply :: packet where
  "sample_reply = \<lparr>len = 42, payload = replicate 12 1 @ [8, 6, 0, 1, 8, 0, 6, 4, 0, 2] @ replicate 6 2 @ [192, 1, 4, 2] @ replicate 1568 0,
     p_interface = 1\<rparr>"

definition sample_waiting :: "u32 \<Rightarrow> packet_with_best" where
  "sample_waiting hop = \<lparr>w_best = sample_route\<lparr>next_hop := hop\<rparr>, w_packet = \<lparr>len = 60, payload = replicate 1600 9, p_interface = 1\<rparr>\<rparr>"

definition sample_router :: "packet_with_best queue \<Rightarrow> router" where
  "sample_router q = \<lparr>route_table = [sample_route], rtable_len = 1, arp_entries = queue_create, messages_to_send = q,
     cur = sample_start, sent = []\<rparr>"

theorem arp_frame_releases_witness:
  "\<exists>q s'. queue_holds q [sample_waiting 5, sample_waiting 0x020401C0, sample_waiting 6]
    \<and> handle_packet sample_host sample_junk sample_reply (sample_router q) = Some (Inr s')
    \<and> queue_holds (arp_entries s') [\<lparr>arp_ip = 0x020401C0, arp_mac = replicate 6 2\<rparr>]
    \<and> queue_holds (messages_to_send s') [sample_waiting 5, sample_waiting 6]
    \<and> sent s' = [(1, replicate 6 2 @ replicate 54 9)]"
proof -
  obtain q where q: "queue_holds q [sample_waiting 5, sample_waiting 0x020401C0, sample_waiting 6]"
    using queue_c.enq_all_holds [OF queue_c.holds_create, of "[sample_waiting 5, sample_waiting 0x020401C0, sample_waiting 6]"] by auto
  have r: "bytes_at 12 2 sample_reply = [8, 6]" "bytes_at 20 2 sample_reply = [0, 2]" "bytes_at 22 6 sample_reply = replicate 6 2"
    "bytes_at 28 4 sample_reply = [192, 1, 4, 2]"
    by (simp_all add: sample_reply_def bytes_at_def eval_nat_numeral)
  have w: "ntohs (of_le16 [8, 6]) = 0x0806" "of_le16 [0, 2] \<noteq> ntohs 1" "of_le32 [192, 1, 4, 2] = 0x020401C0"
    by (simp_all add: of_le16_def of_le32_def ntohs_def)
  have "\<exists>s'. handle_packet sample_host sample_junk sample_reply (sample_router q) = Some (Inr s')
    \<and> queue_holds (arp_entries s') ([] @ [\<lparr>arp_ip = arp_spa sample_reply, arp_mac = arp_sha sample_reply\<rparr>])
    \<and> queue_holds (messages_to_send s') (filter (\<lambda>w. next_hop (w_best w) \<noteq> arp_spa sample_reply)
        [sample_waiting 5, sample_waiting 0x020401C0, sample_waiting 6])
    \<and> sent s' = sent (sample_router q) @ map (\<lambda>w. (nat (p_interface (w_packet w)),
          take (nat (len (w_packet w))) (arp_sha sample_reply @ drop (length (arp_sha sample_reply)) (payload (w_packet w)))))
        (filter (\<lambda>w. next_hop (w_best w) = arp_spa sample_reply) [sample_waiting 5, sample_waiting 0x020401C0, sample_waiting 6])"
    by (rule arp_frame_releases)
      (use q r w in \<open>simp_all add: sample_router_def queue_c.holds_create sample_waiting_def valid_interface_def ether_type_def arp_op_def
        ARP_REQUEST_def\<close>, simp_all add: sample_reply_def)
  then show ?thesis
    using q by (intro exI [of _ q]) (simp add: arp_spa_def arp_sha_def r w sample_waiting_def sample_router_def sample_route_def)
qed

section \<open>The route search\<close>

text \<open>
  C9. The search for a route, which turns the packet into an ICMP message to its sender when
  there is none and starts again, returns if and only if the table leads to the destination, to
  the sender, or to the router's own address on that interface; otherwise it calls itself for
  ever. This holds whatever bytes the overlapping copy of \<open>create_error_icmp\<close> leaves.
\<close>

theorem route_search_returns:
  assumes "full m" "valid_interface (p_interface m)" "table_ok rt n" "\<forall>bs. overlap H bs \<noteq> None"
  shows "(\<exists>r. best_route_search H rt n m = Some r) \<longleftrightarrow>
    (\<exists>ip e. ip \<in> {ip_daddr m, ip_saddr m, if_ip H (nat (p_interface m))} \<and> leads rt n ip e)"
proof (cases "\<exists>ip e. ip \<in> {ip_daddr m, ip_saddr m, if_ip H (nat (p_interface m))} \<and> leads rt n ip e")
  case False
  with best_route_search_loops [OF assms(1-3), of H] assms(4) [folded goes_on_def] show ?thesis by (metis insertCI option.distinct(1))
next
  case True
  note err = best_route_search_error [OF assms(3)]
  obtain m1 where m1: "create_error_icmp H m ICMP_DEST_UNREACHABLE 0 = Inr m1" "full m1" "p_interface m1 = p_interface m"
    "ip_daddr m1 = ip_saddr m" "ip_saddr m1 = if_ip H (nat (p_interface m))"
    using create_error_icmp_total [OF assms(1,2)] assms(4) by blast
  note r1 = refresh_check_frame [OF m1(2)]
  obtain m2 where m2: "create_error_icmp H (refresh_check m1) ICMP_DEST_UNREACHABLE 0 = Inr m2" "full m2"
    "ip_daddr m2 = if_ip H (nat (p_interface m))"
    using create_error_icmp_total [OF r1(1), of H ICMP_DEST_UNREACHABLE 0] r1 m1 assms(2,4) by auto
  note r2 = refresh_check_frame [OF m2(2)]
  consider e where "leads rt n (ip_daddr m) e"
    | e where "\<nexists>e. leads rt n (ip_daddr m) e" "leads rt n (ip_saddr m) e"
    | e where "\<nexists>e. leads rt n (ip_daddr m) e" "\<nexists>e. leads rt n (ip_saddr m) e"
        "leads rt n (if_ip H (nat (p_interface m))) e"
    using True by blast
  then have "\<exists>r. best_route_search H rt n m = Some r"
  proof cases
    case 1
    then show ?thesis using best_route_search_leads by blast
  next
    case 2
    then have "best_route_search H rt n m = best_route_search H rt n (refresh_check m1)"
      using err m1(1) by blast
    with 2 best_route_search_leads [of rt n "refresh_check m1" e H] r1 m1 show ?thesis by simp
  next
    case 3
    then have "best_route_search H rt n m = best_route_search H rt n (refresh_check m1)"
      using err m1(1) by blast
    also have "\<dots> = best_route_search H rt n (refresh_check m2)"
      using err [of "refresh_check m1" H m2] 3 r1 m1(4) m2(1) by simp
    finally show ?thesis
      using 3 best_route_search_leads [of rt n "refresh_check m2" e H] r2 m2(3) by simp
  qed
  with True show ?thesis by blast
qed

theorem route_search_returns_witness:
  "(\<exists>r. best_route_search \<lparr>if_ip = (\<lambda>_. 0), if_mac = (\<lambda>_. []), overlap = (\<lambda>_. Some [])\<rparr> [zero_entry] 1 \<lparr>len = 60, payload = replicate 1600 0, p_interface = 0\<rparr> = Some r) \<longleftrightarrow>
    (\<exists>ip e. ip \<in> {ip_daddr \<lparr>len = 60, payload = replicate 1600 0, p_interface = 0\<rparr>,
        ip_saddr \<lparr>len = 60, payload = replicate 1600 0, p_interface = 0\<rparr>,
        if_ip \<lparr>if_ip = (\<lambda>_. 0), if_mac = (\<lambda>_. []), overlap = (\<lambda>_. Some [])\<rparr> (nat (p_interface \<lparr>len = 60, payload = replicate 1600 0, p_interface = 0\<rparr>))} \<and> leads [zero_entry] 1 ip e)"
  by (rule route_search_returns) (simp_all add: full_def MAX_LEN_def valid_interface_def table_ok_def)

section \<open>What forwarding does\<close>

text \<open>
  C32. A packet that arrives with a correct header checksum and a TTL of at least 2, that is not
  an ICMP message for the router and whose destination the table leads to, is handed on with its
  TTL decreased by one, a header whose checksum is correct again, although it is updated by a
  formula and not computed anew, and no other byte changed.
\<close>

theorem forward_keeps_checksum:
  assumes "full m" "valid_interface (p_interface m)" "ip_check m = header_checksum (put 24 [0, 0] m)"
    and "2 \<le> unat (ip_ttl m)" "ip_daddr m \<noteq> if_ip H (nat (p_interface m)) \<or> ip_protocol m \<noteq> IP_ICMP_PROTOCOL"
    and "leads rt n (ip_daddr m) e"
  shows "\<exists>m'. forward_ip H rt n m = Some (Inr (m', Some e)) \<and> unat (ip_ttl m') = unat (ip_ttl m) - 1
    \<and> rfc_sum (bytes_at 14 20 m') mod 65535 = 0 \<and> len m' = len m
    \<and> (\<forall>i. i \<notin> {22, 24, 25} \<longrightarrow> payload m' ! i = payload m ! i)"
proof -
  note f = forwarded_fields [OF assms(1)]
  have t: "unat (ip_ttl m - 1) = unat (ip_ttl m) - 1"
    using assms(4) by (intro unat_pred) simp
  then have "\<not> ip_ttl m - 1 \<le> 0" using assms(4) by (auto simp: word_le_nat_alt)
  then have "forward_ip H rt n m = Some (Inr (forwarded m, Some e))"
    using assms(5) best_route_search_leads [of rt n "forwarded m" e H] assms(6) f
    by (auto simp: forward_ip_accepts [OF assms(1-3)])
  moreover have "rfc_sum (bytes_at 14 20 (forwarded m)) mod 65535 = 0"
    using assms(4) by (intro forwarded_sum assms(1)) simp
  ultimately show ?thesis using f t by auto
qed

theorem forward_keeps_checksum_witness:
  "\<exists>m'. forward_ip sample_host [zero_entry] 1 (sample 64 17) = Some (Inr (m', Some zero_entry))
    \<and> unat (ip_ttl m') = unat (ip_ttl (sample 64 17)) - 1
    \<and> rfc_sum (bytes_at 14 20 m') mod 65535 = 0 \<and> len m' = len (sample 64 17)
    \<and> (\<forall>i. i \<notin> {22, 24, 25} \<longrightarrow> payload m' ! i = payload (sample 64 17) ! i)"
  by (rule forward_keeps_checksum) (simp_all add: sample_ok leads_default IP_ICMP_PROTOCOL_def)

text \<open>
  A packet that arrives with a TTL of 0 is not dropped: the 8-bit field wraps around and the
  packet is handed on with a TTL of 255, since only a TTL that has just become 0 is reported.
\<close>

lemma ttl_zero_forwarded:
  assumes "full m" "valid_interface (p_interface m)" "ip_check m = header_checksum (put 24 [0, 0] m)"
    and "ip_ttl m = 0" "ip_daddr m \<noteq> if_ip H (nat (p_interface m)) \<or> ip_protocol m \<noteq> IP_ICMP_PROTOCOL"
    and "leads rt n (ip_daddr m) e"
  shows "\<exists>m'. forward_ip H rt n m = Some (Inr (m', Some e)) \<and> unat (ip_ttl m') = 255 \<and> ip_daddr m' = ip_daddr m"
proof -
  note f = forwarded_fields [OF assms(1)]
  have "(0 :: byte) - 1 = 255" by simp
  then have "ip_ttl (forwarded m) = 255" "\<not> ip_ttl m - 1 \<le> 0" using assms(4) f by simp_all
  moreover from this have "forward_ip H rt n m = Some (Inr (forwarded m, Some e))"
    using assms(5) best_route_search_leads [of rt n "forwarded m" e H] assms(6) f
    by (auto simp: forward_ip_accepts [OF assms(1-3)])
  ultimately show ?thesis using f by auto
qed

lemma ttl_zero_forwarded_example:
  "\<exists>m'. forward_ip sample_host [zero_entry] 1 (sample 0 17) = Some (Inr (m', Some zero_entry))
    \<and> unat (ip_ttl m') = 255 \<and> ip_daddr m' = ip_daddr (sample 0 17)"
  by (rule ttl_zero_forwarded) (simp_all add: sample_ok leads_default IP_ICMP_PROTOCOL_def)

lemma multiples_equal:
  assumes "(k + 256 * a) mod 65535 = 0" "(k + 256 * b) mod 65535 = (0 :: nat)" "a < 256" "b < 256"
  shows "a = b"
proof -
  from assms(1,2) obtain p q where p: "k + 256 * a = 65535 * p" and q: "k + 256 * b = 65535 * q"
    by (auto elim!: dvdE simp: mod_eq_0_iff_dvd)
  consider "p = q" | "p + 1 \<le> q" | "q + 1 \<le> p" by linarith
  then show ?thesis
  proof cases
    case 2
    then have "65535 * p + 65535 \<le> 65535 * q" by linarith
    with p q assms(4) show ?thesis by linarith
  next
    case 3
    then have "65535 * q + 65535 \<le> 65535 * p" by linarith
    with p q assms(3) show ?thesis by linarith
  qed (use p q in simp)
qed

text \<open>
  The reply to an echo request for the router keeps the addresses of the request: its
  destination is still the router's own address, to which it is routed, and not the sender. Its
  TTL is set after the checksum was updated, so the header does not sum up correctly any more,
  unless the request came with a TTL of 63.
\<close>

lemma echo_reply_keeps_addresses:
  assumes "full m" "valid_interface (p_interface m)" "ip_check m = header_checksum (put 24 [0, 0] m)"
    and "ip_daddr m = if_ip H (nat (p_interface m))" "ip_protocol m = IP_ICMP_PROTOCOL" "bytes_at 34 2 m = [8, 0]"
    and "leads rt n (ip_daddr m) e" "1 \<le> unat (ip_ttl m)"
  shows "\<exists>m'. forward_ip H rt n m = Some (Inr (m', Some e)) \<and> bytes_at 34 2 m' = [0, 0]
    \<and> ip_daddr m' = if_ip H (nat (p_interface m)) \<and> ip_saddr m' = ip_saddr m
    \<and> (rfc_sum (bytes_at 14 20 m') mod 65535 = 0 \<longleftrightarrow> unat (ip_ttl m) = 63)"
proof -
  note f = forwarded_fields [OF assms(1)]
  let ?f = "forwarded m"
  from create_echo_reply_total [OF f(1)] assms(6) f(9) obtain m' where
    m': "create_echo_reply ?f = Inr m'" "full m'" "ip_daddr m' = ip_daddr ?f" "ip_saddr m' = ip_saddr ?f"
      "bytes_at 34 2 m' = [0, 0]" "ip_ttl m' = MAX_TTL" "ip_protocol m' = ip_protocol ?f"
      "bytes_at 14 8 m' = bytes_at 14 8 ?f" "bytes_at 24 2 m' = bytes_at 24 2 ?f" "bytes_at 26 8 m' = bytes_at 26 8 ?f"
    by auto
  have run: "forward_ip H rt n m = Some (Inr (m', Some e))"
    using assms(4,5,7) best_route_search_leads [of rt n m' e H] m' f
    by (simp add: forward_ip_accepts [OF assms(1-3)])
  let ?k = "rfc_sum (bytes_at 14 8 ?f) + unat (ip_protocol ?f) + rfc_sum (bytes_at 24 2 ?f) + rfc_sum (bytes_at 26 8 ?f)"
  have t: "unat (ip_ttl ?f) = unat (ip_ttl m) - 1" using f(4) unat_pred [OF assms(8)] by simp
  have s1: "(?k + 256 * (unat (ip_ttl m) - 1)) mod 65535 = 0"
    using forwarded_sum [OF assms(1,8)] header_sum [OF f(1)] t by (simp add: algebra_simps)
  have "unat MAX_TTL = 62" by (simp add: MAX_TTL_def)
  then have s2: "rfc_sum (bytes_at 14 20 m') = ?k + 256 * 62"
    using header_sum [OF m'(2)] m'(6-10) by simp
  have "rfc_sum (bytes_at 14 20 m') mod 65535 = 0 \<longleftrightarrow> unat (ip_ttl m) = 63"
  proof
    assume z: "rfc_sum (bytes_at 14 20 m') mod 65535 = 0"
    have z2: "(?k + 256 * 62) mod 65535 = 0" using z by (simp only: s2)
    have "unat (ip_ttl m) - 1 < 256" using byte_less [of "ip_ttl m"] by simp
    then have "unat (ip_ttl m) - 1 = 62" by (intro multiples_equal [OF s1 z2]) simp_all
    with assms(8) show "unat (ip_ttl m) = 63" by simp
  next
    assume "unat (ip_ttl m) = 63"
    then have "unat (ip_ttl m) - 1 = 62" by simp
    with s1 s2 show "rfc_sum (bytes_at 14 20 m') mod 65535 = 0" by (simp only:)
  qed
  with run m' f assms(4) show ?thesis by auto
qed

lemma echo_reply_keeps_addresses_example:
  "\<exists>m'. forward_ip \<lparr>if_ip = (\<lambda>_. 0), if_mac = (\<lambda>_. replicate 6 1), overlap = (\<lambda>_. Some [])\<rparr> [zero_entry] 1 (sample 64 1) = Some (Inr (m', Some zero_entry))
    \<and> bytes_at 34 2 m' = [0, 0]
    \<and> ip_daddr m' = if_ip \<lparr>if_ip = (\<lambda>_. 0), if_mac = (\<lambda>_. replicate 6 1), overlap = (\<lambda>_. Some [])\<rparr> (nat (p_interface (sample 64 1)))
    \<and> ip_saddr m' = ip_saddr (sample 64 1)
    \<and> (rfc_sum (bytes_at 14 20 m') mod 65535 = 0 \<longleftrightarrow> unat (ip_ttl (sample 64 1)) = 63)"
  by (rule echo_reply_keeps_addresses) (simp_all add: sample_ok leads_default IP_ICMP_PROTOCOL_def)

text \<open>
  An ICMP error message is announced with the wrong length: the total length of its IP header
  is stored in the byte order of the host, so that it reads 22016, and the frame is cut off
  before the end of the 64 bytes of the offending packet that it is to quote.
\<close>

lemma icmp_error_length:
  assumes "full m" "valid_interface (p_interface m)" "overlap H (payload m) \<noteq> None"
  shows "\<exists>m'. create_error_icmp H m type code = Inr m' \<and> bytes_at 34 2 m' = [type, code]
    \<and> ip_daddr m' = ip_saddr m \<and> ip_saddr m' = if_ip H (nat (p_interface m))
    \<and> unat (ntohs (of_le16 (bytes_at 16 2 m'))) = 22016 \<and> len m' < 14 + 20 + 8 + 64"
proof -
  have "unat (ntohs (of_le16 [86, 0])) = 22016" by (simp add: of_le16_def ntohs_def)
  with create_error_icmp_total [OF assms, of type code] show ?thesis by (elim exE) (intro exI, auto)
qed

lemma icmp_error_length_example:
  "\<exists>m'. create_error_icmp sample_host (sample 1 17) 11 0 = Inr m' \<and> bytes_at 34 2 m' = [11, 0]
    \<and> ip_daddr m' = ip_saddr (sample 1 17) \<and> ip_saddr m' = if_ip sample_host (nat (p_interface (sample 1 17)))
    \<and> unat (ntohs (of_le16 (bytes_at 16 2 m'))) = 22016 \<and> len m' < 14 + 20 + 8 + 64"
  by (rule icmp_error_length) (simp_all add: sample_ok sample_host_def)

end
