(* ===== verification/Tcp_Common.thy ===== *)
theory Tcp_Common
  imports Prelude
begin

text \<open>
  \<open>tema2/headers/common.h\<close> and \<open>tema2/common.cpp\<close>: the packed structures that travel
  between UDP news sources, the server and the TCP subscribers, and the two routines on
  the byte deques from which both programs reassemble TCP messages.

  A deque is a list, its front first. \<open>front\<close> and \<open>pop_front\<close> on an empty deque are
  undefined, so \<^term>\<open>read_data\<close> below returns \<open>None\<close> when the deque runs dry.
\<close>

section \<open>Constants and structures\<close>

abbreviation UDP_MSG_LEN :: nat where "UDP_MSG_LEN \<equiv> 1500"
abbreviation TOPIC_LEN :: nat where "TOPIC_LEN \<equiv> 50"
abbreviation ID_LEN :: nat where "ID_LEN \<equiv> 10"

abbreviation TCP_CONNECT :: byte where "TCP_CONNECT \<equiv> 1"
abbreviation TCP_SUB :: byte where "TCP_SUB \<equiv> 2"
abbreviation TCP_UNSUB :: byte where "TCP_UNSUB \<equiv> 3"

text \<open>\<open>poll\<close>'s event bits (the operating system's header values).\<close>

abbreviation POLLIN :: u16 where "POLLIN \<equiv> 1"
abbreviation POLLOUT :: u16 where "POLLOUT \<equiv> 4"
abbreviation POLLERR :: u16 where "POLLERR \<equiv> 8"

record udp_news =
  news_s :: "byte list"
  news_type :: byte
  news_bi :: "byte list"

definition sizeof_udp_news :: nat where
  "sizeof_udp_news = TOPIC_LEN + 1 + UDP_MSG_LEN"

text \<open>A packed structure is its fields' bytes in order, and back.\<close>

definition udp_news_bytes :: "udp_news \<Rightarrow> byte list" where
  "udp_news_bytes u = news_s u @ [news_type u] @ news_bi u"

definition udp_news_of_bytes :: "byte list \<Rightarrow> udp_news" where
  "udp_news_of_bytes bs =
     \<lparr>news_s = take TOPIC_LEN bs, news_type = bs ! TOPIC_LEN, news_bi = drop (Suc TOPIC_LEN) bs\<rparr>"

record udp_news_wrapper =
  wrap_len :: int
  wrap_addr :: u32
  wrap_port :: u16
  wrap_u_n :: udp_news

definition WRAPPING_MATERIAL :: nat where
  "WRAPPING_MATERIAL = (4 + 4 + 2 + sizeof_udp_news) - sizeof_udp_news"

definition wrapper_bytes :: "udp_news_wrapper \<Rightarrow> byte list" where
  "wrapper_bytes w = le32 (word_of_int (wrap_len w)) @ le32 (wrap_addr w)
     @ le16 (wrap_port w) @ udp_news_bytes (wrap_u_n w)"

text \<open>The messages of a TCP client. The flag is kept as the byte that stores the \<open>bool\<close>.\<close>

record tcp_sub_msg =
  sub_type :: byte
  sub_topic :: "byte list"
  sub_sf :: byte

record tcp_con_msg =
  con_type :: byte
  con_id :: "byte list"

definition sizeof_tcp_sub_msg :: nat where
  "sizeof_tcp_sub_msg = 1 + (TOPIC_LEN + 1) + 1"

definition tcp_sub_msg_bytes :: "tcp_sub_msg \<Rightarrow> byte list" where
  "tcp_sub_msg_bytes m = [sub_type m] @ sub_topic m @ [sub_sf m]"

definition tcp_sub_msg_of_bytes :: "byte list \<Rightarrow> tcp_sub_msg" where
  "tcp_sub_msg_of_bytes bs =
     \<lparr>sub_type = bs ! 0, sub_topic = take (TOPIC_LEN + 1) (drop 1 bs),
      sub_sf = bs ! (TOPIC_LEN + 2)\<rparr>"

definition tcp_con_msg_bytes :: "tcp_con_msg \<Rightarrow> byte list" where
  "tcp_con_msg_bytes m = [con_type m] @ con_id m"

text \<open>Which byte lists are the memory of a \<open>udp_news\<close>.\<close>

definition udp_news_ok :: "udp_news \<Rightarrow> bool" where
  "udp_news_ok u \<longleftrightarrow> length (news_s u) = TOPIC_LEN \<and> length (news_bi u) = UDP_MSG_LEN"

lemma WRAPPING_MATERIAL_eq [simp, wire]: "WRAPPING_MATERIAL = 10"
  by (simp add: WRAPPING_MATERIAL_def)

lemma sizeof_udp_news_eq [simp, wire]: "sizeof_udp_news = 1551"
  by (simp add: sizeof_udp_news_def)

lemma sizeof_tcp_sub_msg_eq [simp, wire]: "sizeof_tcp_sub_msg = 53"
  by (simp add: sizeof_tcp_sub_msg_def)

lemma length_udp_news_bytes [wire]: "udp_news_ok u \<Longrightarrow> length (udp_news_bytes u) = 1551"
  by (simp add: udp_news_bytes_def udp_news_ok_def)

lemma udp_news_of_bytes_bytes [wire]:
  "udp_news_ok u \<Longrightarrow> udp_news_of_bytes (udp_news_bytes u) = u"
  by (simp add: udp_news_bytes_def udp_news_of_bytes_def udp_news_ok_def nth_append)

lemma udp_news_bytes_of_bytes [wire]:
  "length bs = 1551 \<Longrightarrow> udp_news_bytes (udp_news_of_bytes bs) = bs"
  using id_take_nth_drop [of 50 bs] by (simp add: udp_news_bytes_def udp_news_of_bytes_def)

lemma udp_news_of_bytes_ok [simp]: "length bs = 1551 \<Longrightarrow> udp_news_ok (udp_news_of_bytes bs)"
  by (simp add: udp_news_ok_def udp_news_of_bytes_def)

lemma length_wrapper_bytes [wire]:
  "udp_news_ok (wrap_u_n w) \<Longrightarrow> length (wrapper_bytes w) = 1561"
  by (simp add: wrapper_bytes_def length_udp_news_bytes)

section \<open>\<open>read_data\<close> and \<open>place_back\<close>\<close>

text \<open>The loop of \<open>read_data\<close>: \<open>n\<close> rounds of \<open>front\<close>, two \<open>push_back\<close>s and \<open>pop_front\<close>.\<close>

fun read_loop :: "byte list \<Rightarrow> nat \<Rightarrow> byte list \<Rightarrow> (byte list \<times> byte list \<times> byte list) option" where
  "read_loop q 0 extra = Some ([], q, extra)"
| "read_loop [] (Suc n) extra = None"
| "read_loop (x # q) (Suc n) extra =
     (case read_loop q n (extra @ [x]) of
        None \<Rightarrow> None
      | Some (a, q', extra') \<Rightarrow> Some (x # a, q', extra'))"

text \<open>\<open>size\<close> is a \<open>long\<close>: no round is made for a negative one.\<close>

definition read_data :: "byte list \<Rightarrow> int \<Rightarrow> byte list \<Rightarrow> (byte list \<times> byte list \<times> byte list) option" where
  "read_data q sz extra = read_loop q (nat sz) extra"

function place_back :: "byte list \<Rightarrow> byte list \<Rightarrow> byte list \<times> byte list" where
  "place_back q extra =
     (if extra \<noteq> [] then place_back (last extra # q) (butlast extra) else (q, extra))"
  by pat_completeness auto
termination
  by (relation "measure (\<lambda>(q, extra). length extra)") auto

declare place_back.simps [simp del]

lemma place_back_eq [simp]: "place_back q extra = (extra @ q, [])"
proof (induction extra arbitrary: q rule: rev_induct)
  case Nil
  then show ?case by (simp add: place_back.simps)
next
  case (snoc x xs)
  then show ?case by (simp add: place_back.simps [of q "xs @ [x]"])
qed

lemma read_loop_eq:
  "read_loop q n extra =
     (if n \<le> length q then Some (take n q, drop n q, extra @ take n q) else None)"
  by (induction q n extra rule: read_loop.induct) auto

lemma read_data_eq:
  "read_data q sz extra =
     (if nat sz \<le> length q
      then Some (take (nat sz) q, drop (nat sz) q, extra @ take (nat sz) q) else None)"
  by (simp add: read_data_def read_loop_eq)

text \<open>What the server relies on: bytes read too early can be put back unchanged.\<close>

lemma place_back_read_data:
  "read_data q sz [] = Some (a, q', extra) \<Longrightarrow> place_back q' extra = (q, [])"
  by (auto simp: read_data_eq split: if_splits)

end
