(* ===== verification/Server.thy ===== *)
theory Server
  imports Tcp_Common
begin

text \<open>
  \<open>tema2/headers/server.h\<close> and \<open>tema2/server.cpp\<close>: the message broker. Definitions only;
  \<open>Server_Facts\<close> holds the lemmas. The state is the source's \<open>server_data\<close> plus the log
  of what the program did to the outside world (\<open>close\<close>, \<open>send\<close>, \<open>printf\<close>). What the
  operating system answers (\<open>poll\<close>, \<open>accept\<close>, \<open>recv\<close>, ...) is the argument
  \<open>server_env\<close> of a pass of the main loop. Where the source would run into undefined
  behaviour the model returns a \<open>fault\<close>.
\<close>

section \<open>State\<close>

record sockaddr_in =
  sin_addr :: u32
  sin_port :: u16

datatype server_event =
    New_client "byte list" u32 u16
  | Already_connected "byte list"
  | Client_disconnected "byte list"
  | Closed int
  | Sent int "byte list"

text \<open>
  \<open>fds\<close> holds the descriptors of the \<open>nfds\<close> slots in use; the array itself has room for
  \<open>current_size\<close>. The two maps that are only read through \<open>operator[]\<close> are total, with
  the value \<open>operator[]\<close> would insert.
\<close>

record server_data =
  sd_tcp :: int
  sd_udp :: int
  fds :: "int list"
  current_size :: nat
  empties :: "nat list"
  id_to_fd :: "byte list \<rightharpoonup> int"
  fd_to_id :: "int \<rightharpoonup> byte list"
  r_buffer_for_fd :: "int \<Rightarrow> byte list"
  w_buffer_for_id :: "byte list \<Rightarrow> udp_news_wrapper list"
  addr_for_fd :: "int \<Rightarrow> sockaddr_in"
  topic_subscribers :: "nat \<Rightarrow> byte list \<Rightarrow> byte list set"
  server_log :: "server_event list"

abbreviation nfds :: "server_data \<Rightarrow> nat" where
  "nfds s \<equiv> length (fds s)"

abbreviation INITIAL_CON_COUNT :: nat where "INITIAL_CON_COUNT \<equiv> 10"

text \<open>How a pass of the program can stop.\<close>

datatype stop = Fault fault | Return int server_data

definition log_event :: "server_event \<Rightarrow> server_data \<Rightarrow> server_data" where
  "log_event ev s = s\<lparr>server_log := server_log s @ [ev]\<rparr>"

definition set_rbuf :: "int \<Rightarrow> byte list \<Rightarrow> server_data \<Rightarrow> server_data" where
  "set_rbuf fd q s = s\<lparr>r_buffer_for_fd := (r_buffer_for_fd s)(fd := q)\<rparr>"

section \<open>Set-up\<close>

text \<open>The answers of the operating system during \<open>init_tcp\<close> and \<open>init_udp\<close>.\<close>

record init_env =
  tcp_socket :: int
  tcp_bind :: int
  tcp_listen :: int
  malloc_ok :: bool
  udp_socket :: int
  udp_bind :: int

text \<open>The state a \<open>server_data\<close> object starts in; \<open>init_misc\<close> sets \<open>nfds\<close> (to 2, below).\<close>

definition empty_server :: server_data where
  "empty_server =
     \<lparr>sd_tcp = 0, sd_udp = 0, fds = [], current_size = 0, empties = [],
      id_to_fd = Map.empty, fd_to_id = Map.empty, r_buffer_for_fd = (\<lambda>_. []),
      w_buffer_for_id = (\<lambda>_. []), addr_for_fd = (\<lambda>_. \<lparr>sin_addr = 0, sin_port = 0\<rparr>),
      topic_subscribers = (\<lambda>_ _. {}), server_log = []\<rparr>"

text \<open>\<open>None\<close> is the return value \<open>-1\<close>. Slot 1 is reserved for the UDP socket.\<close>

definition init_tcp :: "init_env \<Rightarrow> server_data \<Rightarrow> server_data option" where
  "init_tcp e s =
     (if tcp_socket e < 0 then None
      else if tcp_bind e \<noteq> 0 then None
      else if tcp_listen e \<noteq> 0 then None
      else if \<not> malloc_ok e then None
      else Some (s\<lparr>sd_tcp := tcp_socket e, fds := [tcp_socket e, 0],
                   current_size := INITIAL_CON_COUNT\<rparr>))"

definition init_udp :: "init_env \<Rightarrow> server_data \<Rightarrow> server_data option" where
  "init_udp e s =
     (if udp_socket e < 0 then None
      else if udp_bind e < 0 then None
      else Some (s\<lparr>sd_udp := udp_socket e, fds := (fds s)[1 := udp_socket e]\<rparr>))"

definition server_init :: "init_env \<Rightarrow> server_data option" where
  "server_init e = Option.bind (init_tcp e empty_server) (init_udp e)"

section \<open>Connections\<close>

text \<open>
  \<open>add_con\<close>. \<open>accepted\<close> is what \<open>accept\<close> returned, \<open>realloc_ok\<close> whether \<open>realloc\<close> found
  memory. \<open>Inl (Return (-1) ..)\<close> is the return value \<open>-1\<close>, on which \<open>main\<close> returns.
  Writing a slot outside the allocated array is the fault \<open>Bad_slot\<close>.
\<close>

definition write_slot :: "nat \<Rightarrow> int \<Rightarrow> server_data \<Rightarrow> fault + server_data" where
  "write_slot index fd s =
     (if index \<ge> current_size s then Inl Bad_slot
      else if index < nfds s then Inr (s\<lparr>fds := (fds s)[index := fd]\<rparr>)
      else Inr (s\<lparr>fds := fds s @ [fd]\<rparr>))"

definition add_con :: "int \<times> sockaddr_in \<Rightarrow> bool \<Rightarrow> server_data \<Rightarrow> stop + server_data" where
  "add_con accepted realloc_ok s =
     (let (fd, cli) = accepted in
      if fd < 0 then Inl (Return (-1) s)
      else
        let s = s\<lparr>addr_for_fd := (addr_for_fd s)(fd := cli)\<rparr>;
            full = (nfds s = current_size s \<and> empties s = []);
            s = (if full then s\<lparr>current_size := current_size s * 2\<rparr> else s)
        in if full \<and> \<not> realloc_ok then Inl (Return (-1) s)
           else
             let (index, s) = (if empties s \<noteq> []
                               then (hd (empties s), s\<lparr>empties := tl (empties s)\<rparr>)
                               else (nfds s, s))
             in case write_slot index fd s of
                  Inl f \<Rightarrow> Inl (Fault f)
                | Inr s' \<Rightarrow> Inr s')"

text \<open>
  \<open>disconnect\<close>. The last statement of the source indexes \<open>r_buffer_for_fd\<close> with the
  descriptor it has just overwritten by \<open>-1\<close>.
\<close>

definition forget_id :: "nat \<Rightarrow> server_data \<Rightarrow> server_data" where
  "forget_id i s =
     (let fd = fds s ! i;
          cid = (case fd_to_id s fd of Some cid \<Rightarrow> cid | None \<Rightarrow> [])
      in s\<lparr>id_to_fd := (id_to_fd s)(cid := None), fd_to_id := (fd_to_id s)(fd := None)\<rparr>)"

definition disconnect :: "server_data \<Rightarrow> nat \<Rightarrow> bool \<Rightarrow> server_data" where
  "disconnect s i delete_id =
     (let s = (if delete_id then forget_id i s else s);
          s = log_event (Closed (fds s ! i)) s;
          s = s\<lparr>fds := (fds s)[i := -1]\<rparr>
      in set_rbuf (fds s ! i) [] s)"

section \<open>Parsing the bytes of a client\<close>

fun has_terminator :: "byte list \<Rightarrow> bool" where
  "has_terminator [] = False"
| "has_terminator (b # a) = (if b = 0 then True else has_terminator a)"

text \<open>
  One round of \<open>parse_tcp_buffer\<close>: \<open>Done\<close> is a \<open>return\<close>, \<open>More\<close> reaches the test of the
  buffer at the end of the function, \<open>Undefined\<close> is undefined behaviour.
\<close>

datatype parse_step = Done server_data | More server_data | Undefined fault

definition register_id :: "int \<Rightarrow> byte list \<Rightarrow> server_data \<Rightarrow> server_data" where
  "register_id fd cid s =
     s\<lparr>id_to_fd := (id_to_fd s)(cid \<mapsto> fd), fd_to_id := (fd_to_id s)(fd \<mapsto> cid)\<rparr>"

text \<open>\<open>TCP_CONNECT\<close>; \<open>extra\<close> holds the type byte already read.\<close>

definition parse_connect :: "server_data \<Rightarrow> int \<Rightarrow> nat \<Rightarrow> byte list \<Rightarrow> parse_step" where
  "parse_connect s fd i extra =
     (if length (r_buffer_for_fd s fd) < ID_LEN + 1
      then Done (set_rbuf fd (fst (place_back (r_buffer_for_fd s fd) extra)) s)
      else
        case read_data (r_buffer_for_fd s fd) (int (ID_LEN + 1)) extra of
          None \<Rightarrow> Undefined Deque_underflow
        | Some (cid, q, _) \<Rightarrow>
            let s = set_rbuf fd q s;
                s = (if \<not> has_terminator cid then disconnect s i False else s)
            in case string_of_array cid of
                 None \<Rightarrow> Undefined Array_overread
               | Some s_id \<Rightarrow>
                   if id_to_fd s s_id \<noteq> None
                   then More (disconnect (log_event (Already_connected s_id) s) i False)
                   else
                     let s = register_id fd s_id s;
                         cli = addr_for_fd s fd
                     in More (log_event (New_client s_id (sin_addr cli) (sin_port cli)) s))"

definition subscribe :: "nat \<Rightarrow> byte list \<Rightarrow> byte list \<Rightarrow> server_data \<Rightarrow> server_data" where
  "subscribe k topic cid s =
     s\<lparr>topic_subscribers := (topic_subscribers s)
        (k := (topic_subscribers s k)(topic := insert cid (topic_subscribers s k topic)))\<rparr>"

definition unsubscribe :: "nat \<Rightarrow> byte list \<Rightarrow> byte list \<Rightarrow> server_data \<Rightarrow> server_data" where
  "unsubscribe k topic cid s =
     (if cid \<in> topic_subscribers s k topic
      then s\<lparr>topic_subscribers := (topic_subscribers s)
        (k := (topic_subscribers s k)(topic := topic_subscribers s k topic - {cid}))\<rparr>
      else s)"

text \<open>
  \<open>TCP_SUB\<close>. Loading a \<open>bool\<close> whose byte is neither 0 nor 1 is undefined.
\<close>

definition parse_sub :: "server_data \<Rightarrow> int \<Rightarrow> nat \<Rightarrow> byte list \<Rightarrow> parse_step" where
  "parse_sub s fd i extra =
     (if length (r_buffer_for_fd s fd) < sizeof_tcp_sub_msg - 1
      then Done (set_rbuf fd (fst (place_back (r_buffer_for_fd s fd) extra)) s)
      else
        case fd_to_id s fd of
          None \<Rightarrow> Done (disconnect s i False)
        | Some cid \<Rightarrow>
            (case read_data (r_buffer_for_fd s fd) (int (sizeof_tcp_sub_msg - 1)) extra of
               None \<Rightarrow> Undefined Deque_underflow
             | Some (body, q, _) \<Rightarrow>
                 let s = set_rbuf fd q s;
                     msg = tcp_sub_msg_of_bytes (TCP_SUB # body);
                     s = (if \<not> has_terminator (sub_topic msg) then disconnect s i False else s)
                 in case string_of_array (sub_topic msg) of
                      None \<Rightarrow> Undefined Array_overread
                    | Some topic \<Rightarrow>
                        if sub_sf msg \<noteq> 0 \<and> sub_sf msg \<noteq> 1 then Undefined Bad_bool
                        else
                          let sf = unat (sub_sf msg);
                              k = (sf + 1) mod 2
                          in More (subscribe sf topic cid (unsubscribe k topic cid s))))"

definition parse_unsub :: "server_data \<Rightarrow> int \<Rightarrow> nat \<Rightarrow> byte list \<Rightarrow> parse_step" where
  "parse_unsub s fd i extra =
     (if length (r_buffer_for_fd s fd) < sizeof_tcp_sub_msg - 1
      then Done (set_rbuf fd (fst (place_back (r_buffer_for_fd s fd) extra)) s)
      else
        case fd_to_id s fd of
          None \<Rightarrow> Done (disconnect s i False)
        | Some cid \<Rightarrow>
            (case read_data (r_buffer_for_fd s fd) (int (sizeof_tcp_sub_msg - 1)) extra of
               None \<Rightarrow> Undefined Deque_underflow
             | Some (body, q, _) \<Rightarrow>
                 let s = set_rbuf fd q s;
                     msg = tcp_sub_msg_of_bytes (TCP_UNSUB # body);
                     s = (if \<not> has_terminator (sub_topic msg) then disconnect s i False else s)
                 in case string_of_array (sub_topic msg) of
                      None \<Rightarrow> Undefined Array_overread
                    | Some topic \<Rightarrow>
                        More (unsubscribe 1 topic cid (unsubscribe 0 topic cid s))))"

definition parse_one :: "server_data \<Rightarrow> int \<Rightarrow> nat \<Rightarrow> parse_step" where
  "parse_one s fd i =
     (case read_data (r_buffer_for_fd s fd) 1 [] of
        None \<Rightarrow> Undefined Deque_underflow
      | Some (ty, q, extra) \<Rightarrow>
          let s = set_rbuf fd q s in
          if hd ty = TCP_CONNECT then parse_connect s fd i extra
          else if hd ty = TCP_SUB then parse_sub s fd i extra
          else if hd ty = TCP_UNSUB then parse_unsub s fd i extra
          else More (disconnect s i (fd_to_id s fd \<noteq> None)))"

text \<open>Every round that goes on has taken at least the type byte out of the buffer.\<close>

lemma set_rbuf_rbuf [simp]: "r_buffer_for_fd (set_rbuf fd q s) = (r_buffer_for_fd s)(fd := q)"
  by (simp add: set_rbuf_def)

lemma log_event_rbuf [simp]: "r_buffer_for_fd (log_event ev s) = r_buffer_for_fd s"
  by (simp add: log_event_def)

lemma disconnect_rbuf_le:
  "length (r_buffer_for_fd (disconnect s i d) fd) \<le> length (r_buffer_for_fd s fd)"
  by (simp add: disconnect_def forget_id_def Let_def)

lemma register_id_rbuf [simp]: "r_buffer_for_fd (register_id fd c s) = r_buffer_for_fd s"
  by (simp add: register_id_def)

lemma unsubscribe_rbuf [simp]: "r_buffer_for_fd (unsubscribe k t c s) = r_buffer_for_fd s"
  by (simp add: unsubscribe_def)

lemma subscribe_rbuf [simp]: "r_buffer_for_fd (subscribe k t c s) = r_buffer_for_fd s"
  by (simp add: subscribe_def)


lemma parse_connect_shrinks:
  "parse_connect s fd i extra = More s' \<Longrightarrow>
     length (r_buffer_for_fd s' fd) \<le> length (r_buffer_for_fd s fd)"
  by (auto simp: parse_connect_def Let_def read_data_eq disconnect_def forget_id_def log_event_def
      split: if_splits option.splits)

lemma parse_sub_shrinks:
  "parse_sub s fd i extra = More s' \<Longrightarrow>
     length (r_buffer_for_fd s' fd) \<le> length (r_buffer_for_fd s fd)"
  by (auto simp: parse_sub_def Let_def read_data_eq disconnect_def split: if_splits option.splits)

lemma parse_unsub_shrinks:
  "parse_unsub s fd i extra = More s' \<Longrightarrow>
     length (r_buffer_for_fd s' fd) \<le> length (r_buffer_for_fd s fd)"
  by (auto simp: parse_unsub_def Let_def read_data_eq disconnect_def split: if_splits option.splits)

lemma parse_one_decreases:
  assumes "parse_one s fd i = More s'"
  shows "length (r_buffer_for_fd s' fd) < length (r_buffer_for_fd s fd)"
proof (cases "r_buffer_for_fd s fd")
  case Nil
  with assms show ?thesis by (simp add: parse_one_def read_data_eq)
next
  case (Cons ty q)
  let ?s = "set_rbuf fd q s"
  have q: "r_buffer_for_fd ?s fd = q" by simp
  from assms Cons have "length (r_buffer_for_fd s' fd) \<le> length (r_buffer_for_fd ?s fd)"
    by (auto simp: parse_one_def read_data_eq Let_def split: if_splits
        dest: parse_connect_shrinks parse_sub_shrinks parse_unsub_shrinks
        intro: disconnect_rbuf_le [THEN le_trans])
  then show ?thesis unfolding q using Cons by simp
qed

text \<open>The whole function: the recursive call at its end is made while bytes are left.\<close>

function parse_tcp_buffer :: "server_data \<Rightarrow> int \<Rightarrow> nat \<Rightarrow> fault + server_data" where
  "parse_tcp_buffer s fd i =
     (case parse_one s fd i of
        Undefined f \<Rightarrow> Inl f
      | Done s' \<Rightarrow> Inr s'
      | More s' \<Rightarrow>
          if r_buffer_for_fd s' fd \<noteq> [] then parse_tcp_buffer s' fd i else Inr s')"
  by pat_completeness auto
termination
  by (relation "measure (\<lambda>(s, fd, i). length (r_buffer_for_fd s fd))")
    (auto dest: parse_one_decreases)

declare parse_tcp_buffer.simps [simp del]

section \<open>The main loop\<close>

text \<open>
  What the operating system answers during one pass: the line \<open>getline\<close> read (empty when
  there was none), \<open>poll\<close>'s return value and the event bits of each slot, and for each
  socket the result of \<open>accept\<close>, of the one-byte \<open>recv\<close> with \<open>MSG_PEEK\<close>, of the reading
  \<open>recv\<close> (\<open>None\<close> is an error) and of \<open>recvfrom\<close>. \<open>stack_u_n\<close> is what the uninitialised
  local \<open>u_n\<close> holds before \<open>recvfrom\<close> overwrites its front.
\<close>

record server_env =
  in_line :: "byte list"
  poll_ret :: int
  revents :: "nat \<Rightarrow> u16"
  accept_ret :: "int \<times> sockaddr_in"
  realloc_ret :: bool
  peek_ret :: "int \<Rightarrow> int"
  recv_ret :: "int \<Rightarrow> byte list option"
  recvfrom_ret :: "(byte list \<times> sockaddr_in) option"
  stack_u_n :: "byte list"

text \<open>A datagram for the subscribers of its topic, in the two sets one after the other.\<close>

definition publish_set :: "nat \<Rightarrow> byte list \<Rightarrow> udp_news_wrapper \<Rightarrow> server_data \<Rightarrow> server_data" where
  "publish_set k topic u_w s =
     s\<lparr>w_buffer_for_id := (\<lambda>cid.
         if cid \<in> topic_subscribers s k topic \<and> (k = 1 \<or> id_to_fd s cid \<noteq> None)
         then w_buffer_for_id s cid @ [u_w] else w_buffer_for_id s cid)\<rparr>"

definition publish :: "byte list \<Rightarrow> udp_news_wrapper \<Rightarrow> server_data \<Rightarrow> server_data" where
  "publish topic u_w s = publish_set 1 topic u_w (publish_set 0 topic u_w s)"

definition wrap_datagram :: "byte list \<Rightarrow> byte list \<Rightarrow> sockaddr_in \<Rightarrow> udp_news_wrapper" where
  "wrap_datagram dgram stack from =
     \<lparr>wrap_len = int (length dgram) + int WRAPPING_MATERIAL, wrap_addr = sin_addr from,
      wrap_port = sin_port from,
      wrap_u_n = udp_news_of_bytes (dgram @ drop (length dgram) stack)\<rparr>"

text \<open>\<open>recvfrom\<close> stores at most \<open>sizeof (u_n)\<close> bytes.\<close>

definition serve_udp :: "server_env \<Rightarrow> server_data \<Rightarrow> server_data" where
  "serve_udp e s =
     (case recvfrom_ret e of
        None \<Rightarrow> s
      | Some (datagram, from) \<Rightarrow>
          let dgram = take sizeof_udp_news datagram;
              u_w = wrap_datagram dgram (stack_u_n e) from;
              topic = c_string (news_s (wrap_u_n u_w) @ [0])
          in publish topic u_w s)"

text \<open>The \<open>POLLOUT\<close> branch: at most one queued message is sent, its first \<open>len\<close> bytes.\<close>

definition flush_one :: "int \<Rightarrow> server_data \<Rightarrow> server_data" where
  "flush_one fd s =
     (case fd_to_id s fd of
        None \<Rightarrow> s
      | Some cid \<Rightarrow>
          (case w_buffer_for_id s cid of
             [] \<Rightarrow> s
           | news # buf_c \<Rightarrow>
               log_event (Sent fd (take (nat (wrap_len news)) (wrapper_bytes news)))
                 (s\<lparr>w_buffer_for_id := (w_buffer_for_id s)(cid := buf_c)\<rparr>)))"

definition serve_client :: "server_env \<Rightarrow> nat \<Rightarrow> server_data \<Rightarrow> fault + server_data" where
  "serve_client e i s =
     (if peek_ret e (fds s ! i) = 0
      then
        let s = s\<lparr>empties := empties s @ [i]\<rparr> in
        (case fd_to_id s (fds s ! i) of
           Some cid \<Rightarrow> Inr (disconnect (log_event (Client_disconnected cid) s) i True)
         | None \<Rightarrow> Inr (disconnect s i False))
      else
        let s = (if revents e i AND POLLOUT \<noteq> 0 \<and> fds s ! i \<ge> 0
                 then flush_one (fds s ! i) s else s);
            fd = fds s ! i
        in if revents e i AND POLLIN \<noteq> 0
           then (case recv_ret e fd of
                   None \<Rightarrow> Inr s
                 | Some c \<Rightarrow>
                     if c = [] then Inr s
                     else parse_tcp_buffer (set_rbuf fd (r_buffer_for_fd s fd @ c) s) fd i)
           else Inr s)"

definition serve_slot :: "server_env \<Rightarrow> nat \<Rightarrow> server_data \<Rightarrow> stop + server_data" where
  "serve_slot e i s =
     (if fds s ! i = sd_tcp s
      then (if revents e i AND POLLIN = 0 then Inr s
            else add_con (accept_ret e) (realloc_ret e) s)
      else if fds s ! i = sd_udp s
      then (if revents e i AND POLLIN = 0 then Inr s else Inr (serve_udp e s))
      else (case serve_client e i s of Inl f \<Rightarrow> Inl (Fault f) | Inr s' \<Rightarrow> Inr s'))"

fun serve_slots :: "server_env \<Rightarrow> nat list \<Rightarrow> server_data \<Rightarrow> stop + server_data" where
  "serve_slots e [] s = Inr s"
| "serve_slots e (i # is) s =
     (case serve_slot e i s of Inl r \<Rightarrow> Inl r | Inr s' \<Rightarrow> serve_slots e is s')"

text \<open>One pass of \<open>while (true)\<close>; the slots visited are those in use when it starts.\<close>

definition server_pass :: "server_env \<Rightarrow> server_data \<Rightarrow> stop + server_data" where
  "server_pass e s =
     (if in_line e = str ''exit''
      then Inl (Return 0 (s\<lparr>server_log := server_log s @ map Closed (fds s)\<rparr>))
      else if poll_ret e > 0 then serve_slots e [0..<nfds s] s
      else Inr s)"

text \<open>A run, one environment per pass, from what \<open>init_misc\<close>, \<open>init_tcp\<close> and \<open>init_udp\<close> leave.\<close>

fun server_run :: "server_env list \<Rightarrow> server_data \<Rightarrow> stop + server_data" where
  "server_run [] s = Inr s"
| "server_run (e # es) s =
     (case server_pass e s of Inl r \<Rightarrow> Inl r | Inr s' \<Rightarrow> server_run es s')"

definition server_main :: "nat \<Rightarrow> init_env \<Rightarrow> server_env list \<Rightarrow> stop + server_data" where
  "server_main argn ie es =
     (if argn < 2 then Inl (Return 0 empty_server)
      else (case server_init ie of
              None \<Rightarrow> Inl (Return (-1) empty_server)
            | Some s \<Rightarrow> server_run es s))"

end
