(* ===== verification/Server_Facts.thy ===== *)
theory Server_Facts
  imports Server
begin

text \<open>
  Lemmas on the broker of \<open>tema2/server.cpp\<close>: frame facts of its state updates, a locale
  for the predicates that every primitive update keeps (which are then kept by a whole
  run), its instances (the slot table, the identifier maps, the subscriber sets), and the
  parsing of well-formed client streams.
\<close>

section \<open>Frame facts\<close>

lemma log_event_frame [simp, slots]:
  "fds (log_event ev s) = fds s" "current_size (log_event ev s) = current_size s"
  "empties (log_event ev s) = empties s" "id_to_fd (log_event ev s) = id_to_fd s"
  "fd_to_id (log_event ev s) = fd_to_id s" "w_buffer_for_id (log_event ev s) = w_buffer_for_id s"
  "topic_subscribers (log_event ev s) = topic_subscribers s"
  "addr_for_fd (log_event ev s) = addr_for_fd s"
  "sd_tcp (log_event ev s) = sd_tcp s" "sd_udp (log_event ev s) = sd_udp s"
  "server_log (log_event ev s) = server_log s @ [ev]"
  by (simp_all add: log_event_def)

lemma set_rbuf_frame [simp, slots]:
  "fds (set_rbuf fd q s) = fds s" "current_size (set_rbuf fd q s) = current_size s"
  "empties (set_rbuf fd q s) = empties s" "id_to_fd (set_rbuf fd q s) = id_to_fd s"
  "fd_to_id (set_rbuf fd q s) = fd_to_id s" "w_buffer_for_id (set_rbuf fd q s) = w_buffer_for_id s"
  "topic_subscribers (set_rbuf fd q s) = topic_subscribers s"
  "addr_for_fd (set_rbuf fd q s) = addr_for_fd s"
  "sd_tcp (set_rbuf fd q s) = sd_tcp s" "sd_udp (set_rbuf fd q s) = sd_udp s"
  "server_log (set_rbuf fd q s) = server_log s"
  by (simp_all add: set_rbuf_def)

lemma forget_id_frame [simp, slots]:
  "fds (forget_id i s) = fds s" "current_size (forget_id i s) = current_size s"
  "empties (forget_id i s) = empties s" "w_buffer_for_id (forget_id i s) = w_buffer_for_id s"
  "r_buffer_for_fd (forget_id i s) = r_buffer_for_fd s"
  "topic_subscribers (forget_id i s) = topic_subscribers s"
  "addr_for_fd (forget_id i s) = addr_for_fd s"
  "sd_tcp (forget_id i s) = sd_tcp s" "sd_udp (forget_id i s) = sd_udp s"
  "server_log (forget_id i s) = server_log s"
  by (simp_all add: forget_id_def Let_def)

lemma disconnect_frame [simp, slots]:
  "fds (disconnect s i d) = (fds s)[i := -1]"
  "current_size (disconnect s i d) = current_size s" "empties (disconnect s i d) = empties s"
  "w_buffer_for_id (disconnect s i d) = w_buffer_for_id s"
  "topic_subscribers (disconnect s i d) = topic_subscribers s"
  "addr_for_fd (disconnect s i d) = addr_for_fd s"
  "sd_tcp (disconnect s i d) = sd_tcp s" "sd_udp (disconnect s i d) = sd_udp s"
  "server_log (disconnect s i d) = server_log s @ [Closed (fds s ! i)]"
  "id_to_fd (disconnect s i d) = (if d then id_to_fd (forget_id i s) else id_to_fd s)"
  "fd_to_id (disconnect s i d) = (if d then fd_to_id (forget_id i s) else fd_to_id s)"
  by (simp_all add: disconnect_def Let_def)

lemma disconnect_rbuf:
  "i < nfds s \<Longrightarrow> r_buffer_for_fd (disconnect s i d) = (r_buffer_for_fd s)(-1 := [])"
  by (simp add: disconnect_def Let_def)

lemma register_id_frame [simp, slots]:
  "fds (register_id fd c s) = fds s" "current_size (register_id fd c s) = current_size s"
  "empties (register_id fd c s) = empties s" "w_buffer_for_id (register_id fd c s) = w_buffer_for_id s"
  "topic_subscribers (register_id fd c s) = topic_subscribers s"
  "addr_for_fd (register_id fd c s) = addr_for_fd s"
  "sd_tcp (register_id fd c s) = sd_tcp s" "sd_udp (register_id fd c s) = sd_udp s"
  "server_log (register_id fd c s) = server_log s"
  "id_to_fd (register_id fd c s) = (id_to_fd s)(c \<mapsto> fd)"
  "fd_to_id (register_id fd c s) = (fd_to_id s)(fd \<mapsto> c)"
  by (simp_all add: register_id_def)

lemma subscribe_frame [simp, slots]:
  "fds (subscribe k t c s) = fds s" "current_size (subscribe k t c s) = current_size s"
  "empties (subscribe k t c s) = empties s" "id_to_fd (subscribe k t c s) = id_to_fd s"
  "fd_to_id (subscribe k t c s) = fd_to_id s" "w_buffer_for_id (subscribe k t c s) = w_buffer_for_id s"
  "addr_for_fd (subscribe k t c s) = addr_for_fd s"
  "sd_tcp (subscribe k t c s) = sd_tcp s" "sd_udp (subscribe k t c s) = sd_udp s"
  "server_log (subscribe k t c s) = server_log s"
  by (simp_all add: subscribe_def)

lemma unsubscribe_frame [simp, slots]:
  "fds (unsubscribe k t c s) = fds s" "current_size (unsubscribe k t c s) = current_size s"
  "empties (unsubscribe k t c s) = empties s" "id_to_fd (unsubscribe k t c s) = id_to_fd s"
  "fd_to_id (unsubscribe k t c s) = fd_to_id s" "w_buffer_for_id (unsubscribe k t c s) = w_buffer_for_id s"
  "addr_for_fd (unsubscribe k t c s) = addr_for_fd s"
  "sd_tcp (unsubscribe k t c s) = sd_tcp s" "sd_udp (unsubscribe k t c s) = sd_udp s"
  "server_log (unsubscribe k t c s) = server_log s"
  by (simp_all add: unsubscribe_def)

lemma topic_subscribers_subscribe [simp]:
  "topic_subscribers (subscribe k t c s) k' t' =
     (if k' = k \<and> t' = t then insert c (topic_subscribers s k t) else topic_subscribers s k' t')"
  by (simp add: subscribe_def)

lemma topic_subscribers_unsubscribe [simp]:
  "topic_subscribers (unsubscribe k t c s) k' t' =
     (if k' = k \<and> t' = t then topic_subscribers s k t - {c} else topic_subscribers s k' t')"
  by (simp add: unsubscribe_def)

lemma publish_frame [simp, slots]:
  "fds (publish t w s) = fds s" "current_size (publish t w s) = current_size s"
  "empties (publish t w s) = empties s" "id_to_fd (publish t w s) = id_to_fd s"
  "fd_to_id (publish t w s) = fd_to_id s" "topic_subscribers (publish t w s) = topic_subscribers s"
  "server_log (publish t w s) = server_log s"
  by (simp_all add: publish_def publish_set_def)

lemma has_terminator_iff [simp]: "has_terminator a \<longleftrightarrow> 0 \<in> set a"
  by (induction a) auto

section \<open>Predicates kept by every step\<close>

text \<open>
  The contract of a state predicate that the primitive updates of the broker keep. Its
  consequences are about the composed operations up to a whole run, proved once.
\<close>

text \<open>First, no step of the parser changes the number of slots.\<close>

lemma parse_one_nfds:
  assumes "parse_one s fd i = More s' \<or> parse_one s fd i = Done s'"
  shows "nfds s' = nfds s"
  using assms
  by (auto simp: parse_one_def parse_connect_def parse_sub_def parse_unsub_def Let_def
      split: option.splits if_splits)

lemmas parse_one_nfdsD = parse_one_nfds [OF disjI1] parse_one_nfds [OF disjI2]

lemma parse_tcp_buffer_rounds [consumes 1, case_names last round]:
  assumes "parse_tcp_buffer s fd i = Inr s'"
    and last: "\<And>s s'. parse_one s fd i = More s' \<or> parse_one s fd i = Done s' \<Longrightarrow> P s s'"
    and round: "\<And>s s1 s'. parse_one s fd i = More s1 \<Longrightarrow> P s1 s' \<Longrightarrow> P s s'"
  shows "P s s'"
  using assms(1)
proof (induction "length (r_buffer_for_fd s fd)" arbitrary: s rule: less_induct)
  case less
  show ?case
  proof (cases "parse_one s fd i")
    case (More s1)
    with less.prems less.hyps [OF parse_one_decreases [OF More]] show ?thesis
      by (auto simp: parse_tcp_buffer.simps [of s] split: if_splits intro: last round)
  qed (use less.prems in \<open>auto simp: parse_tcp_buffer.simps [of s] intro: last\<close>)
qed

lemma parse_tcp_buffer_nfds:
  "parse_tcp_buffer s fd i = Inr s' \<Longrightarrow> nfds s' = nfds s"
  by (induction rule: parse_tcp_buffer_rounds) (auto dest: parse_one_nfdsD)

lemma flush_one_frame [simp, slots]:
  "fds (flush_one fd s) = fds s" "current_size (flush_one fd s) = current_size s"
  "empties (flush_one fd s) = empties s" "id_to_fd (flush_one fd s) = id_to_fd s"
  "fd_to_id (flush_one fd s) = fd_to_id s" "topic_subscribers (flush_one fd s) = topic_subscribers s"
  by (simp_all add: flush_one_def split: option.split list.split)

lemma serve_client_nfds: "serve_client e i s = Inr s' \<Longrightarrow> nfds s' = nfds s"
  by (auto simp: serve_client_def Let_def split: if_splits option.splits
      dest!: parse_tcp_buffer_nfds)

lemma write_slot_nfds: "write_slot j fd s = Inr s' \<Longrightarrow> nfds s \<le> nfds s'"
  by (auto simp: write_slot_def split: if_splits)

lemma add_con_nfds: "add_con a ok s = Inr s' \<Longrightarrow> nfds s \<le> nfds s'"
  by (auto simp: add_con_def Let_def split: prod.splits if_splits sum.splits
      dest!: write_slot_nfds)

lemma serve_slot_nfds: "serve_slot e i s = Inr s' \<Longrightarrow> nfds s \<le> nfds s'"
  by (auto simp: serve_slot_def serve_udp_def Let_def split: if_splits sum.splits option.splits
      dest: add_con_nfds serve_client_nfds)

locale broker_invariant =
  fixes inv :: "server_data \<Rightarrow> bool"
  assumes inv_rbuf: "inv s \<Longrightarrow> inv (set_rbuf fd q s)"
    and inv_log: "inv s \<Longrightarrow> inv (log_event ev s)"
    and inv_disconnect: "inv s \<Longrightarrow> i < nfds s \<Longrightarrow> inv (disconnect s i d)"
    and inv_register: "inv s \<Longrightarrow> id_to_fd s c = None \<Longrightarrow>
      inv (register_id fd c s)"
    and inv_subscribe: "inv s \<Longrightarrow> sf < 2 \<Longrightarrow>
      inv (subscribe sf t c (unsubscribe ((sf + 1) mod 2) t c s))"
    and inv_unsubscribe: "inv s \<Longrightarrow> inv (unsubscribe k t c s)"
    and inv_mailbox: "inv s \<Longrightarrow> inv (s\<lparr>w_buffer_for_id := w\<rparr>)"
    and inv_freed: "inv s \<Longrightarrow> i < nfds s \<Longrightarrow> inv (s\<lparr>empties := empties s @ [i]\<rparr>)"
    and inv_add_con: "inv s \<Longrightarrow> add_con a ok s = Inr s' \<Longrightarrow> inv s'"
begin

lemma parse_connect_inv:
  assumes "inv s" "i < nfds s"
    and "parse_connect s fd i extra = More s' \<or> parse_connect s fd i extra = Done s'"
  shows "inv s'"
  using assms
  by (auto simp: parse_connect_def Let_def split: if_splits option.splits
      intro!: inv_rbuf inv_log inv_disconnect inv_register)

lemma parse_sub_inv:
  assumes "inv s" "i < nfds s"
    and "parse_sub s fd i extra = More s' \<or> parse_sub s fd i extra = Done s'"
  shows "inv s'"
  using assms
  by (auto simp: parse_sub_def Let_def split: if_splits option.splits
      intro!: inv_rbuf inv_disconnect
        inv_subscribe [where sf = 0, simplified] inv_subscribe [where sf = 1, simplified])

lemma parse_unsub_inv:
  assumes "inv s" "i < nfds s"
    and "parse_unsub s fd i extra = More s' \<or> parse_unsub s fd i extra = Done s'"
  shows "inv s'"
  using assms
  by (auto simp: parse_unsub_def Let_def split: if_splits option.splits
      intro!: inv_rbuf inv_disconnect inv_unsubscribe)

lemma parse_one_inv:
  assumes s: "inv s" and i: "i < nfds s"
    and step: "parse_one s fd i = More s' \<or> parse_one s fd i = Done s'"
  shows "inv s'"
proof (cases "r_buffer_for_fd s fd")
  case Nil
  with step show ?thesis by (simp add: parse_one_def read_data_eq)
next
  case (Cons ty q)
  let ?s = "set_rbuf fd q s"
  have inv: "inv ?s" using s by (rule inv_rbuf)
  have i: "i < nfds ?s" using i by simp
  show ?thesis
    using step Cons parse_connect_inv [OF inv i] parse_sub_inv [OF inv i]
      parse_unsub_inv [OF inv i] inv_disconnect [OF inv i]
    by (auto simp: parse_one_def Let_def read_data_eq split: if_splits)
qed


lemmas parse_one_invD = parse_one_inv [OF _ _ disjI1] parse_one_inv [OF _ _ disjI2]

lemma parse_tcp_buffer_inv:
  "parse_tcp_buffer s fd i = Inr s' \<Longrightarrow> inv s \<Longrightarrow> i < nfds s \<Longrightarrow> inv s'"
  by (induction rule: parse_tcp_buffer_rounds) (auto simp: parse_one_nfdsD intro: parse_one_invD)

lemma flush_one_inv: "inv s \<Longrightarrow> inv (flush_one fd s)"
  by (auto simp: flush_one_def split: option.split list.split intro: inv_log inv_mailbox)

lemma serve_client_inv:
  assumes "serve_client e i s = Inr s'" "inv s" "i < nfds s"
  shows "inv s'"
proof -
  have freed: "inv (disconnect (s\<lparr>empties := empties s @ [i]\<rparr>) i d)"
    and gone: "inv (disconnect (log_event ev (s\<lparr>empties := empties s @ [i]\<rparr>)) i d)" for d ev
    using inv_freed [OF assms(2,3)] assms(3) by (auto intro!: inv_disconnect inv_log)
  show ?thesis
    using assms freed gone
    by (auto simp: serve_client_def Let_def split: if_splits option.splits
        intro: flush_one_inv dest!: parse_tcp_buffer_inv intro!: inv_rbuf)
qed

lemma serve_udp_inv: "inv s \<Longrightarrow> inv (serve_udp e s)"
  by (auto simp: serve_udp_def publish_def publish_set_def Let_def split: option.split
      intro: inv_mailbox)

lemma serve_slot_inv:
  "serve_slot e i s = Inr s' \<Longrightarrow> inv s \<Longrightarrow> i < nfds s \<Longrightarrow> inv s'"
  by (auto simp: serve_slot_def split: if_splits sum.splits
      intro: inv_add_con serve_udp_inv serve_client_inv)

lemma serve_slots_inv:
  "serve_slots e is s = Inr s' \<Longrightarrow> inv s \<Longrightarrow> \<forall>i \<in> set is. i < nfds s \<Longrightarrow> inv s'"
proof (induction "is" arbitrary: s)
  case Nil
  then show ?case by simp
next
  case (Cons i "is")
  then obtain s1 where s1: "serve_slot e i s = Inr s1" and rest: "serve_slots e is s1 = Inr s'"
    by (auto split: sum.splits)
  have "inv s1" using s1 Cons.prems by (auto intro: serve_slot_inv)
  moreover have "\<forall>j \<in> set is. j < nfds s1"
    using serve_slot_nfds [OF s1] Cons.prems(3) by auto
  ultimately show ?case using rest by (rule Cons.IH [rotated])
qed

lemma server_pass_inv: "server_pass e s = Inr s' \<Longrightarrow> inv s \<Longrightarrow> inv s'"
  by (auto simp: server_pass_def split: if_splits intro: serve_slots_inv)

lemma server_run_inv: "server_run es s = Inr s' \<Longrightarrow> inv s \<Longrightarrow> inv s'"
  by (induction es arbitrary: s) (auto split: sum.splits intro: server_pass_inv)

end


section \<open>Instances: slot table, identifiers, subscriber sets\<close>

text \<open>
  The slot table: the slots in use fit in the allocated array and every slot queued in
  \<open>empties\<close> is one of them.
\<close>

definition slots_ok :: "server_data \<Rightarrow> bool" where
  "slots_ok s \<longleftrightarrow>
     nfds s \<le> current_size s \<and> 0 < current_size s \<and> (\<forall>j \<in> set (empties s). j < nfds s)"

text \<open>A non-empty identifier is held by the descriptor it is registered for, and no other.\<close>

definition ids_ok :: "server_data \<Rightarrow> bool" where
  "ids_ok s \<longleftrightarrow> (\<forall>fd cid. fd_to_id s fd = Some cid \<and> cid \<noteq> [] \<longrightarrow> id_to_fd s cid = Some fd)"

text \<open>No identifier is in both subscriber sets of a topic.\<close>

definition subs_ok :: "server_data \<Rightarrow> bool" where
  "subs_ok s \<longleftrightarrow> (\<forall>t. topic_subscribers s 0 t \<inter> topic_subscribers s 1 t = {})"

lemma add_con_frame:
  assumes "add_con a ok s = Inr s'"
  shows "id_to_fd s' = id_to_fd s" "fd_to_id s' = fd_to_id s"
    "topic_subscribers s' = topic_subscribers s" "w_buffer_for_id s' = w_buffer_for_id s"
    "r_buffer_for_fd s' = r_buffer_for_fd s"
  using assms
  by (auto simp: add_con_def write_slot_def Let_def split: prod.splits if_splits)

lemma write_slot_ok:
  assumes "nfds s \<le> current_size s" "0 < current_size s" "j \<le> nfds s" "j < current_size s"
  shows "\<exists>s'. write_slot j fd s = Inr s' \<and> nfds s' \<le> current_size s' \<and> nfds s \<le> nfds s'
    \<and> current_size s' = current_size s \<and> empties s' = empties s"
  using assms by (auto simp: write_slot_def)

lemma add_con_slots_ok:
  assumes "slots_ok s"
  shows "add_con a ok s \<noteq> Inl (Fault f)" "add_con a ok s = Inr s' \<Longrightarrow> slots_ok s'"
proof -
  obtain fd cli where a: "a = (fd, cli)" by fastforce
  have "add_con a ok s \<noteq> Inl (Fault f) \<and> (add_con a ok s = Inr s' \<longrightarrow> slots_ok s')"
  proof (cases "empties s")
    case Nil
    then show ?thesis using assms
      by (auto simp: add_con_def a slots_ok_def write_slot_def Let_def)
  next
    case (Cons j js)
    then show ?thesis using assms
      by (auto simp: add_con_def a slots_ok_def write_slot_def Let_def)
  qed
  then show "add_con a ok s \<noteq> Inl (Fault f)" "add_con a ok s = Inr s' \<Longrightarrow> slots_ok s'"
    by auto
qed

interpretation slot_table: broker_invariant slots_ok
proof unfold_locales
  fix s s' a ok assume "slots_ok s" "add_con a ok s = Inr s'"
  then show "slots_ok s'" by (rule add_con_slots_ok(2))
qed (auto simp: slots_ok_def)

interpretation id_maps: broker_invariant ids_ok
proof unfold_locales
  fix s i d assume "ids_ok s"
  then show "ids_ok (disconnect s i d)"
    unfolding ids_ok_def disconnect_frame forget_id_def
    by (auto simp: Let_def split: option.splits) (metis option.inject)
next
  fix s s' a ok assume "ids_ok s" "add_con a ok s = Inr s'"
  then show "ids_ok s'" by (simp add: ids_ok_def add_con_frame)
next
  fix s c fd assume ok: "ids_ok s" and new: "id_to_fd s c = None"
  have "c = []" if "fd_to_id s fd' = Some c" for fd'
    using ok new that unfolding ids_ok_def by (metis option.distinct(1))
  with ok show "ids_ok (register_id fd c s)" by (auto simp: ids_ok_def)
qed (auto simp: ids_ok_def)

interpretation subscriber_sets: broker_invariant subs_ok
proof unfold_locales
  fix s s' a ok assume "subs_ok s" "add_con a ok s = Inr s'"
  then show "subs_ok s'" by (simp add: subs_ok_def add_con_frame)
next
  fix s t c and sf :: nat assume "subs_ok s" "sf < 2"
  then show "subs_ok (subscribe sf t c (unsubscribe ((sf + 1) mod 2) t c s))"
    by (auto simp: subs_ok_def less_2_cases_iff)
qed (auto simp: subs_ok_def)

lemma server_init_ok:
  assumes "server_init e = Some s"
  shows "slots_ok s" "ids_ok s" "subs_ok s"
  using assms
  by (auto simp: server_init_def init_tcp_def init_udp_def empty_server_def slots_ok_def
      ids_ok_def subs_ok_def split: if_splits)

section \<open>Which undefined behaviour can be reached\<close>

text \<open>The two faults that bytes sent by a client can cause.\<close>

definition client_fault :: "fault \<Rightarrow> bool" where
  "client_fault f \<longleftrightarrow> f = Array_overread \<or> f = Bad_bool"

lemma parse_one_faults:
  assumes "parse_one s fd i = Undefined f" "r_buffer_for_fd s fd \<noteq> []"
  shows "client_fault f"
proof -
  obtain ty q where "r_buffer_for_fd s fd = ty # q" using assms(2) by (meson neq_Nil_conv)
  with assms(1) show ?thesis
    by (auto simp: client_fault_def parse_one_def parse_connect_def parse_sub_def parse_unsub_def read_data_eq Let_def
        split: if_splits option.splits)
qed

lemma parse_tcp_buffer_faults:
  "parse_tcp_buffer s fd i = Inl f \<Longrightarrow> r_buffer_for_fd s fd \<noteq> [] \<Longrightarrow>
     client_fault f"
proof (induction "length (r_buffer_for_fd s fd)" arbitrary: s rule: less_induct)
  case less
  show ?case
  proof (cases "parse_one s fd i")
    case (More s1)
    with less.prems less.hyps [OF parse_one_decreases [OF More]] show ?thesis
      by (auto simp: parse_tcp_buffer.simps [of s] split: if_splits)
  next
    case (Undefined g)
    with less.prems parse_one_faults [of s fd i f] show ?thesis
      by (auto simp: parse_tcp_buffer.simps [of s])
  qed (use less.prems in \<open>auto simp: parse_tcp_buffer.simps [of s]\<close>)
qed

lemma serve_slot_faults:
  assumes "serve_slot e i s = Inl (Fault f)" "slots_ok s"
  shows "client_fault f"
  using assms
  by (auto simp: serve_slot_def serve_client_def add_con_slots_ok Let_def
      split: if_splits sum.splits option.splits dest!: parse_tcp_buffer_faults)

lemma serve_slots_faults:
  "serve_slots e is s = Inl (Fault f) \<Longrightarrow> slots_ok s \<Longrightarrow> \<forall>i \<in> set is. i < nfds s \<Longrightarrow>
     client_fault f"
proof (induction "is" arbitrary: s)
  case Nil
  then show ?case by simp
next
  case (Cons i "is")
  show ?case
  proof (cases "serve_slot e i s")
    case (Inl r)
    with Cons.prems show ?thesis by (auto dest: serve_slot_faults)
  next
    case (Inr s1)
    have "slots_ok s1" using slot_table.serve_slot_inv [OF Inr] Cons.prems by auto
    moreover have "\<forall>j \<in> set is. j < nfds s1"
      using serve_slot_nfds [OF Inr] Cons.prems(3) by auto
    ultimately show ?thesis using Inr Cons.prems(1) by (auto intro: Cons.IH)
  qed
qed

lemma server_run_faults:
  "server_run es s = Inl (Fault f) \<Longrightarrow> slots_ok s \<Longrightarrow> client_fault f"
proof (induction es arbitrary: s)
  case Nil
  then show ?case by simp
next
  case (Cons e es)
  show ?case
  proof (cases "server_pass e s")
    case (Inl r)
    with Cons.prems show ?thesis
      by (auto simp: server_pass_def split: if_splits intro: serve_slots_faults)
  next
    case (Inr s1)
    with Cons show ?thesis by (auto dest: slot_table.server_pass_inv)
  qed
qed

end
