(* ===== verification/Server_Streams.thy ===== *)
theory Server_Streams
  imports Server_Facts
begin

text \<open>
  The broker of \<open>tema2/server.cpp\<close> against an abstract subscription service: what
  well-formed client streams do, however TCP cuts them into segments; what a datagram does
  to the mailboxes; in which order a mailbox is sent.
\<close>

section \<open>Messages of a client\<close>

text \<open>
  The three messages with the arrays they carry, as sent by \<open>tema2/subscriber.cpp\<close>: an
  array holds a NUL and arbitrary bytes behind it.
\<close>

datatype client_msg =
    Connect "byte list"
  | Subscribe "byte list" bool
  | Unsubscribe "byte list" byte

fun encode_msg :: "client_msg \<Rightarrow> byte list" where
  "encode_msg (Connect a) = tcp_con_msg_bytes \<lparr>con_type = TCP_CONNECT, con_id = a\<rparr>"
| "encode_msg (Subscribe a sf) =
     tcp_sub_msg_bytes \<lparr>sub_type = TCP_SUB, sub_topic = a, sub_sf = (if sf then 1 else 0)\<rparr>"
| "encode_msg (Unsubscribe a b) =
     tcp_sub_msg_bytes \<lparr>sub_type = TCP_UNSUB, sub_topic = a, sub_sf = b\<rparr>"

fun wf_msg :: "client_msg \<Rightarrow> bool" where
  "wf_msg (Connect a) \<longleftrightarrow> length a = ID_LEN + 1 \<and> 0 \<in> set a"
| "wf_msg (Subscribe a sf) \<longleftrightarrow> length a = TOPIC_LEN + 1 \<and> 0 \<in> set a"
| "wf_msg (Unsubscribe a b) \<longleftrightarrow> length a = TOPIC_LEN + 1 \<and> 0 \<in> set a"

lemmas encode_simps = tcp_con_msg_bytes_def tcp_sub_msg_bytes_def

text \<open>What one message does to the state, its bytes being out of the buffer.\<close>

fun apply_msg :: "int \<Rightarrow> client_msg \<Rightarrow> server_data \<Rightarrow> server_data" where
  "apply_msg fd (Connect a) s =
     log_event (New_client (c_string a) (sin_addr (addr_for_fd s fd)) (sin_port (addr_for_fd s fd)))
       (register_id fd (c_string a) s)"
| "apply_msg fd (Subscribe a sf) s =
     (case fd_to_id s fd of
        None \<Rightarrow> s
      | Some cid \<Rightarrow> subscribe (of_bool sf) (c_string a) cid
                      (unsubscribe (of_bool (\<not> sf)) (c_string a) cid s))"
| "apply_msg fd (Unsubscribe a b) s =
     (case fd_to_id s fd of
        None \<Rightarrow> s
      | Some cid \<Rightarrow> unsubscribe 1 (c_string a) cid (unsubscribe 0 (c_string a) cid s))"

text \<open>When the server accepts a message instead of closing the connection.\<close>

fun accepts :: "server_data \<Rightarrow> int \<Rightarrow> client_msg \<Rightarrow> bool" where
  "accepts s fd (Connect a) \<longleftrightarrow> id_to_fd s (c_string a) = None"
| "accepts s fd (Subscribe a sf) \<longleftrightarrow> fd_to_id s fd \<noteq> None"
| "accepts s fd (Unsubscribe a b) \<longleftrightarrow> fd_to_id s fd \<noteq> None"

fun session :: "server_data \<Rightarrow> int \<Rightarrow> client_msg list \<Rightarrow> bool" where
  "session s fd [] \<longleftrightarrow> True"
| "session s fd (m # ms) \<longleftrightarrow> wf_msg m \<and> accepts s fd m \<and> session (apply_msg fd m s) fd ms"

fun apply_msgs :: "int \<Rightarrow> client_msg list \<Rightarrow> server_data \<Rightarrow> server_data" where
  "apply_msgs fd [] s = s"
| "apply_msgs fd (m # ms) s = apply_msgs fd ms (apply_msg fd m s)"

definition encode_stream :: "client_msg list \<Rightarrow> byte list" where
  "encode_stream ms = concat (map encode_msg ms)"

lemma encode_stream_simps [simp]:
  "encode_stream [] = []" "encode_stream (m # ms) = encode_msg m @ encode_stream ms"
  by (simp_all add: encode_stream_def)

text \<open>The bytes left in the read buffer do not matter to what a message does.\<close>

lemma apply_msg_set_rbuf:
  "apply_msg fd m (set_rbuf fd' q s) = set_rbuf fd' q (apply_msg fd m s)"
  by (cases m)
    (simp_all add: set_rbuf_def log_event_def register_id_def subscribe_def unsubscribe_def
      split: option.split)

lemma apply_msg_rbuf [simp]: "r_buffer_for_fd (apply_msg fd m s) = r_buffer_for_fd s"
  by (cases m) (auto split: option.split)

lemma accepts_set_rbuf [simp]: "accepts (set_rbuf fd' q s) fd m = accepts s fd m"
  by (cases m) simp_all

lemma session_set_rbuf [simp]: "session (set_rbuf fd' q s) fd ms = session s fd ms"
  by (induction ms arbitrary: s) (simp_all add: apply_msg_set_rbuf)

lemma apply_msgs_set_rbuf:
  "apply_msgs fd ms (set_rbuf fd' q s) = set_rbuf fd' q (apply_msgs fd ms s)"
  by (induction ms arbitrary: s) (simp_all add: apply_msg_set_rbuf)

lemma set_rbuf_set_rbuf [simp]: "set_rbuf fd q (set_rbuf fd q' s) = set_rbuf fd q s"
  by (simp add: set_rbuf_def)

lemma set_rbuf_same: "set_rbuf fd (r_buffer_for_fd s fd) s = s"
  by (simp add: set_rbuf_def)

section \<open>Parsing a stream\<close>

lemma encode_msg_nonempty [simp]: "encode_msg m \<noteq> []"
  by (cases m) (simp_all add: encode_simps)

lemma session_append:
  "session s fd (ms @ ms') \<longleftrightarrow> session s fd ms \<and> session (apply_msgs fd ms s) fd ms'"
  by (induction ms arbitrary: s) simp_all

lemma apply_msgs_append:
  "apply_msgs fd (ms @ ms') s = apply_msgs fd ms' (apply_msgs fd ms s)"
  by (induction ms arbitrary: s) simp_all

lemma session_wf: "session s fd ms \<Longrightarrow> m \<in> set ms \<Longrightarrow> wf_msg m"
  by (induction ms arbitrary: s) auto

lemma parse_one_msg:
  assumes "r_buffer_for_fd s fd = encode_msg m @ rest" "wf_msg m" "accepts s fd m"
  shows "parse_one s fd i = More (set_rbuf fd rest (apply_msg fd m s))"
proof (cases m)
  case (Connect a)
  with assms show ?thesis
    by (auto simp: parse_one_def parse_connect_def read_data_eq encode_simps Let_def
        string_of_array_def set_rbuf_def register_id_def log_event_def)
next
  case (Subscribe a sf)
  with assms obtain cid where "fd_to_id s fd = Some cid" by auto
  with assms Subscribe show ?thesis
    by (cases sf)
      (auto simp: parse_one_def parse_sub_def read_data_eq encode_simps Let_def nth_append
        tcp_sub_msg_of_bytes_def string_of_array_def set_rbuf_def subscribe_def unsubscribe_def)
next
  case (Unsubscribe a b)
  with assms obtain cid where "fd_to_id s fd = Some cid" by auto
  with assms Unsubscribe show ?thesis
    by (auto simp: parse_one_def parse_unsub_def read_data_eq encode_simps Let_def nth_append
        tcp_sub_msg_of_bytes_def string_of_array_def set_rbuf_def unsubscribe_def)
qed

text \<open>The proper beginning of a message is left in the buffer for later.\<close>

lemma parse_one_partial:
  assumes "r_buffer_for_fd s fd = p" "p \<noteq> []" "encode_msg m = p @ r" "r \<noteq> []" "wf_msg m"
  shows "parse_one s fd i = Done s"
proof -
  from assms(2) obtain ty q where p: "p = ty # q" by (meson neq_Nil_conv)
  have same: "set_rbuf fd (ty # q) s = s" using set_rbuf_same [of fd s] assms(1) p by simp
  have len: "length (encode_msg m) = Suc (length q) + length r" using assms(3) p by simp
  have ty: "ty = hd (encode_msg m)" using assms(3) p by simp
  have q: "length q < length (encode_msg m) - 1" using len assms(4) by (simp add: Suc_lessI)
  show ?thesis
  proof (cases m)
    case (Connect a)
    with ty q assms(1,5) p same show ?thesis
      by (simp add: parse_one_def parse_connect_def read_data_eq encode_simps Let_def)
  next
    case (Subscribe a sf)
    with ty q assms(1,5) p same show ?thesis
      by (simp add: parse_one_def parse_sub_def read_data_eq encode_simps Let_def)
  next
    case (Unsubscribe a b)
    with ty q assms(1,5) p same show ?thesis
      by (simp add: parse_one_def parse_unsub_def read_data_eq encode_simps Let_def)
  qed
qed

lemma parse_stream:
  assumes "session s fd ms" "r_buffer_for_fd s fd = encode_stream ms @ p" "ms \<noteq> [] \<or> p \<noteq> []"
    and "p \<noteq> [] \<Longrightarrow> \<exists>m r. encode_msg m = p @ r \<and> r \<noteq> [] \<and> wf_msg m"
  shows "parse_tcp_buffer s fd i = Inr (set_rbuf fd p (apply_msgs fd ms s))"
  using assms
proof (induction ms arbitrary: s)
  case Nil
  then have "parse_one s fd i = Done s"
    using parse_one_partial [of s fd p] by fastforce
  with Nil show ?case
    using set_rbuf_same [of fd s] by (simp add: parse_tcp_buffer.simps [of s])
next
  case (Cons m ms)
  let ?rest = "encode_stream ms @ p"
  let ?s = "set_rbuf fd ?rest (apply_msg fd m s)"
  from Cons.prems have one: "parse_one s fd i = More ?s"
    by (intro parse_one_msg) auto
  show ?case
  proof (cases "?rest = []")
    case True
    then have "ms = []" by (cases ms) auto
    with one True show ?thesis by (simp add: parse_tcp_buffer.simps [of s])
  next
    case False
    then have "parse_tcp_buffer ?s fd i = Inr (set_rbuf fd p (apply_msgs fd ms ?s))"
      using Cons.prems by (intro Cons.IH) auto
    with one False show ?thesis
      by (simp add: parse_tcp_buffer.simps [of s] apply_msgs_set_rbuf)
  qed
qed

text \<open>A prefix of a stream is whole messages and the beginning of the next.\<close>

lemma encode_stream_prefix:
  assumes "encode_stream ms = q @ r"
  shows "\<exists>ms1 ms2 p. ms = ms1 @ ms2 \<and> q = encode_stream ms1 @ p \<and> encode_stream ms2 = p @ r
    \<and> (p \<noteq> [] \<longrightarrow> (\<exists>m r'. m \<in> set ms2 \<and> encode_msg m = p @ r' \<and> r' \<noteq> []))"
  using assms
proof (induction ms arbitrary: q)
  case Nil
  then show ?case by auto
next
  case (Cons m ms)
  then have eq: "encode_msg m @ encode_stream ms = q @ r" by simp
  then obtain us where us: "encode_msg m = q @ us \<and> us @ encode_stream ms = r
      \<or> encode_msg m @ us = q \<and> encode_stream ms = us @ r"
    using append_eq_append_conv2 [of "encode_msg m" _ q] by blast
  then consider us where "q = encode_msg m @ us" "encode_stream ms = us @ r"
    | us where "encode_msg m = q @ us" "r = us @ encode_stream ms" "us \<noteq> []"
  proof (cases "us = []")
    case True
    with us that(1) [of "[]"] show ?thesis by auto
  qed (use that us in blast)
  then show ?case
  proof cases
    case 1
    from Cons.IH [OF 1(2)] obtain ms1 ms2 p where
      "ms = ms1 @ ms2" "us = encode_stream ms1 @ p" "encode_stream ms2 = p @ r"
      "p \<noteq> [] \<longrightarrow> (\<exists>m r'. m \<in> set ms2 \<and> encode_msg m = p @ r' \<and> r' \<noteq> [])"
      by blast
    then show ?thesis using 1(1)
      by (intro exI [of _ "m # ms1"] exI [of _ ms2] exI [of _ p]) simp
  next
    case 2
    then show ?thesis
      by (intro exI [of _ "[]"] exI [of _ "m # ms"] exI [of _ q]) auto
  qed
qed

lemma length_encode_msg_le: "m \<in> set ms \<Longrightarrow> length (encode_msg m) \<le> length (encode_stream ms)"
  by (induction ms) auto

lemma encode_stream_rest:
  assumes "encode_stream ms = p"
    and "p \<noteq> [] \<longrightarrow> (\<exists>m r. m \<in> set ms \<and> encode_msg m = p @ r \<and> r \<noteq> [])"
  shows "ms = [] \<and> p = []"
proof -
  have "p = []"
  proof (rule ccontr)
    assume "p \<noteq> []"
    then obtain m r where "m \<in> set ms" "encode_msg m = p @ r" "r \<noteq> []" using assms(2) by blast
    with length_encode_msg_le [of m ms] assms(1) show False by simp
  qed
  with assms(1) show ?thesis by (cases ms) auto
qed

text \<open>
  The bytes of a client arriving in several \<open>recv\<close> results: each is appended to the read
  buffer and the buffer parsed, as in the \<open>POLLIN\<close> branch of \<^term>\<open>serve_client\<close>.
\<close>

fun feed :: "server_data \<Rightarrow> int \<Rightarrow> nat \<Rightarrow> byte list list \<Rightarrow> fault + server_data" where
  "feed s fd i [] = Inr s"
| "feed s fd i (c # cs) =
     (case parse_tcp_buffer (set_rbuf fd (r_buffer_for_fd s fd @ c) s) fd i of
        Inl f \<Rightarrow> Inl f
      | Inr s' \<Rightarrow> feed s' fd i cs)"

lemma feed_session:
  assumes "session s fd ms" "r_buffer_for_fd s fd = p" "p @ concat cs = encode_stream ms"
    and "[] \<notin> set cs"
  shows "feed s fd i cs = Inr (set_rbuf fd (if cs = [] then p else []) (apply_msgs fd (if cs = [] then [] else ms) s))"
  using assms
proof (induction cs arbitrary: s p ms)
  case Nil
  then show ?case using set_rbuf_same [of fd s] by simp
next
  case (Cons c cs)
  let ?s = "set_rbuf fd (p @ c) s"
  have "encode_stream ms = (p @ c) @ concat cs" using Cons.prems(3) by simp
  from encode_stream_prefix [OF this] obtain ms1 ms2 p' where
    ms: "ms = ms1 @ ms2" and pc: "p @ c = encode_stream ms1 @ p'"
    and rest: "encode_stream ms2 = p' @ concat cs"
    and p': "p' \<noteq> [] \<longrightarrow> (\<exists>m r'. m \<in> set ms2 \<and> encode_msg m = p' @ r' \<and> r' \<noteq> [])"
    by blast
  have wf: "wf_msg m" if "m \<in> set ms2" for m
    using session_wf [OF Cons.prems(1)] ms that by simp
  have parse: "parse_tcp_buffer ?s fd i = Inr (set_rbuf fd p' (apply_msgs fd ms1 ?s))"
  proof (rule parse_stream)
    show "session ?s fd ms1" using Cons.prems(1) ms by (simp add: session_append)
    show "r_buffer_for_fd ?s fd = encode_stream ms1 @ p'" using pc by simp
    show "ms1 \<noteq> [] \<or> p' \<noteq> []" using pc Cons.prems(4) by auto
  qed (use p' wf in blast)
  let ?s' = "set_rbuf fd p' (apply_msgs fd ms1 ?s)"
  have "feed ?s' fd i cs =
      Inr (set_rbuf fd (if cs = [] then p' else []) (apply_msgs fd (if cs = [] then [] else ms2) ?s'))"
    using Cons.prems(1,4) ms rest
    by (intro Cons.IH) (auto simp: session_append apply_msgs_set_rbuf)
  moreover have "ms2 = [] \<and> p' = []" if "cs = []"
    using rest p' that by (intro encode_stream_rest) auto
  ultimately show ?case
    using parse ms Cons.prems(2) by (auto simp: apply_msgs_append apply_msgs_set_rbuf)
qed

end
