(* ===== verification/Server_Props.thy ===== *)
theory Server_Props
  imports Server_Streams
begin

text \<open>
  The abstract subscription service that \<open>tema2/server.cpp\<close> implements, the simulation
  between the two, and the properties of the broker with their witnesses.
\<close>

section \<open>The abstract service\<close>

text \<open>
  Who is connected, and per topic which identifiers are interested, with the
  store-and-forward flag of their last subscription.
\<close>

record broker =
  online :: "int \<rightharpoonup> byte list"
  interest :: "byte list \<Rightarrow> byte list \<rightharpoonup> bool"

definition abs_broker :: "server_data \<Rightarrow> broker" where
  "abs_broker s =
     \<lparr>online = fd_to_id s,
      interest = (\<lambda>t c. if c \<in> topic_subscribers s 1 t then Some True
                        else if c \<in> topic_subscribers s 0 t then Some False else None)\<rparr>"

definition set_interest :: "byte list \<Rightarrow> byte list \<Rightarrow> bool option \<Rightarrow> broker \<Rightarrow> broker" where
  "set_interest t c v b = b\<lparr>interest := (interest b)(t := (interest b t)(c := v))\<rparr>"

fun broker_step :: "int \<Rightarrow> client_msg \<Rightarrow> broker \<Rightarrow> broker" where
  "broker_step fd (Connect a) b = b\<lparr>online := (online b)(fd \<mapsto> c_string a)\<rparr>"
| "broker_step fd (Subscribe a sf) b =
     (case online b fd of None \<Rightarrow> b | Some c \<Rightarrow> set_interest (c_string a) c (Some sf) b)"
| "broker_step fd (Unsubscribe a x) b =
     (case online b fd of None \<Rightarrow> b | Some c \<Rightarrow> set_interest (c_string a) c None b)"

lemma abs_apply_msg: "abs_broker (apply_msg fd m s) = broker_step fd m (abs_broker s)"
  by (cases m)
    (auto simp: abs_broker_def set_interest_def fun_eq_iff split: option.splits)

lemma abs_apply_msgs:
  "abs_broker (apply_msgs fd ms s) = fold (broker_step fd) ms (abs_broker s)"
  by (induction ms arbitrary: s) (simp_all add: abs_apply_msg)

lemma abs_set_rbuf [simp]: "abs_broker (set_rbuf fd q s) = abs_broker s"
  unfolding abs_broker_def set_rbuf_frame ..

section \<open>States a run reaches\<close>

lemma server_main_reaches:
  assumes "server_main argn ie es = Inr s"
  obtains s0 where "server_init ie = Some s0" "server_run es s0 = Inr s"
  using assms by (auto simp: server_main_def split: if_splits option.splits)

lemma reachable_ok:
  assumes "server_main argn ie es = Inr s"
  shows "slots_ok s" "ids_ok s" "subs_ok s"
  using assms
  by (auto elim!: server_main_reaches intro: server_init_ok
      slot_table.server_run_inv id_maps.server_run_inv subscriber_sets.server_run_inv)

lemma mailbox_publish:
  assumes "subs_ok s"
  shows "w_buffer_for_id (publish t u s) c = w_buffer_for_id s c @
    (if interest (abs_broker s) t c = Some True
        \<or> interest (abs_broker s) t c = Some False \<and> id_to_fd s c \<noteq> None
     then [u] else [])"
  using assms
  by (auto simp: publish_def publish_set_def abs_broker_def subs_ok_def)

text \<open>A datagram changes mailboxes only.\<close>

lemma serve_udp_frame:
  "fd_to_id (serve_udp e s) = fd_to_id s" "fds (serve_udp e s) = fds s" "sd_tcp (serve_udp e s) = sd_tcp s"
  "sd_udp (serve_udp e s) = sd_udp s" "server_log (serve_udp e s) = server_log s"
  "topic_subscribers (serve_udp e s) = topic_subscribers s"
  by (simp_all add: serve_udp_def Let_def publish_def publish_set_def split: option.split)

lemma serve_udp_broker: "abs_broker (serve_udp e s) = abs_broker s"
  unfolding abs_broker_def serve_udp_frame by (rule refl)

text \<open>Emptying a mailbox, one \<open>POLLOUT\<close> at a time.\<close>

definition sent_bytes :: "udp_news_wrapper \<Rightarrow> byte list" where
  "sent_bytes w = take (nat (wrap_len w)) (wrapper_bytes w)"

lemma flush_many:
  assumes "fd_to_id s fd = Some c"
  shows "server_log ((flush_one fd ^^ n) s) =
           server_log s @ map (\<lambda>w. Sent fd (sent_bytes w)) (take n (w_buffer_for_id s c))
    \<and> w_buffer_for_id ((flush_one fd ^^ n) s) c = drop n (w_buffer_for_id s c)
    \<and> fd_to_id ((flush_one fd ^^ n) s) = fd_to_id s"
proof (induction n)
  case 0
  then show ?case by simp
next
  case (Suc n)
  define t where "t = (flush_one fd ^^ n) s"
  have id: "fd_to_id t fd = Some c" and log: "server_log t =
      server_log s @ map (\<lambda>w. Sent fd (sent_bytes w)) (take n (w_buffer_for_id s c))"
    and box: "w_buffer_for_id t c = drop n (w_buffer_for_id s c)"
    and ids: "fd_to_id t = fd_to_id s"
    using Suc assms by (simp_all add: t_def)
  have "(flush_one fd ^^ Suc n) s = flush_one fd t" by (simp add: t_def)
  moreover have "server_log (flush_one fd t) =
      server_log s @ map (\<lambda>w. Sent fd (sent_bytes w)) (take (Suc n) (w_buffer_for_id s c))
    \<and> w_buffer_for_id (flush_one fd t) c = drop (Suc n) (w_buffer_for_id s c)"
  proof (cases "n < length (w_buffer_for_id s c)")
    case True
    then have "w_buffer_for_id t c = w_buffer_for_id s c ! n # drop (Suc n) (w_buffer_for_id s c)"
      using box by (simp add: Cons_nth_drop_Suc)
    with id log True show ?thesis
      by (simp add: flush_one_def sent_bytes_def take_Suc_conv_app_nth)
  next
    case False
    with id log box show ?thesis by (simp add: flush_one_def)
  qed
  ultimately show ?case using ids by simp
qed

section \<open>A small broker for the witnesses\<close>

definition demo_server :: server_data where
  "demo_server = empty_server\<lparr>sd_tcp := 3, sd_udp := 4, fds := [3, 4, 5], current_size := 10\<rparr>"

definition demo_id :: "byte list" where
  "demo_id = str ''ann'' @ replicate 8 0"

definition demo_topic :: "byte list" where
  "demo_topic = str ''news'' @ replicate 47 0"

definition demo_init :: init_env where
  "demo_init = \<lparr>tcp_socket = 3, tcp_bind = 0, tcp_listen = 0, malloc_ok = True,
                udp_socket = 4, udp_bind = 0\<rparr>"

definition idle_env :: server_env where
  "idle_env = \<lparr>in_line = [], poll_ret = 0, revents = (\<lambda>_. 0), accept_ret = (-1, \<lparr>sin_addr = 0, sin_port = 0\<rparr>),
     realloc_ret = True, peek_ret = (\<lambda>_. -1), recv_ret = (\<lambda>_. None), recvfrom_ret = None,
     stack_u_n = replicate 1551 0\<rparr>"

lemma demo_server_simps [simp]:
  "id_to_fd demo_server = Map.empty" "fd_to_id demo_server = Map.empty"
  "r_buffer_for_fd demo_server = (\<lambda>_. [])" "w_buffer_for_id demo_server = (\<lambda>_. [])"
  "fds demo_server = [3, 4, 5]" "empties demo_server = []" "current_size demo_server = 10"
  "topic_subscribers demo_server = (\<lambda>_ _. {})" "sd_tcp demo_server = 3" "sd_udp demo_server = 4"
  "server_log demo_server = []"
  by (simp_all add: demo_server_def empty_server_def)

lemma demo_id_simps [simp]:
  "c_string demo_id = str ''ann''" "length demo_id = 11" "0 \<in> set demo_id"
  by (simp_all add: demo_id_def str_def c_string_def)

lemma demo_topic_simps [simp]:
  "c_string demo_topic = str ''news''" "length demo_topic = 51" "0 \<in> set demo_topic"
  by (simp_all add: demo_topic_def str_def c_string_def)

section \<open>Properties\<close>

text \<open>
  C1. Segmentation independence and refinement: when a connection carries messages the server
  accepts, then however TCP cuts their bytes into segments, reading the segments ends with an empty
  buffer and has exactly the effect of the messages, in order, on the abstract service.
\<close>

theorem server_refines_broker:
  assumes "session s fd ms" "r_buffer_for_fd s fd = []"
    and "concat cs = encode_stream ms" "[] \<notin> set cs"
  shows "\<exists>s'. feed s fd i cs = Inr s' \<and> r_buffer_for_fd s' fd = []
    \<and> abs_broker s' = fold (broker_step fd) ms (abs_broker s)"
proof (cases "cs = []")
  case True
  with assms(3) have "ms = []" by (cases ms) auto
  with True assms(2) show ?thesis by simp
next
  case False
  with feed_session [OF assms(1,2), of cs i] assms(3,4)
  have "feed s fd i cs = Inr (set_rbuf fd [] (apply_msgs fd ms s))" by simp
  then show ?thesis by (simp add: abs_apply_msgs)
qed

theorem server_refines_broker_witness:
  "\<exists>s'. feed demo_server 5 2
      [[TCP_CONNECT], demo_id @ encode_msg (Subscribe demo_topic True)] = Inr s'
    \<and> r_buffer_for_fd s' 5 = []
    \<and> abs_broker s' = fold (broker_step 5) [Connect demo_id, Subscribe demo_topic True]
        (abs_broker demo_server)"
proof (rule server_refines_broker)
  show "session demo_server 5 [Connect demo_id, Subscribe demo_topic True]" by simp
qed (simp_all add: encode_simps)

text \<open>
  C15. Memory safety of the server on any input: a run never reads an empty deque and never
  writes outside the slot array; the only undefined behaviour it can reach is reading past an
  identifier or topic sent without its NUL, or a flag that is not a \<open>bool\<close>.
\<close>

theorem server_only_client_faults:
  assumes "server_main argn ie es = Inl (Fault f)"
  shows "f = Array_overread \<or> f = Bad_bool"
  using assms server_init_ok(1)
  by (auto simp: server_main_def client_fault_def [symmetric] split: if_splits option.splits
      intro: server_run_faults)

definition bad_id_env :: server_env where
  "bad_id_env = idle_env\<lparr>poll_ret := 1, peek_ret := (\<lambda>fd. if fd = 5 then 1 else -1),
     revents := (\<lambda>i. if i = 2 then POLLIN else 0), recv_ret := (\<lambda>_. Some (1 # replicate 11 65))\<rparr>"

definition accept_env :: server_env where
  "accept_env = idle_env\<lparr>poll_ret := 1, accept_ret := (5, \<lparr>sin_addr = 16777343, sin_port = 80\<rparr>),
     revents := (\<lambda>i. if i = 0 then POLLIN else 0)\<rparr>"

lemma accept_first:
  "server_main 2 demo_init (accept_env # es) =
     server_run es (empty_server\<lparr>sd_tcp := 3, fds := [3, 4, 5], current_size := 10, sd_udp := 4,
       addr_for_fd := (\<lambda>_. \<lparr>sin_addr = 0, sin_port = 0\<rparr>)(5 := \<lparr>sin_addr = 16777343, sin_port = 80\<rparr>)\<rparr>)"
  by (simp add: server_main_def server_init_def init_tcp_def init_udp_def demo_init_def
      server_pass_def idle_env_def accept_env_def str_def serve_slot_def add_con_def write_slot_def
      empty_server_def Let_def upt_rec)

theorem server_only_client_faults_witness:
  "server_main 2 demo_init [accept_env, bad_id_env] = Inl (Fault Array_overread)
    \<and> (Array_overread = Array_overread \<or> Array_overread = Bad_bool)"
proof -
  have run: "server_main 2 demo_init [accept_env, bad_id_env] = Inl (Fault Array_overread)"
    unfolding accept_first
    by (simp add: server_pass_def idle_env_def bad_id_env_def str_def serve_slot_def
        serve_client_def parse_tcp_buffer.simps parse_one_def parse_connect_def read_data_eq
        string_of_array_def empty_server_def Let_def upt_rec)
  with server_only_client_faults [OF run] show ?thesis by simp
qed

lemma server_ids:
  assumes "server_main argn ie es = Inr s" "fd_to_id s fd = Some c" "c \<noteq> []"
  shows "id_to_fd s c = Some fd"
  using reachable_ok(2) [OF assms(1)] assms(2,3) by (simp add: ids_ok_def)

text \<open>A run in which a client connects and subscribes without store and forward.\<close>

definition joining_env :: server_env where
  "joining_env = idle_env\<lparr>poll_ret := 1, peek_ret := (\<lambda>fd. if fd = 5 then 1 else -1),
     revents := (\<lambda>i. if i = 2 then POLLIN else 0),
     recv_ret := (\<lambda>_. Some (encode_stream [Connect demo_id, Subscribe demo_topic False]))\<rparr>"

lemma joining_run:
  "\<exists>s. server_main 2 demo_init [accept_env, joining_env] = Inr s \<and> fd_to_id s 5 = Some (str ''ann'')
    \<and> w_buffer_for_id s (str ''ann'') = [] \<and> interest (abs_broker s) (str ''news'') (str ''ann'') = Some False
    \<and> interest (abs_broker s) (str ''news'') (str ''bob'') = None \<and> fds s = [3, 4, 5] \<and> sd_tcp s = 3 \<and> sd_udp s = 4"
proof -
  let ?ms = "[Connect demo_id, Subscribe demo_topic False]"
  define s0 where "s0 = empty_server\<lparr>sd_tcp := 3, fds := [3, 4, 5], current_size := 10, sd_udp := 4,
       addr_for_fd := (\<lambda>_. \<lparr>sin_addr = 0, sin_port = 0\<rparr>)(5 := \<lparr>sin_addr = 16777343, sin_port = 80\<rparr>)\<rparr>"
  have s0: "fds s0 = [3, 4, 5]" "sd_tcp s0 = 3" "sd_udp s0 = 4" "r_buffer_for_fd s0 = (\<lambda>_. [])" "id_to_fd s0 = Map.empty"
    "w_buffer_for_id s0 = (\<lambda>_. [])" "topic_subscribers s0 = (\<lambda>_ _. {})"
    by (simp_all add: s0_def empty_server_def)
  have "session s0 5 ?ms" by (simp add: s0)
  then have "parse_tcp_buffer (set_rbuf 5 (encode_stream ?ms) s0) 5 i
      = Inr (set_rbuf 5 [] (apply_msgs 5 ?ms (set_rbuf 5 (encode_stream ?ms) s0)))" for i
    by (intro parse_stream) simp_all
  then have "server_main 2 demo_init [accept_env, joining_env] = Inr (set_rbuf 5 [] (apply_msgs 5 ?ms s0))"
    unfolding accept_first s0_def [symmetric]
    by (simp add: server_pass_def joining_env_def idle_env_def str_def serve_slot_def serve_client_def s0 upt_rec
        apply_msgs_set_rbuf encode_simps)
  moreover have "fd_to_id (apply_msgs 5 ?ms s0) 5 = Some (str ''ann'')"
    "w_buffer_for_id (apply_msgs 5 ?ms s0) (str ''ann'') = []"
    "interest (abs_broker (apply_msgs 5 ?ms s0)) (str ''news'') (str ''ann'') = Some False"
    "interest (abs_broker (apply_msgs 5 ?ms s0)) (str ''news'') (str ''bob'') = None"
    "fds (apply_msgs 5 ?ms s0) = [3, 4, 5]" "sd_tcp (apply_msgs 5 ?ms s0) = 3" "sd_udp (apply_msgs 5 ?ms s0) = 4"
    by (simp_all add: s0 abs_apply_msgs, simp_all add: abs_broker_def set_interest_def str_def s0)
  ultimately show ?thesis
    by (intro exI [of _ "set_rbuf 5 [] (apply_msgs 5 ?ms s0)"] conjI) (simp_all only: abs_set_rbuf, simp_all add: set_rbuf_def)
qed

definition news_env :: server_env where
  "news_env = idle_env\<lparr>recvfrom_ret := Some (str ''news'' @ replicate 46 0 @ 3 # str ''hi'', \<lparr>sin_addr = 16777343, sin_port = 80\<rparr>)\<rparr>"

text \<open>
  C8. In every state a run of the server reaches, no identifier is in both subscriber sets of a
  topic, the identifier of a descriptor is registered for exactly that descriptor, and so no two
  descriptors hold the same one (the empty identifier stands for none). The converse is not
  invariant: a second connect message on a descriptor leaves its first identifier registered, see
  \<open>second_connect_leaves_ghost\<close>.
\<close>

theorem server_state_invariant:
  assumes "server_main argn ie es = Inr s"
  shows "(\<forall>t. topic_subscribers s 0 t \<inter> topic_subscribers s 1 t = {})
    \<and> (\<forall>fd c. fd_to_id s fd = Some c \<longrightarrow> c \<noteq> [] \<longrightarrow> id_to_fd s c = Some fd)
    \<and> (\<forall>fd1 fd2 c. fd_to_id s fd1 = Some c \<longrightarrow> fd_to_id s fd2 = Some c \<longrightarrow> c \<noteq> [] \<longrightarrow> fd1 = fd2)"
proof -
  note ids = server_ids [OF assms]
  have "fd_to_id s fd1 = Some c \<Longrightarrow> fd_to_id s fd2 = Some c \<Longrightarrow> c \<noteq> [] \<Longrightarrow> fd1 = fd2" for fd1 fd2 c
    using ids [of fd1 c] ids [of fd2 c] by simp
  moreover have "\<forall>t. topic_subscribers s 0 t \<inter> topic_subscribers s 1 t = {}"
    using reachable_ok [OF assms] by (simp add: subs_ok_def)
  ultimately show ?thesis using ids by blast
qed

theorem server_state_invariant_witness:
  "\<exists>s. server_main 2 demo_init [accept_env, joining_env] = Inr s
    \<and> fd_to_id s 5 = Some (str ''ann'') \<and> id_to_fd s (str ''ann'') = Some 5
    \<and> str ''ann'' \<in> topic_subscribers s 0 (str ''news'') \<and> str ''ann'' \<notin> topic_subscribers s 1 (str ''news'')"
proof -
  from joining_run obtain s where s: "server_main 2 demo_init [accept_env, joining_env] = Inr s"
    "fd_to_id s 5 = Some (str ''ann'')" "interest (abs_broker s) (str ''news'') (str ''ann'') = Some False" by auto
  from s(3) have "str ''ann'' \<in> topic_subscribers s 0 (str ''news'')"
    by (auto simp: abs_broker_def split: if_splits)
  with s server_state_invariant [OF s(1)] show ?thesis
    by (intro exI [of _ s]) (auto simp: str_def)
qed

text \<open>
  C27. A datagram reaches every interested mailbox exactly once: in any reachable state it is
  appended, once, to the mailbox of an identifier whose last subscription to the topic asked
  for store-and-forward, or asked not to and that is connected; other mailboxes do not change.
\<close>

theorem datagram_delivered_once:
  fixes c :: "byte list"
  assumes "server_main argn ie es = Inr s" "recvfrom_ret e = Some (d, from)"
  defines "u \<equiv> wrap_datagram (take sizeof_udp_news d) (stack_u_n e) from"
  defines "v \<equiv> interest (abs_broker s) (c_string (news_s (wrap_u_n u) @ [0])) c"
  shows "w_buffer_for_id (serve_udp e s) c = w_buffer_for_id s c @
    (if v = Some True \<or> v = Some False \<and> id_to_fd s c \<noteq> None then [u] else [])"
  using mailbox_publish [OF reachable_ok(3) [OF assms(1)]] assms(2)
  by (simp add: serve_udp_def u_def v_def Let_def)

theorem datagram_delivered_once_witness:
  "\<exists>s u. server_main 2 demo_init [accept_env, joining_env] = Inr s
    \<and> wrap_len u = 63 \<and> wrap_addr u = 16777343 \<and> wrap_port u = 80
    \<and> w_buffer_for_id (serve_udp news_env s) (str ''ann'') = [u]
    \<and> w_buffer_for_id (serve_udp news_env s) (str ''bob'') = w_buffer_for_id s (str ''bob'')"
proof -
  from joining_run obtain s where s: "server_main 2 demo_init [accept_env, joining_env] = Inr s"
    "fd_to_id s 5 = Some (str ''ann'')" "w_buffer_for_id s (str ''ann'') = []"
    "interest (abs_broker s) (str ''news'') (str ''ann'') = Some False"
    "interest (abs_broker s) (str ''news'') (str ''bob'') = None" by auto
  let ?d = "str ''news'' @ replicate 46 0 @ 3 # str ''hi''" and ?from = "\<lparr>sin_addr = 16777343, sin_port = 80\<rparr>"
  let ?u = "wrap_datagram (take sizeof_udp_news ?d) (stack_u_n news_env) ?from"
  have d: "length ?d = 53" "take sizeof_udp_news ?d = ?d" by (simp_all add: str_def)
  have t: "c_string (news_s (wrap_u_n ?u) @ [0]) = str ''news''"
    unfolding d(2) by (simp add: wrap_datagram_def udp_news_of_bytes_def str_def c_string_def)
  have r: "recvfrom_ret news_env = Some (?d, ?from)" by (simp add: news_env_def)
  have online: "id_to_fd s (str ''ann'') = Some 5"
    using server_ids [OF s(1,2)] by (simp add: str_def)
  have "w_buffer_for_id (serve_udp news_env s) (str ''ann'') = [?u]"
    "w_buffer_for_id (serve_udp news_env s) (str ''bob'') = w_buffer_for_id s (str ''bob'')"
    using datagram_delivered_once [OF s(1) r, of "str ''ann''"] datagram_delivered_once [OF s(1) r, of "str ''bob''"] s(3-5) online
    unfolding t by simp_all
  moreover have "wrap_len ?u = 63" "wrap_addr ?u = 16777343" "wrap_port ?u = 80"
    unfolding d(2) using d(1) by (simp_all add: wrap_datagram_def)
  ultimately show ?thesis using s(1) by blast
qed

text \<open>
  A mailbox is sent first in, first out: \<open>n\<close> rounds with \<open>POLLOUT\<close> for a connected
  identifier send its first \<open>n\<close> messages, each with exactly its own length, and keep the rest.
\<close>

lemma mailbox_fifo:
  assumes "fd_to_id s fd = Some c"
  shows "server_log ((flush_one fd ^^ n) s) = server_log s
      @ map (\<lambda>w. Sent fd (take (nat (wrap_len w)) (wrapper_bytes w))) (take n (w_buffer_for_id s c))
    \<and> w_buffer_for_id ((flush_one fd ^^ n) s) c = drop n (w_buffer_for_id s c)"
  using flush_many [OF assms, of n] by (simp add: sent_bytes_def)

definition demo_news :: udp_news_wrapper where
  "demo_news = \<lparr>wrap_len = 12, wrap_addr = 0, wrap_port = 0,
     wrap_u_n = \<lparr>news_s = replicate 50 65, news_type = 3, news_bi = replicate 1500 0\<rparr>\<rparr>"

definition demo_mail :: server_data where
  "demo_mail = register_id 5 [65] (demo_server\<lparr>w_buffer_for_id := (\<lambda>_. [demo_news, demo_news])\<rparr>)"

lemma mailbox_fifo_example:
  "server_log ((flush_one 5 ^^ 1) demo_mail) = [Sent 5 ([12, 0, 0, 0, 0, 0, 0, 0, 0, 0] @ replicate 2 65)]
   \<and> w_buffer_for_id ((flush_one 5 ^^ 1) demo_mail) [65] = [demo_news]"
proof -
  have id: "fd_to_id demo_mail 5 = Some [65]" by (simp add: demo_mail_def)
  show ?thesis
    using mailbox_fifo [OF id, of 1]
    by (simp add: demo_mail_def demo_news_def wrapper_bytes_def le32_def le16_def udp_news_bytes_def
        take_Cons')
qed


lemma fold_publish:
  assumes "subs_ok s" "interest (abs_broker s) t c = Some True"
  shows "w_buffer_for_id (fold (publish t) us s) c = w_buffer_for_id s c @ us
    \<and> server_log (fold (publish t) us s) = server_log s"
  using assms
proof (induction us arbitrary: s)
  case Nil
  then show ?case by simp
next
  case (Cons u us)
  have "subs_ok (publish t u s)" "interest (abs_broker (publish t u s)) t c = Some True"
    using Cons.prems by (simp_all add: subs_ok_def abs_broker_def split: if_splits)
  with Cons.IH [of "publish t u s"] Cons.prems show ?case
    by (simp add: mailbox_publish)
qed

text \<open>
  C30. Store and forward: datagrams for a topic that an absent identifier subscribed to with
  the flag set are kept behind what its mailbox already held, and when the identifier comes back on
  any descriptor they are sent to it, all of them, in order.
\<close>

theorem store_and_forward:
  fixes us :: "udp_news_wrapper list" and fd :: int
  assumes "server_main argn ie es = Inr s"
    and "interest (abs_broker s) t c = Some True" "id_to_fd s c = None"
  defines "s1 \<equiv> register_id fd c (fold (publish t) us s)"
  defines "n \<equiv> length (w_buffer_for_id s c) + length us"
  shows "server_log ((flush_one fd ^^ n) s1) =
      server_log s @ map (\<lambda>w. Sent fd (sent_bytes w)) (w_buffer_for_id s c @ us)
    \<and> w_buffer_for_id ((flush_one fd ^^ n) s1) c = []"
proof -
  have "fd_to_id s1 fd = Some c" by (simp add: s1_def)
  from flush_many [OF this, of n] fold_publish [OF reachable_ok(3) [OF assms(1)] assms(2), of us]
  show ?thesis by (simp add: s1_def n_def)
qed

text \<open>A run in which a client registers, subscribes with the flag set, and leaves.\<close>

definition visit_env :: "byte list \<Rightarrow> server_env" where
  "visit_env bs = idle_env\<lparr>poll_ret := 1, peek_ret := (\<lambda>fd. if fd = 5 then of_bool (bs \<noteq> []) else -1),
     revents := (\<lambda>i. if i = 2 then POLLIN else 0), recv_ret := (\<lambda>_. Some bs)\<rparr>"

definition visit :: "server_env list" where
  "visit = [accept_env, visit_env (encode_stream [Connect demo_id, Subscribe demo_topic True]),
            visit_env []]"

definition visited :: server_data where
  "visited = (case server_main 2 demo_init visit of Inr s \<Rightarrow> s | Inl _ \<Rightarrow> empty_server)"

lemma visited_run: "server_main 2 demo_init visit = Inr visited"
  and visited_interest: "interest (abs_broker visited) (str ''news'') (str ''ann'') = Some True"
  and visited_absent: "id_to_fd visited (str ''ann'') = None"
  and visited_mail: "w_buffer_for_id visited c = []"
proof -
  let ?s = "empty_server\<lparr>sd_tcp := 3, fds := [3, 4, 5], current_size := 10, sd_udp := 4,
       addr_for_fd := (\<lambda>_. \<lparr>sin_addr = 0, sin_port = 0\<rparr>)(5 := \<lparr>sin_addr = 16777343, sin_port = 80\<rparr>)\<rparr>"
  let ?ms = "[Connect demo_id, Subscribe demo_topic True]"
  let ?t = "apply_msgs 5 ?ms ?s"
  have stream: "encode_stream ?ms \<noteq> []" by (simp add: encode_simps)
  have "parse_tcp_buffer (set_rbuf 5 (encode_stream ?ms) ?s) 5 2 =
      Inr (set_rbuf 5 [] (apply_msgs 5 ?ms (set_rbuf 5 (encode_stream ?ms) ?s)))"
    by (rule parse_stream) (simp_all add: empty_server_def)
  then have parse: "parse_tcp_buffer (set_rbuf 5 (encode_stream ?ms) ?s) 5 2 = Inr (set_rbuf 5 [] ?t)"
    by (simp only: apply_msgs_set_rbuf set_rbuf_set_rbuf)
  have pass: "server_pass (visit_env (encode_stream ?ms)) ?s = Inr (set_rbuf 5 [] ?t)"
    using parse stream
    by (simp add: server_pass_def visit_env_def idle_env_def str_def serve_slot_def serve_client_def
        empty_server_def upt_rec numeral_2_eq_2 del: encode_stream_simps apply_msgs.simps)
  have run: "server_main 2 demo_init visit = server_pass (visit_env []) (set_rbuf 5 [] ?t)"
    unfolding visit_def accept_first
    by (simp add: pass del: encode_stream_simps apply_msgs.simps split: sum.split)
  also have "\<dots> = Inr (disconnect (log_event (Client_disconnected (str ''ann''))
      ((set_rbuf 5 [] ?t)\<lparr>empties := [2]\<rparr>)) 2 True)"
    by (simp add: server_pass_def visit_env_def idle_env_def serve_slot_def
        serve_client_def upt_rec Let_def empty_server_def numeral_2_eq_2 str_def)
  finally have *: "server_main 2 demo_init visit = \<dots>" .
  then show "server_main 2 demo_init visit = Inr visited" by (simp add: visited_def)
  show "interest (abs_broker visited) (str ''news'') (str ''ann'') = Some True"
    "id_to_fd visited (str ''ann'') = None" "w_buffer_for_id visited c = []"
    using * by (simp_all add: visited_def abs_broker_def forget_id_def Let_def empty_server_def)
qed

theorem store_and_forward_witness:
  "\<exists>s1. server_log ((flush_one 7 ^^ 2) s1) = server_log visited @ replicate 2 (Sent 7 (sent_bytes demo_news))"
  using store_and_forward [OF visited_run visited_interest visited_absent,
      where us = "[demo_news, demo_news]" and fd = 7]
  by (simp add: visited_mail numeral_2_eq_2) blast


text \<open>
  \<open>disconnect\<close> means to empty the read buffer of the connection it closes, but indexes the
  buffers with the descriptor it has just set to -1: the bytes of a client that leaves stay, and
  the next client that \<open>accept\<close> gives the same descriptor starts with them in its buffer.
\<close>

lemma next_client_inherits_bytes:
  assumes "i < nfds s" "fds s ! i = fd" "0 \<le> fd" "peek_ret e fd = 0" "slots_ok s"
  shows "\<exists>s' s''. serve_client e i s = Inr s' \<and> fds s' ! i = -1
    \<and> add_con (fd, cli) True s' = Inr s'' \<and> r_buffer_for_fd s'' fd = r_buffer_for_fd s fd"
proof -
  let ?t = "s\<lparr>empties := empties s @ [i]\<rparr>"
  have "slots_ok ?t" using assms by (auto simp: slots_ok_def)
  then have closed: "slots_ok (disconnect t i d) \<and> empties (disconnect t i d) \<noteq> []
      \<and> fds (disconnect t i d) ! i = -1
      \<and> r_buffer_for_fd (disconnect t i d) fd = r_buffer_for_fd s fd"
    if "t = ?t \<or> t = log_event ev ?t" for t d ev
    using that assms by (auto simp: slots_ok_def disconnect_rbuf)
  obtain s' where s': "serve_client e i s = Inr s'" "fds s' ! i = -1"
      "r_buffer_for_fd s' fd = r_buffer_for_fd s fd" "slots_ok s'" "empties s' \<noteq> []"
    using closed [OF disjI1, OF refl] closed [OF disjI2, OF refl] assms(1,2,4)
    by (cases "fd_to_id s fd") (auto simp: serve_client_def Let_def)
  obtain s'' where "add_con (fd, cli) True s' = Inr s''"
    using s'(4,5) assms(3) by (auto simp: add_con_def write_slot_def slots_ok_def Let_def neq_Nil_conv)
  with s' add_con_frame(5) show ?thesis by metis
qed

lemma next_client_inherits_bytes_example:
  "\<exists>s' s''. serve_client (idle_env\<lparr>peek_ret := (\<lambda>_. 0)\<rparr>) 2 (set_rbuf 5 [1, 65] demo_server) = Inr s'
    \<and> fds s' ! 2 = -1 \<and> add_con (5, \<lparr>sin_addr = 0, sin_port = 0\<rparr>) True s' = Inr s''
    \<and> r_buffer_for_fd s'' 5 = [1, 65]"
  using next_client_inherits_bytes [of 2 "set_rbuf 5 [1, 65] demo_server" 5
      "idle_env\<lparr>peek_ret := (\<lambda>_. 0)\<rparr>" "\<lparr>sin_addr = 0, sin_port = 0\<rparr>"]
  by (simp add: slots_ok_def)

text \<open>
  The maps between identifiers and descriptors are not 1:1, as \<open>readme.txt\<close> says: the
  server accepts a second \<open>TCP_CONNECT\<close> on a connection, and when that connection ends only the
  second identifier is forgotten. The first stays taken by a closed descriptor, and every later
  client with it is refused.
\<close>

lemma second_connect_leaves_ghost:
  assumes "session s fd [Connect a, Connect b]" "c_string a \<noteq> c_string b"
    and "i < nfds s" "fds s ! i = fd"
  defines "s' \<equiv> disconnect (apply_msgs fd [Connect a, Connect b] s) i True"
  shows "id_to_fd s' (c_string a) = Some fd \<and> fd_to_id s' fd = None
    \<and> fds s' ! i = -1 \<and> \<not> accepts s' fd' (Connect a)"
  using assms by (auto simp: forget_id_def Let_def)

lemma second_connect_leaves_ghost_example:
  "id_to_fd (disconnect (apply_msgs 5 [Connect demo_id, Connect (replicate 11 0)] demo_server) 2 True)
     (str ''ann'') = Some 5"
proof -
  have c: "c_string (replicate 11 0) = []" by (simp add: c_string_def)
  have ses: "session demo_server 5 [Connect demo_id, Connect (replicate 11 0)]"
    by (simp add: c str_def)
  show ?thesis
    using second_connect_leaves_ghost [OF ses, where i = 2] c by (simp add: str_def)
qed

text \<open>
  A client refused because its identifier is taken loses its connection, but its slot is
  not queued for reuse, and no later pass queues it: the slot is lost.
\<close>

lemma refused_slot_is_lost:
  assumes "r_buffer_for_fd s fd = encode_msg (Connect a)" "wf_msg (Connect a)" "\<not> accepts s fd (Connect a)"
    and "i < nfds s" "fds s ! i = fd" "0 \<le> fd"
  shows "\<exists>s'. parse_tcp_buffer s fd i = Inr s' \<and> fds s' ! i = -1 \<and> empties s' = empties s
    \<and> (\<forall>e. peek_ret e (-1) = -1 \<longrightarrow> revents e i = 0 \<longrightarrow> serve_client e i s' = Inr s')"
proof -
  let ?s' = "disconnect (log_event (Already_connected (c_string a)) (set_rbuf fd [] s)) i False"
  have "parse_one s fd i = More ?s'"
    using assms
    by (simp add: parse_one_def parse_connect_def read_data_eq encode_simps string_of_array_def Let_def)
  moreover have "r_buffer_for_fd ?s' fd = []" using assms(4) by (simp add: disconnect_rbuf)
  ultimately have "parse_tcp_buffer s fd i = Inr ?s'" by (simp add: parse_tcp_buffer.simps [of s])
  then show ?thesis using assms(4) by (simp add: serve_client_def Let_def)
qed

lemma refused_slot_is_lost_example:
  "\<exists>s'. parse_tcp_buffer (set_rbuf 5 (encode_msg (Connect demo_id)) (register_id 6 (str ''ann'') demo_server)) 5 2 = Inr s'
    \<and> fds s' ! 2 = -1 \<and> empties s' = []"
  using refused_slot_is_lost [of
      "set_rbuf 5 (encode_msg (Connect demo_id)) (register_id 6 (str ''ann'') demo_server)" 5 demo_id 2]
  by auto

end
