(* ===== verification/Subscriber.thy ===== *)
theory Subscriber
  imports Tcp_Common
begin

text \<open>
  \<open>tema2/headers/subscriber.h\<close> and \<open>tema2/subscriber.cpp\<close>: the TCP client. It turns the
  user's commands into messages for the server, and the byte stream of the server into
  printed news. Uninitialised locals of the source are arguments (\<open>stack_..\<close>). Printing is
  kept as the values handed to \<open>printf\<close>; the decimal rendering of floating point is not
  modelled.
\<close>

section \<open>State\<close>

abbreviation TYPE_INT :: byte where "TYPE_INT \<equiv> 0"
abbreviation TYPE_SHORT_REAL :: byte where "TYPE_SHORT_REAL \<equiv> 1"
abbreviation TYPE_FLOAT :: byte where "TYPE_FLOAT \<equiv> 2"
abbreviation MAX_SUBSCRIBE_COMMAND :: nat where "MAX_SUBSCRIBE_COMMAND \<equiv> 100"

text \<open>
  What is printed: \<open>INT\<close> a sign and a 32-bit magnitude; \<open>SHORT_REAL\<close> the number of
  hundredths; \<open>FLOAT\<close> a sign, the mantissa and the power of ten it is divided by.
\<close>

datatype news_value =
    V_INT bool u32
  | V_SHORT_REAL u16
  | V_FLOAT bool u32 byte
  | V_STRING "byte list"

datatype subscriber_event =
    Sent_server "byte list"
  | Subscribed
  | Unsubscribed
  | Printed u32 u16 "byte list" news_value
  | Closed_socket int

record subscriber_data =
  sub_id :: "byte list"
  sub_sd :: int
  buffer_w :: "tcp_sub_msg list"
  buffer_r :: "byte list"
  sent_id :: bool
  sub_log :: "subscriber_event list"

definition sub_event :: "subscriber_event \<Rightarrow> subscriber_data \<Rightarrow> subscriber_data" where
  "sub_event ev s = s\<lparr>sub_log := sub_log s @ [ev]\<rparr>"

section \<open>Start\<close>

text \<open>
  \<open>init\<close>: \<open>None\<close> inside the sum is the return value \<open>-1\<close>. \<open>strcpy\<close> of an argument that
  does not fit in \<open>id\<close> is the fault.
\<close>

definition sub_init :: "byte list \<Rightarrow> int \<Rightarrow> int \<Rightarrow> fault + subscriber_data option" where
  "sub_init arg1 socket_ret connect_ret =
     (if length arg1 \<ge> ID_LEN + 1 then Inl Array_overflow
      else if socket_ret < 0 then Inr None
      else if connect_ret \<noteq> 0 then Inr None
      else Inr (Some \<lparr>sub_id = arg1, sub_sd = socket_ret, buffer_w = [], buffer_r = [],
                     sent_id = False, sub_log = []\<rparr>))"

section \<open>User commands\<close>

text \<open>
  \<open>strtok\<close> on the local array \<open>copyy\<close> with the delimiters \<open>" \r\n"\<close>: from position \<open>pos\<close>,
  the start of the next token if there is one, the array with the NUL that \<open>strtok\<close> writes,
  and the position to go on from. Running off the array is a fault.
\<close>

definition is_delim :: "byte \<Rightarrow> bool" where
  "is_delim b \<longleftrightarrow> b = 32 \<or> b = 13 \<or> b = 10"

definition scan_from :: "(byte \<Rightarrow> bool) \<Rightarrow> byte list \<Rightarrow> nat \<Rightarrow> nat option" where
  "scan_from P buf pos =
     (let p = pos + length (takeWhile P (drop pos buf))
      in if p < length buf then Some p else None)"

definition strtok :: "byte list \<Rightarrow> nat \<Rightarrow> fault + (nat option \<times> byte list \<times> nat)" where
  "strtok buf pos =
     (case scan_from is_delim buf pos of
        None \<Rightarrow> Inl Array_overread
      | Some p \<Rightarrow>
          if buf ! p = 0 then Inr (None, buf, p)
          else
            (case scan_from (\<lambda>b. \<not> is_delim b \<and> b \<noteq> 0) buf p of
               None \<Rightarrow> Inl Array_overread
             | Some q \<Rightarrow>
                 if buf ! q = 0 then Inr (Some p, buf, q)
                 else Inr (Some p, buf[q := 0], Suc q)))"

definition strncpy_command :: "byte list \<Rightarrow> byte list" where
  "strncpy_command a = take MAX_SUBSCRIBE_COMMAND (c_string a @ replicate MAX_SUBSCRIBE_COMMAND 0)"

text \<open>\<open>memcpy (msg.topic, pointer, 51)\<close> out of the 100-byte array.\<close>

definition copy_topic :: "byte list \<Rightarrow> nat \<Rightarrow> fault + byte list" where
  "copy_topic buf p =
     (if p + (TOPIC_LEN + 1) \<le> length buf then Inr (take (TOPIC_LEN + 1) (drop p buf))
      else Inl Array_overread)"

definition found_end :: "byte list \<Rightarrow> bool" where
  "found_end topic = fold (\<lambda>b found. found \<or> b = 0) topic False"

text \<open>
  The two branches. \<open>Inr None\<close> is a command refused with the usage text, and \<open>stack_sf\<close>
  the byte that the uninitialised \<open>msg.sf\<close> of an \<open>unsubscribe\<close> happens to hold.
\<close>

definition subscribe_command :: "byte list \<Rightarrow> fault + tcp_sub_msg option" where
  "subscribe_command a =
     (case strtok (strncpy_command a) 0 of
        Inl f \<Rightarrow> Inl f
      | Inr (None, _, _) \<Rightarrow> Inr None
      | Inr (Some _, buf, next) \<Rightarrow>
     (case strtok buf next of
        Inl f \<Rightarrow> Inl f
      | Inr (None, _, _) \<Rightarrow> Inr None
      | Inr (Some p, buf, next) \<Rightarrow>
     (case copy_topic buf p of
        Inl f \<Rightarrow> Inl f
      | Inr topic \<Rightarrow>
          if \<not> found_end topic then Inr None
          else
     (case strtok buf next of
        Inl f \<Rightarrow> Inl f
      | Inr (None, _, _) \<Rightarrow> Inr None
      | Inr (Some p, buf, _) \<Rightarrow>
          if buf ! p = 49 then Inr (Some \<lparr>sub_type = TCP_SUB, sub_topic = topic, sub_sf = 1\<rparr>)
          else if buf ! p \<noteq> 48 then Inr None
          else Inr (Some \<lparr>sub_type = TCP_SUB, sub_topic = topic, sub_sf = 0\<rparr>)))))"

definition unsubscribe_command :: "byte \<Rightarrow> byte list \<Rightarrow> fault + tcp_sub_msg option" where
  "unsubscribe_command stack_sf a =
     (case strtok (strncpy_command a) 0 of
        Inl f \<Rightarrow> Inl f
      | Inr (None, _, _) \<Rightarrow> Inr None
      | Inr (Some _, buf, next) \<Rightarrow>
     (case strtok buf next of
        Inl f \<Rightarrow> Inl f
      | Inr (None, _, _) \<Rightarrow> Inr None
      | Inr (Some p, buf, next) \<Rightarrow>
     (case copy_topic buf p of
        Inl f \<Rightarrow> Inl f
      | Inr topic \<Rightarrow>
          if \<not> found_end topic then Inr None
          else Inr (Some \<lparr>sub_type = TCP_UNSUB, sub_topic = topic, sub_sf = stack_sf\<rparr>))))"

datatype sub_stop = Sub_fault fault | Sub_exit subscriber_data

definition queue_msg :: "fault + tcp_sub_msg option \<Rightarrow> subscriber_data \<Rightarrow> sub_stop + subscriber_data" where
  "queue_msg r s =
     (case r of
        Inl f \<Rightarrow> Inl (Sub_fault f)
      | Inr None \<Rightarrow> Inr s
      | Inr (Some msg) \<Rightarrow> Inr (s\<lparr>buffer_w := buffer_w s @ [msg]\<rparr>))"

definition deal_with_user_commands ::
  "byte list \<Rightarrow> byte \<Rightarrow> subscriber_data \<Rightarrow> sub_stop + subscriber_data" where
  "deal_with_user_commands a stack_sf s =
     (if a = str ''exit'' then Inl (Sub_exit (sub_event (Closed_socket (sub_sd s)) s))
      else if find_sub (str ''subscribe'') a = Some 0 then queue_msg (subscribe_command a) s
      else if find_sub (str ''unsubscribe'') a \<noteq> None
      then queue_msg (unsubscribe_command stack_sf a) s
      else Inr s)"

section \<open>News\<close>

definition news_value_of :: "udp_news \<Rightarrow> news_value" where
  "news_value_of u =
     (if news_type u = TYPE_INT
      then V_INT (news_bi u ! 0 \<noteq> 0) (ntohl (of_le32 (take 4 (drop 1 (news_bi u)))))
      else if news_type u = TYPE_SHORT_REAL
      then V_SHORT_REAL (ntohs (of_le16 (take 2 (news_bi u))))
      else if news_type u = TYPE_FLOAT
      then V_FLOAT (news_bi u ! 0 \<noteq> 0) (ntohl (of_le32 (take 4 (drop 1 (news_bi u))))) (news_bi u ! 5)
      else V_STRING (c_string (news_bi u @ [0])))"

text \<open>
  \<open>receive_msg\<close>. \<open>len\<close> is a signed \<open>int\<close>; its differences with \<open>sizeof\<close> values are
  computed in \<open>size_t\<close>, 64 bits unsigned. Writing more than \<open>u_n\<close> holds is a fault.
\<close>

definition receive_msg :: "byte list \<Rightarrow> subscriber_data \<Rightarrow> fault + subscriber_data" where
  "receive_msg stack s =
     (case read_data (buffer_r s) 4 [] of
        None \<Rightarrow> Inl Deque_underflow
      | Some (len_bytes, q, extra) \<Rightarrow>
          let len = sint (of_le32 len_bytes) in
          if (word_of_int len :: 64 word) - 4 > of_nat (length q)
          then Inr (s\<lparr>buffer_r := fst (place_back q extra)\<rparr>)
          else
     (case read_data q 4 extra of
        None \<Rightarrow> Inl Deque_underflow
      | Some (addr, q, extra) \<Rightarrow>
     (case read_data q 2 extra of
        None \<Rightarrow> Inl Deque_underflow
      | Some (port, q, extra) \<Rightarrow>
          let size_u_n = sint ((word_of_int len :: 64 word) - of_nat WRAPPING_MATERIAL) in
          if size_u_n > int sizeof_udp_news then Inl Array_overflow
          else
     (case read_data q size_u_n extra of
        None \<Rightarrow> Inl Deque_underflow
      | Some (data, q, extra) \<Rightarrow>
          let u_n = udp_news_of_bytes (data @ drop (length data) stack);
              topic = c_string (news_s u_n @ [0])
          in Inr (sub_event (Printed (of_le32 addr) (of_le16 port) topic (news_value_of u_n))
                   (s\<lparr>buffer_r := q\<rparr>))))))"

section \<open>The main loop\<close>

text \<open>
  One pass: the line read, the answers of \<open>poll\<close>, \<open>recv\<close> and \<open>send\<close>, and the stack
  contents that uninitialised locals show.
\<close>

record subscriber_env =
  sin_line :: "byte list"
  spoll_ret :: int
  srevents :: u16
  speek_ret :: int
  ssend_ret :: int
  srecv_ret :: "byte list option"
  stack_sf :: byte
  stack_id :: "byte list"
  stack_news :: "byte list"

definition con_msg :: "byte list \<Rightarrow> byte list \<Rightarrow> tcp_con_msg" where
  "con_msg sid stack =
     \<lparr>con_type = TCP_CONNECT, con_id = sid @ 0 # drop (length sid + 1) stack\<rparr>"

definition sub_write :: "subscriber_env \<Rightarrow> subscriber_data \<Rightarrow> subscriber_data" where
  "sub_write e s =
     (if \<not> sent_id s
      then (sub_event (Sent_server (tcp_con_msg_bytes (con_msg (sub_id s) (stack_id e)))) s)
             \<lparr>sent_id := True\<rparr>
      else
        (case buffer_w s of
           [] \<Rightarrow> s
         | msg # rest \<Rightarrow>
             let s = sub_event (Sent_server (tcp_sub_msg_bytes msg)) (s\<lparr>buffer_w := rest\<rparr>)
             in if ssend_ret e < 0 then s
                else if sub_type msg = TCP_SUB then sub_event Subscribed s
                else sub_event Unsubscribed s))"

definition sub_read :: "subscriber_env \<Rightarrow> subscriber_data \<Rightarrow> fault + subscriber_data" where
  "sub_read e s =
     (case srecv_ret e of
        None \<Rightarrow> receive_msg (stack_news e) s
      | Some a \<Rightarrow>
          let s = s\<lparr>buffer_r := buffer_r s @ a\<rparr> in
          if a = [] then Inr s else receive_msg (stack_news e) s)"

definition subscriber_pass :: "subscriber_env \<Rightarrow> subscriber_data \<Rightarrow> sub_stop + subscriber_data" where
  "subscriber_pass e s =
     (case deal_with_user_commands (sin_line e) (stack_sf e) s of
        Inl r \<Rightarrow> Inl r
      | Inr s \<Rightarrow>
          if spoll_ret e > 0
          then
            if speek_ret e = 0 \<or> srevents e AND POLLERR \<noteq> 0
            then Inl (Sub_exit (sub_event (Closed_socket (sub_sd s)) s))
            else
              let s = (if srevents e AND POLLOUT \<noteq> 0 then sub_write e s else s)
              in if srevents e AND POLLIN \<noteq> 0
                 then (case sub_read e s of Inl f \<Rightarrow> Inl (Sub_fault f) | Inr s \<Rightarrow> Inr s)
                 else Inr s
          else Inr s)"

fun subscriber_run :: "subscriber_env list \<Rightarrow> subscriber_data \<Rightarrow> sub_stop + subscriber_data" where
  "subscriber_run [] s = Inr s"
| "subscriber_run (e # es) s =
     (case subscriber_pass e s of Inl r \<Rightarrow> Inl r | Inr s' \<Rightarrow> subscriber_run es s')"

end
