(* ===== verification/Subscriber_Props.thy ===== *)
theory Subscriber_Props
  imports Subscriber
begin

text \<open>
  Lemmas and properties of the TCP client of \<open>tema2/subscriber.cpp\<close>: the tokeniser on the
  command line, the messages a command produces, and the reassembly of news.
\<close>

section \<open>Tokens\<close>

lemma scan_from_append:
  assumes "\<forall>b \<in> set ys. P b" "\<not> P z"
  shows "scan_from P (xs @ ys @ z # zs) (length xs) = Some (length xs + length ys)"
proof -
  have "takeWhile P (ys @ z # zs) = ys" using assms by (induction ys) auto
  then show ?thesis by (simp add: scan_from_def Let_def)
qed

lemma scan_from_run_off:
  assumes "\<forall>b \<in> set ys. P b"
  shows "scan_from P (xs @ ys) (length xs) = None"
proof -
  have "length (takeWhile P ys) = length ys" using assms by (induction ys) auto
  then show ?thesis by (simp add: scan_from_def Let_def)
qed

definition token :: "byte list \<Rightarrow> bool" where
  "token t \<longleftrightarrow> t \<noteq> [] \<and> (\<forall>b \<in> set t. \<not> is_delim b \<and> b \<noteq> 0)"

lemma is_delim_simps [simp]: "is_delim 32" "\<not> is_delim 0" "\<not> is_delim 48" "\<not> is_delim 49"
  by (simp_all add: is_delim_def)

lemma strtok_first:
  assumes "\<forall>b \<in> set ds. is_delim b" "token t"
  shows "scan_from is_delim (xs @ ds @ t @ zs) (length xs) = Some (length xs + length ds)"
    "(xs @ ds @ t @ zs) ! (length xs + length ds) \<noteq> 0"
proof -
  from assms(2) obtain c t' where t: "t = c # t'" "\<not> is_delim c" "c \<noteq> 0"
    by (cases t) (auto simp: token_def)
  show "scan_from is_delim (xs @ ds @ t @ zs) (length xs) = Some (length xs + length ds)"
    using scan_from_append [of ds is_delim c xs "t' @ zs"] assms(1) t by simp
  show "(xs @ ds @ t @ zs) ! (length xs + length ds) \<noteq> 0"
    using t by (simp add: nth_append)
qed

lemma strtok_delim:
  assumes "\<forall>b \<in> set ds. is_delim b" "token t" "is_delim d"
  shows "strtok (xs @ ds @ t @ d # zs) (length xs) =
    Inr (Some (length xs + length ds), xs @ ds @ t @ 0 # zs, length xs + length ds + length t + 1)"
proof -
  have d: "d \<noteq> 0" using assms(3) by auto
  have "scan_from (\<lambda>b. \<not> is_delim b \<and> b \<noteq> 0) ((xs @ ds) @ t @ d # zs) (length (xs @ ds))
      = Some (length (xs @ ds) + length t)"
    using assms by (intro scan_from_append) (auto simp: token_def)
  with strtok_first [OF assms(1,2), of xs "d # zs"] d show ?thesis
    by (simp add: strtok_def nth_append list_update_append)
qed

lemma strtok_nul:
  assumes "\<forall>b \<in> set ds. is_delim b" "token t"
  shows "strtok (xs @ ds @ t @ 0 # zs) (length xs) =
    Inr (Some (length xs + length ds), xs @ ds @ t @ 0 # zs, length xs + length ds + length t)"
proof -
  have "scan_from (\<lambda>b. \<not> is_delim b \<and> b \<noteq> 0) ((xs @ ds) @ t @ 0 # zs) (length (xs @ ds))
      = Some (length (xs @ ds) + length t)"
    using assms by (intro scan_from_append) (auto simp: token_def)
  with strtok_first [OF assms, of xs "0 # zs"] show ?thesis
    by (simp add: strtok_def nth_append)
qed

lemma strtok_run_off:
  assumes "\<forall>b \<in> set ds. is_delim b" "token t"
  shows "strtok (xs @ ds @ t) (length xs) = Inl Array_overread"
proof -
  have "scan_from (\<lambda>b. \<not> is_delim b \<and> b \<noteq> 0) ((xs @ ds) @ t) (length (xs @ ds)) = None"
    using assms by (intro scan_from_run_off) (auto simp: token_def)
  with strtok_first [OF assms, of xs "[]"] show ?thesis by (simp add: strtok_def)
qed

lemma found_end_iff [simp]: "found_end a \<longleftrightarrow> 0 \<in> set a"
proof -
  have "fold (\<lambda>b found. found \<or> b = 0) a f = (f \<or> 0 \<in> set a)" for f
    by (induction a arbitrary: f) auto
  then show ?thesis by (simp add: found_end_def)
qed

lemma token_subscribe [simp]: "token (str ''subscribe'')" "token (str ''unsubscribe'')"
  by (simp_all add: token_def str_def is_delim_def)

lemma c_string_id: "0 \<notin> set a \<Longrightarrow> c_string a = a"
  unfolding c_string_def by (induction a) auto

lemma strncpy_short:
  assumes "0 \<notin> set a" "length a \<le> 100"
  shows "strncpy_command a = a @ replicate (100 - length a) 0"
  using assms by (simp add: strncpy_command_def c_string_id)

section \<open>Commands\<close>

text \<open>The two command words with their first token split off.\<close>

lemma first_token:
  assumes "token w" "length w + 1 + length rest \<le> 100" "0 \<notin> set rest"
  shows "strtok (strncpy_command (w @ 32 # rest)) 0 =
    Inr (Some 0, w @ 0 # rest @ replicate (99 - length w - length rest) 0, length w + 1)"
proof -
  have "0 \<notin> set w" using assms(1) by (auto simp: token_def)
  then have "strncpy_command (w @ 32 # rest) =
      w @ 32 # rest @ replicate (99 - length w - length rest) 0"
    using assms(2,3) by (subst strncpy_short) auto
  then show ?thesis
    using strtok_delim [of "[]" w 32 "[]" "rest @ replicate (99 - length w - length rest) 0"] assms(1)
    by simp
qed

lemma copy_topic_short:
  assumes "length xs + 51 \<le> length (xs @ t @ 0 # zs)" "length t \<le> 50" "0 \<notin> set t"
  shows "\<exists>a. copy_topic (xs @ t @ 0 # zs) (length xs) = Inr a \<and> length a = 51
    \<and> 0 \<in> set a \<and> c_string a = t"
proof -
  have "copy_topic (xs @ t @ 0 # zs) (length xs) = Inr (t @ 0 # take (50 - length t) zs)"
    using assms by (simp add: copy_topic_def take_Cons' Suc_diff_le)
  then show ?thesis using assms by auto
qed


lemma length_subscribe [simp]: "length (str ''subscribe'') = 9" "length (str ''unsubscribe'') = 11"
  by (simp_all add: str_def)

lemma token_no_nul: "token t \<Longrightarrow> 0 \<notin> set t"
  by (auto simp: token_def)

text \<open>The second token of a command whose first one is \<open>w\<close>.\<close>

lemma second_token:
  assumes "token t" "is_delim d" "length w + length t + 2 + length rest \<le> 100"
  shows "strtok (w @ 0 # t @ d # rest) (length w + 1) =
    Inr (Some (length w + 1), w @ 0 # t @ 0 # rest, length w + length t + 2)"
  using strtok_delim [of "[]" t d "w @ [0]" rest] assms by simp

lemma subscribe_message:
  assumes "token t" "length t \<le> 50"
  shows "\<exists>a. subscribe_command (str ''subscribe'' @ 32 # t @ [32, if sf then 49 else 48])
      = Inr (Some \<lparr>sub_type = TCP_SUB, sub_topic = a, sub_sf = if sf then 1 else 0\<rparr>)
    \<and> length a = 51 \<and> 0 \<in> set a \<and> c_string a = t"
proof -
  define w where "w = str ''subscribe''"
  define c :: byte where "c = (if sf then 49 else 48)"
  define k where "k = 87 - length t"
  have w: "token w" "length w = 9" by (simp_all add: w_def)
  have c: "token [c]" "c \<noteq> 0" by (simp_all add: c_def token_def)
  have cc: "c = 49 \<longleftrightarrow> sf" "c = 48 \<longleftrightarrow> \<not> sf" by (simp_all add: c_def)
  have z: "replicate (88 - length t) (0::byte) = 0 # replicate k 0"
  proof -
    have "88 - length t = Suc k" using assms(2) by (simp add: k_def)
    then show ?thesis by simp
  qed
  have 1: "strtok (strncpy_command (w @ 32 # t @ [32, c])) 0 =
      Inr (Some 0, w @ 0 # t @ 32 # c # 0 # replicate k 0, 10)"
    using first_token [of w "t @ [32, c]"] w c(2) assms token_no_nul [OF assms(1)] z by simp
  have 2: "strtok (w @ 0 # t @ 32 # c # 0 # replicate k 0) 10 =
      Inr (Some 10, w @ 0 # t @ 0 # c # 0 # replicate k 0, 11 + length t)"
    using second_token [of t 32 w "c # 0 # replicate k 0"] assms w by (simp add: k_def)
  obtain a where a: "copy_topic (w @ 0 # t @ 0 # c # 0 # replicate k 0) 10 = Inr a"
      "length a = 51" "0 \<in> set a" "c_string a = t"
    using copy_topic_short [of "w @ [0]" t "c # 0 # replicate k 0"] assms(2) w
      token_no_nul [OF assms(1)] by (auto simp: k_def)
  have 3: "strtok (w @ 0 # t @ 0 # c # 0 # replicate k 0) (11 + length t) =
      Inr (Some (11 + length t), w @ 0 # t @ 0 # c # 0 # replicate k 0, 12 + length t)"
    using strtok_nul [of "[]" "[c]" "w @ 0 # t @ [0]" "replicate k 0"] w c by simp
  have "(w @ 0 # t @ 0 # c # 0 # replicate k 0) ! (11 + length t) = c"
    using w by (simp add: nth_append)
  then have "subscribe_command (w @ 32 # t @ [32, c]) =
      Inr (Some \<lparr>sub_type = TCP_SUB, sub_topic = a, sub_sf = if sf then 1 else 0\<rparr>)"
    by (cases sf) (simp_all add: subscribe_command_def 1 2 3 a cc)
  then show ?thesis using a unfolding w_def c_def by auto
qed

lemma subscribe_message_example:
  "\<exists>a. subscribe_command (str ''subscribe'' @ 32 # str ''news'' @ [32, 49])
      = Inr (Some \<lparr>sub_type = TCP_SUB, sub_topic = a, sub_sf = 1\<rparr>) \<and> c_string a = str ''news''"
  using subscribe_message [of "str ''news''" True]
  by (auto simp: token_def str_def is_delim_def)

text \<open>
  The bound on a command is wrong: \<open>strncpy\<close> leaves no NUL in the array when the line has 100
  bytes or more, and the tokeniser runs past its end.
\<close>

lemma long_command_overreads:
  assumes "token t" "length t \<ge> 90"
  shows "subscribe_command (str ''subscribe'' @ 32 # t) = Inl Array_overread"
proof -
  define w where "w = str ''subscribe''"
  define t' where "t' = take 90 t"
  have w: "token w" "length w = 9" by (simp_all add: w_def)
  have t': "token t'" "length t' = 90"
    using assms by (auto simp: t'_def token_def dest: in_set_takeD)
  have "0 \<notin> set (w @ 32 # t)" using w(1) assms(1) by (auto simp: token_def)
  then have copy: "strncpy_command (w @ 32 # t) = w @ 32 # t'"
    using assms(2) w(2) by (simp add: strncpy_command_def c_string_id t'_def)
  have "strtok (w @ 32 # t') 0 = Inr (Some 0, w @ 0 # t', 10)"
    using strtok_delim [of "[]" w 32 "[]" t'] w by simp
  moreover have "strtok (w @ 0 # t') 10 = Inl Array_overread"
    using strtok_run_off [of "[]" t' "w @ [0]"] w(2) t' by simp
  ultimately show ?thesis by (simp add: subscribe_command_def copy flip: w_def)
qed

lemma long_command_overreads_example:
  "subscribe_command (str ''subscribe'' @ 32 # replicate 90 65) = Inl Array_overread"
  by (rule long_command_overreads) (auto simp: token_def is_delim_def)


section \<open>News\<close>

text \<open>The \<open>size_t\<close> arithmetic of \<open>receive_msg\<close> on lengths that are in range.\<close>

lemma size_t_greater:
  assumes "4 \<le> len" "len < 2 ^ 31" "m < 2 ^ 63"
  shows "(word_of_int len :: 64 word) - 4 > of_nat m \<longleftrightarrow> len - 4 > int m"
proof -
  have "uint ((word_of_int len :: 64 word) - 4) = uint (word_of_int (len - 4) :: 64 word)" by simp
  also have "\<dots> = len - 4" using assms by (intro uint_64) auto
  finally have "uint ((word_of_int len :: 64 word) - 4) = len - 4" .
  moreover have "uint (of_nat m :: 64 word) = int m"
    using assms(3) uint_64 [of "int m"] by simp
  ultimately show ?thesis unfolding word_less_def by simp
qed

lemma size_t_minus_10:
  assumes "0 \<le> len" "len < 2 ^ 31"
  shows "sint ((word_of_int len :: 64 word) - 10) = len - 10"
proof -
  have "sint ((word_of_int len :: 64 word) - 10) = sint (word_of_int (len - 10) :: 64 word)" by simp
  also have "\<dots> = len - 10" using assms by (intro sint_64) auto
  finally show ?thesis .
qed

text \<open>The bytes of a wrapper as the server sends them: its first \<open>len\<close>.\<close>

lemma wrapper_prefix:
  assumes "wrap_len w = int n + 10"
  shows "take (nat (wrap_len w)) (wrapper_bytes w) =
    le32 (word_of_int (wrap_len w)) @ le32 (wrap_addr w) @ le16 (wrap_port w)
      @ take n (udp_news_bytes (wrap_u_n w))"
proof -
  have "nat (wrap_len w) = n + 10" using assms by simp
  then show ?thesis by (simp add: wrapper_bytes_def)
qed

lemma receive_msg_whole:
  fixes stack :: "byte list"
  assumes n: "wrap_len w = int n + 10" "n \<le> 1551" and ok: "udp_news_ok (wrap_u_n w)"
    and buf: "buffer_r s = take (nat (wrap_len w)) (wrapper_bytes w) @ rest" "length rest < 2 ^ 62"
  defines "u \<equiv> udp_news_of_bytes (take n (udp_news_bytes (wrap_u_n w)) @ drop n stack)"
  shows "receive_msg stack s = Inr (sub_event
    (Printed (wrap_addr w) (wrap_port w) (c_string (news_s u @ [0])) (news_value_of u))
    (s\<lparr>buffer_r := rest\<rparr>))"
proof -
  define len where "len = wrap_len w"
  define data where "data = take n (udp_news_bytes (wrap_u_n w))"
  have data: "length data = n" using n(2) ok by (simp add: data_def length_udp_news_bytes)
  have len: "0 \<le> len" "len < 2 ^ 31" "4 \<le> len" "len = int n + 10"
    using n by (simp_all add: len_def)
  have "\<not> (word_of_int len :: 64 word) - 4 >
      of_nat (length (le32 (wrap_addr w) @ le16 (wrap_port w) @ data @ rest))"
    using len(4) n(2) buf(2) data by (subst size_t_greater [OF len(3,2)]) auto
  moreover have sint: "sint (word_of_int len :: u32) = len" using len by (intro sint_32) auto
  moreover have "scast (word_of_int len :: u32) = (word_of_int len :: 64 word)"
  proof -
    have "scast (word_of_int len :: u32) = (word_of_int (sint (word_of_int len :: u32)) :: 64 word)"
      by simp
    then show ?thesis by (simp only: sint)
  qed
  moreover have "sint ((word_of_int len :: 64 word) - 10) = int n"
    using size_t_minus_10 [OF len(1,2)] len(4) by simp
  moreover have "buffer_r s = le32 (word_of_int len) @ le32 (wrap_addr w) @ le16 (wrap_port w)
      @ data @ rest"
    using buf(1) wrapper_prefix [OF n(1)] by (simp add: len_def data_def)
  ultimately show ?thesis
    using data n(2) unfolding receive_msg_def u_def data_def [symmetric]
    by (simp add: read_data_eq Let_def)
qed



text \<open>
  A message that has not arrived in full is left untouched: with at least the four bytes of
  the length in the buffer, and fewer bytes behind it than the length announces, nothing is
  printed and the buffer keeps every byte.
\<close>

lemma incomplete_news_kept:
  assumes "buffer_r s = le32 (word_of_int len) @ q" "4 \<le> len" "len < 2 ^ 31" "int (length q) < len - 4"
  shows "receive_msg stack s = Inr s"
proof -
  have "(word_of_int len :: 64 word) - 4 > of_nat (length q)"
    using assms(2,3,4) by (subst size_t_greater) auto
  moreover have sint: "sint (word_of_int len :: u32) = len" using assms by (intro sint_32) auto
  moreover have "scast (word_of_int len :: u32) = (word_of_int len :: 64 word)"
  proof -
    have "scast (word_of_int len :: u32) = (word_of_int (sint (word_of_int len :: u32)) :: 64 word)"
      by simp
    then show ?thesis by (simp only: sint)
  qed
  moreover have "s\<lparr>buffer_r := le32 (word_of_int len) @ q\<rparr> = s" using assms(1) by simp
  ultimately show ?thesis using assms(1) by (simp add: receive_msg_def read_data_eq Let_def)
qed

definition demo_sub :: "byte list \<Rightarrow> subscriber_data" where
  "demo_sub q = \<lparr>sub_id = [65], sub_sd = 3, buffer_w = [], buffer_r = q, sent_id = True, sub_log = []\<rparr>"

lemma incomplete_news_kept_example:
  "receive_msg [] (demo_sub [60, 0, 0, 0, 1, 2]) = Inr (demo_sub [60, 0, 0, 0, 1, 2])"
  by (rule incomplete_news_kept [where len = 60 and q = "[1, 2]"])
    (simp_all add: demo_sub_def le32_def)

text \<open>
  The first four bytes are read without a check: when a segment leaves fewer than four bytes
  in the read buffer, \<open>receive_msg\<close> takes from an empty deque.
\<close>

lemma short_segment_underflows:
  assumes "srecv_ret e = Some a" "a \<noteq> []" "length (buffer_r s @ a) < 4"
  shows "sub_read e s = Inl Deque_underflow"
  using assms by (simp add: sub_read_def receive_msg_def read_data_eq)

definition quiet_env :: subscriber_env where
  "quiet_env = \<lparr>sin_line = [], spoll_ret = 1, srevents = POLLIN, speek_ret = 1, ssend_ret = 1,
     srecv_ret = None, stack_sf = 0, stack_id = replicate 11 0, stack_news = replicate 1551 7\<rparr>"

lemma short_segment_underflows_example:
  "sub_read (quiet_env\<lparr>srecv_ret := Some [70, 0]\<rparr>) (demo_sub []) = Inl Deque_underflow"
  by (rule short_segment_underflows [where a = "[70, 0]"]) (simp_all add: quiet_env_def demo_sub_def)

lemma idle_pass_keeps_buffer:
  assumes "subscriber_pass e s = Inr s'" "srevents e AND POLLIN = 0"
  shows "buffer_r s' = buffer_r s"
  using assms
  by (auto simp: subscriber_pass_def deal_with_user_commands_def queue_msg_def sub_write_def
      sub_event_def Let_def split: if_splits sum.splits option.splits list.splits)

lemma idle_run_keeps_buffer:
  "subscriber_run es s = Inr s' \<Longrightarrow> \<forall>e \<in> set es. srevents e AND POLLIN = 0 \<Longrightarrow>
     buffer_r s' = buffer_r s"
  by (induction es arbitrary: s) (auto split: sum.splits dest: idle_pass_keeps_buffer)

text \<open>
  One call of \<open>recv\<close> is followed by one message only: when two messages have arrived in full,
  the first is printed, the second stays in the buffer, and it stays there through any number of
  passes until the socket is readable again.
\<close>

lemma second_message_delayed:
  assumes "srecv_ret e = Some a" "a \<noteq> []"
    and "buffer_r s @ a = take (nat (wrap_len w)) (wrapper_bytes w) @ second" "length second < 2 ^ 62"
    and "wrap_len w = int n + 10" "n \<le> 1551" "udp_news_ok (wrap_u_n w)"
  shows "\<exists>s'. sub_read e s = Inr s' \<and> buffer_r s' = second
    \<and> length (sub_log s') = length (sub_log s) + 1
    \<and> (\<forall>es s''. (\<forall>e' \<in> set es. srevents e' AND POLLIN = 0) \<longrightarrow>
         subscriber_run es s' = Inr s'' \<longrightarrow> buffer_r s'' = second)"
proof -
  have "buffer_r (s\<lparr>buffer_r := buffer_r s @ a\<rparr>) =
      take (nat (wrap_len w)) (wrapper_bytes w) @ second" using assms(3) by simp
  from receive_msg_whole [OF assms(5,6,7) this assms(4), of "stack_news e"] assms(1,2)
  obtain ev where "sub_read e s = Inr (sub_event ev (s\<lparr>buffer_r := second\<rparr>))"
    by (auto simp: sub_read_def Let_def)
  then show ?thesis using idle_run_keeps_buffer by (auto simp: sub_event_def)
qed

definition demo_wrapper :: udp_news_wrapper where
  "demo_wrapper = \<lparr>wrap_len = 62, wrap_addr = 0, wrap_port = 0,
     wrap_u_n = \<lparr>news_s = replicate 50 65, news_type = 3, news_bi = replicate 1500 66\<rparr>\<rparr>"

definition demo_bytes :: "byte list" where
  "demo_bytes = take (nat (wrap_len demo_wrapper)) (wrapper_bytes demo_wrapper)"

lemma demo_wrapper_simps:
  "wrap_len demo_wrapper = int 52 + 10" "udp_news_ok (wrap_u_n demo_wrapper)"
  by (simp_all add: demo_wrapper_def udp_news_ok_def)

lemma demo_bytes_nonempty: "demo_bytes @ demo_bytes \<noteq> []" "length demo_bytes = 62"
  using length_wrapper_bytes [OF demo_wrapper_simps(2)]
  by (auto simp: demo_bytes_def demo_wrapper_def dest: arg_cong [where f = length])

lemma second_message_delayed_example:
  "\<exists>s'. sub_read (quiet_env\<lparr>srecv_ret := Some (demo_bytes @ demo_bytes)\<rparr>) (demo_sub []) = Inr s'
    \<and> buffer_r s' = demo_bytes \<and> length (sub_log s') = 1"
proof -
  have first: "buffer_r (demo_sub []) @ demo_bytes @ demo_bytes =
      take (nat (wrap_len demo_wrapper)) (wrapper_bytes demo_wrapper) @ demo_bytes"
    by (simp add: demo_sub_def demo_bytes_def)
  have log: "sub_log (demo_sub []) = []" by (simp add: demo_sub_def)
  show ?thesis
    using second_message_delayed [where e = "quiet_env\<lparr>srecv_ret := Some (demo_bytes @ demo_bytes)\<rparr>",
        OF _ demo_bytes_nonempty(1) first _ demo_wrapper_simps(1) _ demo_wrapper_simps(2)]
      demo_bytes_nonempty(2) log
    by auto
qed

text \<open>
  A \<open>STRING\<close> payload sent without a NUL is printed together with what the uninitialised
  local \<open>u_n\<close> holds behind it: two runs that differ only in that memory print different text.
\<close>

lemma string_news_prints_stack:
  assumes "wrap_len w = int n + 10" "51 \<le> n" "n \<le> 1551" "udp_news_ok (wrap_u_n w)"
    and "news_type (wrap_u_n w) = 3" "0 \<notin> set (take (n - 51) (news_bi (wrap_u_n w)))"
    and "buffer_r s = take (nat (wrap_len w)) (wrapper_bytes w)" "length stack = 1551"
  shows "\<exists>ap pt t s'. receive_msg stack s = Inr s' \<and> sub_log s' = sub_log s @
    [Printed ap pt t (V_STRING (take (n - 51) (news_bi (wrap_u_n w)) @ c_string (drop n stack @ [0])))]"
proof -
  let ?u = "wrap_u_n w"
  let ?pre = "take (n - 51) (news_bi ?u)"
  have d: "take n (udp_news_bytes ?u) = news_s ?u @ [news_type ?u] @ ?pre"
    using assms(2,4) by (simp add: udp_news_bytes_def udp_news_ok_def take_Cons')
  have bi: "news_bi (udp_news_of_bytes (take n (udp_news_bytes ?u) @ drop n stack)) = ?pre @ drop n stack"
    and ty: "news_type (udp_news_of_bytes (take n (udp_news_bytes ?u) @ drop n stack)) = 3"
    using assms(4,5) unfolding d
    by (simp_all add: udp_news_of_bytes_def udp_news_ok_def nth_append)
  have "c_string (?pre @ drop n stack @ [0]) = ?pre @ c_string (drop n stack @ [0])"
    using assms(6) unfolding c_string_def by (subst takeWhile_append2) auto
  then show ?thesis
    using receive_msg_whole [OF assms(1,3,4), of s "[]" stack] assms(7) bi ty
    by (auto simp: sub_event_def news_value_of_def)
qed

lemma string_news_prints_stack_example:
  "\<exists>ap pt t s'. receive_msg (replicate 1551 7) (demo_sub demo_bytes) = Inr s'
    \<and> sub_log s' = [Printed ap pt t (V_STRING (66 # replicate 1499 7))]"
proof -
  have "c_string (replicate k (7::byte) @ [0]) = replicate k 7" for k
    by (rule c_string_append_nul) auto
  moreover have "drop 52 (replicate 1551 (7::byte)) = replicate 1499 7" by simp
  ultimately show ?thesis
    using string_news_prints_stack [OF demo_wrapper_simps(1) _ _ demo_wrapper_simps(2),
        of "demo_sub demo_bytes" "replicate 1551 7"]
    by (simp add: demo_sub_def demo_bytes_def demo_wrapper_def)
qed

end
