(* ===== verification/Broker_System.thy ===== *)
theory Broker_System
  imports Server_Props Subscriber_Props
begin

text \<open>
  The two programs of \<open>tema2\<close> together: what a subscriber writes for the commands its user types,
  and what a subscriber makes of the bytes the server sends it.
\<close>

section \<open>What a subscriber writes\<close>

text \<open>The line \<open>subscribe T S\<close>, and the bytes written so far.\<close>

definition command_line :: "byte list \<times> bool \<Rightarrow> byte list" where
  "command_line = (\<lambda>(t, sf). str ''subscribe'' @ 32 # t @ [32, if sf then 49 else 48])"

fun event_bytes :: "subscriber_event \<Rightarrow> byte list" where
  "event_bytes (Sent_server b) = b"
| "event_bytes _ = []"

definition written :: "subscriber_data \<Rightarrow> byte list" where
  "written s = concat (map event_bytes (sub_log s))"

text \<open>A pass in which the socket is writable and nothing has arrived.\<close>

definition writable :: "subscriber_env \<Rightarrow> bool" where
  "writable e \<longleftrightarrow> spoll_ret e > 0 \<and> speek_ret e \<noteq> 0 \<and> srevents e AND POLLERR = 0 \<and> srevents e AND POLLOUT \<noteq> 0
     \<and> srevents e AND POLLIN = 0 \<and> length (stack_id e) = ID_LEN + 1"

definition good_topic :: "byte list \<times> bool \<Rightarrow> bool" where
  "good_topic = (\<lambda>(t, sf). token t \<and> length t \<le> TOPIC_LEN)"

text \<open>The message for a command.\<close>

definition message_for :: "tcp_sub_msg \<Rightarrow> byte list \<times> bool \<Rightarrow> bool" where
  "message_for m = (\<lambda>(t, sf). \<exists>a. m = \<lparr>sub_type = TCP_SUB, sub_topic = a, sub_sf = if sf then 1 else 0\<rparr>
     \<and> length a = TOPIC_LEN + 1 \<and> 0 \<in> set a \<and> c_string a = t)"

lemma command_queued:
  assumes "good_topic c"
  shows "\<exists>m. message_for m c \<and> deal_with_user_commands (command_line c) sf' s = Inr (s\<lparr>buffer_w := buffer_w s @ [m]\<rparr>)"
proof -
  obtain t sf where c: "c = (t, sf)" by (cases c)
  from assms c subscribe_message [of t sf] obtain a where
    a: "subscribe_command (command_line c) = Inr (Some \<lparr>sub_type = TCP_SUB, sub_topic = a, sub_sf = if sf then 1 else 0\<rparr>)"
      "length a = 51" "0 \<in> set a" "c_string a = t"
    by (auto simp: good_topic_def command_line_def)
  have "command_line c \<noteq> str ''exit''" by (simp add: command_line_def c str_def)
  moreover have "find_sub (str ''subscribe'') (command_line c) = Some 0"
    by (simp only: command_line_def c prod.case find_sub_append)
  ultimately show ?thesis
    using a by (auto simp: deal_with_user_commands_def queue_msg_def message_for_def c)
qed

lemma no_command: "deal_with_user_commands [] sf s = Inr s"
  by (simp add: deal_with_user_commands_def str_def)

lemma pass_writes:
  assumes "writable e" "deal_with_user_commands (sin_line e) (stack_sf e) s = Inr s'"
  shows "subscriber_pass e s = Inr (sub_write e s')"
  using assms by (simp add: subscriber_pass_def writable_def)

lemma write_id:
  assumes "\<not> sent_id s"
  shows "written (sub_write e s) = written s @ tcp_con_msg_bytes (con_msg (sub_id s) (stack_id e))"
    and "sent_id (sub_write e s)" "buffer_w (sub_write e s) = buffer_w s"
  using assms by (simp_all add: sub_write_def sub_event_def written_def)

lemma write_message:
  assumes "sent_id s" "buffer_w s = m # rest"
  shows "written (sub_write e s) = written s @ tcp_sub_msg_bytes m"
    and "sent_id (sub_write e s)" "buffer_w (sub_write e s) = rest"
  using assms by (auto simp: sub_write_def sub_event_def written_def Let_def)

text \<open>Once the identifier is out, one message follows per pass, in the order of the commands.\<close>

lemma commands_written:
  assumes "sent_id s" "buffer_w s = [m]"
    and "list_all2 (\<lambda>e c. writable e \<and> sin_line e = command_line c \<and> good_topic c) es cs"
    and "writable e" "sin_line e = []"
  shows "\<exists>s' ms. subscriber_run (es @ [e]) s = Inr s' \<and> list_all2 message_for ms cs
    \<and> written s' = written s @ concat (map tcp_sub_msg_bytes (m # ms))"
  using assms(3,1,2)
proof (induction es cs arbitrary: s m rule: list_all2_induct)
  case Nil
  have "subscriber_pass e s = Inr (sub_write e s)"
    using pass_writes [OF assms(4)] no_command assms(5) by simp
  with write_message [OF Nil] show ?case by simp
next
  case (Cons e1 es c cs)
  from command_queued obtain m1 where m1: "message_for m1 c"
    "deal_with_user_commands (sin_line e1) (stack_sf e1) s = Inr (s\<lparr>buffer_w := buffer_w s @ [m1]\<rparr>)"
    using Cons.hyps(1) by metis
  let ?s = "s\<lparr>buffer_w := buffer_w s @ [m1]\<rparr>"
  have pass: "subscriber_pass e1 s = Inr (sub_write e1 ?s)"
    using pass_writes [OF _ m1(2)] Cons.hyps(1) by simp
  have w: "written (sub_write e1 ?s) = written s @ tcp_sub_msg_bytes m" "sent_id (sub_write e1 ?s)"
    "buffer_w (sub_write e1 ?s) = [m1]"
    using write_message [of ?s m "[m1]" e1] Cons.prems by (simp_all add: written_def)
  from Cons.IH [OF w(2,3)] obtain s' ms where "subscriber_run (es @ [e]) (sub_write e1 ?s) = Inr s'"
    "list_all2 message_for ms cs" "written s' = written (sub_write e1 ?s) @ concat (map tcp_sub_msg_bytes (m1 # ms))"
    by blast
  with pass m1(1) w(1) show ?case by (intro exI [of _ s'] exI [of _ "m1 # ms"]) simp
qed

text \<open>A whole session of a user: the identifier, then the commands.\<close>

lemma session_written:
  assumes "sub_init name sd 0 = Inr (Some s)" "cs \<noteq> []"
    and "list_all2 (\<lambda>e c. writable e \<and> sin_line e = command_line c \<and> good_topic c) es cs"
    and "writable e" "sin_line e = []"
  shows "\<exists>s' stack ms. subscriber_run (es @ [e]) s = Inr s' \<and> length stack = ID_LEN + 1 \<and> list_all2 message_for ms cs
    \<and> written s' = tcp_con_msg_bytes (con_msg name stack) @ concat (map tcp_sub_msg_bytes ms)"
proof -
  obtain e1 es' c cs' where split: "es = e1 # es'" "cs = c # cs'"
    using assms(2,3) by (cases cs) (auto simp: list_all2_Cons2)
  have e1: "writable e1" "sin_line e1 = command_line c" "good_topic c"
    and rest: "list_all2 (\<lambda>e c. writable e \<and> sin_line e = command_line c \<and> good_topic c) es' cs'"
    using assms(3) by (simp_all add: split)
  have s: "\<not> sent_id s" "sub_id s = name" "buffer_w s = []" "written s = []"
    using assms(1) by (auto simp: sub_init_def written_def split: if_splits)
  from command_queued [OF e1(3)] e1(2) obtain m where m: "message_for m c"
    "deal_with_user_commands (sin_line e1) (stack_sf e1) s = Inr (s\<lparr>buffer_w := buffer_w s @ [m]\<rparr>)" by metis
  let ?s = "s\<lparr>buffer_w := buffer_w s @ [m]\<rparr>"
  have pass: "subscriber_pass e1 s = Inr (sub_write e1 ?s)" by (rule pass_writes [OF e1(1) m(2)])
  have w: "written (sub_write e1 ?s) = tcp_con_msg_bytes (con_msg name (stack_id e1))" "sent_id (sub_write e1 ?s)"
    "buffer_w (sub_write e1 ?s) = [m]"
    using write_id [of ?s e1] s by (simp_all add: written_def)
  from commands_written [OF w(2,3) rest assms(4,5)] obtain s' ms where
    r: "subscriber_run (es' @ [e]) (sub_write e1 ?s) = Inr s'" "list_all2 message_for ms cs'"
      "written s' = written (sub_write e1 ?s) @ concat (map tcp_sub_msg_bytes (m # ms))" by blast
  show ?thesis
    by (intro exI [of _ s'] exI [of _ "stack_id e1"] exI [of _ "m # ms"])
      (use r pass m(1) w(1) e1(1) in \<open>simp add: split writable_def\<close>)
qed

section \<open>What the server makes of it\<close>

text \<open>The messages of a session as the server's abstract messages.\<close>

definition msg_for :: "tcp_sub_msg \<Rightarrow> client_msg" where
  "msg_for m = Subscribe (sub_topic m) (sub_sf m = 1)"

lemma encode_msg_for: "message_for m c \<Longrightarrow> encode_msg (msg_for m) = tcp_sub_msg_bytes m"
  by (auto simp: message_for_def msg_for_def)

lemma encode_session:
  "list_all2 message_for ms cs \<Longrightarrow>
   encode_stream (Connect a # map msg_for ms)
     = tcp_con_msg_bytes \<lparr>con_type = TCP_CONNECT, con_id = a\<rparr> @ concat (map tcp_sub_msg_bytes ms)"
proof (induction ms cs rule: list_all2_induct)
  case (Cons m ms c cs)
  then show ?case by (simp add: encode_msg_for)
qed simp

lemma session_subscribes:
  "list_all2 message_for ms cs \<Longrightarrow> fd_to_id s fd \<noteq> None \<Longrightarrow> session s fd (map msg_for ms)"
proof (induction ms cs arbitrary: s rule: list_all2_induct)
  case (Cons m ms c cs)
  have "fd_to_id (apply_msg fd (msg_for m) s) fd \<noteq> None"
    using Cons.prems by (auto simp: msg_for_def split: option.splits)
  with Cons show ?case by (auto simp: message_for_def msg_for_def)
qed simp

lemma broker_subscribes:
  "list_all2 message_for ms cs \<Longrightarrow> online b fd = Some name \<Longrightarrow>
   fold (broker_step fd) (map msg_for ms) b = fold (\<lambda>(t, sf). set_interest t name (Some sf)) cs b"
proof (induction ms cs arbitrary: b rule: list_all2_induct)
  case (Cons m ms c cs)
  have "broker_step fd (msg_for m) b = (case c of (t, sf) \<Rightarrow> set_interest t name (Some sf) b)"
    using Cons.hyps(1) Cons.prems by (auto simp: message_for_def msg_for_def)
  moreover have "online (case c of (t, sf) \<Rightarrow> set_interest t name (Some sf) b) fd = Some name"
    using Cons.prems by (auto simp: set_interest_def split: prod.splits)
  ultimately show ?case using Cons.IH by (simp add: case_prod_beta)
qed simp

end
