(* ===== verification/Json_Value.thy ===== *)
theory Json_Value
  imports Prelude
begin

text \<open>
  The values of the JSON library the REST client is built on
  (\<open>tema3/json-develop/include/nlohmann\<close>, amalgamated in \<open>single_include/nlohmann/json.hpp\<close>):
  \<open>detail/value_t.hpp\<close>, \<open>detail/exceptions.hpp\<close> and the part of \<open>json.hpp\<close> and
  \<open>detail/conversions/from_json.hpp\<close> the client calls. A number of type \<open>double\<close> is a
  parameter: its type is \<open>'f\<close> and the operations on it are the record \<open>float_ops\<close>.
\<close>

section \<open>Exceptions\<close>

text \<open>
  The exceptions the library throws, each with its id and its text; a \<open>parse_error\<close> also
  has the byte it occurred at. \<open>Length_error\<close> is the \<open>std::length_error\<close> of a vector that is to
  become longer than a vector can be.
\<close>

datatype json_exception =
    Parse_error nat nat "byte list"
  | Type_error nat "byte list"
  | Out_of_range nat "byte list"
  | Other_error nat "byte list"
  | Length_error

text \<open>How a computation stops early: an exception, or undefined behaviour.\<close>

datatype stop =
    Throw json_exception
  | Undefined fault

record position =
  chars_read_total :: nat
  chars_read_current_line :: nat
  lines_read :: nat

definition exception_name :: "byte list \<Rightarrow> nat \<Rightarrow> byte list" where
  "exception_name ename eid = str ''[json.exception.'' @ ename @ str ''.'' @ dec eid @ str ''] ''"

definition position_string :: "position \<Rightarrow> byte list" where
  "position_string pos =
     str '' at line '' @ dec (lines_read pos + 1) @
     str '', column '' @ dec (chars_read_current_line pos)"

definition parse_error_create :: "nat \<Rightarrow> position \<Rightarrow> byte list \<Rightarrow> json_exception" where
  "parse_error_create eid pos what_arg =
     Parse_error eid (chars_read_total pos)
       (exception_name (str ''parse_error'') eid @ str ''parse error'' @ position_string pos
          @ str '': '' @ what_arg)"

text \<open>The overload with a byte position instead of a \<open>position_t\<close>.\<close>

definition parse_error_byte :: "nat \<Rightarrow> nat \<Rightarrow> byte list \<Rightarrow> json_exception" where
  "parse_error_byte eid at what_arg =
     Parse_error eid at
       (exception_name (str ''parse_error'') eid @ str ''parse error''
          @ (if at \<noteq> 0 then str '' at byte '' @ dec at else []) @ str '': '' @ what_arg)"

definition type_error_create :: "nat \<Rightarrow> byte list \<Rightarrow> json_exception" where
  "type_error_create eid what_arg =
     Type_error eid (exception_name (str ''type_error'') eid @ what_arg)"

definition out_of_range_create :: "nat \<Rightarrow> byte list \<Rightarrow> json_exception" where
  "out_of_range_create eid what_arg =
     Out_of_range eid (exception_name (str ''out_of_range'') eid @ what_arg)"

definition other_error_create :: "nat \<Rightarrow> byte list \<Rightarrow> json_exception" where
  "other_error_create eid what_arg =
     Other_error eid (exception_name (str ''other_error'') eid @ what_arg)"

section \<open>Values\<close>

text \<open>
  \<open>basic_json\<close>: a tag (\<open>value_t\<close>) and the value of that tag. An object is a
  \<open>std::map\<close> ordered by its keys, here the list of its members in that order. A binary
  value has an optional subtype.
\<close>

datatype 'f json =
    Null
  | Object "(byte list \<times> 'f json) list"
  | Array "'f json list"
  | String "byte list"
  | Boolean bool
  | Number_integer "64 word"
  | Number_unsigned "64 word"
  | Number_float 'f
  | Binary "byte list" "64 word option"
  | Discarded

text \<open>
  The operations on \<open>double\<close> that come from the C++ runtime (\<open>strtod\<close>, \<open>isfinite\<close>, the
  conversions, \<open>==\<close>) and the shortest decimal rendering \<open>to_chars\<close>.
\<close>

record 'f float_ops =
  strtod :: "byte list \<Rightarrow> 'f"
  isfinite :: "'f \<Rightarrow> bool"
  to_chars :: "'f \<Rightarrow> byte list"
  float_of_int :: "int \<Rightarrow> 'f"
  int_of_float :: "'f \<Rightarrow> int"
  float_eq :: "'f \<Rightarrow> 'f \<Rightarrow> bool"

text \<open>An instance with whole numbers, for evaluating the model.\<close>

definition whole_floats :: "int float_ops" where
  "whole_floats = \<lparr>strtod = digits_value, isfinite = (\<lambda>_. True), to_chars = dec_int,
     float_of_int = id, int_of_float = id, float_eq = (=)\<rparr>"

datatype value_t =
    t_null | t_object | t_array | t_string | t_boolean | t_number_integer | t_number_unsigned
  | t_number_float | t_binary | t_discarded

fun json_type :: "'f json \<Rightarrow> value_t" where
  "json_type Null = t_null"
| "json_type (Object _) = t_object"
| "json_type (Array _) = t_array"
| "json_type (String _) = t_string"
| "json_type (Boolean _) = t_boolean"
| "json_type (Number_integer _) = t_number_integer"
| "json_type (Number_unsigned _) = t_number_unsigned"
| "json_type (Number_float _) = t_number_float"
| "json_type (Binary _ _) = t_binary"
| "json_type Discarded = t_discarded"

text \<open>The comparison of types: the table \<open>order\<close>, which has no entry for \<open>discarded\<close>.\<close>

fun value_order :: "value_t \<Rightarrow> nat option" where
  "value_order t_null = Some 0"
| "value_order t_object = Some 3"
| "value_order t_array = Some 4"
| "value_order t_string = Some 5"
| "value_order t_boolean = Some 1"
| "value_order t_number_integer = Some 2"
| "value_order t_number_unsigned = Some 2"
| "value_order t_number_float = Some 2"
| "value_order t_binary = Some 6"
| "value_order t_discarded = None"

definition value_less :: "value_t \<Rightarrow> value_t \<Rightarrow> bool" where
  "value_less lhs rhs =
     (case (value_order lhs, value_order rhs) of (Some l, Some r) \<Rightarrow> l < r | _ \<Rightarrow> False)"

fun type_name :: "'f json \<Rightarrow> byte list" where
  "type_name Null = str ''null''"
| "type_name (Object _) = str ''object''"
| "type_name (Array _) = str ''array''"
| "type_name (String _) = str ''string''"
| "type_name (Boolean _) = str ''boolean''"
| "type_name (Binary _ _) = str ''binary''"
| "type_name Discarded = str ''discarded''"
| "type_name _ = str ''number''"

fun json_size :: "'f json \<Rightarrow> nat" where
  "json_size Null = 0"
| "json_size (Array xs) = length xs"
| "json_size (Object ms) = length ms"
| "json_size _ = 1"

text \<open>
  \<open>operator==\<close>: numbers of different types are compared after a conversion; \<open>discarded\<close>
  is equal to nothing.
\<close>

fun json_eq :: "('f, 'z) float_ops_scheme \<Rightarrow> 'f json \<Rightarrow> 'f json \<Rightarrow> bool"
and elements_eq :: "('f, 'z) float_ops_scheme \<Rightarrow> 'f json list \<Rightarrow> 'f json list \<Rightarrow> bool"
and members_eq :: "('f, 'z) float_ops_scheme \<Rightarrow> (byte list \<times> 'f json) list \<Rightarrow> (byte list \<times> 'f json) list \<Rightarrow> bool" where
  "json_eq F (Array xs) b = (case b of Array ys \<Rightarrow> elements_eq F xs ys | _ \<Rightarrow> False)"
| "json_eq F (Object xs) b = (case b of Object ys \<Rightarrow> members_eq F xs ys | _ \<Rightarrow> False)"
| "json_eq F Null b = (b = Null)"
| "json_eq F (String s) b = (b = String s)"
| "json_eq F (Boolean a) b = (b = Boolean a)"
| "json_eq F (Number_integer i) b =
     (case b of
        Number_integer j \<Rightarrow> i = j
      | Number_float y \<Rightarrow> float_eq F (float_of_int F (sint i)) y
      | Number_unsigned j \<Rightarrow> i = j
      | _ \<Rightarrow> False)"
| "json_eq F (Number_unsigned i) b =
     (case b of
        Number_unsigned j \<Rightarrow> i = j
      | Number_float y \<Rightarrow> float_eq F (float_of_int F (uint i)) y
      | Number_integer j \<Rightarrow> i = j
      | _ \<Rightarrow> False)"
| "json_eq F (Number_float x) b =
     (case b of
        Number_float y \<Rightarrow> float_eq F x y
      | Number_integer j \<Rightarrow> float_eq F x (float_of_int F (sint j))
      | Number_unsigned j \<Rightarrow> float_eq F x (float_of_int F (uint j))
      | _ \<Rightarrow> False)"
| "json_eq F (Binary bs s) b = (b = Binary bs s)"
| "json_eq F Discarded b = False"
| "elements_eq F [] ys = (ys = [])"
| "elements_eq F (x # xs) ys = (case ys of [] \<Rightarrow> False | y # ys' \<Rightarrow> json_eq F x y \<and> elements_eq F xs ys')"
| "members_eq F [] ys = (ys = [])"
| "members_eq F ((k, x) # xs) ys =
     (case ys of [] \<Rightarrow> False
      | (l, y) # ys' \<Rightarrow> k = l \<and> json_eq F x y \<and> members_eq F xs ys')"

text \<open>
  In \<open>j == NULL\<close>, \<open>j = NULL\<close> and \<open>return NULL\<close> the macro \<open>NULL\<close> is an integer constant, so
  the value is the number 0 and not the JSON null.
\<close>

definition json_NULL :: "'f json" where
  "json_NULL = Number_integer 0"

section \<open>Objects\<close>

text \<open>The order of \<open>std::string\<close>: by the first unequal byte, unsigned, else by length.\<close>

fun key_less :: "byte list \<Rightarrow> byte list \<Rightarrow> bool" where
  "key_less _ [] = False"
| "key_less [] (_ # _) = True"
| "key_less (a # s) (b # t) = (a < b \<or> a = b \<and> key_less s t)"

text \<open>\<open>std::map::emplace\<close>: a key that is present keeps its value.\<close>

fun object_emplace :: "byte list \<Rightarrow> 'v \<Rightarrow> (byte list \<times> 'v) list \<Rightarrow> (byte list \<times> 'v) list" where
  "object_emplace k v [] = [(k, v)]"
| "object_emplace k v ((l, w) # ms) =
     (if k = l then (l, w) # ms
      else if key_less k l then (k, v) # (l, w) # ms
      else (l, w) # object_emplace k v ms)"

text \<open>Replacing the value of a member that is present.\<close>

fun object_update :: "byte list \<Rightarrow> ('v \<Rightarrow> 'v) \<Rightarrow> (byte list \<times> 'v) list \<Rightarrow> (byte list \<times> 'v) list" where
  "object_update k f [] = []"
| "object_update k f ((l, w) # ms) = (if k = l then (l, f w) # ms else (l, w) # object_update k f ms)"

text \<open>
  \<open>operator[]\<close> with a key: a null value becomes an empty object, a key that is missing is
  added with a null value. The result is the container after that; the reference that the
  code returns is to the member with that key.
\<close>

definition operator_key :: "byte list \<Rightarrow> 'f json \<Rightarrow> stop + 'f json" where
  "operator_key key j =
     (case (case j of Null \<Rightarrow> Object [] | _ \<Rightarrow> j) of
        Object ms \<Rightarrow> Inr (Object (object_emplace key Null ms))
      | _ \<Rightarrow> Inl (Throw (type_error_create 305
               (str ''cannot use operator[] with a string argument with '' @ type_name j))))"

fun member :: "byte list \<Rightarrow> 'f json \<Rightarrow> 'f json" where
  "member key (Object ms) = (case map_of ms key of Some v \<Rightarrow> v | None \<Rightarrow> Null)"
| "member key _ = Null"

text \<open>\<open>j[key] = v\<close>.\<close>

definition assign_key :: "byte list \<Rightarrow> 'f json \<Rightarrow> 'f json \<Rightarrow> stop + 'f json" where
  "assign_key key v j =
     bindE (operator_key key j) (\<lambda>j'.
       case j' of Object ms \<Rightarrow> Inr (Object (object_update key (\<lambda>_. v) ms)) | _ \<Rightarrow> Inr j')"

text \<open>\<open>at\<close> with an index.\<close>

definition at_index :: "nat \<Rightarrow> 'f json \<Rightarrow> stop + 'f json" where
  "at_index idx j =
     (case j of
        Array xs \<Rightarrow>
          (if idx < length xs then Inr (xs ! idx)
           else Inl (Throw (out_of_range_create 401
                  (str ''array index '' @ dec idx @ str '' is out of range''))))
      | _ \<Rightarrow> Inl (Throw (type_error_create 304 (str ''cannot use at() with '' @ type_name j))))"

section \<open>Conversions\<close>

text \<open>\<open>get_to\<close> for \<open>std::string\<close> and for \<open>int\<close> (the conversion of a 64-bit number keeps 32 bits).\<close>

definition get_to_string :: "'f json \<Rightarrow> stop + byte list" where
  "get_to_string j =
     (case j of
        String s \<Rightarrow> Inr s
      | _ \<Rightarrow> Inl (Throw (type_error_create 302 (str ''type must be string, but is '' @ type_name j))))"

definition get_to_int :: "('f, 'z) float_ops_scheme \<Rightarrow> 'f json \<Rightarrow> stop + int" where
  "get_to_int F j =
     (case j of
        Number_unsigned x \<Rightarrow> Inr (sint (ucast x :: u32))
      | Number_integer x \<Rightarrow> Inr (sint (ucast x :: u32))
      | Number_float x \<Rightarrow> Inr (int_of_float F x)
      | Boolean b \<Rightarrow> Inr (of_bool b)
      | _ \<Rightarrow> Inl (Throw (type_error_create 302 (str ''type must be number, but is '' @ type_name j))))"

end
