(* ===== verification/Json_Lexer.thy ===== *)
theory Json_Lexer
  imports Json_Value
begin

text \<open>
  \<open>detail/input/lexer.hpp\<close> and the input adapter of a character range
  (\<open>detail/input/input_adapters.hpp\<close>): the scanner that turns bytes into tokens. Characters
  are integers as in the source, with -1 for the end of the input. Every loop of the scanner
  comes with its termination proof.
\<close>

section \<open>State\<close>

datatype token_type =
    T_uninitialized | T_literal_true | T_literal_false | T_literal_null | T_value_string
  | T_value_unsigned | T_value_integer | T_value_float | T_begin_array | T_begin_object
  | T_end_array | T_end_object | T_name_separator | T_value_separator | T_parse_error
  | T_end_of_input | T_literal_or_value

fun token_type_name :: "token_type \<Rightarrow> byte list" where
  "token_type_name T_uninitialized = str ''<uninitialized>''"
| "token_type_name T_literal_true = str ''true literal''"
| "token_type_name T_literal_false = str ''false literal''"
| "token_type_name T_literal_null = str ''null literal''"
| "token_type_name T_value_string = str ''string literal''"
| "token_type_name T_value_unsigned = str ''number literal''"
| "token_type_name T_value_integer = str ''number literal''"
| "token_type_name T_value_float = str ''number literal''"
| "token_type_name T_begin_array = [39] @ str ''['' @ [39]"
| "token_type_name T_begin_object = [39] @ str ''{'' @ [39]"
| "token_type_name T_end_array = [39] @ str '']'' @ [39]"
| "token_type_name T_end_object = [39] @ str ''}'' @ [39]"
| "token_type_name T_name_separator = [39] @ str '':'' @ [39]"
| "token_type_name T_value_separator = [39] @ str '','' @ [39]"
| "token_type_name T_parse_error = str ''<parse error>''"
| "token_type_name T_end_of_input = str ''end of input''"
| "token_type_name T_literal_or_value =
     [39] @ str ''['' @ [39] @ str '', '' @ [39] @ str ''{'' @ [39] @ str '', or a literal''"

abbreviation EOF :: int where "EOF \<equiv> -1"

record 'f lexer =
  ia :: "byte list"
  ignore_comments :: bool
  current :: int
  next_unget :: bool
  pos :: position
  token_string :: "byte list"
  token_buffer :: "byte list"
  error_message :: "byte list"
  value_integer :: "64 word"
  value_unsigned :: "64 word"
  value_float :: "'f option"
  decimal_point_char :: int

text \<open>
  A lexer before its first character. \<open>value_float\<close>, 0 in the source, is only read after it
  was set.
\<close>

definition lexer_init :: "byte list \<Rightarrow> bool \<Rightarrow> int \<Rightarrow> 'f lexer" where
  "lexer_init adapter comments point =
     \<lparr>ia = adapter, ignore_comments = comments, current = EOF, next_unget = False,
      pos = \<lparr>chars_read_total = 0, chars_read_current_line = 0, lines_read = 0\<rparr>,
      token_string = [], token_buffer = [], error_message = [], value_integer = 0,
      value_unsigned = 0, value_float = None, decimal_point_char = point\<rparr>"

section \<open>Input management\<close>

definition get_character :: "byte list \<Rightarrow> int \<times> byte list" where
  "get_character a = (case a of b # bs \<Rightarrow> (uint b, bs) | [] \<Rightarrow> (EOF, []))"

definition reset :: "'f lexer \<Rightarrow> 'f lexer" where
  "reset l = l\<lparr>token_buffer := [], token_string := [word_of_int (current l)]\<rparr>"

text \<open>\<open>get\<close>, in its four statements.\<close>

definition count_char :: "'f lexer \<Rightarrow> 'f lexer" where
  "count_char l = l\<lparr>pos := (pos l)\<lparr>chars_read_total := chars_read_total (pos l) + 1,
       chars_read_current_line := chars_read_current_line (pos l) + 1\<rparr>\<rparr>"

definition read_char :: "'f lexer \<Rightarrow> 'f lexer" where
  "read_char l =
     (if next_unget l then l\<lparr>next_unget := False\<rparr>
      else l\<lparr>current := fst (get_character (ia l)), ia := snd (get_character (ia l))\<rparr>)"

definition record_char :: "'f lexer \<Rightarrow> 'f lexer" where
  "record_char l =
     (if current l \<noteq> EOF
      then l\<lparr>token_string := token_string l @ [word_of_int (current l)]\<rparr> else l)"

definition count_line :: "'f lexer \<Rightarrow> 'f lexer" where
  "count_line l =
     (if current l = 0x0A
      then l\<lparr>pos := (pos l)\<lparr>lines_read := lines_read (pos l) + 1, chars_read_current_line := 0\<rparr>\<rparr>
      else l)"

definition get :: "'f lexer \<Rightarrow> 'f lexer" where
  "get l = count_line (record_char (read_char (count_char l)))"

text \<open>\<open>unget\<close>: the position goes back, but the column of a line that ended is lost.\<close>

definition unget_position :: "position \<Rightarrow> position" where
  "unget_position p =
     (let p = p\<lparr>chars_read_total := chars_read_total p - 1\<rparr> in
      if chars_read_current_line p = 0
      then (if 0 < lines_read p then p\<lparr>lines_read := lines_read p - 1\<rparr> else p)
      else p\<lparr>chars_read_current_line := chars_read_current_line p - 1\<rparr>)"

definition unget :: "'f lexer \<Rightarrow> 'f lexer" where
  "unget l =
     l\<lparr>next_unget := True, pos := unget_position (pos l),
       token_string := (if current l \<noteq> EOF then butlast (token_string l) else token_string l)\<rparr>"

definition add :: "int \<Rightarrow> 'f lexer \<Rightarrow> 'f lexer" where
  "add c l = l\<lparr>token_buffer := token_buffer l @ [word_of_int c]\<rparr>"

definition fail :: "byte list \<Rightarrow> 'f lexer \<Rightarrow> 'f lexer" where
  "fail m l = l\<lparr>error_message := m\<rparr>"

text \<open>\<open>get_token_string\<close>: control characters are shown as \<open><U+XXXX>\<close>.\<close>

definition hex_digit_upper :: "nat \<Rightarrow> byte" where
  "hex_digit_upper n = (if n < 10 then of_nat (48 + n) else of_nat (55 + n))"

definition get_token_string :: "'f lexer \<Rightarrow> byte list" where
  "get_token_string l =
     concat (map (\<lambda>c. if c \<le> 0x1F
                      then str ''<U+00'' @ [hex_digit_upper (unat c div 16),
                             hex_digit_upper (unat c mod 16)] @ str ''>''
                      else [c]) (token_string l))"

text \<open>What is left to read: the measure of every loop of the scanner.\<close>

definition remaining :: "'f lexer \<Rightarrow> nat" where
  "remaining l = length (ia l) + (if next_unget l \<and> current l \<noteq> EOF then 1 else 0)"

lemma get_simps [simp]:
  "current (get l) = (if next_unget l then current l else fst (get_character (ia l)))"
  "ia (get l) = (if next_unget l then ia l else snd (get_character (ia l)))"
  "next_unget (get l) = False" "token_buffer (get l) = token_buffer l"
  "ignore_comments (get l) = ignore_comments l" "decimal_point_char (get l) = decimal_point_char l"
  "error_message (get l) = error_message l"
  by (auto simp: get_def count_char_def read_char_def record_char_def count_line_def)

lemma unget_simps [simp]:
  "current (unget l) = current l" "ia (unget l) = ia l" "next_unget (unget l) = True"
  "token_buffer (unget l) = token_buffer l" "ignore_comments (unget l) = ignore_comments l"
  "decimal_point_char (unget l) = decimal_point_char l"
  "error_message (unget l) = error_message l"
  by (simp_all add: unget_def)

lemma remaining_get: "current (get l) \<noteq> EOF \<Longrightarrow> remaining (get l) < remaining l"
  by (auto simp: remaining_def get_character_def split: list.splits if_splits)

lemma remaining_get_le: "remaining (get l) \<le> remaining l"
  by (auto simp: remaining_def get_character_def split: list.splits)

lemma remaining_unget_get: "remaining (unget (get l)) \<le> remaining l"
  by (auto simp: remaining_def get_character_def split: list.splits)

lemma add_simps [simp]:
  "current (add c l) = current l" "next_unget (add c l) = next_unget l" "ia (add c l) = ia l"
  "remaining (add c l) = remaining l" "ignore_comments (add c l) = ignore_comments l"
  "pos (add c l) = pos l" "token_string (add c l) = token_string l"
  "token_buffer (add c l) = token_buffer l @ [word_of_int c]"
  "error_message (add c l) = error_message l"
  "decimal_point_char (add c l) = decimal_point_char l"
  by (simp_all add: add_def remaining_def)

lemma fail_simps [simp]:
  "current (fail m l) = current l" "next_unget (fail m l) = next_unget l" "ia (fail m l) = ia l"
  "remaining (fail m l) = remaining l" "ignore_comments (fail m l) = ignore_comments l"
  "pos (fail m l) = pos l" "token_string (fail m l) = token_string l"
  "token_buffer (fail m l) = token_buffer l" "error_message (fail m l) = m"
  by (simp_all add: fail_def remaining_def)

lemma reset_simps [simp]:
  "current (reset l) = current l" "next_unget (reset l) = next_unget l" "ia (reset l) = ia l"
  "remaining (reset l) = remaining l" "ignore_comments (reset l) = ignore_comments l"
  "pos (reset l) = pos l" "token_buffer (reset l) = []"
  "decimal_point_char (reset l) = decimal_point_char l"
  by (simp_all add: reset_def remaining_def)

section \<open>Strings\<close>

text \<open>
  \<open>get_codepoint\<close>: four hexadecimal digits, or -1. The position of the first digit that is
  wrong is where reading stops.
\<close>

definition hex_value :: "int \<Rightarrow> int option" where
  "hex_value c =
     (if 0x30 \<le> c \<and> c \<le> 0x39 then Some (c - 0x30)
      else if 0x41 \<le> c \<and> c \<le> 0x46 then Some (c - 0x37)
      else if 0x61 \<le> c \<and> c \<le> 0x66 then Some (c - 0x57)
      else None)"

fun get_codepoint_loop :: "nat list \<Rightarrow> int \<Rightarrow> 'f lexer \<Rightarrow> int \<times> 'f lexer" where
  "get_codepoint_loop [] codepoint l = (codepoint, l)"
| "get_codepoint_loop (factor # factors) codepoint l =
     (let l = get l in
      case hex_value (current l) of
        Some d \<Rightarrow> get_codepoint_loop factors (codepoint + push_bit factor d) l
      | None \<Rightarrow> (-1, l))"

definition get_codepoint :: "'f lexer \<Rightarrow> int \<times> 'f lexer" where
  "get_codepoint l = get_codepoint_loop [12, 8, 4, 0] 0 l"

fun next_bytes :: "(int \<times> int) list \<Rightarrow> 'f lexer \<Rightarrow> bool \<times> 'f lexer" where
  "next_bytes [] l = (True, l)"
| "next_bytes ((lo, hi) # ranges) l =
     (let l = get l in
      if lo \<le> current l \<and> current l \<le> hi then next_bytes ranges (add (current l) l)
      else (False, fail (str ''invalid string: ill-formed UTF-8 byte'') l))"

definition next_byte_in_range :: "(int \<times> int) list \<Rightarrow> 'f lexer \<Rightarrow> bool \<times> 'f lexer" where
  "next_byte_in_range ranges l = next_bytes ranges (add (current l) l)"

text \<open>The UTF-8 encoding of a code point.\<close>

definition add_codepoint :: "int \<Rightarrow> 'f lexer \<Rightarrow> 'f lexer" where
  "add_codepoint cp l =
     (if cp < 0x80 then add cp l
      else if cp \<le> 0x7FF
      then add (0x80 OR (cp AND 0x3F)) (add (0xC0 OR drop_bit 6 cp) l)
      else if cp \<le> 0xFFFF
      then add (0x80 OR (cp AND 0x3F)) (add (0x80 OR (drop_bit 6 cp AND 0x3F))
             (add (0xE0 OR drop_bit 12 cp) l))
      else add (0x80 OR (cp AND 0x3F)) (add (0x80 OR (drop_bit 6 cp AND 0x3F))
             (add (0x80 OR (drop_bit 12 cp AND 0x3F)) (add (0xF0 OR drop_bit 18 cp) l))))"

definition msg_hex_digits :: "byte list" where
  "msg_hex_digits = str ''invalid string: '' @ [39, 92] @ str ''u'' @ [39]
     @ str '' must be followed by 4 hex digits''"

definition msg_low_surrogate :: "byte list" where
  "msg_low_surrogate =
     str ''invalid string: surrogate U+D800..U+DBFF must be followed by U+DC00..U+DFFF''"

definition msg_high_surrogate :: "byte list" where
  "msg_high_surrogate =
     str ''invalid string: surrogate U+DC00..U+DFFF must follow U+D800..U+DBFF''"

text \<open>
  The escape by \<open>u\<close>: a first surrogate must be followed by an escaped second one. The result
  is False where the code returns \<open>parse_error\<close>.
\<close>

definition scan_unicode :: "'f lexer \<Rightarrow> bool \<times> 'f lexer" where
  "scan_unicode l =
     (case get_codepoint l of (codepoint1, l) \<Rightarrow>
      if codepoint1 = -1
      then (False, fail msg_hex_digits l)
      else if 0xD800 \<le> codepoint1 \<and> codepoint1 \<le> 0xDBFF
      then
        (let l = get l in
         if current l \<noteq> 0x5C
         then (False, fail msg_low_surrogate l)
         else let l = get l in
         if current l \<noteq> 0x75
         then (False, fail msg_low_surrogate l)
         else case get_codepoint l of (codepoint2, l) \<Rightarrow>
           if codepoint2 = -1
           then (False, fail msg_hex_digits l)
           else if 0xDC00 \<le> codepoint2 \<and> codepoint2 \<le> 0xDFFF
           then (True, add_codepoint
                  (uint (push_bit 10 (word_of_int codepoint1) + word_of_int codepoint2 - 0x35FDC00 :: u32)) l)
           else (False, fail msg_low_surrogate l))
      else if 0xDC00 \<le> codepoint1 \<and> codepoint1 \<le> 0xDFFF
      then (False, fail msg_high_surrogate l)
      else (True, add_codepoint codepoint1 l))"

definition scan_escape :: "'f lexer \<Rightarrow> bool \<times> 'f lexer" where
  "scan_escape l =
     (let l = get l; c = current l in
      if c = 0x22 then (True, add 0x22 l)
      else if c = 0x5C then (True, add 0x5C l)
      else if c = 0x2F then (True, add 0x2F l)
      else if c = 0x62 then (True, add 0x08 l)
      else if c = 0x66 then (True, add 0x0C l)
      else if c = 0x6E then (True, add 0x0A l)
      else if c = 0x72 then (True, add 0x0D l)
      else if c = 0x74 then (True, add 0x09 l)
      else if c = 0x75 then scan_unicode l
      else (False, fail (str ''invalid string: forbidden character after backslash'') l))"

text \<open>
  The names of the control characters in the messages; five of them have a short escape that
  the message mentions.
\<close>

definition control_names :: "string list" where
  "control_names =
     [''NUL'', ''SOH'', ''STX'', ''ETX'', ''EOT'', ''ENQ'', ''ACK'', ''BEL'',
      ''BS'', ''HT'', ''LF'', ''VT'', ''FF'', ''CR'', ''SO'', ''SI'',
      ''DLE'', ''DC1'', ''DC2'', ''DC3'', ''DC4'', ''NAK'', ''SYN'', ''ETB'',
      ''CAN'', ''EM'', ''SUB'', ''ESC'', ''FS'', ''GS'', ''RS'', ''US'']"

fun short_escape :: "int \<Rightarrow> byte list" where
  "short_escape c =
     (if c = 0x08 then str ''b'' else if c = 0x09 then str ''t'' else if c = 0x0A then str ''n''
      else if c = 0x0C then str ''f'' else if c = 0x0D then str ''r'' else [])"

definition control_message :: "int \<Rightarrow> byte list" where
  "control_message c =
     (let code = str ''00'' @ [hex_digit_upper (nat c div 16), hex_digit_upper (nat c mod 16)] in
      str ''invalid string: control character U+'' @ code @ str '' ('' @ str (control_names ! nat c)
        @ str '') must be escaped to '' @ [92] @ str ''u'' @ code
        @ (if short_escape c = [] then [] else str '' or '' @ [92] @ short_escape c))"

text \<open>
  The bytes that may follow the first byte of a well-formed sequence, as the cases of
  \<open>scan_string\<close> list them; a byte that starts no sequence has no entry.
\<close>

definition following_bytes :: "int \<Rightarrow> (int \<times> int) list option" where
  "following_bytes c =
     (if 0x20 \<le> c \<and> c \<le> 0x7F then Some []
      else if 0xC2 \<le> c \<and> c \<le> 0xDF then Some [(0x80, 0xBF)]
      else if c = 0xE0 then Some [(0xA0, 0xBF), (0x80, 0xBF)]
      else if 0xE1 \<le> c \<and> c \<le> 0xEC \<or> c = 0xEE \<or> c = 0xEF then Some [(0x80, 0xBF), (0x80, 0xBF)]
      else if c = 0xED then Some [(0x80, 0x9F), (0x80, 0xBF)]
      else if c = 0xF0 then Some [(0x90, 0xBF), (0x80, 0xBF), (0x80, 0xBF)]
      else if 0xF1 \<le> c \<and> c \<le> 0xF3 then Some [(0x80, 0xBF), (0x80, 0xBF), (0x80, 0xBF)]
      else if c = 0xF4 then Some [(0x80, 0x8F), (0x80, 0xBF), (0x80, 0xBF)]
      else None)"

text \<open>
  One round of the loop of \<open>scan_string\<close>: the token it returns, or the lexer with which the
  loop goes on.
\<close>

definition scan_string_step :: "'f lexer \<Rightarrow> (token_type \<times> 'f lexer) + 'f lexer" where
  "scan_string_step l =
     (let l = get l; c = current l in
      if c = EOF then Inl (T_parse_error, fail (str ''invalid string: missing closing quote'') l)
      else if c = 0x22 then Inl (T_value_string, l)
      else if c = 0x5C
      then (case scan_escape l of (ok, l) \<Rightarrow> if ok then Inr l else Inl (T_parse_error, l))
      else if c \<le> 0x1F then Inl (T_parse_error, fail (control_message c) l)
      else case following_bytes c of
        Some ranges \<Rightarrow>
          (case next_byte_in_range ranges l of (ok, l) \<Rightarrow>
             if ok then Inr l else Inl (T_parse_error, l))
      | None \<Rightarrow> Inl (T_parse_error, fail (str ''invalid string: ill-formed UTF-8 byte'') l))"

lemma remaining_get_codepoint_loop:
  "remaining (snd (get_codepoint_loop fs c l)) \<le> remaining l"
proof (induction fs arbitrary: c l)
  case (Cons f fs)
  then show ?case
    using remaining_get_le [of l]
    by (auto simp: Let_def split: option.splits intro: order_trans)
qed simp

lemma remaining_get_codepoint: "remaining (snd (get_codepoint l)) \<le> remaining l"
  unfolding get_codepoint_def by (rule remaining_get_codepoint_loop)

lemma remaining_next_bytes: "remaining (snd (next_bytes rs l)) \<le> remaining l"
proof (induction rs arbitrary: l)
  case (Cons r rs)
  show ?case
    using Cons [of "add (current (get l)) (get l)"] remaining_get_le [of l]
    by (cases r) (auto simp: Let_def)
qed simp

lemma remaining_add_codepoint [simp]: "remaining (add_codepoint c l) = remaining l"
  by (simp add: add_codepoint_def)

lemma remaining_scan_unicode: "remaining (snd (scan_unicode l)) \<le> remaining l"
proof -
  obtain c1 l1 where 1: "get_codepoint l = (c1, l1)" by (cases "get_codepoint l")
  obtain c2 l2 where 2: "get_codepoint (get (get l1)) = (c2, l2)"
    by (cases "get_codepoint (get (get l1))")
  have "remaining l1 \<le> remaining l" using remaining_get_codepoint [of l] 1 by simp
  moreover have "remaining (get l1) \<le> remaining l1" "remaining (get (get l1)) \<le> remaining (get l1)"
    by (rule remaining_get_le)+
  moreover have "remaining l2 \<le> remaining (get (get l1))"
    using remaining_get_codepoint [of "get (get l1)"] 2 by simp
  ultimately show ?thesis
    by (auto simp: scan_unicode_def Let_def 1 2)
qed

lemma remaining_scan_escape: "remaining (snd (scan_escape l)) \<le> remaining l"
  using remaining_scan_unicode [of "get l"] remaining_get_le [of l]
  by (auto simp: scan_escape_def Let_def)

lemma remaining_scan_string_step:
  assumes "scan_string_step l = Inr l'"
  shows "remaining l' < remaining l"
proof -
  have "current (get l) \<noteq> EOF" using assms by (auto simp: scan_string_step_def Let_def)
  then have "remaining (get l) < remaining l" by (rule remaining_get)
  moreover have "remaining l1 \<le> remaining (get l)"
    if "scan_escape (get l) = (b, l1)" for b l1
    using remaining_scan_escape [of "get l"] that by simp
  moreover have "remaining l1 \<le> remaining (get l)"
    if "next_bytes rs (add c (get l)) = (b, l1)" for rs b c l1
    using remaining_next_bytes [of rs "add c (get l)"] that by simp
  ultimately have "remaining l' \<le> remaining (get l)"
    using assms
    by (auto simp: scan_string_step_def Let_def next_byte_in_range_def
        simp del: get_simps split: if_splits option.splits prod.splits)
  with \<open>remaining (get l) < remaining l\<close>
  show ?thesis by simp
qed

function scan_string_loop :: "'f lexer \<Rightarrow> token_type \<times> 'f lexer" where
  "scan_string_loop l =
     (case scan_string_step l of Inl r \<Rightarrow> r | Inr l' \<Rightarrow> scan_string_loop l')"
  by pat_completeness auto
termination
  by (relation "measure remaining") (auto intro: remaining_scan_string_step)

declare scan_string_loop.simps [simp del]

definition scan_string :: "'f lexer \<Rightarrow> token_type \<times> 'f lexer" where
  "scan_string l = scan_string_loop (reset l)"

section \<open>Comments\<close>

text \<open>A comment to the end of the line, and one up to the closing mark.\<close>

function scan_line_comment :: "'f lexer \<Rightarrow> bool \<times> 'f lexer" where
  "scan_line_comment l =
     (let l' = get l in
      if current l' = 0x0A \<or> current l' = 0x0D \<or> current l' = EOF \<or> current l' = 0
      then (True, l') else scan_line_comment l')"
  by pat_completeness auto
termination
  by (relation "measure remaining") (auto simp del: get_simps intro: remaining_get)

declare scan_line_comment.simps [simp del]

definition msg_open_comment :: "byte list" where
  "msg_open_comment = str ''invalid comment; missing closing '' @ [39] @ str ''*/'' @ [39]"

function scan_block_comment :: "'f lexer \<Rightarrow> bool \<times> 'f lexer" where
  "scan_block_comment l =
     (let l' = get l in
      if current l' = EOF \<or> current l' = 0 then (False, fail msg_open_comment l')
      else if current l' = 0x2A
      then (let l'' = get l' in
            if current l'' = 0x2F then (True, l'') else scan_block_comment (unget l''))
      else scan_block_comment l')"
  by pat_completeness auto
termination
proof (relation "measure remaining")
  fix l l' l'' :: "'f lexer"
  assume "l' = get l" "\<not> (current l' = EOF \<or> current l' = 0)" "l'' = get l'"
  then show "(unget l'', l) \<in> measure remaining"
    using remaining_get [of l] remaining_unget_get [of l'] by (simp del: get_simps)
qed (auto simp del: get_simps intro: remaining_get)

declare scan_block_comment.simps [simp del]

definition scan_comment :: "'f lexer \<Rightarrow> bool \<times> 'f lexer" where
  "scan_comment l =
     (let l = get l in
      if current l = 0x2F then scan_line_comment l
      else if current l = 0x2A then scan_block_comment l
      else (False, fail (str ''invalid comment; expecting '' @ [39] @ str ''/'' @ [39] @ str '' or ''
              @ [39] @ str ''*'' @ [39] @ str '' after '' @ [39] @ str ''/'' @ [39]) l))"

section \<open>Numbers\<close>

text \<open>
  The C library's \<open>strtoull\<close> and \<open>strtoll\<close> in base 10, on a text of digits, for \<open>strtoll\<close>
  after a minus sign: the value, or \<open>None\<close> when \<open>errno\<close> reports that it does not fit.
\<close>

definition strtoull :: "byte list \<Rightarrow> 64 word option" where
  "strtoull s =
     (let v = digits_value (takeWhile is_digit s)
      in if v < 2 ^ 64 then Some (word_of_int v) else None)"

definition strtoll :: "byte list \<Rightarrow> 64 word option" where
  "strtoll s =
     (let v = (if s \<noteq> [] \<and> hd s = 45 then - digits_value (takeWhile is_digit (tl s))
               else digits_value (takeWhile is_digit s))
      in if - (2 ^ 63) \<le> v \<and> v < 2 ^ 63 then Some (word_of_int v) else None)"

text \<open>
  The states of \<open>scan_number\<close>, one definition per label, from the last to the first. The
  type of the number so far is an argument.
\<close>

abbreviation digit :: "int \<Rightarrow> bool" where
  "digit c \<equiv> 0x30 \<le> c \<and> c \<le> 0x39"

definition scan_number_done ::
  "('f, 'z) float_ops_scheme \<Rightarrow> token_type \<Rightarrow> 'f lexer \<Rightarrow> token_type \<times> 'f lexer" where
  "scan_number_done F number_type l =
     (let l = unget l;
          real = (T_value_float, l\<lparr>value_float := Some (strtod F (token_buffer l))\<rparr>)
      in if number_type = T_value_unsigned
         then (case strtoull (token_buffer l) of
                 Some x \<Rightarrow> (T_value_unsigned, l\<lparr>value_unsigned := x\<rparr>)
               | None \<Rightarrow> real)
         else if number_type = T_value_integer
         then (case strtoll (token_buffer l) of
                 Some x \<Rightarrow> (T_value_integer, l\<lparr>value_integer := x\<rparr>)
               | None \<Rightarrow> real)
         else real)"

function scan_number_any2 ::
  "('f, 'z) float_ops_scheme \<Rightarrow> token_type \<Rightarrow> 'f lexer \<Rightarrow> token_type \<times> 'f lexer" where
  "scan_number_any2 F ty l =
     (let l' = get l in
      if digit (current l') then scan_number_any2 F ty (add (current l') l')
      else scan_number_done F ty l')"
  by pat_completeness auto
termination
  by (relation "measure (\<lambda>(_, _, l). remaining l)") (auto simp del: get_simps intro!: remaining_get)

declare scan_number_any2.simps [simp del]

definition scan_number_sign ::
  "('f, 'z) float_ops_scheme \<Rightarrow> token_type \<Rightarrow> 'f lexer \<Rightarrow> token_type \<times> 'f lexer" where
  "scan_number_sign F ty l =
     (let l = get l in
      if digit (current l) then scan_number_any2 F ty (add (current l) l)
      else (T_parse_error, fail (str ''invalid number; expected digit after exponent sign'') l))"

definition scan_number_exponent ::
  "('f, 'z) float_ops_scheme \<Rightarrow> token_type \<Rightarrow> 'f lexer \<Rightarrow> token_type \<times> 'f lexer" where
  "scan_number_exponent F ty l =
     (let ty = T_value_float; l = get l in
      if current l = 0x2B \<or> current l = 0x2D
      then scan_number_sign F ty (add (current l) l)
      else if digit (current l) then scan_number_any2 F ty (add (current l) l)
      else (T_parse_error, fail (str ''invalid number; expected '' @ [39] @ str ''+'' @ [39]
              @ str '', '' @ [39] @ str ''-'' @ [39] @ str '', or digit after exponent'') l))"

function scan_number_decimal2 ::
  "('f, 'z) float_ops_scheme \<Rightarrow> token_type \<Rightarrow> 'f lexer \<Rightarrow> token_type \<times> 'f lexer" where
  "scan_number_decimal2 F ty l =
     (let l' = get l in
      if digit (current l') then scan_number_decimal2 F ty (add (current l') l')
      else if current l' = 0x65 \<or> current l' = 0x45
      then scan_number_exponent F ty (add (current l') l')
      else scan_number_done F ty l')"
  by pat_completeness auto
termination
  by (relation "measure (\<lambda>(_, _, l). remaining l)") (auto simp del: get_simps intro!: remaining_get)

declare scan_number_decimal2.simps [simp del]

definition scan_number_decimal1 ::
  "('f, 'z) float_ops_scheme \<Rightarrow> token_type \<Rightarrow> 'f lexer \<Rightarrow> token_type \<times> 'f lexer" where
  "scan_number_decimal1 F ty l =
     (let ty = T_value_float; l = get l in
      if digit (current l) then scan_number_decimal2 F ty (add (current l) l)
      else (T_parse_error, fail (str ''invalid number; expected digit after '' @ [39] @ str ''.''
              @ [39]) l))"

function scan_number_any1 ::
  "('f, 'z) float_ops_scheme \<Rightarrow> token_type \<Rightarrow> 'f lexer \<Rightarrow> token_type \<times> 'f lexer" where
  "scan_number_any1 F ty l =
     (let l' = get l in
      if digit (current l') then scan_number_any1 F ty (add (current l') l')
      else if current l' = 0x2E
      then scan_number_decimal1 F ty (add (decimal_point_char l') l')
      else if current l' = 0x65 \<or> current l' = 0x45
      then scan_number_exponent F ty (add (current l') l')
      else scan_number_done F ty l')"
  by pat_completeness auto
termination
  by (relation "measure (\<lambda>(_, _, l). remaining l)") (auto simp del: get_simps intro!: remaining_get)

declare scan_number_any1.simps [simp del]

definition scan_number_zero ::
  "('f, 'z) float_ops_scheme \<Rightarrow> token_type \<Rightarrow> 'f lexer \<Rightarrow> token_type \<times> 'f lexer" where
  "scan_number_zero F ty l =
     (let l = get l in
      if current l = 0x2E then scan_number_decimal1 F ty (add (decimal_point_char l) l)
      else if current l = 0x65 \<or> current l = 0x45
      then scan_number_exponent F ty (add (current l) l)
      else scan_number_done F ty l)"

definition scan_number_minus ::
  "('f, 'z) float_ops_scheme \<Rightarrow> token_type \<Rightarrow> 'f lexer \<Rightarrow> token_type \<times> 'f lexer" where
  "scan_number_minus F ty l =
     (let ty = T_value_integer; l = get l in
      if current l = 0x30 then scan_number_zero F ty (add (current l) l)
      else if 0x31 \<le> current l \<and> current l \<le> 0x39 then scan_number_any1 F ty (add (current l) l)
      else (T_parse_error, fail (str ''invalid number; expected digit after '' @ [39] @ str ''-''
              @ [39]) l))"

text \<open>\<open>scan_number\<close> is only called on a minus sign or a digit.\<close>

definition scan_number ::
  "('f, 'z) float_ops_scheme \<Rightarrow> 'f lexer \<Rightarrow> token_type \<times> 'f lexer" where
  "scan_number F l =
     (let l = reset l; ty = T_value_unsigned in
      if current l = 0x2D then scan_number_minus F ty (add (current l) l)
      else if current l = 0x30 then scan_number_zero F ty (add (current l) l)
      else scan_number_any1 F ty (add (current l) l))"

section \<open>Literals and the scanner\<close>

fun scan_literal_loop :: "byte list \<Rightarrow> token_type \<Rightarrow> 'f lexer \<Rightarrow> token_type \<times> 'f lexer" where
  "scan_literal_loop [] ty l = (ty, l)"
| "scan_literal_loop (c # cs) ty l =
     (let l = get l in
      if (word_of_int (current l) :: byte) \<noteq> c
      then (T_parse_error, fail (str ''invalid literal'') l)
      else scan_literal_loop cs ty l)"

definition scan_literal :: "byte list \<Rightarrow> token_type \<Rightarrow> 'f lexer \<Rightarrow> token_type \<times> 'f lexer" where
  "scan_literal literal_text return_type l = scan_literal_loop (tl literal_text) return_type l"

definition skip_bom :: "'f lexer \<Rightarrow> bool \<times> 'f lexer" where
  "skip_bom l =
     (let l = get l in
      if current l = 0xEF
      then (let l = get l in
            if current l = 0xBB then (let l = get l in (current l = 0xBF, l)) else (False, l))
      else (True, unget l))"

function skip_whitespace :: "'f lexer \<Rightarrow> 'f lexer" where
  "skip_whitespace l =
     (let l' = get l in
      if current l' = 0x20 \<or> current l' = 0x09 \<or> current l' = 0x0A \<or> current l' = 0x0D
      then skip_whitespace l' else l')"
  by pat_completeness auto
termination
  by (relation "measure remaining") (auto simp del: get_simps intro!: remaining_get)

declare skip_whitespace.simps [simp del]

lemma remaining_skip_whitespace: "remaining (skip_whitespace l) \<le> remaining l"
proof (induction l rule: skip_whitespace.induct)
  case (1 l)
  then show ?case
    using remaining_get_le [of l]
    by (subst skip_whitespace.simps) (auto simp: Let_def simp del: get_simps)
qed

lemma remaining_scan_line_comment: "remaining (snd (scan_line_comment l)) \<le> remaining l"
proof (induction l rule: scan_line_comment.induct)
  case (1 l)
  then show ?case
    using remaining_get_le [of l]
    by (subst scan_line_comment.simps) (auto simp: Let_def simp del: get_simps)
qed

lemma remaining_scan_block_comment: "remaining (snd (scan_block_comment l)) \<le> remaining l"
proof (induction l rule: scan_block_comment.induct)
  case (1 l)
  show ?case
    using 1(1) [OF refl] 1(2) [OF refl] remaining_get_le [of l] remaining_get_le [of "get l"]
      remaining_unget_get [of "get l"]
    by (subst scan_block_comment.simps) (auto simp: Let_def simp del: get_simps unget_simps)
qed

lemma remaining_scan_comment:
  "scan_comment l = (True, l') \<Longrightarrow> remaining l' < remaining l"
  using remaining_get [of l] remaining_scan_line_comment [of "get l"]
    remaining_scan_block_comment [of "get l"]
  by (auto simp: scan_comment_def Let_def simp del: get_simps split: if_splits)

lemma remaining_after_comment:
  "(True, l') = scan_comment l \<Longrightarrow> remaining (skip_whitespace l') < remaining l"
  using remaining_scan_comment [of l l'] remaining_skip_whitespace [of l'] by simp

text \<open>The loop over comments: False when one of them is malformed.\<close>

function skip_comments :: "'f lexer \<Rightarrow> bool \<times> 'f lexer" where
  "skip_comments l =
     (if ignore_comments l \<and> current l = 0x2F
      then (case scan_comment l of (ok, l') \<Rightarrow>
              if ok then skip_comments (skip_whitespace l') else (False, l'))
      else (True, l))"
  by pat_completeness auto
termination
  by (relation "measure remaining") (auto intro: remaining_after_comment)

declare skip_comments.simps [simp del]

text \<open>The \<open>switch\<close> of \<open>scan\<close> on the first character of a token.\<close>

definition scan_token :: "('f, 'z) float_ops_scheme \<Rightarrow> 'f lexer \<Rightarrow> token_type \<times> 'f lexer" where
  "scan_token F l =
     (let c = current l in
      if c = 0x5B then (T_begin_array, l)
      else if c = 0x5D then (T_end_array, l)
      else if c = 0x7B then (T_begin_object, l)
      else if c = 0x7D then (T_end_object, l)
      else if c = 0x3A then (T_name_separator, l)
      else if c = 0x2C then (T_value_separator, l)
      else if c = 0x74 then scan_literal (str ''true'') T_literal_true l
      else if c = 0x66 then scan_literal (str ''false'') T_literal_false l
      else if c = 0x6E then scan_literal (str ''null'') T_literal_null l
      else if c = 0x22 then scan_string l
      else if c = 0x2D \<or> digit c then scan_number F l
      else if c = 0 \<or> c = EOF then (T_end_of_input, l)
      else (T_parse_error, fail (str ''invalid literal'') l))"

definition scan :: "('f, 'z) float_ops_scheme \<Rightarrow> 'f lexer \<Rightarrow> token_type \<times> 'f lexer" where
  "scan F l =
     (case (if chars_read_total (pos l) = 0 then skip_bom l else (True, l)) of (bom_ok, l) \<Rightarrow>
      if \<not> bom_ok
      then (T_parse_error, fail (str ''invalid BOM; must be 0xEF 0xBB 0xBF if given'') l)
      else case skip_comments (skip_whitespace l) of (ok, l) \<Rightarrow>
        if ok then scan_token F l else (T_parse_error, l))"

section \<open>Every token consumes input\<close>

lemma remaining_update [simp]:
  "remaining (l\<lparr>value_float := x\<rparr>) = remaining l"
  "remaining (l\<lparr>value_unsigned := u\<rparr>) = remaining l"
  "remaining (l\<lparr>value_integer := u\<rparr>) = remaining l"
  by (simp_all add: remaining_def)

lemma remaining_scan_number_done:
  "remaining (snd (scan_number_done F ty l)) = remaining (unget l)"
  by (auto simp: scan_number_done_def Let_def split: option.splits)

lemma remaining_scan_number_any2: "remaining (snd (scan_number_any2 F ty l)) \<le> remaining l"
proof (induction F ty l rule: scan_number_any2.induct)
  case (1 F ty l)
  then show ?case
    using remaining_get_le [of l] remaining_unget_get [of l]
    by (subst scan_number_any2.simps)
      (auto simp: Let_def remaining_scan_number_done simp del: get_simps unget_simps)
qed

lemma remaining_scan_number_sign: "remaining (snd (scan_number_sign F ty l)) \<le> remaining l"
  using remaining_get_le [of l] remaining_scan_number_any2 [of F ty "add (current (get l)) (get l)"]
  by (auto simp: scan_number_sign_def Let_def simp del: get_simps)

lemma remaining_scan_number_exponent: "remaining (snd (scan_number_exponent F ty l)) \<le> remaining l"
  using remaining_get_le [of l]
    remaining_scan_number_any2 [of F T_value_float "add (current (get l)) (get l)"]
    remaining_scan_number_sign [of F T_value_float "add (current (get l)) (get l)"]
  by (auto simp: scan_number_exponent_def Let_def simp del: get_simps)

lemma remaining_scan_number_decimal2: "remaining (snd (scan_number_decimal2 F ty l)) \<le> remaining l"
proof (induction F ty l rule: scan_number_decimal2.induct)
  case (1 F ty l)
  then show ?case
    using remaining_get_le [of l] remaining_unget_get [of l]
      remaining_scan_number_exponent [of F ty "add (current (get l)) (get l)"]
    by (subst scan_number_decimal2.simps)
      (auto simp: Let_def remaining_scan_number_done simp del: get_simps unget_simps)
qed

lemma remaining_scan_number_decimal1: "remaining (snd (scan_number_decimal1 F ty l)) \<le> remaining l"
  using remaining_get_le [of l]
    remaining_scan_number_decimal2 [of F T_value_float "add (current (get l)) (get l)"]
  by (auto simp: scan_number_decimal1_def Let_def simp del: get_simps)

lemma remaining_scan_number_any1: "remaining (snd (scan_number_any1 F ty l)) \<le> remaining l"
proof (induction F ty l rule: scan_number_any1.induct)
  case (1 F ty l)
  then show ?case
    using remaining_get_le [of l] remaining_unget_get [of l]
      remaining_scan_number_exponent [of F ty "add (current (get l)) (get l)"]
      remaining_scan_number_decimal1 [of F ty "add (decimal_point_char (get l)) (get l)"]
    by (subst scan_number_any1.simps)
      (auto simp: Let_def remaining_scan_number_done simp del: get_simps unget_simps)
qed

lemma remaining_scan_number_zero: "remaining (snd (scan_number_zero F ty l)) \<le> remaining l"
  using remaining_get_le [of l] remaining_unget_get [of l]
    remaining_scan_number_exponent [of F ty "add (current (get l)) (get l)"]
    remaining_scan_number_decimal1 [of F ty "add (decimal_point_char (get l)) (get l)"]
  by (auto simp: scan_number_zero_def Let_def remaining_scan_number_done simp del: get_simps unget_simps)

lemma remaining_scan_number_minus: "remaining (snd (scan_number_minus F ty l)) \<le> remaining l"
  using remaining_get_le [of l]
    remaining_scan_number_zero [of F T_value_integer "add (current (get l)) (get l)"]
    remaining_scan_number_any1 [of F T_value_integer "add (current (get l)) (get l)"]
  by (auto simp: scan_number_minus_def Let_def simp del: get_simps)

lemma remaining_scan_number: "remaining (snd (scan_number F l)) \<le> remaining l"
  using remaining_scan_number_minus [of F T_value_unsigned "add (current (reset l)) (reset l)"]
    remaining_scan_number_zero [of F T_value_unsigned "add (current (reset l)) (reset l)"]
    remaining_scan_number_any1 [of F T_value_unsigned "add (current (reset l)) (reset l)"]
  by (auto simp: scan_number_def Let_def)

lemma remaining_scan_string_step_Inl:
  assumes "scan_string_step l = Inl (t, l')"
  shows "remaining l' \<le> remaining l"
proof -
  have 1: "remaining (get l) \<le> remaining l" by (rule remaining_get_le)
  have 2: "remaining l1 \<le> remaining (get l)" if "scan_escape (get l) = (b, l1)" for b l1
    using remaining_scan_escape [of "get l"] that by simp
  have 3: "remaining l1 \<le> remaining (get l)" if "next_bytes rs (add c (get l)) = (b, l1)" for rs b c l1
    using remaining_next_bytes [of rs "add c (get l)"] that by simp
  have "remaining l' \<le> remaining (get l)"
    using assms 2 3
    by (auto simp: scan_string_step_def Let_def next_byte_in_range_def
        simp del: get_simps split: if_splits option.splits prod.splits)
  with 1 show ?thesis by simp
qed

lemma remaining_scan_string: "remaining (snd (scan_string l)) \<le> remaining l"
proof -
  have "remaining (snd (scan_string_loop l)) \<le> remaining l" for l :: "'a lexer"
  proof (induction l rule: scan_string_loop.induct)
    case (1 l)
    then show ?case
      using remaining_scan_string_step_Inl [of l] remaining_scan_string_step [of l]
      by (subst scan_string_loop.simps) (fastforce split: sum.splits intro: order_trans)
  qed
  from this [of "reset l"] show ?thesis by (simp add: scan_string_def)
qed

lemma remaining_scan_literal: "remaining (snd (scan_literal s t l)) \<le> remaining l"
proof -
  have "remaining (snd (scan_literal_loop cs t l)) \<le> remaining l" for cs and l :: "'a lexer"
  proof (induction cs arbitrary: l)
    case (Cons c cs)
    then show ?case
      using remaining_get_le [of l] by (auto simp: Let_def simp del: get_simps intro: order_trans)
  qed simp
  then show ?thesis by (simp add: scan_literal_def)
qed

lemma remaining_scan_token: "remaining (snd (scan_token F l)) \<le> remaining l"
  by (auto simp: scan_token_def Let_def remaining_scan_literal remaining_scan_string
      remaining_scan_number)

lemma remaining_skip_bom: "remaining (snd (skip_bom l)) \<le> remaining l"
  using remaining_get_le [of l] remaining_get_le [of "get l"] remaining_get_le [of "get (get l)"]
    remaining_unget_get [of l]
  by (auto simp: skip_bom_def Let_def simp del: get_simps unget_simps)

lemma remaining_skip_whitespace_less:
  "current (skip_whitespace l) \<noteq> EOF \<Longrightarrow> remaining (skip_whitespace l) < remaining l"
proof (induction l rule: skip_whitespace.induct)
  case (1 l)
  then show ?case
    using remaining_get [of l] remaining_skip_whitespace [of "get l"]
    by (subst skip_whitespace.simps, subst (asm) (2) skip_whitespace.simps)
      (auto simp: Let_def simp del: get_simps split: if_splits)
qed

lemma remaining_scan_comment_le: "remaining (snd (scan_comment l)) \<le> remaining l"
  using remaining_get_le [of l] remaining_scan_line_comment [of "get l"]
    remaining_scan_block_comment [of "get l"]
  by (auto simp: scan_comment_def Let_def simp del: get_simps)

lemma remaining_skip_comments:
  "skip_comments l = (ok, l') \<Longrightarrow>
   remaining l' \<le> remaining l \<and> (ok \<longrightarrow> l' = l \<or> remaining l' < remaining l)"
proof (induction l rule: skip_comments.induct)
  case (1 l)
  obtain ok1 l1 where sc: "scan_comment l = (ok1, l1)" by (cases "scan_comment l")
  show ?case
  proof (cases "ignore_comments l \<and> current l = 0x2F \<and> ok1")
    case True
    then have "skip_comments (skip_whitespace l1) = (ok, l')"
      using 1(2) sc by (subst (asm) skip_comments.simps) simp
    with True 1(1) sc have "remaining l' \<le> remaining (skip_whitespace l1)" by simp
    with True sc remaining_after_comment [of l1 l] show ?thesis by simp
  next
    case False
    with 1(2) sc remaining_scan_comment_le [of l] show ?thesis
      by (subst (asm) skip_comments.simps) (auto split: if_splits)
  qed
qed

lemma remaining_scan:
  assumes "scan F l = (t, l')"
  shows "remaining l' \<le> remaining l"
    and "t \<noteq> T_end_of_input \<Longrightarrow> t \<noteq> T_parse_error \<Longrightarrow> remaining l' < remaining l"
proof -
  obtain b l1 where bom: "(if chars_read_total (pos l) = 0 then skip_bom l else (True, l)) = (b, l1)"
    by fastforce
  then have 1: "remaining l1 \<le> remaining l"
    using remaining_skip_bom [of l] by (auto split: if_splits)
  obtain ok l2 where cm: "skip_comments (skip_whitespace l1) = (ok, l2)" by fastforce
  note 2 = remaining_skip_comments [OF cm] remaining_skip_whitespace [of l1]
    remaining_skip_whitespace_less [of l1] remaining_scan_token [of F l2]
  show "remaining l' \<le> remaining l"
    using assms bom cm 1 2 by (auto simp: scan_def split: if_splits)
  show "remaining l' < remaining l" if "t \<noteq> T_end_of_input" "t \<noteq> T_parse_error"
  proof -
    have "b" "ok" and t: "scan_token F l2 = (t, l')"
      using assms bom cm that by (auto simp: scan_def split: if_splits)
    have "current l2 \<noteq> EOF" using t that by (auto simp: scan_token_def)
    with \<open>ok\<close> 1 2 t show ?thesis by auto
  qed
qed

end
