(* ===== verification/Json_Parser.thy ===== *)
theory Json_Parser
  imports Json_Lexer
begin

text \<open>
  \<open>detail/input/json_sax.hpp\<close> (the class \<open>json_sax_dom_parser\<close>, which builds a value) and
  \<open>detail/input/parser.hpp\<close>, which drives it with the tokens of the lexer. A pointer into the
  value that is being built is the path to it from the root. The parser for callbacks is not
  modelled: the client passes none.
\<close>

section \<open>Pointers into a value\<close>

datatype json_step = Elem nat | Member "byte list"

type_synonym json_ref = "json_step list"

fun deref :: "json_ref \<Rightarrow> 'f json \<Rightarrow> 'f json option" where
  "deref [] j = Some j"
| "deref (Elem i # p) (Array xs) = (if i < length xs then deref p (xs ! i) else None)"
| "deref (Member k # p) (Object ms) =
     (case map_of ms k of Some v \<Rightarrow> deref p v | None \<Rightarrow> None)"
| "deref _ _ = None"

fun modify :: "json_ref \<Rightarrow> ('f json \<Rightarrow> 'f json) \<Rightarrow> 'f json \<Rightarrow> 'f json" where
  "modify [] f j = f j"
| "modify (Elem i # p) f (Array xs) =
     Array (if i < length xs then xs[i := modify p f (xs ! i)] else xs)"
| "modify (Member k # p) f (Object ms) = Object (object_update k (modify p f) ms)"
| "modify _ f j = j"

section \<open>Building the value\<close>

text \<open>The stack \<open>ref_stack\<close> has its back at the head of the list.\<close>

record 'f dom =
  root :: "'f json"
  ref_stack :: "json_ref list"
  object_element :: "json_ref option"
  errored :: bool
  allow_exceptions :: bool

definition dom_init :: "bool \<Rightarrow> 'f dom" where
  "dom_init allow = \<lparr>root = Null, ref_stack = [], object_element = None, errored = False,
     allow_exceptions = allow\<rparr>"

definition handle_value :: "'f json \<Rightarrow> 'f dom \<Rightarrow> stop + json_ref \<times> 'f dom" where
  "handle_value v d =
     (case ref_stack d of
        [] \<Rightarrow> Inr ([], d\<lparr>root := v\<rparr>)
      | p # _ \<Rightarrow>
          (case deref p (root d) of
             Some (Array xs) \<Rightarrow>
               Inr (p @ [Elem (length xs)], d\<lparr>root := modify p (\<lambda>_. Array (xs @ [v])) (root d)\<rparr>)
           | Some (Object _) \<Rightarrow>
               (case object_element d of
                  Some q \<Rightarrow> Inr (q, d\<lparr>root := modify q (\<lambda>_. v) (root d)\<rparr>)
                | None \<Rightarrow> Inl (Undefined Assertion))
           | _ \<Rightarrow> Inl (Undefined Assertion)))"

text \<open>\<open>null\<close>, \<open>boolean\<close>, \<open>number_integer\<close>, \<open>number_unsigned\<close>, \<open>number_float\<close>, \<open>string\<close>.\<close>

definition sax_value :: "'f json \<Rightarrow> 'f dom \<Rightarrow> stop + 'f dom" where
  "sax_value v d = bindE (handle_value v d) (\<lambda>(_, d). Inr d)"

definition start_object :: "'f dom \<Rightarrow> stop + 'f dom" where
  "start_object d =
     bindE (handle_value (Object []) d) (\<lambda>(p, d). Inr (d\<lparr>ref_stack := p # ref_stack d\<rparr>))"

fun emplace_null :: "byte list \<Rightarrow> 'f json \<Rightarrow> 'f json" where
  "emplace_null k (Object ms) = Object (object_emplace k Null ms)"
| "emplace_null k j = j"

definition sax_key :: "byte list \<Rightarrow> 'f dom \<Rightarrow> stop + 'f dom" where
  "sax_key val d =
     (case ref_stack d of
        [] \<Rightarrow> Inl (Undefined Deque_underflow)
      | p # _ \<Rightarrow> Inr (d\<lparr>object_element := Some (p @ [Member val]),
                       root := modify p (emplace_null val) (root d)\<rparr>))"

definition end_object :: "'f dom \<Rightarrow> stop + 'f dom" where
  "end_object d =
     (case ref_stack d of
        [] \<Rightarrow> Inl (Undefined Deque_underflow)
      | _ # ps \<Rightarrow> Inr (d\<lparr>ref_stack := ps\<rparr>))"

definition start_array :: "'f dom \<Rightarrow> stop + 'f dom" where
  "start_array d =
     bindE (handle_value (Array []) d) (\<lambda>(p, d). Inr (d\<lparr>ref_stack := p # ref_stack d\<rparr>))"

definition end_array :: "'f dom \<Rightarrow> stop + 'f dom" where
  "end_array d =
     (case ref_stack d of
        [] \<Rightarrow> Inl (Undefined Deque_underflow)
      | _ # ps \<Rightarrow> Inr (d\<lparr>ref_stack := ps\<rparr>))"

definition sax_parse_error :: "json_exception \<Rightarrow> 'f dom \<Rightarrow> stop + 'f dom" where
  "sax_parse_error ex d =
     (if allow_exceptions d then Inl (Throw ex) else Inr (d\<lparr>errored := True\<rparr>))"

section \<open>The parser\<close>

text \<open>
  The parser's members and the local variables of \<open>sax_parse_internal\<close>. In the stack
  \<open>states\<close>, whose back is the head of the list, True stands for an array.
\<close>

record 'f parser =
  last_token :: token_type
  m_lexer :: "'f lexer"
  sax :: "'f dom"
  states :: "bool list"
  skip_to_state_evaluation :: bool

text \<open>How a piece of the loop ends: falling through, \<open>continue\<close>, or \<open>return\<close>.\<close>

datatype control = Break | Continue | Return bool

definition get_token :: "('f, 'z) float_ops_scheme \<Rightarrow> 'f parser \<Rightarrow> 'f parser" where
  "get_token F s =
     (case scan F (m_lexer s) of (t, l) \<Rightarrow> s\<lparr>last_token := t, m_lexer := l\<rparr>)"

definition exception_message :: "token_type \<Rightarrow> byte list \<Rightarrow> 'f parser \<Rightarrow> byte list" where
  "exception_message expected context s =
     str ''syntax error '' @
     (if context \<noteq> [] then str ''while parsing '' @ context @ str '' '' else []) @
     str ''- '' @
     (if last_token s = T_parse_error
      then error_message (m_lexer s) @ str ''; last read: '' @ [39]
             @ get_token_string (m_lexer s) @ [39]
      else str ''unexpected '' @ token_type_name (last_token s)) @
     (if expected \<noteq> T_uninitialized then str ''; expected '' @ token_type_name expected else [])"

text \<open>Handing an event to the builder, and reporting an error to it.\<close>

definition on_sax :: "('f dom \<Rightarrow> stop + 'f dom) \<Rightarrow> 'f parser \<Rightarrow> stop + 'f parser" where
  "on_sax f s = bindE (f (sax s)) (\<lambda>d. Inr (s\<lparr>sax := d\<rparr>))"

definition report :: "json_exception \<Rightarrow> 'f parser \<Rightarrow> stop + control \<times> 'f parser" where
  "report ex s = bindE (on_sax (sax_parse_error ex) s) (\<lambda>s. Inr (Return False, s))"

definition syntax_error :: "token_type \<Rightarrow> string \<Rightarrow> 'f parser \<Rightarrow> stop + control \<times> 'f parser" where
  "syntax_error expected context s =
     report (parse_error_create 101 (pos (m_lexer s)) (exception_message expected (str context) s)) s"

text \<open>A key and its separator, up to the first token of the member's value.\<close>

definition parse_key :: "('f, 'z) float_ops_scheme \<Rightarrow> 'f parser \<Rightarrow> stop + control \<times> 'f parser" where
  "parse_key F s =
     (if last_token s \<noteq> T_value_string then syntax_error T_value_string ''object key'' s
      else bindE (on_sax (sax_key (token_buffer (m_lexer s))) s) (\<lambda>s.
        let s = get_token F s in
        if last_token s \<noteq> T_name_separator
        then syntax_error T_name_separator ''object separator'' s
        else Inr (Continue, s)))"

text \<open>The cases \<open>begin_object\<close> and \<open>begin_array\<close>.\<close>

definition parse_object :: "('f, 'z) float_ops_scheme \<Rightarrow> 'f parser \<Rightarrow> stop + control \<times> 'f parser" where
  "parse_object F s =
     bindE (on_sax start_object s) (\<lambda>s.
       let s = get_token F s in
       if last_token s = T_end_object then bindE (on_sax end_object s) (\<lambda>s. Inr (Break, s))
       else bindE (parse_key F s) (\<lambda>(c, s).
         if c = Continue then Inr (Continue, get_token F (s\<lparr>states := False # states s\<rparr>))
         else Inr (c, s)))"

definition parse_array :: "('f, 'z) float_ops_scheme \<Rightarrow> 'f parser \<Rightarrow> stop + control \<times> 'f parser" where
  "parse_array F s =
     bindE (on_sax start_array s) (\<lambda>s.
       let s = get_token F s in
       if last_token s = T_end_array then bindE (on_sax end_array s) (\<lambda>s. Inr (Break, s))
       else Inr (Continue, s\<lparr>states := True # states s\<rparr>))"

definition parse_primitive :: "'f json \<Rightarrow> 'f parser \<Rightarrow> stop + control \<times> 'f parser" where
  "parse_primitive v s = bindE (on_sax (sax_value v) s) (\<lambda>s. Inr (Break, s))"

definition parse_float :: "('f, 'z) float_ops_scheme \<Rightarrow> 'f parser \<Rightarrow> stop + control \<times> 'f parser" where
  "parse_float F s =
     (case value_float (m_lexer s) of
        None \<Rightarrow> Inl (Undefined Assertion)
      | Some res \<Rightarrow>
          if \<not> isfinite F res
          then report (out_of_range_create 406 (str ''number overflow parsing '' @ [39]
                 @ get_token_string (m_lexer s) @ [39])) s
          else parse_primitive (Number_float res) s)"

text \<open>The \<open>switch\<close> on the last token.\<close>

definition parse_value :: "('f, 'z) float_ops_scheme \<Rightarrow> 'f parser \<Rightarrow> stop + control \<times> 'f parser" where
  "parse_value F s =
     (case last_token s of
        T_begin_object \<Rightarrow> parse_object F s
      | T_begin_array \<Rightarrow> parse_array F s
      | T_value_float \<Rightarrow> parse_float F s
      | T_literal_false \<Rightarrow> parse_primitive (Boolean False) s
      | T_literal_null \<Rightarrow> parse_primitive Null s
      | T_literal_true \<Rightarrow> parse_primitive (Boolean True) s
      | T_value_integer \<Rightarrow> parse_primitive (Number_integer (value_integer (m_lexer s))) s
      | T_value_string \<Rightarrow> parse_primitive (String (token_buffer (m_lexer s))) s
      | T_value_unsigned \<Rightarrow> parse_primitive (Number_unsigned (value_unsigned (m_lexer s))) s
      | T_parse_error \<Rightarrow> syntax_error T_uninitialized ''value'' s
      | _ \<Rightarrow> syntax_error T_literal_or_value ''value'' s)"

text \<open>After a value: what the innermost array or object goes on with.\<close>

definition close_container ::
  "('f dom \<Rightarrow> stop + 'f dom) \<Rightarrow> 'f parser \<Rightarrow> stop + control \<times> 'f parser" where
  "close_container f s =
     bindE (on_sax f s) (\<lambda>s.
       Inr (Continue, s\<lparr>states := tl (states s), skip_to_state_evaluation := True\<rparr>))"

definition evaluate_array :: "('f, 'z) float_ops_scheme \<Rightarrow> 'f parser \<Rightarrow> stop + control \<times> 'f parser" where
  "evaluate_array F s =
     (let s = get_token F s in
      if last_token s = T_value_separator then Inr (Continue, get_token F s)
      else if last_token s = T_end_array then close_container end_array s
      else syntax_error T_end_array ''array'' s)"

definition evaluate_object :: "('f, 'z) float_ops_scheme \<Rightarrow> 'f parser \<Rightarrow> stop + control \<times> 'f parser" where
  "evaluate_object F s =
     (let s = get_token F s in
      if last_token s = T_value_separator
      then bindE (parse_key F (get_token F s)) (\<lambda>(c, s).
             if c = Continue then Inr (Continue, get_token F s) else Inr (c, s))
      else if last_token s = T_end_object then close_container end_object s
      else syntax_error T_end_object ''object'' s)"

definition evaluate_state :: "('f, 'z) float_ops_scheme \<Rightarrow> 'f parser \<Rightarrow> stop + control \<times> 'f parser" where
  "evaluate_state F s =
     (case states s of
        [] \<Rightarrow> Inr (Return True, s)
      | True # _ \<Rightarrow> evaluate_array F s
      | False # _ \<Rightarrow> evaluate_object F s)"

text \<open>One round of the \<open>while\<close> loop of \<open>sax_parse_internal\<close>.\<close>

definition sax_round :: "('f, 'z) float_ops_scheme \<Rightarrow> 'f parser \<Rightarrow> stop + control \<times> 'f parser" where
  "sax_round F s =
     (if skip_to_state_evaluation s
      then evaluate_state F (s\<lparr>skip_to_state_evaluation := False\<rparr>)
      else bindE (parse_value F s) (\<lambda>(c, s).
             if c = Break then evaluate_state F s else Inr (c, s)))"

section \<open>Every round of the loop consumes input\<close>

lemma get_token_simps [simp]:
  "sax (get_token F s) = sax s" "states (get_token F s) = states s"
  "skip_to_state_evaluation (get_token F s) = skip_to_state_evaluation s"
  by (simp_all add: get_token_def split: prod.split)

lemma remaining_get_token: "remaining (m_lexer (get_token F s)) \<le> remaining (m_lexer s)"
  by (auto simp: get_token_def dest: remaining_scan(1) split: prod.split)

lemma remaining_get_token_sax:
  "remaining (m_lexer (get_token F (s\<lparr>sax := d\<rparr>))) \<le> remaining (m_lexer s)"
  using remaining_get_token [of F "s\<lparr>sax := d\<rparr>"] by simp

lemma remaining_get_token_less:
  "last_token (get_token F s) \<noteq> T_end_of_input \<Longrightarrow> last_token (get_token F s) \<noteq> T_parse_error \<Longrightarrow>
   remaining (m_lexer (get_token F s)) < remaining (m_lexer s)"
  by (auto simp: get_token_def dest: remaining_scan(2) split: prod.splits)

lemma on_sax_Inr:
  "on_sax f s = Inr s' \<Longrightarrow> \<exists>d. f (sax s) = Inr d \<and> s' = s\<lparr>sax := d\<rparr>"
  by (auto simp: on_sax_def)

lemma report_not_Continue: "report ex s = Inr (c, s') \<Longrightarrow> c = Return False"
  by (auto simp: report_def)

lemma syntax_error_not_Continue: "syntax_error e x s = Inr (c, s') \<Longrightarrow> c = Return False"
  by (auto simp: syntax_error_def dest: report_not_Continue)

lemma parse_key_continue:
  assumes "parse_key F s = Inr (Continue, s')"
  shows "remaining (m_lexer s') < remaining (m_lexer s)"
proof -
  have "\<exists>d. s' = get_token F (s\<lparr>sax := d\<rparr>) \<and> last_token s' = T_name_separator"
    using assms
    by (auto simp: parse_key_def Let_def split: if_splits dest!: syntax_error_not_Continue on_sax_Inr)
  then obtain d where "s' = get_token F (s\<lparr>sax := d\<rparr>)" "last_token s' = T_name_separator" by blast
  then show ?thesis using remaining_get_token_less [of F "s\<lparr>sax := d\<rparr>"] by simp
qed

text \<open>The last token still promises something: it is not one that ends the loop.\<close>

definition pending_token :: "'f parser \<Rightarrow> nat" where
  "pending_token s =
     (if skip_to_state_evaluation s \<or> last_token s \<noteq> T_end_of_input \<and> last_token s \<noteq> T_parse_error
      then 1 else 0)"

lemma parse_object_continue:
  assumes "parse_object F s = Inr (Continue, s')"
  shows "remaining (m_lexer s') < remaining (m_lexer s)"
proof -
  obtain d s1 where k: "parse_key F (get_token F (s\<lparr>sax := d\<rparr>)) = Inr (Continue, s1)"
    and s': "s' = get_token F (s1\<lparr>states := False # states s1\<rparr>)"
    using assms
    by (auto simp: parse_object_def Let_def split: if_splits dest!: on_sax_Inr)
  show ?thesis
    using parse_key_continue [OF k] s' remaining_get_token [of F "s\<lparr>sax := d\<rparr>"]
      remaining_get_token [of F "s1\<lparr>states := False # states s1\<rparr>"] by simp
qed

lemma parse_array_continue:
  assumes "parse_array F s = Inr (Continue, s')" and "last_token s = T_begin_array"
    and "\<not> skip_to_state_evaluation s"
  shows "remaining (m_lexer s') < remaining (m_lexer s) \<or>
    remaining (m_lexer s') \<le> remaining (m_lexer s) \<and> pending_token s' < pending_token s"
proof -
  obtain d s1 where s1: "s1 = get_token F (s\<lparr>sax := d\<rparr>)"
    and s': "s' = s1\<lparr>states := True # states s1\<rparr>"
    using assms(1)
    by (auto simp: parse_array_def Let_def split: if_splits dest!: on_sax_Inr)
  show ?thesis
    using assms(2,3) s1 s' remaining_get_token [of F "s\<lparr>sax := d\<rparr>"]
      remaining_get_token_less [of F "s\<lparr>sax := d\<rparr>"]
    by (auto simp: pending_token_def)
qed

lemma evaluate_array_continue:
  "evaluate_array F s = Inr (Continue, s') \<Longrightarrow> remaining (m_lexer s') < remaining (m_lexer s)"
  using remaining_get_token_less [of F s] remaining_get_token [of F "get_token F s"]
  by (auto simp: evaluate_array_def close_container_def Let_def split: if_splits
      dest!: on_sax_Inr syntax_error_not_Continue)

lemma evaluate_object_continue:
  "evaluate_object F s = Inr (Continue, s') \<Longrightarrow> remaining (m_lexer s') < remaining (m_lexer s)"
  using remaining_get_token_less [of F s] remaining_get_token [of F "get_token F s"]
    parse_key_continue [of F "get_token F (get_token F s)"]
  by (auto simp: evaluate_object_def close_container_def Let_def split: if_splits
      dest!: on_sax_Inr syntax_error_not_Continue)
    (rule le_less_trans [OF remaining_get_token], simp)

lemma evaluate_state_continue:
  "evaluate_state F s = Inr (Continue, s') \<Longrightarrow> remaining (m_lexer s') < remaining (m_lexer s)"
  by (auto simp: evaluate_state_def split: list.splits bool.splits
      dest: evaluate_array_continue evaluate_object_continue)

lemma parse_primitive_break:
  "parse_primitive v s = Inr (c, s') \<Longrightarrow> c = Break \<and> m_lexer s' = m_lexer s"
  by (auto simp: parse_primitive_def dest!: on_sax_Inr)

lemma parse_float_break:
  "parse_float F s = Inr (c, s') \<Longrightarrow> c \<noteq> Continue \<and> (c = Break \<longrightarrow> m_lexer s' = m_lexer s)"
  by (auto simp: parse_float_def split: option.splits if_splits
      dest: report_not_Continue parse_primitive_break)

lemma parse_key_not_Break: "parse_key F s = Inr (c, s') \<Longrightarrow> c \<noteq> Break"
  by (auto simp: parse_key_def Let_def split: if_splits dest: syntax_error_not_Continue)

lemma parse_object_break:
  "parse_object F s = Inr (Break, s') \<Longrightarrow> remaining (m_lexer s') \<le> remaining (m_lexer s)"
  by (auto simp: parse_object_def Let_def split: if_splits
      dest!: on_sax_Inr parse_key_not_Break intro: remaining_get_token_sax)

lemma parse_array_break:
  "parse_array F s = Inr (Break, s') \<Longrightarrow> remaining (m_lexer s') \<le> remaining (m_lexer s)"
  by (auto simp: parse_array_def Let_def split: if_splits dest!: on_sax_Inr
      intro: remaining_get_token_sax)

lemma parse_value_break:
  "parse_value F s = Inr (Break, s') \<Longrightarrow> remaining (m_lexer s') \<le> remaining (m_lexer s)"
  by (auto simp: parse_value_def split: token_type.splits
      dest: parse_primitive_break parse_float_break parse_object_break parse_array_break
        syntax_error_not_Continue)

lemma parse_value_continue:
  assumes "parse_value F s = Inr (Continue, s')" and "\<not> skip_to_state_evaluation s"
  shows "remaining (m_lexer s') < remaining (m_lexer s) \<or>
    remaining (m_lexer s') \<le> remaining (m_lexer s) \<and> pending_token s' < pending_token s"
  using assms
  by (auto simp: parse_value_def split: token_type.splits
      dest: parse_primitive_break parse_float_break parse_object_continue parse_array_continue
        syntax_error_not_Continue)

lemma evaluate_state_not_Break: "evaluate_state F s = Inr (c, s') \<Longrightarrow> c \<noteq> Break"
  by (auto simp: evaluate_state_def evaluate_array_def evaluate_object_def close_container_def
      Let_def split: list.splits bool.splits if_splits
      dest: syntax_error_not_Continue parse_key_not_Break)

lemma sax_round_not_Break: "sax_round F s = Inr (c, s') \<Longrightarrow> c \<noteq> Break"
  by (auto simp: sax_round_def split: if_splits dest: evaluate_state_not_Break)

lemma sax_round_continue:
  assumes "sax_round F s = Inr (Continue, s')"
  shows "(s', s) \<in> measures [\<lambda>s. remaining (m_lexer s), pending_token]"
proof (cases "skip_to_state_evaluation s")
  case True
  with assms evaluate_state_continue [of F "s\<lparr>skip_to_state_evaluation := False\<rparr>" s']
  show ?thesis by (simp add: sax_round_def)
next
  case False
  then consider "parse_value F s = Inr (Continue, s')"
    | s1 where "parse_value F s = Inr (Break, s1)" "evaluate_state F s1 = Inr (Continue, s')"
    using assms by (auto simp: sax_round_def split: if_splits)
  then show ?thesis
  proof cases
    case 1
    with False parse_value_continue [of F s s'] show ?thesis by auto
  next
    case 2
    with parse_value_break [of F s s1] evaluate_state_continue [of F s1 s'] show ?thesis by simp
  qed
qed

function sax_parse_internal ::
  "('f, 'z) float_ops_scheme \<Rightarrow> 'f parser \<Rightarrow> stop + bool \<times> 'f parser" where
  "sax_parse_internal F s =
     (case sax_round F s of
        Inl e \<Rightarrow> Inl e
      | Inr (c, s') \<Rightarrow>
          (case c of Return b \<Rightarrow> Inr (b, s') | _ \<Rightarrow> sax_parse_internal F s'))"
  by pat_completeness auto
termination
  by (relation "inv_image (measures [\<lambda>s. remaining (m_lexer s), pending_token]) snd")
    (auto simp del: in_measures dest: sax_round_continue sax_round_not_Break)

declare sax_parse_internal.simps [simp del]

section \<open>Parsing a text\<close>

definition parser_init ::
  "('f, 'z) float_ops_scheme \<Rightarrow> byte list \<Rightarrow> bool \<Rightarrow> bool \<Rightarrow> 'f parser" where
  "parser_init F adapter allow skip =
     get_token F
       \<lparr>last_token = T_uninitialized, m_lexer = lexer_init adapter skip 0x2E,
        sax = dom_init allow, states = [], skip_to_state_evaluation = False\<rparr>"

definition parser_parse ::
  "('f, 'z) float_ops_scheme \<Rightarrow> bool \<Rightarrow> 'f parser \<Rightarrow> stop + 'f json" where
  "parser_parse F strict s =
     bindE (sax_parse_internal F s) (\<lambda>(_, s).
       let s = (if strict then get_token F s else s) in
       bindE (if strict \<and> last_token s \<noteq> T_end_of_input
              then bindE (syntax_error T_end_of_input ''value'' s) (\<lambda>(_, s). Inr s)
              else Inr s) (\<lambda>s.
         Inr (if errored (sax s) then Discarded else root (sax s))))"

text \<open>\<open>json::parse\<close> on a range of characters, and on a C string as the client calls it.\<close>

definition json_parse ::
  "('f, 'z) float_ops_scheme \<Rightarrow> bool \<Rightarrow> bool \<Rightarrow> byte list \<Rightarrow> stop + 'f json" where
  "json_parse F allow comments i =
     parser_parse F True (parser_init F i allow comments)"

definition parse_c_string :: "('f, 'z) float_ops_scheme \<Rightarrow> byte list \<Rightarrow> stop + 'f json" where
  "parse_c_string F b = json_parse F True False (c_string b)"

end
