(* ===== verification/Json_Serializer.thy ===== *)
theory Json_Serializer
  imports Json_Value
begin

text \<open>
  \<open>detail/output/serializer.hpp\<close> and \<open>basic_json::dump\<close>. The serializer keeps its output, its
  scratch arrays of fixed size and the string it takes indentation from; writing or reading
  outside one of them is a fault. The rendering of a \<open>double\<close> is the parameter \<open>to_chars\<close>.
\<close>

section \<open>State\<close>

datatype error_handler_t = Strict | Replace | Ignore

record serializer =
  out :: "byte list"
  number_buffer :: "byte list"
  indent_char :: byte
  indent_string :: "byte list"
  error_handler :: error_handler_t

definition serializer_init :: "byte \<Rightarrow> error_handler_t \<Rightarrow> serializer" where
  "serializer_init ichar handler =
     \<lparr>out = [], number_buffer = replicate 64 0, indent_char = ichar,
      indent_string = replicate 512 ichar, error_handler = handler\<rparr>"

definition write_characters :: "byte list \<Rightarrow> serializer \<Rightarrow> serializer" where
  "write_characters bs s = s\<lparr>out := out s @ bs\<rparr>"

section \<open>Decoding UTF-8\<close>

definition utf8d :: "nat list" where
  "utf8d =
     [0, 0, 0, 0, 0, 0, 0, 0, 0, 0, 0, 0, 0, 0, 0, 0, 0, 0, 0, 0, 0, 0, 0, 0, 0, 0, 0, 0, 0, 0, 0, 0,
      0, 0, 0, 0, 0, 0, 0, 0, 0, 0, 0, 0, 0, 0, 0, 0, 0, 0, 0, 0, 0, 0, 0, 0, 0, 0, 0, 0, 0, 0, 0, 0,
      0, 0, 0, 0, 0, 0, 0, 0, 0, 0, 0, 0, 0, 0, 0, 0, 0, 0, 0, 0, 0, 0, 0, 0, 0, 0, 0, 0, 0, 0, 0, 0,
      0, 0, 0, 0, 0, 0, 0, 0, 0, 0, 0, 0, 0, 0, 0, 0, 0, 0, 0, 0, 0, 0, 0, 0, 0, 0, 0, 0, 0, 0, 0, 0,
      1, 1, 1, 1, 1, 1, 1, 1, 1, 1, 1, 1, 1, 1, 1, 1, 9, 9, 9, 9, 9, 9, 9, 9, 9, 9, 9, 9, 9, 9, 9, 9,
      7, 7, 7, 7, 7, 7, 7, 7, 7, 7, 7, 7, 7, 7, 7, 7, 7, 7, 7, 7, 7, 7, 7, 7, 7, 7, 7, 7, 7, 7, 7, 7,
      8, 8, 2, 2, 2, 2, 2, 2, 2, 2, 2, 2, 2, 2, 2, 2, 2, 2, 2, 2, 2, 2, 2, 2, 2, 2, 2, 2, 2, 2, 2, 2,
      10, 3, 3, 3, 3, 3, 3, 3, 3, 3, 3, 3, 3, 4, 3, 3,
      11, 6, 6, 6, 5, 8, 8, 8, 8, 8, 8, 8, 8, 8, 8, 8,
      0, 1, 2, 3, 5, 8, 7, 1, 1, 1, 4, 6, 1, 1, 1, 1,
      1, 1, 1, 1, 1, 1, 1, 1, 1, 1, 1, 1, 1, 1, 1, 1, 1, 0, 1, 1, 1, 1, 1, 0, 1, 0, 1, 1, 1, 1, 1, 1,
      1, 2, 1, 1, 1, 1, 1, 2, 1, 2, 1, 1, 1, 1, 1, 1, 1, 1, 1, 1, 1, 1, 1, 2, 1, 1, 1, 1, 1, 1, 1, 1,
      1, 2, 1, 1, 1, 1, 1, 1, 1, 2, 1, 1, 1, 1, 1, 1, 1, 1, 1, 1, 1, 1, 1, 3, 1, 3, 1, 1, 1, 1, 1, 1,
      1, 3, 1, 1, 1, 1, 1, 3, 1, 3, 1, 1, 1, 1, 1, 1, 1, 3, 1, 1, 1, 1, 1, 1, 1, 1, 1, 1, 1, 1, 1, 1]"

abbreviation (input) UTF8_ACCEPT :: nat where "UTF8_ACCEPT \<equiv> 0"
abbreviation (input) UTF8_REJECT :: nat where "UTF8_REJECT \<equiv> 1"

definition decode :: "nat \<Rightarrow> u32 \<Rightarrow> byte \<Rightarrow> nat \<times> u32" where
  "decode state codep b =
     (let ty = utf8d ! unat b in
      (utf8d ! (256 + state * 16 + ty),
       if state \<noteq> UTF8_ACCEPT then (ucast b AND 0x3F) OR push_bit 6 codep
       else drop_bit ty 0xFF AND ucast b))"

section \<open>Escaping a string\<close>

text \<open>
  The local variables of \<open>dump_escaped\<close>. Of the array \<open>string_buffer\<close> of 512 bytes the list
  holds the first \<open>bytes\<close>.
\<close>

record escape =
  e_out :: "byte list"
  e_state :: nat
  e_codepoint :: u32
  string_buffer :: "byte list"
  bytes_after_last_accept :: nat
  undumped_chars :: nat

abbreviation (input) STRING_BUFFER_SIZE :: nat where "STRING_BUFFER_SIZE \<equiv> 512"

definition hex_digit_lower :: "nat \<Rightarrow> byte" where
  "hex_digit_lower n = (if n < 10 then of_nat (48 + n) else of_nat (87 + n))"

text \<open>The format \<open>%04x\<close>, and \<open>hex_bytes\<close>.\<close>

definition hex4 :: "nat \<Rightarrow> byte list" where
  "hex4 n = [hex_digit_lower (n div 4096 mod 16), hex_digit_lower (n div 256 mod 16),
             hex_digit_lower (n div 16 mod 16), hex_digit_lower (n mod 16)]"

definition hex_upper :: "nat \<Rightarrow> byte" where
  "hex_upper n = (if n < 10 then of_nat (48 + n) else of_nat (55 + n))"

definition hex_bytes :: "byte \<Rightarrow> byte list" where
  "hex_bytes b = [hex_upper (unat b div 16), hex_upper (unat b mod 16)]"

text \<open>Storing bytes, with \<open>extra\<close> more that are written behind them but not counted.\<close>

definition store :: "nat \<Rightarrow> byte list \<Rightarrow> escape \<Rightarrow> stop + escape" where
  "store extra bs e =
     (if length (string_buffer e) + length bs + extra \<le> STRING_BUFFER_SIZE
      then Inr (e\<lparr>string_buffer := string_buffer e @ bs\<rparr>)
      else Inl (Undefined Array_overflow))"

text \<open>Writing the buffer out when fewer than 13 bytes are left in it.\<close>

definition flush_buffer :: "escape \<Rightarrow> escape" where
  "flush_buffer e =
     (if STRING_BUFFER_SIZE - length (string_buffer e) < 13
      then e\<lparr>e_out := e_out e @ string_buffer e, string_buffer := []\<rparr> else e)"

definition store_codepoint :: "bool \<Rightarrow> byte \<Rightarrow> escape \<Rightarrow> stop + escape" where
  "store_codepoint ensure_ascii b e =
     (let cp = e_codepoint e in
      if cp = 0x08 then store 0 [92, 98] e
      else if cp = 0x09 then store 0 [92, 116] e
      else if cp = 0x0A then store 0 [92, 110] e
      else if cp = 0x0C then store 0 [92, 102] e
      else if cp = 0x0D then store 0 [92, 114] e
      else if cp = 0x22 then store 0 [92, 34] e
      else if cp = 0x5C then store 0 [92, 92] e
      else if cp \<le> 0x1F \<or> ensure_ascii \<and> 0x7F \<le> cp
      then (if cp \<le> 0xFFFF
            then store 1 ([92, 117] @ hex4 (unat cp)) e
            else store 1 ([92, 117] @ hex4 (unat (0xD7C0 + drop_bit 10 cp))
                          @ [92, 117] @ hex4 (unat (0xDC00 + (cp AND 0x3FF)))) e)
      else store 0 [b] e)"

definition accept_byte :: "bool \<Rightarrow> byte \<Rightarrow> escape \<Rightarrow> stop + escape" where
  "accept_byte ensure_ascii b e =
     bindE (store_codepoint ensure_ascii b e) (\<lambda>e.
       let e = flush_buffer e in
       Inr (e\<lparr>bytes_after_last_accept := length (string_buffer e), undumped_chars := 0\<rparr>))"

text \<open>An invalid byte, for the handlers that go on: the bytes since the last accept are dropped.\<close>

definition replacement :: "bool \<Rightarrow> byte list" where
  "replacement ensure_ascii =
     (if ensure_ascii then [92, 117, 102, 102, 102, 100] else [0xEF, 0xBF, 0xBD])"

definition reject_byte :: "error_handler_t \<Rightarrow> bool \<Rightarrow> escape \<Rightarrow> stop + escape" where
  "reject_byte handler ensure_ascii e =
     (let e = e\<lparr>string_buffer := take (bytes_after_last_accept e) (string_buffer e)\<rparr> in
      bindE (if handler = Replace
             then bindE (store 0 (replacement ensure_ascii) e) (\<lambda>e.
                    let e = flush_buffer e in
                    Inr (e\<lparr>bytes_after_last_accept := length (string_buffer e)\<rparr>))
             else Inr e) (\<lambda>e.
        Inr (e\<lparr>undumped_chars := 0, e_state := UTF8_ACCEPT\<rparr>)))"

definition incomplete_byte :: "bool \<Rightarrow> byte \<Rightarrow> escape \<Rightarrow> stop + escape" where
  "incomplete_byte ensure_ascii b e =
     bindE (if \<not> ensure_ascii then store 0 [b] e else Inr e) (\<lambda>e.
       Inr (e\<lparr>undumped_chars := undumped_chars e + 1\<rparr>))"

lemma undumped_reject_byte: "reject_byte h a e = Inr e' \<Longrightarrow> undumped_chars e' = 0"
  by (auto simp: reject_byte_def Let_def split: if_splits)

text \<open>
  The loop over the string from the index \<open>i\<close> on; a byte that is invalid after an incomplete
  sequence is read again.
\<close>

function dump_escaped_loop ::
  "error_handler_t \<Rightarrow> bool \<Rightarrow> nat \<Rightarrow> byte list \<Rightarrow> escape \<Rightarrow> stop + escape" where
  "dump_escaped_loop handler ascii i [] e = Inr e"
| "dump_escaped_loop handler ascii i (b # bs) e =
     (let (st, cp) = decode (e_state e) (e_codepoint e) b;
          e' = e\<lparr>e_state := st, e_codepoint := cp\<rparr>
      in if st = UTF8_ACCEPT
         then bindE (accept_byte ascii b e') (dump_escaped_loop handler ascii (i + 1) bs)
         else if st = UTF8_REJECT
         then (if handler = Strict
               then Inl (Throw (type_error_create 316
                      (str ''invalid UTF-8 byte at index '' @ dec i @ str '': 0x'' @ hex_bytes b)))
               else case reject_byte handler ascii e' of
                      Inl x \<Rightarrow> Inl x
                    | Inr e'' \<Rightarrow>
                        if 0 < undumped_chars e
                        then dump_escaped_loop handler ascii i (b # bs) e''
                        else dump_escaped_loop handler ascii (i + 1) bs e'')
         else bindE (incomplete_byte ascii b e') (dump_escaped_loop handler ascii (i + 1) bs))"
  by pat_completeness auto
termination
  by (relation "measures [\<lambda>(_, _, _, bs, _). length bs, \<lambda>(_, _, _, _, e). undumped_chars e]")
    (auto dest: undumped_reject_byte)

definition dump_escaped :: "byte list \<Rightarrow> bool \<Rightarrow> serializer \<Rightarrow> stop + serializer" where
  "dump_escaped s ensure_ascii ser =
     bindE (dump_escaped_loop (error_handler ser) ensure_ascii 0 s
              \<lparr>e_out = out ser, e_state = UTF8_ACCEPT, e_codepoint = 0, string_buffer = [],
               bytes_after_last_accept = 0, undumped_chars = 0\<rparr>) (\<lambda>e.
       if e_state e = UTF8_ACCEPT
       then Inr (ser\<lparr>out := e_out e @ string_buffer e\<rparr>)
       else case error_handler ser of
         Strict \<Rightarrow> Inl (Throw (type_error_create 316
            (str ''incomplete UTF-8 string; last byte: 0x'' @ hex_bytes (last s))))
       | Ignore \<Rightarrow> Inr (ser\<lparr>out := e_out e @ take (bytes_after_last_accept e) (string_buffer e)\<rparr>)
       | Replace \<Rightarrow> Inr (ser\<lparr>out := e_out e @ take (bytes_after_last_accept e) (string_buffer e)
                                 @ replacement ensure_ascii\<rparr>))"

section \<open>Integers\<close>

function count_digits_loop :: "nat \<Rightarrow> nat \<Rightarrow> nat" where
  "count_digits_loop x n_digits =
     (if x < 10 then n_digits
      else if x < 100 then n_digits + 1
      else if x < 1000 then n_digits + 2
      else if x < 10000 then n_digits + 3
      else count_digits_loop (x div 10000) (n_digits + 4))"
  by pat_completeness auto
termination by (relation "measure fst") auto

declare count_digits_loop.simps [simp del]

definition count_digits :: "64 word \<Rightarrow> nat" where
  "count_digits x = count_digits_loop (unat x) 1"

definition digits_to_99 :: "nat \<Rightarrow> byte \<times> byte" where
  "digits_to_99 d = (of_nat (48 + d div 10), of_nat (48 + d mod 10))"

definition is_negative_number :: "bool \<Rightarrow> 64 word \<Rightarrow> bool" where
  "is_negative_number is_signed x \<longleftrightarrow> is_signed \<and> sint x < 0"

definition remove_sign :: "64 word \<Rightarrow> 64 word" where
  "remove_sign x = - (x + 1) + 1"

text \<open>
  Filling \<open>number_buffer\<close> from the end: \<open>p\<close> is \<open>buffer_ptr\<close>, moved down before each store.
\<close>

definition poke :: "nat \<Rightarrow> byte \<Rightarrow> byte list \<Rightarrow> stop + byte list" where
  "poke p b buf = (if 0 < p \<and> p \<le> length buf then Inr (buf[p - 1 := b])
                   else Inl (Undefined Array_overflow))"

function fill_digits :: "nat \<Rightarrow> nat \<Rightarrow> byte list \<Rightarrow> stop + byte list" where
  "fill_digits abs_value p buf =
     (if abs_value \<ge> 100
      then bindE (poke p (snd (digits_to_99 (abs_value mod 100))) buf) (\<lambda>buf.
           bindE (poke (p - 1) (fst (digits_to_99 (abs_value mod 100))) buf) (\<lambda>buf.
             fill_digits (abs_value div 100) (p - 2) buf))
      else if abs_value \<ge> 10
      then bindE (poke p (snd (digits_to_99 abs_value)) buf) (\<lambda>buf.
             poke (p - 1) (fst (digits_to_99 abs_value)) buf)
      else poke p (of_nat (48 + abs_value)) buf)"
  by pat_completeness auto
termination by (relation "measure fst") auto

declare fill_digits.simps [simp del]

text \<open>\<open>dump_integer\<close> for a signed or an unsigned 64-bit type.\<close>

definition dump_integer :: "bool \<Rightarrow> 64 word \<Rightarrow> serializer \<Rightarrow> stop + serializer" where
  "dump_integer is_signed x s =
     (if x = 0 then Inr (write_characters [48] s)
      else
        let negative = is_negative_number is_signed x;
            abs_value = (if negative then remove_sign x else x);
            n_chars = (if negative then 1 + count_digits abs_value else count_digits abs_value);
            buf = (if negative then (number_buffer s)[0 := 45] else number_buffer s)
        in if \<not> n_chars < length buf - 1 then Inl (Undefined Assertion)
           else bindE (fill_digits (unat abs_value) n_chars buf) (\<lambda>buf.
                  Inr (write_characters (take n_chars buf) (s\<lparr>number_buffer := buf\<rparr>))))"

definition dump_float :: "('f, 'z) float_ops_scheme \<Rightarrow> 'f \<Rightarrow> serializer \<Rightarrow> serializer" where
  "dump_float F x s =
     (if \<not> isfinite F x then write_characters (str ''null'') s
      else write_characters (to_chars F x) s)"

section \<open>Values\<close>

text \<open>
  Indentation is copied out of \<open>indent_string\<close>, which is enlarged once when it is too short.
\<close>

definition grow_indent :: "u32 \<Rightarrow> serializer \<Rightarrow> serializer" where
  "grow_indent new_indent s =
     (if length (indent_string s) < unat new_indent
      then s\<lparr>indent_string := indent_string s @ replicate (length (indent_string s)) 32\<rparr> else s)"

definition write_indent :: "u32 \<Rightarrow> serializer \<Rightarrow> stop + serializer" where
  "write_indent n s =
     (if unat n \<le> length (indent_string s) + 1
      then Inr (write_characters (take (unat n) (indent_string s @ [0])) s)
      else Inl (Undefined Array_overread))"

abbreviation quoted :: "byte list \<Rightarrow> bool \<Rightarrow> serializer \<Rightarrow> stop + serializer" where
  "quoted k ascii s \<equiv>
     bindE (dump_escaped k ascii (write_characters [34] s)) (\<lambda>s. Inr (write_characters [34] s))"

text \<open>The bytes of a binary value, with their separator.\<close>

fun dump_bytes :: "byte list \<Rightarrow> byte list \<Rightarrow> serializer \<Rightarrow> stop + serializer" where
  "dump_bytes sep [] s = Inr s"
| "dump_bytes sep [b] s = dump_integer False (ucast b) s"
| "dump_bytes sep (b # bs) s =
     bindE (dump_integer False (ucast b) s) (\<lambda>s. dump_bytes sep bs (write_characters sep s))"

definition dump_subtype :: "64 word option \<Rightarrow> serializer \<Rightarrow> stop + serializer" where
  "dump_subtype st s =
     (case st of Some x \<Rightarrow> dump_integer False x s | None \<Rightarrow> Inr (write_characters (str ''null'') s))"

definition dump_binary ::
  "bool \<Rightarrow> u32 \<Rightarrow> u32 \<Rightarrow> byte list \<Rightarrow> 64 word option \<Rightarrow> serializer \<Rightarrow> stop + serializer" where
  "dump_binary pretty step cur bs st s =
     (if pretty then
        let new_indent = cur + step; s = grow_indent new_indent (write_characters [123, 10] s) in
        bindE (write_indent new_indent s) (\<lambda>s.
        bindE (dump_bytes (str '', '') bs
                 (write_characters ([34] @ str ''bytes'' @ [34] @ str '': ['') s)) (\<lambda>s.
        bindE (write_indent new_indent (write_characters (str ''],'' @ [10]) s)) (\<lambda>s.
        bindE (dump_subtype st (write_characters ([34] @ str ''subtype'' @ [34] @ str '': '') s)) (\<lambda>s.
        bindE (write_indent cur (write_characters [10] s)) (\<lambda>s.
          Inr (write_characters [125] s))))))
      else
        bindE (dump_bytes (str '','') bs
                 (write_characters (str ''{'' @ [34] @ str ''bytes'' @ [34] @ str '':['') s)) (\<lambda>s.
        bindE (dump_subtype st
                 (write_characters (str ''],'' @ [34] @ str ''subtype'' @ [34] @ str '':'') s)) (\<lambda>s.
          Inr (write_characters [125] s))))"

text \<open>
  \<open>serializer::dump\<close>; the loops over the members and the elements write a separator behind
  all but the last.
\<close>

fun dump :: "('f, 'z) float_ops_scheme \<Rightarrow> bool \<Rightarrow> bool \<Rightarrow> u32 \<Rightarrow> u32 \<Rightarrow> 'f json \<Rightarrow>
    serializer \<Rightarrow> stop + serializer"
and dump_members :: "('f, 'z) float_ops_scheme \<Rightarrow> bool \<Rightarrow> bool \<Rightarrow> u32 \<Rightarrow> u32 \<Rightarrow>
    (byte list \<times> 'f json) list \<Rightarrow> serializer \<Rightarrow> stop + serializer"
and dump_elements :: "('f, 'z) float_ops_scheme \<Rightarrow> bool \<Rightarrow> bool \<Rightarrow> u32 \<Rightarrow> u32 \<Rightarrow>
    'f json list \<Rightarrow> serializer \<Rightarrow> stop + serializer" where
  "dump F pretty ascii step cur (Object ms) s =
     (if ms = [] then Inr (write_characters (str ''{}'') s)
      else if pretty then
        bindE (dump_members F True ascii step (cur + step) ms
                 (grow_indent (cur + step) (write_characters [123, 10] s))) (\<lambda>s.
        bindE (write_indent cur (write_characters [10] s)) (\<lambda>s.
          Inr (write_characters [125] s)))
      else
        bindE (dump_members F False ascii step cur ms (write_characters [123] s)) (\<lambda>s.
          Inr (write_characters [125] s)))"
| "dump F pretty ascii step cur (Array xs) s =
     (if xs = [] then Inr (write_characters (str ''[]'') s)
      else if pretty then
        bindE (dump_elements F True ascii step (cur + step) xs
                 (grow_indent (cur + step) (write_characters [91, 10] s))) (\<lambda>s.
        bindE (write_indent cur (write_characters [10] s)) (\<lambda>s.
          Inr (write_characters [93] s)))
      else
        bindE (dump_elements F False ascii step cur xs (write_characters [91] s)) (\<lambda>s.
          Inr (write_characters [93] s)))"
| "dump F pretty ascii step cur (String t) s = quoted t ascii s"
| "dump F pretty ascii step cur (Binary bs st) s = dump_binary pretty step cur bs st s"
| "dump F pretty ascii step cur (Boolean b) s =
     Inr (write_characters (if b then str ''true'' else str ''false'') s)"
| "dump F pretty ascii step cur (Number_integer x) s = dump_integer True x s"
| "dump F pretty ascii step cur (Number_unsigned x) s = dump_integer False x s"
| "dump F pretty ascii step cur (Number_float x) s = Inr (dump_float F x s)"
| "dump F pretty ascii step cur Discarded s = Inr (write_characters (str ''<discarded>'') s)"
| "dump F pretty ascii step cur Null s = Inr (write_characters (str ''null'') s)"
| "dump_members F pretty ascii step cur [] s = Inr s"
| "dump_members F pretty ascii step cur ((k, v) # ms) s =
     bindE (if pretty then write_indent cur s else Inr s) (\<lambda>s.
     bindE (quoted k ascii s) (\<lambda>s.
     bindE (dump F pretty ascii step cur v
              (write_characters (if pretty then str '': '' else str '':'') s)) (\<lambda>s.
       if ms = [] then Inr s
       else dump_members F pretty ascii step cur ms
              (write_characters (if pretty then str '','' @ [10] else str '','') s))))"
| "dump_elements F pretty ascii step cur [] s = Inr s"
| "dump_elements F pretty ascii step cur (v # xs) s =
     bindE (if pretty then write_indent cur s else Inr s) (\<lambda>s.
     bindE (dump F pretty ascii step cur v s) (\<lambda>s.
       if xs = [] then Inr s
       else dump_elements F pretty ascii step cur xs
              (write_characters (if pretty then str '','' @ [10] else str '','') s)))"

text \<open>\<open>basic_json::dump\<close>; \<open>dump ()\<close> as the client calls it has no indentation.\<close>

definition json_dump ::
  "('f, 'z) float_ops_scheme \<Rightarrow> int \<Rightarrow> byte \<Rightarrow> bool \<Rightarrow> error_handler_t \<Rightarrow> 'f json \<Rightarrow> stop + byte list" where
  "json_dump F indent ichar ensure_ascii handler j =
     bindE (dump F (0 \<le> indent) ensure_ascii (if 0 \<le> indent then word_of_int indent else 0) 0 j
              (serializer_init ichar handler)) (\<lambda>s. Inr (out s))"

definition dump_default :: "('f, 'z) float_ops_scheme \<Rightarrow> 'f json \<Rightarrow> stop + byte list" where
  "dump_default F j = json_dump F (-1) 32 False Strict j"

end
