(* ===== verification/Json_Text.thy ===== *)
theory Json_Text
  imports Json_Serializer
begin

text \<open>
  The texts of JSON, as reference definitions: well-formed UTF-8, the escaped form of a
  string, the decimal form of a number; and the lemmas that the serializer's buffered and
  table-driven code produces them.
\<close>

section \<open>Decimal numbers\<close>

lemma dec_100:
  "100 \<le> n \<Longrightarrow> dec n = dec (n div 100) @ [fst (digits_to_99 (n mod 100)), snd (digits_to_99 (n mod 100))]"
proof -
  assume n: "100 \<le> n"
  have "n mod 100 div 10 = n div 10 mod 10" "n mod 100 mod 10 = n mod 10" "n div 10 div 10 = n div 100"
    using mod_mult2_eq [of n 10 10] by (simp_all add: div_mult2_eq mod_mod_cancel)
  moreover have "10 \<le> n div 10" using n by presburger
  ultimately show ?thesis using n dec_10 [of n] dec_10 [of "n div 10"]
    by (simp add: digits_to_99_def)
qed

lemma dec_99:
  "10 \<le> n \<Longrightarrow> n < 100 \<Longrightarrow> dec n = [fst (digits_to_99 n), snd (digits_to_99 n)]"
  using dec_10 [of n] dec_less_10 [of "n div 10"] by (simp add: digits_to_99_def)

lemma count_digits_loop: "count_digits_loop x n = n + length (dec x) - 1"
proof (induction x n rule: count_digits_loop.induct)
  case (1 x n)
  show ?case
  proof (cases "x < 10000")
    case True
    consider "x < 10" | "10 \<le> x" "x < 100" | "100 \<le> x" "x < 1000" | "1000 \<le> x" by linarith
    then show ?thesis
      using True length_dec_div [of x] length_dec_div [of "x div 10"]
        length_dec_div [of "x div 10 div 10"] dec_less_10 [of x] dec_less_10 [of "x div 10"]
        dec_less_10 [of "x div 10 div 10"] dec_less_10 [of "x div 10 div 10 div 10"]
      by cases (subst count_digits_loop.simps, simp add: div_mult2_eq [symmetric])+
  next
    case False
    then have "length (dec x) = length (dec (x div 10000)) + 4"
      using length_dec_div [of x] length_dec_div [of "x div 10"]
        length_dec_div [of "x div 10 div 10"] length_dec_div [of "x div 10 div 10 div 10"]
      by (simp add: div_mult2_eq [symmetric])
    moreover have "dec (x div 10000) \<noteq> []" by simp
    ultimately show ?thesis
      using 1 False by (subst count_digits_loop.simps) (simp add: Suc_le_eq)
  qed
qed

lemma count_digits: "count_digits x = length (dec (unat x))"
  by (simp add: count_digits_def count_digits_loop)

lemma fill_digits:
  assumes "length (dec v) \<le> p" "p \<le> length buf"
  shows "fill_digits v p buf = Inr (take (p - length (dec v)) buf @ dec v @ drop p buf)"
  using assms
proof (induction v p buf rule: fill_digits.induct)
  case (1 v p buf)
  note le = 1(2,3)
  consider "v < 10" | "10 \<le> v" "v < 100" | "100 \<le> v" by linarith
  then show ?case
  proof cases
    case 1
    with le show ?thesis
      by (subst fill_digits.simps)
        (simp add: dec_less_10 poke_def upd_conv_take_nth_drop Suc_le_eq)
  next
    case 2
    with le have "2 \<le> p" by (simp add: dec_99)
    then obtain q where q: "p = Suc (Suc q)" by (metis add_2_eq_Suc le_Suc_ex)
    with 2 le show ?thesis
      by (subst fill_digits.simps)
        (simp add: dec_99 poke_def upd_conv_take_nth_drop take_Suc_conv_app_nth nth_append)
  next
    case 3
    let ?h = "fst (digits_to_99 (v mod 100))" and ?t = "snd (digits_to_99 (v mod 100))"
    have len: "length (dec v) = length (dec (v div 100)) + 2" using dec_100 [OF 3] by simp
    with le obtain q where q: "p = Suc (Suc q)"
      by (metis add_2_eq_Suc' add_leD2 le_Suc_ex add.commute add_2_eq_Suc)
    define buf1 where "buf1 = buf[Suc q := ?t]"
    define buf2 where "buf2 = buf1[q := ?h]"
    have "fill_digits v p buf = fill_digits (v div 100) q buf2"
      using 3 q le by (subst fill_digits.simps) (simp add: poke_def buf1_def buf2_def)
    also have "\<dots> = Inr (take (q - length (dec (v div 100))) buf2 @ dec (v div 100) @ drop q buf2)"
      using 1(1) [OF 3] 3 q le len by (simp add: poke_def buf1_def buf2_def)
    also have "drop q buf2 = [?h, ?t] @ drop p buf"
      using q le by (simp add: buf2_def buf1_def upd_conv_take_nth_drop)
    also have "take (q - length (dec (v div 100))) buf2 = take (p - length (dec v)) buf"
      using q le len by (simp add: buf2_def buf1_def)
    finally show ?thesis using dec_100 [OF 3] by simp
  qed
qed

text \<open>
  What \<open>dump_integer\<close> writes for a value of a signed or an unsigned 64-bit type: its
  decimal form. Its buffer of 64 bytes is always long enough.
\<close>

definition number_value :: "bool \<Rightarrow> 64 word \<Rightarrow> int" where
  "number_value is_signed x = (if is_signed then sint x else uint x)"

lemma unat_remove_sign:
  assumes "sint (x :: 64 word) < 0"
  shows "unat (remove_sign x) = nat (- sint x)"
proof -
  from uint_64 [of "- sint x"] assms sint_ge [of x]
  have "uint (- x) = - sint x" by simp
  then show ?thesis by (simp add: remove_sign_def unat_eq_nat_uint)
qed

lemma dec_unat_bounds:
  "0 < length (dec (unat (x :: 64 word))) \<and> length (dec (unat x)) \<le> 20"
proof -
  have "unat x < 2 ^ LENGTH(64)" by (rule unsigned_less)
  then have "unat x < 10 ^ 20" by simp
  then show ?thesis using length_dec_le [of "unat x" 20] by simp
qed

lemma dump_integer_dec:
  assumes "length (number_buffer s) = 64"
  shows "\<exists>buf. length buf = 64 \<and> dump_integer is_signed x s =
    Inr (s\<lparr>number_buffer := buf, out := out s @ dec_int (number_value is_signed x)\<rparr>)"
proof (cases "x = 0")
  case True
  with assms show ?thesis
    by (auto simp: dump_integer_def write_characters_def number_value_def dec_int_def dec_less_10
        intro!: exI [of _ "number_buffer s"])
next
  case False
  show ?thesis
  proof (cases "is_negative_number is_signed x")
    case True
    let ?d = "dec (unat (remove_sign x))"
    let ?buf = "(number_buffer s)[0 := 45]"
    have sgn: "is_signed" "sint x < 0" using True by (simp_all add: is_negative_number_def)
    obtain rest where buf: "?buf = 45 # rest" "length rest = 63"
      using assms by (cases "number_buffer s") auto
    have "fill_digits (unat (remove_sign x)) (1 + length ?d) ?buf
        = Inr (45 # ?d @ drop (1 + length ?d) ?buf)"
      using dec_unat_bounds [of "remove_sign x"] assms buf by (subst fill_digits) auto
    moreover have "dec_int (number_value is_signed x) = 45 # ?d"
      using sgn unat_remove_sign [OF sgn(2)] by (simp add: dec_int_def number_value_def)
    ultimately show ?thesis
      using False True assms dec_unat_bounds [of "remove_sign x"]
      by (auto simp: dump_integer_def count_digits write_characters_def Let_def
          intro!: exI [of _ "45 # ?d @ drop (1 + length ?d) (number_buffer s)"])
  next
    case neg: False
    let ?d = "dec (unat x)"
    have "fill_digits (unat x) (length ?d) (number_buffer s)
        = Inr (?d @ drop (length ?d) (number_buffer s))"
      using dec_unat_bounds [of x] assms by (subst fill_digits) auto
    moreover have "dec_int (number_value is_signed x) = ?d"
    proof (cases is_signed)
      case True
      with neg have "0 \<le> sint x" by (simp add: is_negative_number_def)
      moreover have "sint x < 2 ^ 63" using sint_less [of x] by simp
      ultimately have "uint (word_of_int (sint x) :: 64 word) = sint x" by (intro uint_64) auto
      then have "uint x = sint x" by (simp only: of_int_sint scast_id id_apply)
      then have "unat x = nat (sint x)" by (simp only: unat_eq_nat_uint)
      with True \<open>0 \<le> sint x\<close> show ?thesis by (simp add: dec_int_def number_value_def)
    qed (simp add: dec_int_def number_value_def)
    ultimately show ?thesis
      using False neg assms dec_unat_bounds [of x]
      by (auto simp: dump_integer_def count_digits write_characters_def Let_def
          intro!: exI [of _ "?d @ drop (length ?d) (number_buffer s)"])
  qed
qed

section \<open>Well-formed UTF-8\<close>

text \<open>
  The table of well-formed byte sequences of the Unicode standard: the ranges of the bytes
  that have to follow a first byte.
\<close>

definition byte_ranges :: "byte \<Rightarrow> (byte \<times> byte) list option" where
  "byte_ranges b =
     (if b \<le> 0x7F then Some []
      else if 0xC2 \<le> b \<and> b \<le> 0xDF then Some [(0x80, 0xBF)]
      else if b = 0xE0 then Some [(0xA0, 0xBF), (0x80, 0xBF)]
      else if 0xE1 \<le> b \<and> b \<le> 0xEC \<or> b = 0xEE \<or> b = 0xEF then Some [(0x80, 0xBF), (0x80, 0xBF)]
      else if b = 0xED then Some [(0x80, 0x9F), (0x80, 0xBF)]
      else if b = 0xF0 then Some [(0x90, 0xBF), (0x80, 0xBF), (0x80, 0xBF)]
      else if 0xF1 \<le> b \<and> b \<le> 0xF3 then Some [(0x80, 0xBF), (0x80, 0xBF), (0x80, 0xBF)]
      else if b = 0xF4 then Some [(0x80, 0x8F), (0x80, 0xBF), (0x80, 0xBF)]
      else None)"

fun utf8_from :: "(byte \<times> byte) list \<Rightarrow> byte list \<Rightarrow> bool" where
  "utf8_from rs [] = (rs = [])"
| "utf8_from [] (b # bs) = (case byte_ranges b of None \<Rightarrow> False | Some rs \<Rightarrow> utf8_from rs bs)"
| "utf8_from ((lo, hi) # rs) (b # bs) = (lo \<le> b \<and> b \<le> hi \<and> utf8_from rs bs)"

definition utf8_valid :: "byte list \<Rightarrow> bool" where
  "utf8_valid s = utf8_from [] s"

text \<open>The classes of bytes and the transitions that the table \<open>utf8d\<close> encodes.\<close>

definition utf8_class :: "nat \<Rightarrow> nat" where
  "utf8_class n =
     (if n < 0x80 then 0 else if n < 0x90 then 1 else if n < 0xA0 then 9 else if n < 0xC0 then 7
      else if n < 0xC2 then 8 else if n < 0xE0 then 2 else if n = 0xE0 then 10
      else if n < 0xED then 3 else if n = 0xED then 4 else if n < 0xF0 then 3
      else if n = 0xF0 then 11 else if n < 0xF4 then 6 else if n = 0xF4 then 5 else 8)"

definition next_state :: "nat \<Rightarrow> nat \<Rightarrow> nat" where
  "next_state s t =
     (if s = 0 then (if t = 0 then 0 else if t = 2 then 2 else if t = 3 then 3 else if t = 4 then 5
                     else if t = 5 then 8 else if t = 6 then 7 else if t = 10 then 4
                     else if t = 11 then 6 else 1)
      else if s = 2 then (if t = 1 \<or> t = 7 \<or> t = 9 then 0 else 1)
      else if s = 3 then (if t = 1 \<or> t = 7 \<or> t = 9 then 2 else 1)
      else if s = 4 then (if t = 7 then 2 else 1)
      else if s = 5 then (if t = 1 \<or> t = 9 then 2 else 1)
      else if s = 6 then (if t = 7 \<or> t = 9 then 3 else 1)
      else if s = 7 then (if t = 1 \<or> t = 7 \<or> t = 9 then 3 else 1)
      else if s = 8 then (if t = 1 then 3 else 1)
      else 1)"

lemma utf8d_classes: "take 256 utf8d = map utf8_class [0..<256]"
  by code_simp

lemma utf8d_states: "drop 256 utf8d = map (\<lambda>i. next_state (i div 16) (i mod 16)) [0..<144]"
  by code_simp

lemma utf8d_class: "utf8d ! unat (b :: byte) = utf8_class (unat b)"
proof -
  have "unat b < 2 ^ LENGTH(8)" by (rule unsigned_less)
  then have "unat b < 256" by simp
  then show ?thesis using arg_cong [OF utf8d_classes, of "\<lambda>xs. xs ! unat b"] by simp
qed

lemma utf8_class_less: "utf8_class n < 16"
  by (simp add: utf8_class_def)

lemma length_utf8d: "length utf8d = 400"
  by (simp add: utf8d_def)

lemma utf8d_next:
  assumes "s \<le> 8" "t < 16"
  shows "utf8d ! (256 + s * 16 + t) = next_state s t"
proof -
  have "s * 16 + t < 144" using assms by linarith
  then show ?thesis
    using assms arg_cong [OF utf8d_states, of "\<lambda>xs. xs ! (s * 16 + t)"] length_utf8d
    by (simp add: ac_simps)
qed

text \<open>The ranges that a state of the decoder still waits for.\<close>

definition pending :: "nat \<Rightarrow> (byte \<times> byte) list" where
  "pending s =
     (if s = 2 then [(0x80, 0xBF)]
      else if s = 3 then [(0x80, 0xBF), (0x80, 0xBF)]
      else if s = 4 then [(0xA0, 0xBF), (0x80, 0xBF)]
      else if s = 5 then [(0x80, 0x9F), (0x80, 0xBF)]
      else if s = 6 then [(0x90, 0xBF), (0x80, 0xBF), (0x80, 0xBF)]
      else if s = 7 then [(0x80, 0xBF), (0x80, 0xBF), (0x80, 0xBF)]
      else if s = 8 then [(0x80, 0x8F), (0x80, 0xBF), (0x80, 0xBF)]
      else [])"

lemma pending_simps [simp]:
  "pending 0 = []" "pending 2 = [(0x80, 0xBF)]" "pending 3 = [(0x80, 0xBF), (0x80, 0xBF)]"
  "pending 4 = [(0xA0, 0xBF), (0x80, 0xBF)]" "pending 5 = [(0x80, 0x9F), (0x80, 0xBF)]"
  "pending 6 = [(0x90, 0xBF), (0x80, 0xBF), (0x80, 0xBF)]"
  "pending 7 = [(0x80, 0xBF), (0x80, 0xBF), (0x80, 0xBF)]"
  "pending 8 = [(0x80, 0x8F), (0x80, 0xBF), (0x80, 0xBF)]"
  by (simp_all add: pending_def)

definition live :: "nat \<Rightarrow> bool" where
  "live s \<longleftrightarrow> s = 0 \<or> 2 \<le> s \<and> s \<le> 8"

lemma liveE:
  assumes "live s"
  obtains "s = 0" | "s = 2" | "s = 3" | "s = 4" | "s = 5" | "s = 6" | "s = 7" | "s = 8"
  using assms unfolding live_def by linarith

text \<open>
  One step of the decoder: from a state that is not the reject state, a byte that goes on
  with the sequence leads to the state that waits for the rest, any other byte to reject.
\<close>

lemma decode_state: "live s \<Longrightarrow> fst (decode s cp b) = next_state s (utf8_class (unat b))"
  using utf8d_next [of s "utf8_class (unat b)"] utf8_class_less
  by (auto simp: decode_def utf8d_class Let_def live_def)

lemma utf8_from_first:
  "utf8_from [] (b # bs) =
    (let s = next_state 0 (utf8_class (unat b)) in s \<noteq> 1 \<and> utf8_from (pending s) bs)"
proof -
  have "b \<le> c \<longleftrightarrow> unat b \<le> unat c" "c \<le> b \<longleftrightarrow> unat c \<le> unat b" "b = c \<longleftrightarrow> unat b = unat c" for c :: byte
    by (auto simp: word_le_nat_alt word_unat_eq_iff)
  then show ?thesis
    by (simp add: byte_ranges_def next_state_def utf8_class_def)
qed

lemma utf8_from_next:
  assumes "live s"
  shows "utf8_from (pending s) (b # bs) =
    (let s' = next_state s (utf8_class (unat b)) in s' \<noteq> 1 \<and> utf8_from (pending s') bs)"
proof -
  have "b \<le> c \<longleftrightarrow> unat b \<le> unat c" "c \<le> b \<longleftrightarrow> unat c \<le> unat b" for c :: byte
    by (auto simp: word_le_nat_alt)
  with assms show ?thesis
    by (elim liveE) (simp_all only: pending_simps utf8_from_first,
      simp_all add: next_state_def utf8_class_def)
qed

lemma live_next: "next_state s t \<noteq> 1 \<Longrightarrow> live (next_state s t)"
  by (auto simp: next_state_def live_def split: if_splits)

text \<open>Bounds on the partial code point: a complete sequence of several bytes is above ASCII.\<close>

definition codepoint_ok :: "nat \<Rightarrow> nat \<Rightarrow> bool" where
  "codepoint_ok s n \<longleftrightarrow>
     (s = 2 \<longrightarrow> 2 \<le> n \<and> n < 2 ^ 18) \<and> (s = 3 \<or> s = 5 \<longrightarrow> 1 \<le> n \<and> n < 2 ^ 12) \<and>
     (s = 4 \<longrightarrow> n < 2 ^ 12) \<and> (s = 7 \<or> s = 8 \<longrightarrow> 1 \<le> n \<and> n < 64) \<and> (s = 6 \<longrightarrow> n < 64)"

lemma unat_ucast_byte: "unat (ucast (b :: byte) :: u32) = unat b"
proof -
  have "unat b < 2 ^ LENGTH(8)" by (rule unsigned_less)
  then show ?thesis by (simp add: unsigned_ucast_eq take_bit_nat_eq_self)
qed

lemma unat_continue:
  assumes "unat (cp :: u32) < 2 ^ 18"
  shows "unat ((ucast (b :: byte) AND 0x3F) OR push_bit 6 cp) = unat b mod 64 + 64 * unat cp"
proof -
  have mask: "(0x3F :: u32) = mask 6" by (simp add: mask_eq_exp_minus_1)
  have "(ucast b AND mask 6) AND push_bit 6 cp = (0 :: u32)"
    by (rule bit_word_eqI) (auto simp: bit_simps)
  then have "(ucast b AND mask 6) OR push_bit 6 cp = (ucast b AND mask 6) + push_bit 6 cp"
    by (simp add: disjunctive_add_eq_or)
  moreover have "unat (ucast b AND mask 6 :: u32) = take_bit 6 (unat (ucast b :: u32))"
    by (simp only: take_bit_eq_mask [symmetric] unsigned_take_bit_eq)
  then have "unat (ucast b AND mask 6 :: u32) = unat b mod 64"
    by (simp only: unat_ucast_byte) (simp add: take_bit_eq_mod)
  moreover note this
  moreover have "unat (push_bit 6 cp) = 64 * unat cp"
    using assms
    by (simp only: unsigned_push_bit_eq) (simp add: push_bit_eq_mult take_bit_nat_eq_self)
  ultimately show ?thesis
    using assms mask by (subst mask) (simp add: unat_word_ariths)
qed

lemma unat_lead: "unat (drop_bit t (0xFF :: u32) AND ucast (b :: byte)) = unat b mod 2 ^ (8 - t)"
proof -
  have "(0xFF :: int) = mask 8" by (simp add: mask_eq_exp_minus_1)
  then have b: "bit (0xFF :: int) k \<longleftrightarrow> k < 8" for k
    by (simp only: bit_mask_iff) auto
  have "drop_bit t (0xFF :: u32) = mask (8 - t)"
    by (rule bit_word_eqI) (auto simp: bit_simps b)
  then have "drop_bit t (0xFF :: u32) AND ucast b = take_bit (8 - t) (ucast b)"
    by (simp only: take_bit_eq_mask and.commute)
  then have "unat (drop_bit t (0xFF :: u32) AND ucast b) = take_bit (8 - t) (unat (ucast b :: u32))"
    by (simp only: unsigned_take_bit_eq)
  then show ?thesis
    by (simp only: unat_ucast_byte) (simp add: take_bit_eq_mod)
qed

lemma mod_minus_128: "128 \<le> n \<Longrightarrow> n < 192 \<Longrightarrow> n mod 64 = n - (128 :: nat)"
  by (rule mod_nat_eqI) auto

lemma decode_codepoint:
  assumes "live s" "codepoint_ok s (unat cp)" "s \<noteq> 0" "decode s cp b = (s', cp')" "s' \<noteq> 1"
  shows "if s' = 0 then 0x80 \<le> unat cp' else codepoint_ok s' (unat cp')"
proof -
  have cp': "cp' = (ucast b AND 0x3F) OR push_bit 6 cp"
    and s': "s' = next_state s (utf8_class (unat b))"
    using assms(3,4) decode_state [OF assms(1), of cp b] by (auto simp: decode_def Let_def)
  have "unat cp < 2 ^ 18"
    using assms(1,2,3) by (auto simp: codepoint_ok_def elim!: liveE)
  then have u: "unat cp' = unat b mod 64 + 64 * unat cp" unfolding cp' by (rule unat_continue)
  have lt: "unat b mod 64 < 64" by simp
  show ?thesis
    using assms(1)
  proof (cases rule: liveE)
    case 4
    with assms(2,5) s' u lt have "s' = 2 \<and> 160 \<le> unat b \<and> unat b < 192"
      by (auto simp: next_state_def utf8_class_def split: if_splits)
    then have "unat b mod 64 = unat b - 128" by (simp add: mod_minus_128)
    with \<open>s' = 2 \<and> _\<close> 4 assms(2) u show ?thesis by (auto simp: codepoint_ok_def)
  next
    case 6
    with assms(2,5) s' u lt have "s' = 3 \<and> 144 \<le> unat b \<and> unat b < 192"
      by (auto simp: next_state_def utf8_class_def split: if_splits)
    then have "unat b mod 64 = unat b - 128" by (simp add: mod_minus_128)
    with \<open>s' = 3 \<and> _\<close> 6 assms(2) u show ?thesis by (auto simp: codepoint_ok_def)
  qed (use assms(2,3,5) s' u lt in \<open>auto simp: codepoint_ok_def next_state_def split: if_splits\<close>)
qed

definition lead_ok :: "nat \<Rightarrow> bool" where
  "lead_ok n \<longleftrightarrow>
     (let c = utf8_class n; s' = next_state 0 c; m = n mod 2 ^ (8 - c)
      in s' = 1 \<or> (if s' = 0 then m = n \<and> n < 128 else 128 \<le> n \<and> codepoint_ok s' m))"

lemma lead_ok_bytes:
  assumes "n < 256"
  shows "lead_ok n"
proof -
  have m: "n mod 64 = n - 192" if "192 \<le> n"
    using assms that by (intro mod_nat_eqI) auto
  have m': "n mod 32 = n - 224" if "224 \<le> n"
    using assms that by (intro mod_nat_eqI) auto
  have m'': "n mod 4 = n - 240" if "240 \<le> n" "n < 244"
    using assms that by (intro mod_nat_eqI) auto
  consider "n < 128" | "128 \<le> n \<and> n < 194" | "194 \<le> n \<and> n < 224" | "n = 224" | "n = 237"
    | "225 \<le> n \<and> n < 240 \<and> n \<noteq> 237" | "n = 240" | "241 \<le> n \<and> n < 244" | "n = 244" | "244 < n"
    by linarith
  then show ?thesis
    by cases (use assms m m' m'' in \<open>auto simp: lead_ok_def utf8_class_def next_state_def codepoint_ok_def Let_def\<close>)
qed

lemma decode_lead:
  assumes "decode 0 cp b = (s', cp')" "s' \<noteq> 1"
  shows "if s' = 0 then unat cp' = unat b \<and> b < 0x80 else 0x80 \<le> b \<and> codepoint_ok s' (unat cp')"
proof -
  have cp': "cp' = drop_bit (utf8_class (unat b)) 0xFF AND ucast b"
    and s': "s' = next_state 0 (utf8_class (unat b))"
    using assms(1) decode_state [of 0 cp b]
    by (auto simp: decode_def Let_def utf8d_class live_def)
  have u: "unat cp' = unat b mod 2 ^ (8 - utf8_class (unat b))"
    unfolding cp' by (rule unat_lead)
  have "unat b < 2 ^ LENGTH(8)" by (rule unsigned_less)
  then have "lead_ok (unat b)" using lead_ok_bytes by simp
  moreover have "b < 0x80 \<longleftrightarrow> unat b < 128" "0x80 \<le> b \<longleftrightarrow> 128 \<le> unat b"
    by (simp_all add: word_le_nat_alt word_less_nat_alt)
  ultimately show ?thesis
    using assms(2) unfolding lead_ok_def Let_def u [symmetric] s' [symmetric] by auto
qed

section \<open>Escaped strings\<close>

text \<open>
  The escaped form of a well-formed string when non-ASCII characters are kept: byte by byte,
  since the bytes of a longer sequence stay as they are.
\<close>

definition escape_byte :: "byte \<Rightarrow> byte list" where
  "escape_byte b =
     (if b = 0x08 then [92, 98] else if b = 0x09 then [92, 116] else if b = 0x0A then [92, 110]
      else if b = 0x0C then [92, 102] else if b = 0x0D then [92, 114]
      else if b = 0x22 then [92, 34] else if b = 0x5C then [92, 92]
      else if b \<le> 0x1F then [92, 117] @ hex4 (unat b) else [b])"

definition escape_text :: "byte list \<Rightarrow> byte list" where
  "escape_text s = concat (map escape_byte s)"

lemma escape_text_simps [simp]:
  "escape_text [] = []" "escape_text (b # s) = escape_byte b @ escape_text s"
  "escape_text (s @ t) = escape_text s @ escape_text t"
  by (simp_all add: escape_text_def)

lemma escape_byte_high: "0x80 \<le> b \<Longrightarrow> escape_byte b = [b]"
  by (auto simp: escape_byte_def word_le_nat_alt word_unat_eq_iff)

definition contents :: "escape \<Rightarrow> byte list" where
  "contents e = e_out e @ string_buffer e"

definition loop_ok :: "escape \<Rightarrow> bool" where
  "loop_ok e \<longleftrightarrow>
     live (e_state e) \<and> codepoint_ok (e_state e) (unat (e_codepoint e)) \<and>
     length (string_buffer e) + length (pending (e_state e)) \<le> 503 \<and>
     (e_state e = 0 \<longrightarrow> length (string_buffer e) \<le> 499)"

lemma codepoint_ok_0 [simp]: "codepoint_ok 0 n"
  by (simp add: codepoint_ok_def)

lemma live_0 [simp]: "live 0"
  by (simp add: live_def)

lemma pending_Nil: "live s \<Longrightarrow> pending s = [] \<longleftrightarrow> s = 0"
  by (auto elim!: liveE)

lemma length_hex4 [simp]: "length (hex4 n) = 4"
  by (simp add: hex4_def)

lemma store_codepoint_ascii:
  assumes "unat (e_codepoint e) = unat b" "b < 0x80" "length (string_buffer e) \<le> 499"
  shows "store_codepoint False b e = Inr (e\<lparr>string_buffer := string_buffer e @ escape_byte b\<rparr>)"
proof -
  have "e_codepoint e = k \<longleftrightarrow> unat b = unat k" "e_codepoint e \<le> k \<longleftrightarrow> unat b \<le> unat k" for k
    using assms(1) by (simp_all add: word_unat_eq_iff word_le_nat_alt)
  moreover have "b = k \<longleftrightarrow> unat b = unat k" "b \<le> k \<longleftrightarrow> unat b \<le> unat k" for k
    by (simp_all add: word_unat_eq_iff word_le_nat_alt)
  moreover have "unat b < 128" using assms(2) by (simp add: word_less_nat_alt)
  ultimately show ?thesis
    using assms(1,3) by (simp add: store_codepoint_def escape_byte_def store_def Let_def)
qed

lemma store_codepoint_high:
  assumes "0x80 \<le> unat (e_codepoint e)" "length (string_buffer e) \<le> 502"
  shows "store_codepoint False b e = Inr (e\<lparr>string_buffer := string_buffer e @ [b]\<rparr>)"
proof -
  have "e_codepoint e = k \<longleftrightarrow> unat (e_codepoint e) = unat k"
    "e_codepoint e \<le> k \<longleftrightarrow> unat (e_codepoint e) \<le> unat k" for k
    by (simp_all add: word_unat_eq_iff word_le_nat_alt)
  with assms show ?thesis by (simp add: store_codepoint_def store_def Let_def)
qed

lemma accept_byte:
  assumes "store_codepoint False b e = Inr (e\<lparr>string_buffer := string_buffer e @ bs\<rparr>)" "e_state e = 0"
  shows "\<exists>e'. accept_byte False b e = Inr e' \<and> loop_ok e' \<and> e_state e' = 0 \<and>
    contents e' = contents e @ bs"
  using assms by (auto simp: accept_byte_def flush_buffer_def Let_def loop_ok_def contents_def)

lemma next_state_high: "live s \<Longrightarrow> s \<noteq> 0 \<Longrightarrow> next_state s (utf8_class (unat b)) \<noteq> 1 \<Longrightarrow> 0x80 \<le> (b :: byte)"
  by (auto simp: next_state_def utf8_class_def word_le_nat_alt elim!: liveE split: if_splits)

lemma pending_next:
  "live s \<Longrightarrow> next_state s t \<noteq> 1 \<Longrightarrow> s \<noteq> 0 \<Longrightarrow>
   length (pending (next_state s t)) + 1 = length (pending s)"
  by (auto simp: next_state_def elim!: liveE split: if_splits)

lemma pending_le: "live s \<Longrightarrow> length (pending s) \<le> 3"
  by (auto elim!: liveE)

text \<open>One byte that the decoder takes keeps the invariant and adds its escaped form.\<close>

lemma loop_step:
  fixes e b st cp
  defines "e1 \<equiv> e\<lparr>e_state := st, e_codepoint := cp\<rparr>"
  assumes ok: "loop_ok e" and dec: "decode (e_state e) (e_codepoint e) b = (st, cp)" and "st \<noteq> 1"
  shows "\<exists>e'. (if st = 0 then accept_byte False b e1 else incomplete_byte False b e1) = Inr e' \<and>
    loop_ok e' \<and> e_state e' = st \<and> contents e' = contents e @ escape_byte b"
proof -
  have l: "live (e_state e)" and c: "codepoint_ok (e_state e) (unat (e_codepoint e))"
    and buf: "length (string_buffer e) + length (pending (e_state e)) \<le> 503"
      "e_state e = 0 \<Longrightarrow> length (string_buffer e) \<le> 499"
    using ok by (simp_all add: loop_ok_def)
  have st: "st = next_state (e_state e) (utf8_class (unat b))"
    using decode_state [OF l, of "e_codepoint e" b] dec by simp
  then have "live st" using \<open>st \<noteq> 1\<close> live_next by simp
  show ?thesis
  proof (cases "e_state e = 0")
    case True
    with dec decode_lead [of "e_codepoint e" b st cp] \<open>st \<noteq> 1\<close>
    have lead: "if st = 0 then unat cp = unat b \<and> b < 0x80 else 0x80 \<le> b \<and> codepoint_ok st (unat cp)"
      by simp
    show ?thesis
    proof (cases "st = 0")
      case True
      with lead \<open>e_state e = 0\<close> buf have "store_codepoint False b e1
          = Inr (e1\<lparr>string_buffer := string_buffer e1 @ escape_byte b\<rparr>)"
        by (intro store_codepoint_ascii) (simp_all add: e1_def)
      from accept_byte [OF this] True show ?thesis by (simp add: e1_def contents_def)
    next
      case False
      with lead \<open>live st\<close> \<open>e_state e = 0\<close> buf pending_le [OF \<open>live st\<close>] show ?thesis
        by (simp add: incomplete_byte_def store_def e1_def loop_ok_def contents_def escape_byte_high)
    qed
  next
    case False
    with st l \<open>st \<noteq> 1\<close> have high: "0x80 \<le> b" using next_state_high by simp
    have len: "length (pending st) + 1 = length (pending (e_state e))"
      using pending_next [OF l] \<open>st \<noteq> 1\<close> st False by simp
    have cp: "if st = 0 then 0x80 \<le> unat cp else codepoint_ok st (unat cp)"
      using decode_codepoint [OF l c False dec \<open>st \<noteq> 1\<close>] .
    have "\<exists>e'. accept_byte False b e1 = Inr e' \<and> loop_ok e' \<and> e_state e' = 0 \<and>
        contents e' = contents e1 @ [b]" if "st = 0"
      using that cp buf len by (intro accept_byte store_codepoint_high) (simp_all add: e1_def)
    then show ?thesis
      using high \<open>live st\<close> buf len cp
      by (auto simp: incomplete_byte_def store_def e1_def loop_ok_def contents_def escape_byte_high)
  qed
qed

lemma dump_escaped_loop_strict:
  assumes "loop_ok e"
  shows "case dump_escaped_loop Strict False i bs e of
      Inr e' \<Rightarrow> (e_state e' = 0 \<longleftrightarrow> utf8_from (pending (e_state e)) bs) \<and>
        (e_state e' = 0 \<longrightarrow> contents e' = contents e @ escape_text bs)
    | Inl x \<Rightarrow> \<not> utf8_from (pending (e_state e)) bs \<and> (\<exists>msg. x = Throw (Type_error 316 msg))"
  using assms
proof (induction bs arbitrary: i e)
  case Nil
  then show ?case using pending_Nil [of "e_state e"] by (simp add: loop_ok_def)
next
  case (Cons b bs)
  obtain st cp where dec: "decode (e_state e) (e_codepoint e) b = (st, cp)" by fastforce
  have l: "live (e_state e)" using Cons.prems by (simp add: loop_ok_def)
  have st: "st = next_state (e_state e) (utf8_class (unat b))"
    using decode_state [OF l, of "e_codepoint e" b] dec by simp
  have nxt: "utf8_from (pending (e_state e)) (b # bs) = (st \<noteq> 1 \<and> utf8_from (pending st) bs)"
    using utf8_from_next [OF l] st by (simp add: Let_def)
  show ?case
  proof (cases "st = 1")
    case True
    with dec nxt show ?thesis by (simp add: type_error_create_def)
  next
    case False
    from loop_step [OF Cons.prems dec False] obtain e' where e':
      "(if st = 0 then accept_byte False b (e\<lparr>e_state := st, e_codepoint := cp\<rparr>)
        else incomplete_byte False b (e\<lparr>e_state := st, e_codepoint := cp\<rparr>)) = Inr e'"
      "loop_ok e'" "e_state e' = st" "contents e' = contents e @ escape_byte b" by blast
    then have "dump_escaped_loop Strict False i (b # bs) e = dump_escaped_loop Strict False (i + 1) bs e'"
      using dec False by (auto split: if_splits)
    then show ?thesis using Cons.IH [OF e'(2), of "i + 1"] e' nxt False
      by (auto split: sum.splits)
  qed
qed

text \<open>
  What \<open>dump_escaped\<close> does with the strict handler: a well-formed string is written in its
  escaped form, any other string is refused with the exception 316.
\<close>

lemma dump_escaped_strict:
  assumes "error_handler ser = Strict"
  shows "if utf8_valid s then dump_escaped s False ser = Inr (write_characters (escape_text s) ser)
    else \<exists>msg. dump_escaped s False ser = Inl (Throw (Type_error 316 msg))"
proof -
  let ?e = "\<lparr>e_out = out ser, e_state = 0, e_codepoint = 0, string_buffer = [],
             bytes_after_last_accept = 0, undumped_chars = 0\<rparr>"
  have "loop_ok ?e" by (simp add: loop_ok_def)
  from dump_escaped_loop_strict [OF this, where i = 0 and bs = s] show ?thesis
    using assms
    by (auto simp: dump_escaped_def utf8_valid_def contents_def write_characters_def
        type_error_create_def split: sum.splits)
qed

end
