(* ===== verification/Json_Lexer_Facts.thy ===== *)
theory Json_Lexer_Facts
  imports Json_Lexer Json_Text
begin

text \<open>
  The lexer seen as a reader of a byte list: \<open>unread\<close> is what \<open>get\<close> will still deliver,
  whether from the input or by an \<open>unget\<close>. With it: what is accepted as a string is
  well-formed UTF-8, and the escaped form of a string scans to the string.
\<close>

section \<open>The unread input\<close>

definition unread :: "'f lexer \<Rightarrow> byte list" where
  "unread l = (if next_unget l \<and> current l \<noteq> EOF then [word_of_int (current l)] else []) @ ia l"

definition lex_ok :: "'f lexer \<Rightarrow> bool" where
  "lex_ok l \<longleftrightarrow> EOF \<le> current l \<and> current l < 256 \<and> (next_unget l \<and> current l = EOF \<longrightarrow> ia l = [])
     \<and> \<not> ignore_comments l"

definition total :: "'f lexer \<Rightarrow> nat" where
  "total l = chars_read_total (pos l)"

lemma uint_byte [simp]:
  "uint (b :: byte) < 256" "EOF \<le> uint b" "uint b \<noteq> EOF" "EOF \<noteq> uint b"
proof -
  have "0 \<le> uint b" by simp
  then show "EOF \<le> uint b" "uint b \<noteq> EOF" "EOF \<noteq> uint b" by linarith+
  show "uint b < 256" using uint_lt2p [of b] by simp
qed

lemma lex_ok_get [simp]: "lex_ok l \<Longrightarrow> lex_ok (get l)"
  by (auto simp: lex_ok_def get_character_def split: list.splits)

lemma total_simps [simp]:
  "total (get l) = total l + 1" "total (add c l) = total l" "total (reset l) = total l"
  "total (fail m l) = total l" "total (unget l) = total l - 1"
  by (auto simp: total_def get_def count_char_def read_char_def record_char_def count_line_def
      unget_def unget_position_def Let_def)

lemma lex_ok_add [simp]: "lex_ok (add c l) = lex_ok l"
  and lex_ok_fail [simp]: "lex_ok (fail m l) = lex_ok l"
  and lex_ok_reset [simp]: "lex_ok (reset l) = lex_ok l"
  by (simp_all add: lex_ok_def)

lemma unread_add [simp]: "unread (add c l) = unread l"
  and unread_fail [simp]: "unread (fail m l) = unread l"
  and unread_reset [simp]: "unread (reset l) = unread l"
  by (simp_all add: unread_def)

lemma unread_get_Cons:
  assumes "lex_ok l" "unread l = b # bs"
  shows "current (get l) = uint b" "unread (get l) = bs"
  using assms
  by (auto simp: unread_def lex_ok_def get_character_def uint_word_of_int_eq take_bit_int_eq_self
      split: if_splits)

lemma unread_get_Nil:
  assumes "lex_ok l" "unread l = []"
  shows "current (get l) = EOF" "unread (get l) = []"
  using assms by (auto simp: unread_def lex_ok_def get_character_def split: if_splits)

lemma unread_unget:
  assumes "lex_ok l" "\<not> next_unget l"
  shows "unread (unget l) = (if current l = EOF then [] else [word_of_int (current l)]) @ ia l"
  using assms by (simp add: unread_def)

lemma get_unget:
  assumes "lex_ok l"
  shows "unread l = b # bs \<Longrightarrow> unread (unget (get l)) = b # bs"
    and "unread l = [] \<Longrightarrow> unread (unget (get l)) = []"
  using assms
  by (auto simp: unread_def lex_ok_def get_character_def split: if_splits list.splits)

lemma lex_ok_unget_get: "lex_ok l \<Longrightarrow> ia l = [] \<or> current (get l) \<noteq> EOF \<Longrightarrow> lex_ok (unget (get l))"
  using lex_ok_get [of l] by (auto simp: lex_ok_def get_character_def)

declare get_simps(1,2) [simp del]

section \<open>Strings are well-formed\<close>

definition follows :: "(byte \<times> byte) list \<Rightarrow> byte list \<Rightarrow> bool" where
  "follows = list_all2 (\<lambda>(lo, hi) b. lo \<le> b \<and> b \<le> hi)"

lemma follows_Nil [simp]: "follows [] ts \<longleftrightarrow> ts = []"
  by (simp add: follows_def)

lemma follows_Cons:
  "follows ((lo, hi) # rs) ts \<longleftrightarrow> (\<exists>t ts'. ts = t # ts' \<and> lo \<le> t \<and> t \<le> hi \<and> follows rs ts')"
  by (simp add: follows_def list_all2_Cons1)

lemma utf8_from_follows:
  "utf8_from rs bs \<longleftrightarrow> (\<exists>ts rest. bs = ts @ rest \<and> follows rs ts \<and> utf8_from [] rest)"
proof (induction rs arbitrary: bs)
  case Nil
  then show ?case by simp
next
  case (Cons r rs)
  obtain lo hi where r: "r = (lo, hi)" by (cases r)
  show ?case
  proof (cases bs)
    case Nil
    then show ?thesis by (simp add: r follows_Cons)
  next
    case (Cons b bs')
    then show ?thesis
      by (auto simp: r Cons.IH follows_Cons Cons_eq_append_conv)
  qed
qed

lemma utf8_valid_Cons:
  "utf8_valid (b # bs) \<longleftrightarrow> (\<exists>rs ts rest. byte_ranges b = Some rs \<and> bs = ts @ rest \<and> follows rs ts \<and> utf8_valid rest)"
  by (auto simp: utf8_valid_def utf8_from_follows [of _ bs] split: option.split)

lemma utf8_from_append: "utf8_from rs s \<Longrightarrow> utf8_valid t \<Longrightarrow> utf8_from rs (s @ t)"
  by (induction rs s rule: utf8_from.induct) (auto simp: utf8_valid_def split: option.splits)

lemma utf8_valid_append: "utf8_valid s \<Longrightarrow> utf8_valid t \<Longrightarrow> utf8_valid (s @ t)"
  using utf8_from_append by (simp add: utf8_valid_def)

lemma utf8_valid_Nil [simp]: "utf8_valid []"
  by (simp add: utf8_valid_def)

lemma utf8_valid_sequence: "byte_ranges b = Some rs \<Longrightarrow> follows rs ts \<Longrightarrow> utf8_valid (b # ts)"
  using utf8_valid_Cons [of b ts] by force

lemma utf8_valid_ascii: "b \<le> 0x7F \<Longrightarrow> utf8_valid [b]"
  by (rule utf8_valid_sequence [of b "[]"]) (simp_all add: byte_ranges_def)

abbreviation int_ranges :: "(byte \<times> byte) list \<Rightarrow> (int \<times> int) list" where
  "int_ranges \<equiv> map (\<lambda>(lo, hi). (uint lo, uint hi))"

lemma following_bytes:
  assumes "0x20 \<le> b"
  shows "following_bytes (uint b) = map_option int_ranges (byte_ranges b)"
proof -
  have "b \<le> c \<longleftrightarrow> uint b \<le> uint c" "c \<le> b \<longleftrightarrow> uint c \<le> uint b" "b = c \<longleftrightarrow> uint b = uint c" for c :: byte
    by (auto simp: word_le_def word_uint_eq_iff)
  with assms show ?thesis
    by (simp add: following_bytes_def byte_ranges_def)
qed

lemma word_of_current: "lo \<le> c \<and> c \<le> hi \<longleftrightarrow> uint lo \<le> uint c \<and> uint c \<le> uint (hi :: byte)"
  by (simp add: word_le_def)

lemma next_bytes_follows:
  assumes "next_bytes (int_ranges rs) l = (True, l')"
  shows "\<exists>ts. follows rs ts \<and> token_buffer l' = token_buffer l @ ts"
  using assms
proof (induction rs arbitrary: l)
  case (Cons r rs)
  obtain lo hi where r: "r = (lo, hi)" by (cases r)
  let ?c = "current (get l)" and ?w = "word_of_int (current (get l)) :: byte"
  have c: "uint lo \<le> ?c" "?c \<le> uint hi"
    and rec: "next_bytes (int_ranges rs) (add ?c (get l)) = (True, l')"
    using Cons.prems by (auto simp: r Let_def simp del: get_simps split: if_splits)
  have "0 \<le> ?c" by (rule order_trans [OF _ c(1)]) simp
  moreover have "?c < 256" by (rule le_less_trans [OF c(2)]) simp
  ultimately have "uint ?w = ?c"
    by (simp add: uint_word_of_int_eq take_bit_int_eq_self)
  then have w: "lo \<le> ?w" "?w \<le> hi" using c by (simp_all add: word_le_def)
  obtain ts where "follows rs ts" "token_buffer l' = token_buffer (add ?c (get l)) @ ts"
    using Cons.IH [OF rec] by blast
  with w show ?case
    by (intro exI [of _ "?w # ts"]) (simp add: r follows_Cons)
qed simp

lemma next_bytes_reads:
  assumes "follows rs ts" "unread l = ts @ rest" "lex_ok l"
  shows "\<exists>l'. next_bytes (int_ranges rs) l = (True, l') \<and> token_buffer l' = token_buffer l @ ts \<and>
    unread l' = rest \<and> lex_ok l' \<and> total l \<le> total l'"
  using assms
proof (induction rs arbitrary: l ts)
  case (Cons r rs)
  obtain lo hi where r: "r = (lo, hi)" by (cases r)
  obtain b ts' where ts: "ts = b # ts'" and b: "lo \<le> b" "b \<le> hi" and f: "follows rs ts'"
    using Cons.prems(1) by (auto simp: r follows_Cons)
  have g: "current (get l) = uint b" "unread (get l) = ts' @ rest"
    using unread_get_Cons [OF Cons.prems(3)] Cons.prems(2) ts by simp_all
  with Cons.IH [OF f, of "add (current (get l)) (get l)"] Cons.prems(3) b ts
  show ?case by (fastforce simp: r Let_def word_le_def)
qed simp

section \<open>Code points\<close>

lemma or_plus:
  assumes "0 \<le> x" "x < 2 ^ n" "take_bit n y = 0"
  shows "y OR x = y + (x :: int)"
proof -
  have "y AND x = 0"
  proof (rule bit_eqI)
    fix k
    have "bit y k \<Longrightarrow> n \<le> k"
      using assms(3) by (metis bit_take_bit_iff bit_0_eq bot_apply linorder_not_less bot_bool_def)
    moreover have "bit x k \<Longrightarrow> k < n"
      using assms(1,2) by (metis bit_take_bit_iff take_bit_int_eq_self)
    ultimately show "bit (y AND x) k \<longleftrightarrow> bit (0 :: int) k" by (auto simp: bit_simps)
  qed
  then show ?thesis by (simp add: disjunctive_add_eq_or)
qed

lemma and_63: "x AND 0x3F = x mod (64 :: int)"
proof -
  have "x AND mask 6 = x mod 64"
    by (simp only: take_bit_eq_mask [symmetric] take_bit_eq_mod) simp
  moreover have "(0x3F :: int) = mask 6" by (simp add: mask_eq_exp_minus_1)
  ultimately show ?thesis by (simp only:)
qed

lemma continuation_byte: "0x80 OR (x AND 0x3F) = 0x80 + x mod (64 :: int)"
  by (simp only: and_63) (rule or_plus [where n = 7], auto intro: less_trans [of _ 64])

lemma lead_bytes:
  "0 \<le> x \<Longrightarrow> x < 32 \<Longrightarrow> 0xC0 OR x = 0xC0 + (x :: int)"
  "0 \<le> x \<Longrightarrow> x < 16 \<Longrightarrow> 0xE0 OR x = 0xE0 + (x :: int)"
  "0 \<le> x \<Longrightarrow> x < 8 \<Longrightarrow> 0xF0 OR x = 0xF0 + (x :: int)"
  by (rule or_plus [where n = 5], simp_all) (rule or_plus [where n = 4], simp_all, rule or_plus [where n = 3], simp_all)

lemma byte_le: "0 \<le> k \<Longrightarrow> k < 256 \<Longrightarrow> lo \<le> (word_of_int k :: byte) \<longleftrightarrow> uint lo \<le> k"
  and byte_ge: "0 \<le> k \<Longrightarrow> k < 256 \<Longrightarrow> (word_of_int k :: byte) \<le> hi \<longleftrightarrow> k \<le> uint hi"
  and byte_eq: "0 \<le> k \<Longrightarrow> k < 256 \<Longrightarrow> (word_of_int k :: byte) = c \<longleftrightarrow> k = uint c"
  by (auto simp: word_le_def word_uint_eq_iff uint_word_of_int_eq take_bit_int_eq_self)

text \<open>The bytes of a code point that is not a surrogate.\<close>

definition utf8_encode :: "int \<Rightarrow> byte list" where
  "utf8_encode cp =
     map word_of_int
       (if cp < 0x80 then [cp]
        else if cp \<le> 0x7FF then [0xC0 + cp div 64, 0x80 + cp mod 64]
        else if cp \<le> 0xFFFF then [0xE0 + cp div 4096, 0x80 + cp div 64 mod 64, 0x80 + cp mod 64]
        else [0xF0 + cp div 262144, 0x80 + cp div 4096 mod 64, 0x80 + cp div 64 mod 64,
              0x80 + cp mod 64])"

lemma add_codepoint_encode:
  assumes "0 \<le> cp" "cp \<le> 0x10FFFF"
  shows "token_buffer (add_codepoint cp l) = token_buffer l @ utf8_encode cp"
proof -
  have "cp \<le> 0x7FF \<Longrightarrow> 0xC0 OR drop_bit 6 cp = 0xC0 + cp div 64"
    using assms lead_bytes(1) [of "cp div 64"] by (simp add: drop_bit_eq_div)
  moreover have "cp \<le> 0xFFFF \<Longrightarrow> 0xE0 OR drop_bit 12 cp = 0xE0 + cp div 4096"
    using assms lead_bytes(2) [of "cp div 4096"] by (simp add: drop_bit_eq_div)
  moreover have "0xF0 OR drop_bit 18 cp = 0xF0 + cp div 262144"
    using assms lead_bytes(3) [of "cp div 262144"] by (simp add: drop_bit_eq_div)
  ultimately show ?thesis
    by (auto simp: add_codepoint_def utf8_encode_def continuation_byte drop_bit_eq_div)
qed

lemma byte_ranges_of_int:
  assumes "0 \<le> k" "k < 256"
  shows "byte_ranges (word_of_int k) =
     (if k \<le> 0x7F then Some []
      else if 0xC2 \<le> k \<and> k \<le> 0xDF then Some [(0x80, 0xBF)]
      else if k = 0xE0 then Some [(0xA0, 0xBF), (0x80, 0xBF)]
      else if 0xE1 \<le> k \<and> k \<le> 0xEC \<or> k = 0xEE \<or> k = 0xEF then Some [(0x80, 0xBF), (0x80, 0xBF)]
      else if k = 0xED then Some [(0x80, 0x9F), (0x80, 0xBF)]
      else if k = 0xF0 then Some [(0x90, 0xBF), (0x80, 0xBF), (0x80, 0xBF)]
      else if 0xF1 \<le> k \<and> k \<le> 0xF3 then Some [(0x80, 0xBF), (0x80, 0xBF), (0x80, 0xBF)]
      else if k = 0xF4 then Some [(0x80, 0x8F), (0x80, 0xBF), (0x80, 0xBF)]
      else None)"
  using assms by (simp add: byte_ranges_def byte_le byte_ge byte_eq)

lemma utf8_valid_2:
  "0xC2 \<le> a \<Longrightarrow> a \<le> 0xDF \<Longrightarrow> 0x80 \<le> b \<Longrightarrow> b \<le> 0xBF \<Longrightarrow> utf8_valid (map word_of_int [a, b])"
  by (simp add: utf8_valid_def byte_ranges_of_int byte_le byte_ge)

lemma utf8_valid_3:
  "0xE0 \<le> a \<Longrightarrow> a \<le> 0xEF \<Longrightarrow> 0x80 \<le> b \<Longrightarrow> b \<le> 0xBF \<Longrightarrow> 0x80 \<le> c \<Longrightarrow> c \<le> 0xBF \<Longrightarrow>
   a = 0xE0 \<longrightarrow> 0xA0 \<le> b \<Longrightarrow> a = 0xED \<longrightarrow> b \<le> 0x9F \<Longrightarrow> utf8_valid (map word_of_int [a, b, c])"
  by (simp add: utf8_valid_def byte_ranges_of_int byte_le byte_ge)

lemma utf8_valid_4:
  "0xF0 \<le> a \<Longrightarrow> a \<le> 0xF4 \<Longrightarrow> 0x80 \<le> b \<Longrightarrow> b \<le> 0xBF \<Longrightarrow> 0x80 \<le> c \<Longrightarrow> c \<le> 0xBF \<Longrightarrow>
   0x80 \<le> d \<Longrightarrow> d \<le> 0xBF \<Longrightarrow> a = 0xF0 \<longrightarrow> 0x90 \<le> b \<Longrightarrow> a = 0xF4 \<longrightarrow> b \<le> 0x8F \<Longrightarrow>
   utf8_valid (map word_of_int [a, b, c, d])"
  by (simp add: utf8_valid_def byte_ranges_of_int byte_le byte_ge)

lemma utf8_valid_parts:
  "2 \<le> h \<Longrightarrow> h < 32 \<Longrightarrow> 0 \<le> k \<Longrightarrow> k < 64 \<Longrightarrow> utf8_valid (map word_of_int [0xC0 + h, 0x80 + k])"
  "0 \<le> h \<Longrightarrow> h < 16 \<Longrightarrow> 0 \<le> m \<Longrightarrow> m < 64 \<Longrightarrow> 0 \<le> k \<Longrightarrow> k < 64 \<Longrightarrow> h = 0 \<longrightarrow> 32 \<le> m \<Longrightarrow>
   h = 13 \<longrightarrow> m < 32 \<Longrightarrow> utf8_valid (map word_of_int [0xE0 + h, 0x80 + m, 0x80 + k])"
  "0 \<le> h \<Longrightarrow> h \<le> 4 \<Longrightarrow> 0 \<le> m \<Longrightarrow> m < 64 \<Longrightarrow> 0 \<le> i \<Longrightarrow> i < 64 \<Longrightarrow> 0 \<le> k \<Longrightarrow> k < 64 \<Longrightarrow>
   h = 0 \<longrightarrow> 16 \<le> m \<Longrightarrow> h = 4 \<longrightarrow> m < 16 \<Longrightarrow>
   utf8_valid (map word_of_int [0xF0 + h, 0x80 + m, 0x80 + i, 0x80 + k])"
  apply (rule utf8_valid_2; simp)
  apply (rule utf8_valid_3; auto)
  apply (rule utf8_valid_4; auto)
  done

lemma utf8_valid_encode:
  assumes "0 \<le> cp" "cp \<le> 0x10FFFF" "cp < 0xD800 \<or> 0xDFFF < cp"
  shows "utf8_valid (utf8_encode cp)"
proof -
  have b: "0 \<le> x mod 64" "x mod 64 < 64" for x :: int by simp_all
  consider "cp < 0x80" | "0x80 \<le> cp" "cp \<le> 0x7FF" | "0x7FF < cp" "cp \<le> 0xFFFF" | "0xFFFF < cp"
    by linarith
  then show ?thesis
  proof cases
    case 1
    with assms(1) show ?thesis by (simp add: utf8_encode_def utf8_valid_ascii byte_ge)
  next
    case 2
    have "2 \<le> cp div 64" "cp div 64 < 32" using 2 by linarith+
    then have "utf8_valid (map word_of_int [0xC0 + cp div 64, 0x80 + cp mod 64])"
      using b [of cp] by (intro utf8_valid_parts)
    with 2 show ?thesis by (simp add: utf8_encode_def)
  next
    case 3
    let ?h = "cp div 4096" and ?m = "cp div 64 mod 64"
    have h: "0 \<le> ?h" "?h < 16" using 3 by linarith+
    have e: "cp div 64 = 64 * ?h + ?m" 
      using zdiv_zmult2_eq [of 64 cp 64] mult_div_mod_eq [of 64 "cp div 64"] by simp
    have "?h = 0 \<longrightarrow> 32 \<le> ?m" using 3 e by linarith
    moreover have "?h = 13 \<longrightarrow> ?m < 32" using assms(3) e by linarith
    ultimately have "utf8_valid (map word_of_int [0xE0 + ?h, 0x80 + ?m, 0x80 + cp mod 64])"
      by (intro utf8_valid_parts h b)
    with 3 show ?thesis by (simp add: utf8_encode_def)
  next
    case 4
    let ?h = "cp div 262144" and ?m = "cp div 4096 mod 64"
    have h: "0 \<le> ?h" "?h \<le> 4" using 4 assms(2) by linarith+
    have e: "cp div 4096 = 64 * ?h + ?m" 
      using zdiv_zmult2_eq [of 64 cp 4096] mult_div_mod_eq [of 64 "cp div 4096"] by simp
    have "?h = 0 \<longrightarrow> 16 \<le> ?m" using 4 e by linarith
    moreover have "?h = 4 \<longrightarrow> ?m < 16" using assms(2) e by linarith
    ultimately have "utf8_valid (map word_of_int
        [0xF0 + ?h, 0x80 + ?m, 0x80 + cp div 64 mod 64, 0x80 + cp mod 64])"
      by (intro utf8_valid_parts h b)
    with 4 show ?thesis by (simp add: utf8_encode_def)
  qed
qed

lemma get_codepoint_range:
  assumes "get_codepoint l = (cp, l')"
  shows "cp = -1 \<or> 0 \<le> cp \<and> cp \<le> 0xFFFF" and "token_buffer l' = token_buffer l"
proof -
  have hex: "hex_value c = Some d \<Longrightarrow> 0 \<le> d \<and> d \<le> 15" for c d
    by (auto simp: hex_value_def split: if_splits)
  have buf: "token_buffer (snd (get_codepoint_loop fs n l)) = token_buffer l" for fs n and l :: "'a lexer"
    by (induction fs arbitrary: n l) (auto simp: Let_def split: option.split)
  then show "token_buffer l' = token_buffer l"
    using assms unfolding get_codepoint_def by (metis snd_conv)
  have range: "get_codepoint_loop fs n l = (cp, l') \<Longrightarrow>
      cp = -1 \<or> n \<le> cp \<and> cp \<le> n + 15 * (\<Sum>f\<leftarrow>fs. 2 ^ f)" for fs n and l :: "'a lexer"
  proof (induction fs arbitrary: n l)
    case (Cons f fs)
    show ?case
    proof (cases "hex_value (current (get l))")
      case (Some d)
      define p where "p = push_bit f d"
      have "0 \<le> p" "p \<le> 15 * 2 ^ f"
        using hex [OF Some] by (simp_all add: p_def push_bit_eq_mult)
      with Some Cons.IH [of "n + p" "get l"] Cons.prems show ?thesis
        by (auto simp: Let_def algebra_simps p_def [symmetric])
    qed (use Cons.prems in \<open>simp add: Let_def\<close>)
  qed simp
  then show "cp = -1 \<or> 0 \<le> cp \<and> cp \<le> 0xFFFF"
    using assms range [of "[12, 8, 4, 0]" 0 l] by (simp add: get_codepoint_def)
qed

lemma surrogate_pair:
  assumes "0xD800 \<le> c1" "c1 \<le> 0xDBFF" "0xDC00 \<le> c2" "c2 \<le> 0xDFFF"
  shows "uint (push_bit 10 (word_of_int c1) + word_of_int c2 - 0x35FDC00 :: u32)
    = c1 * 1024 + c2 - 0x35FDC00"
proof -
  have "push_bit 10 (word_of_int c1) + word_of_int c2 - 0x35FDC00
      = (word_of_int (c1 * 1024 + c2 - 0x35FDC00) :: u32)"
    by (simp add: push_bit_eq_mult)
  moreover have "uint (word_of_int k :: u32) = k" if "0 \<le> k" "k < 2 ^ 32" for k
    using that by (simp only: uint_word_of_int) simp
  ultimately show ?thesis using assms by (simp del: of_int_add of_int_diff of_int_mult)
qed

definition well_extends :: "'f lexer \<Rightarrow> 'f lexer \<Rightarrow> bool" where
  "well_extends l l' \<longleftrightarrow> (\<exists>s. token_buffer l' = token_buffer l @ s \<and> utf8_valid s)"

lemma well_extends_trans: "well_extends l l1 \<Longrightarrow> well_extends l1 l2 \<Longrightarrow> well_extends l l2"
  by (auto simp: well_extends_def intro: utf8_valid_append)

lemma well_extends_add_codepoint:
  assumes "0 \<le> cp" "cp \<le> 0x10FFFF" "cp < 0xD800 \<or> 0xDFFF < cp" "token_buffer l1 = token_buffer l"
  shows "well_extends l (add_codepoint cp l1)"
  using add_codepoint_encode [OF assms(1,2), of l1] utf8_valid_encode [OF assms(1-3)] assms(4)
  by (auto simp: well_extends_def)

lemma well_extends_scan_unicode:
  assumes "scan_unicode l = (True, l')"
  shows "well_extends l l'"
proof -
  obtain c1 l1 where 1: "get_codepoint l = (c1, l1)" by fastforce
  obtain c2 l2 where 2: "get_codepoint (get (get l1)) = (c2, l2)" by fastforce
  note r1 = get_codepoint_range [OF 1] and r2 = get_codepoint_range [OF 2]
  show ?thesis
  proof (cases "0xD800 \<le> c1 \<and> c1 \<le> 0xDBFF")
    case True
    then have "0xDC00 \<le> c2 \<and> c2 \<le> 0xDFFF"
      and l': "l' = add_codepoint (uint (push_bit 10 (word_of_int c1) + word_of_int c2 - 0x35FDC00 :: u32)) l2"
      using assms 1 2 by (auto simp: scan_unicode_def Let_def split: if_splits)
    with True show ?thesis
      using r1(2) r2(2) by (simp only: surrogate_pair) (rule well_extends_add_codepoint, simp_all)
  next
    case False
    with assms 1 r1 show ?thesis
      by (auto simp: scan_unicode_def Let_def intro!: well_extends_add_codepoint
          split: if_splits)
  qed
qed

lemma well_extends_add_ascii: "0 \<le> c \<Longrightarrow> c < 0x80 \<Longrightarrow> token_buffer l1 = token_buffer l \<Longrightarrow> well_extends l (add c l1)"
  by (auto simp: well_extends_def byte_ge intro!: utf8_valid_ascii)

lemma well_extends_scan_escape:
  assumes "scan_escape l = (True, l')"
  shows "well_extends l l'"
proof (cases "current (get l) = 0x75")
  case True
  then have "scan_unicode (get l) = (True, l')"
    using assms by (simp add: scan_escape_def Let_def)
  from well_extends_scan_unicode [OF this] show ?thesis by (simp add: well_extends_def)
next
  case False
  with assms show ?thesis
    by (auto simp: scan_escape_def Let_def split: if_splits
        intro!: well_extends_add_ascii)
qed

lemma well_extends_step:
  assumes "scan_string_step l = Inr l'" "lex_ok l"
  shows "well_extends l l'"
proof -
  let ?c = "current (get l)"
  have c: "EOF \<le> ?c" "?c < 256" using lex_ok_get [OF assms(2)] unfolding lex_ok_def by blast+
  show ?thesis
  proof (cases "?c = 0x5C")
    case True
    then have "scan_escape (get l) = (True, l')"
      using assms(1) by (auto simp: scan_string_step_def Let_def split: prod.splits if_splits)
    from well_extends_scan_escape [OF this] show ?thesis by (simp add: well_extends_def)
  next
    case False
    let ?b = "word_of_int ?c :: byte"
    obtain ranges where hi: "0x1F < ?c" and f: "following_bytes ?c = Some ranges"
      and n: "next_bytes ranges (add ?c (get l)) = (True, l')"
      using assms(1) False
      by (auto simp: scan_string_step_def Let_def next_byte_in_range_def
          split: prod.splits if_splits option.splits)
    have u: "uint ?b = ?c" using hi c by (simp add: uint_word_of_int_eq take_bit_int_eq_self)
    have "0x20 \<le> ?b" using hi c by (simp add: byte_le)
    from following_bytes [OF this] f u obtain rs where rs: "byte_ranges ?b = Some rs" "ranges = int_ranges rs"
      by (cases "byte_ranges ?b") auto
    obtain ts where "follows rs ts" "token_buffer l' = token_buffer (add ?c (get l)) @ ts"
      using next_bytes_follows n rs(2) by blast
    with rs(1) show ?thesis
      by (auto simp: well_extends_def intro: utf8_valid_sequence)
  qed
qed

lemma lex_ok_current: "lex_ok l \<Longrightarrow> EOF \<le> current l \<and> current l < 256"
  by (simp add: lex_ok_def)

text \<open>The frame of the string scanner: the lexer stays well-formed.\<close>

lemma lex_ok_next_bytes: "lex_ok l \<Longrightarrow> lex_ok (snd (next_bytes rs l))"
proof (induction rs arbitrary: l)
  case (Cons r rs)
  then show ?case by (cases r) (simp add: Let_def)
qed simp

lemma lex_ok_get_codepoint: "lex_ok l \<Longrightarrow> lex_ok (snd (get_codepoint l))"
proof -
  have "lex_ok l \<Longrightarrow> lex_ok (snd (get_codepoint_loop fs n l))" for fs n and l :: "'a lexer"
    by (induction fs arbitrary: n l) (simp_all add: Let_def split: option.split)
  then show "lex_ok l \<Longrightarrow> ?thesis" by (simp add: get_codepoint_def del: get_codepoint_loop.simps)
qed

lemma lex_ok_add_codepoint [simp]: "lex_ok (add_codepoint c l) = lex_ok l"
  by (simp add: add_codepoint_def)

lemma lex_ok_scan_unicode:
  assumes "lex_ok l"
  shows "lex_ok (snd (scan_unicode l))"
proof -
  obtain c1 l1 where 1: "get_codepoint l = (c1, l1)" by fastforce
  obtain c2 l2 where 2: "get_codepoint (get (get l1)) = (c2, l2)" by fastforce
  have "lex_ok l1" using lex_ok_get_codepoint [OF assms] 1 by simp
  moreover from this have "lex_ok l2" using lex_ok_get_codepoint [of "get (get l1)"] 2 by simp
  ultimately show ?thesis using 1 2 by (simp add: scan_unicode_def Let_def)
qed

lemma lex_ok_scan_escape: "lex_ok l \<Longrightarrow> lex_ok (snd (scan_escape l))"
  by (simp add: scan_escape_def Let_def lex_ok_scan_unicode)

lemma lex_ok_scan_string_step:
  assumes "lex_ok l"
  shows "scan_string_step l = Inr l' \<Longrightarrow> lex_ok l'" and "scan_string_step l = Inl (t, l') \<Longrightarrow> lex_ok l'"
proof -
  have 1: "scan_escape (get l) = (b, m) \<Longrightarrow> lex_ok m" for b m
    using lex_ok_scan_escape [of "get l"] assms by simp
  have 2: "next_bytes rs (add c (get l)) = (b, m) \<Longrightarrow> lex_ok m" for rs c b m
    using lex_ok_next_bytes [of "add c (get l)" rs] assms by simp
  show "scan_string_step l = Inr l' \<Longrightarrow> lex_ok l'" "scan_string_step l = Inl (t, l') \<Longrightarrow> lex_ok l'"
    using assms 1 2
    by (auto simp: scan_string_step_def Let_def next_byte_in_range_def
        split: if_splits prod.splits option.splits)
qed

lemma scan_string_loop_valid:
  assumes "scan_string_loop l = (t, l')" "lex_ok l"
  shows "lex_ok l' \<and> (t = T_value_string \<longrightarrow> well_extends l l')"
  using assms
proof (induction l rule: scan_string_loop.induct)
  case (1 l)
  show ?case
  proof (cases "scan_string_step l")
    case (Inl r)
    then have "scan_string_step l = Inl (t, l')"
      using "1.prems"(1) by (subst (asm) scan_string_loop.simps) simp
    moreover from this have "t = T_value_string \<Longrightarrow> token_buffer l' = token_buffer l"
      by (auto simp: scan_string_step_def Let_def split: if_splits prod.splits option.splits)
    ultimately show ?thesis
      using lex_ok_scan_string_step(2) [OF "1.prems"(2)] by (auto simp: well_extends_def)
  next
    case (Inr m)
    then have "scan_string_loop m = (t, l')"
      using "1.prems"(1) by (subst (asm) scan_string_loop.simps) simp
    with 1 Inr lex_ok_scan_string_step(1) [OF "1.prems"(2) Inr] well_extends_step [OF Inr "1.prems"(2)]
    show ?thesis by (auto intro: well_extends_trans)
  qed
qed

lemma scan_string_valid:
  assumes "scan_string l = (T_value_string, l')" "lex_ok l"
  shows "utf8_valid (token_buffer l')" and "lex_ok l'"
  using scan_string_loop_valid [of "reset l" T_value_string l'] assms
  by (auto simp: scan_string_def well_extends_def)

section \<open>Scanning an escaped string\<close>

text \<open>\<open>l\<close> goes over to \<open>l'\<close>, which has \<open>rest\<close> to read and \<open>s\<close> more in its buffer.\<close>

definition consumes :: "'f lexer \<Rightarrow> 'f lexer \<Rightarrow> byte list \<Rightarrow> byte list \<Rightarrow> bool" where
  "consumes l l' s rest \<longleftrightarrow>
     lex_ok l' \<and> unread l' = rest \<and> token_buffer l' = token_buffer l @ s \<and> total l \<le> total l'"

lemma hex_digit_lower_value:
  "n < 16 \<Longrightarrow> hex_value (uint (hex_digit_lower n)) = Some (int n)"
  by (auto simp: hex_digit_lower_def hex_value_def uint_digit uint_word_ariths unsigned_of_nat
      take_bit_eq_mod)

lemma consumes_get:
  "lex_ok l \<Longrightarrow> unread l = b # rest \<Longrightarrow> consumes l (get l) [] rest"
  by (simp add: consumes_def unread_get_Cons)

lemma consumes_trans:
  "consumes l l1 s r1 \<Longrightarrow> consumes l1 l2 t r2 \<Longrightarrow> consumes l l2 (s @ t) r2"
  by (auto simp: consumes_def)

lemma consumes_add: "consumes l l1 s rest \<Longrightarrow> consumes l (add c l1) (s @ [word_of_int c]) rest"
  by (simp add: consumes_def)

lemma get_codepoint_loop_hex:
  assumes "lex_ok l" "unread l = hex_digit_lower d # rest" "d < 16"
  shows "get_codepoint_loop (f # fs) n l = get_codepoint_loop fs (n + push_bit f (int d)) (get l)"
  using unread_get_Cons [OF assms(1,2)] hex_digit_lower_value [OF assms(3)] by (simp add: Let_def)

lemma get_codepoint_hex4:
  assumes "lex_ok l" "unread l = hex4 n @ rest" "n < 65536"
  shows "\<exists>l'. get_codepoint l = (int n, l') \<and> consumes l l' [] rest"
proof -
  let ?a = "n div 4096 mod 16" and ?b = "n div 256 mod 16" and ?c = "n div 16 mod 16" and ?d = "n mod 16"
  let ?l1 = "get l" and ?l2 = "get (get l)" and ?l3 = "get (get (get l))"
  let ?l4 = "get (get (get (get l)))"
  have u: "unread l = hex_digit_lower ?a # hex_digit_lower ?b # hex_digit_lower ?c # hex_digit_lower ?d # rest"
    using assms(2) by (simp add: hex4_def)
  note c1 = consumes_get [OF assms(1) u]
  then have ok1: "lex_ok ?l1" "unread ?l1 = hex_digit_lower ?b # hex_digit_lower ?c # hex_digit_lower ?d # rest"
    by (simp_all add: consumes_def)
  note c2 = consumes_get [OF ok1]
  then have ok2: "lex_ok ?l2" "unread ?l2 = hex_digit_lower ?c # hex_digit_lower ?d # rest"
    by (simp_all add: consumes_def)
  note c3 = consumes_get [OF ok2]
  then have ok3: "lex_ok ?l3" "unread ?l3 = hex_digit_lower ?d # rest"
    by (simp_all add: consumes_def)
  note c4 = consumes_get [OF ok3]
  have "n div 256 = n div 16 div 16" "n div 4096 = n div 16 div 16 div 16" "n div 4096 < 16"
    using assms(3) by (simp_all add: div_mult2_eq [symmetric] less_mult_imp_div_less)
  then have "?a = n div 16 div 16 div 16" "?b = n div 16 div 16 mod 16" by simp_all
  moreover have m: "x = 16 * (x div 16) + x mod 16" for x :: nat by simp
  ultimately have "n = 4096 * ?a + 256 * ?b + 16 * ?c + ?d"
    using m [of n] m [of "n div 16"] m [of "n div 16 div 16"] by linarith
  then have "int n = 4096 * int ?a + 256 * int ?b + 16 * int ?c + int ?d"
    by linarith
  moreover have "get_codepoint l = (push_bit 12 (int ?a) + push_bit 8 (int ?b) + push_bit 4 (int ?c)
      + push_bit 0 (int ?d), ?l4)"
    unfolding get_codepoint_def
    by (simp only: get_codepoint_loop_hex [OF assms(1) u] get_codepoint_loop_hex [OF ok1]
        get_codepoint_loop_hex [OF ok2] get_codepoint_loop_hex [OF ok3] get_codepoint_loop.simps(1)
        mod_less_divisor) simp
  ultimately have "get_codepoint l = (int n, ?l4)"
    by (simp add: push_bit_eq_mult)
  moreover have "consumes l ?l4 [] rest"
    using consumes_trans [OF consumes_trans [OF consumes_trans [OF c1 c2] c3] c4] by simp
  ultimately show ?thesis by blast
qed

text \<open>One character of an escaped string.\<close>

lemma scan_string_step_escape:
  assumes "lex_ok l" "unread l = 92 # e # rest"
  shows "scan_string_step l =
    (case scan_escape (get l) of (ok, l) \<Rightarrow> if ok then Inr l else Inl (T_parse_error, l))"
    and "consumes l (get (get l)) [] rest" and "current (get (get l)) = uint e"
proof -
  note g = unread_get_Cons [OF assms]
  then show "scan_string_step l =
    (case scan_escape (get l) of (ok, l) \<Rightarrow> if ok then Inr l else Inl (T_parse_error, l))"
    by (simp add: scan_string_step_def Let_def)
  show "consumes l (get (get l)) [] rest"
    using consumes_trans [OF consumes_get [OF assms] consumes_get [of "get l" e rest]] assms(1) g by simp
  show "current (get (get l)) = uint e"
    using unread_get_Cons [of "get l" e rest] assms(1) g by simp
qed

lemma step_short_escape:
  assumes "lex_ok l" "unread l = 92 # e # rest"
    and "(e, b) \<in> {(34, 34), (92, 92), (98, 8), (102, 12), (110, 10), (114, 13), (116, 9)}"
  shows "\<exists>l'. scan_string_step l = Inr l' \<and> consumes l l' [b] rest"
proof -
  note s = scan_string_step_escape [OF assms(1,2)]
  have "scan_escape (get l) = (True, add (uint b) (get (get l)))"
    using assms(3) by (elim insertE emptyE Pair_inject) (simp_all add: scan_escape_def Let_def s(3))
  with s(1) consumes_add [OF s(2), of "uint b"] show ?thesis by simp
qed

lemma step_control:
  assumes "lex_ok l" "unread l = 92 # 117 # hex4 (unat b) @ rest" "b \<le> 0x1F"
  shows "\<exists>l'. scan_string_step l = Inr l' \<and> consumes l l' [b] rest"
proof -
  note s = scan_string_step_escape [OF assms(1,2)]
  have b: "unat b \<le> 31" using assms(3) by (simp add: word_le_nat_alt)
  have b': "uint b \<le> 31" using assms(3) by (simp add: word_le_def)
  obtain l1 where l1: "get_codepoint (get (get l)) = (int (unat b), l1)" "consumes (get (get l)) l1 [] rest"
    using get_codepoint_hex4 [of "get (get l)" "unat b" rest] s(2) b by (auto simp: consumes_def)
  have "scan_escape (get l) = scan_unicode (get (get l))"
    using s(3) by (simp add: scan_escape_def Let_def)
  also have "\<dots> = (True, add (uint b) l1)"
    using l1(1) b' by (simp add: scan_unicode_def add_codepoint_def)
  finally show ?thesis
    using s(1) consumes_add [OF consumes_trans [OF s(2) l1(2)], of "uint b"] by simp
qed

lemma step_sequence:
  assumes "lex_ok l" "unread l = b # ts @ rest" "0x20 \<le> b" "b \<noteq> 0x22" "b \<noteq> 0x5C"
    "byte_ranges b = Some rs" "follows rs ts"
  shows "\<exists>l'. scan_string_step l = Inr l' \<and> consumes l l' (b # ts) rest"
proof -
  note g = unread_get_Cons [OF assms(1,2)]
  have f: "following_bytes (uint b) = Some (int_ranges rs)"
    using following_bytes [OF assms(3)] assms(6) by simp
  have b: "uint b \<noteq> 0x22" "uint b \<noteq> 0x5C" "\<not> uint b \<le> 0x1F"
    using assms(3-5) by (auto simp: word_le_def word_uint_eq_iff)
  obtain l' where l': "next_bytes (int_ranges rs) (add (uint b) (get l)) = (True, l')"
    "token_buffer l' = token_buffer (add (uint b) (get l)) @ ts" "unread l' = rest" "lex_ok l'"
    "total (add (uint b) (get l)) \<le> total l'"
    using next_bytes_reads [OF assms(7), of "add (uint b) (get l)" rest] g assms(1) by auto
  have "scan_string_step l = Inr l'"
    using g f b l'(1) by (simp add: scan_string_step_def Let_def next_byte_in_range_def)
  with l' show ?thesis by (auto simp: consumes_def)
qed

lemma continuation_high:
  assumes "byte_ranges b = Some rs" "follows rs ts"
  shows "escape_text ts = ts"
proof -
  have "\<forall>(lo, hi) \<in> set rs. 0x80 \<le> lo"
    using assms(1) by (auto simp: byte_ranges_def split: if_splits)
  with assms(2) have "\<forall>t \<in> set ts. 0x80 \<le> t"
  proof (induction rs arbitrary: ts)
    case (Cons r rs)
    then show ?case by (cases r) (auto simp: follows_Cons)
  qed simp
  then show ?thesis by (induction ts) (auto simp: escape_byte_high)
qed

lemma byte_ranges_ascii: "b < 0x80 \<Longrightarrow> byte_ranges b = Some []"
  by (simp add: byte_ranges_def word_le_nat_alt word_less_nat_alt)

lemma step_escaped:
  assumes "lex_ok l" "unread l = escape_byte b @ escape_text ts @ rest"
    "byte_ranges b = Some rs" "follows rs ts"
  shows "\<exists>l'. scan_string_step l = Inr l' \<and> consumes l l' (b # ts) rest"
proof -
  have ts: "escape_text ts = ts" using continuation_high assms(3,4) .
  consider "b \<in> {8, 9, 10, 12, 13, 34, 92}"
    | "b \<notin> {8, 9, 10, 12, 13, 34, 92}" "b \<le> 0x1F"
    | "b \<notin> {8, 9, 10, 12, 13, 34, 92}" "\<not> b \<le> 0x1F" by blast
  then show ?thesis
  proof cases
    case 1
    then have "\<exists>e. escape_byte b = [92, e] \<and>
        (e, b) \<in> {(34, 34), (92, 92), (98, 8), (102, 12), (110, 10), (114, 13), (116, 9)}"
      by (auto simp: escape_byte_def)
    then obtain e where e: "escape_byte b = [92, e]"
      "(e, b) \<in> {(34, 34), (92, 92), (98, 8), (102, 12), (110, 10), (114, 13), (116, 9)}" by blast
    have "b < 0x80" using 1 by auto
    with assms(3,4) byte_ranges_ascii have "ts = []" by auto
    with step_short_escape [OF assms(1) _ e(2), of rest] assms(2) e(1) show ?thesis by simp
  next
    case 2
    then have "b < 0x80" by (simp add: word_le_nat_alt word_less_nat_alt)
    with assms(3,4) byte_ranges_ascii have "ts = []" by auto
    moreover have "escape_byte b = 92 # 117 # hex4 (unat b)" using 2 by (simp add: escape_byte_def)
    ultimately show ?thesis
      using step_control [OF assms(1) _ 2(2), of rest] assms(2) by simp
  next
    case 3
    then have "0x20 \<le> b" "b \<noteq> 0x22" "b \<noteq> 0x5C" "escape_byte b = [b]"
      by (auto simp: escape_byte_def word_le_nat_alt)
    note 3 = this
    with step_sequence [OF assms(1) _ 3(1-3) assms(3,4), of rest] assms(2) ts show ?thesis by simp
  qed
qed

text \<open>The escaped form of a well-formed string, up to the closing quote.\<close>

lemma scan_string_loop_escaped:
  assumes "utf8_valid s" "lex_ok l" "unread l = escape_text s @ 34 # rest"
  shows "\<exists>l'. scan_string_loop l = (T_value_string, l') \<and> consumes l l' s rest"
  using assms
proof (induction "length s" arbitrary: s l rule: less_induct)
  case less
  show ?case
  proof (cases s)
    case Nil
    then have "unread l = 34 # rest" using less.prems by simp
    note g = unread_get_Cons [OF less.prems(2) this] consumes_get [OF less.prems(2) this]
    then have "scan_string_step l = Inl (T_value_string, get l)"
      by (simp add: scan_string_step_def Let_def)
    with g Nil show ?thesis by (subst scan_string_loop.simps) simp
  next
    case (Cons b bs)
    then obtain rs ts s' where s: "byte_ranges b = Some rs" "bs = ts @ s'" "follows rs ts" "utf8_valid s'"
      using less.prems(1) utf8_valid_Cons by blast
    have u: "unread l = escape_byte b @ escape_text ts @ escape_text s' @ 34 # rest"
      using less.prems(3) Cons s(2) by simp
    obtain l1 where l1: "scan_string_step l = Inr l1" "consumes l l1 (b # ts) (escape_text s' @ 34 # rest)"
      using step_escaped [OF less.prems(2) u s(1,3)] by blast
    obtain l' where l': "scan_string_loop l1 = (T_value_string, l')" "consumes l1 l' s' rest"
      using less.hyps [of s' l1] l1(2) s Cons by (auto simp: consumes_def)
    have "consumes l l' s rest" using consumes_trans [OF l1(2) l'(2)] Cons s(2) by simp
    with l1(1) l'(1) show ?thesis by (subst scan_string_loop.simps) auto
  qed
qed

lemma scan_string_escaped:
  assumes "utf8_valid s" "lex_ok l" "unread l = escape_text s @ 34 # rest"
  shows "\<exists>l'. scan_string l = (T_value_string, l') \<and> lex_ok l' \<and> unread l' = rest \<and>
    token_buffer l' = s \<and> total l \<le> total l'"
  using scan_string_loop_escaped [of s "reset l" rest] assms
  by (auto simp: scan_string_def consumes_def)

end
