(* ===== verification/Json_Tokens.thy ===== *)
theory Json_Tokens
  imports Json_Lexer_Facts
begin

text \<open>
  The tokens of a JSON text: what \<open>scan\<close> returns for each kind of token and what it leaves
  unread.
\<close>

section \<open>Numbers\<close>

text \<open>What may follow an integer for it to be one.\<close>

definition ends_integer :: "byte list \<Rightarrow> bool" where
  "ends_integer rest \<longleftrightarrow>
     (case rest of [] \<Rightarrow> True | b # _ \<Rightarrow> \<not> is_digit b \<and> b \<noteq> 0x2E \<and> b \<noteq> 0x65 \<and> b \<noteq> 0x45)"

lemma digit_uint: "digit (uint b) \<longleftrightarrow> is_digit b"
  by (simp add: is_digit_def word_le_def)

lemma unread_unget_get:
  assumes "lex_ok l"
  shows "lex_ok (unget (get l))" "unread (unget (get l)) = unread l"
proof -
  show "unread (unget (get l)) = unread l"
    using assms get_unget by (cases "unread l") auto
  show "lex_ok (unget (get l))"
  proof (cases "unread l")
    case Nil
    then have "ia l = []" by (simp add: unread_def)
    with assms show ?thesis by (intro lex_ok_unget_get) auto
  next
    case (Cons b bs)
    with unread_get_Cons [OF assms] assms show ?thesis by (intro lex_ok_unget_get) auto
  qed
qed

lemma scan_number_any1_digits:
  assumes "lex_ok l" "unread l = ds @ rest" "\<forall>d \<in> set ds. is_digit d" "ends_integer rest"
  shows "\<exists>m. scan_number_any1 F ty l = scan_number_done F ty (get m) \<and> lex_ok m \<and>
    unread m = rest \<and> token_buffer m = token_buffer l @ ds \<and> total l \<le> total m"
  using assms
proof (induction ds arbitrary: l)
  case Nil
  have "scan_number_any1 F ty l = scan_number_done F ty (get l)"
  proof (cases rest)
    case Nil
    with Nil.prems unread_get_Nil [of l] show ?thesis
      by (subst scan_number_any1.simps) (simp add: Let_def)
  next
    case (Cons b bs)
    with Nil.prems unread_get_Cons [of l b bs] digit_uint [of b] show ?thesis
      by (subst scan_number_any1.simps) (auto simp: Let_def ends_integer_def word_uint_eq_iff)
  qed
  with Nil.prems show ?case by auto
next
  case (Cons d ds)
  note g = unread_get_Cons [OF Cons.prems(1), of d "ds @ rest"]
  have "scan_number_any1 F ty l = scan_number_any1 F ty (add (uint d) (get l))"
    using Cons.prems g digit_uint [of d] by (subst scan_number_any1.simps) (simp add: Let_def)
  moreover obtain m where
    "scan_number_any1 F ty (add (uint d) (get l)) = scan_number_done F ty (get m)" "lex_ok m"
    "unread m = rest" "token_buffer m = token_buffer (add (uint d) (get l)) @ ds"
    "total (add (uint d) (get l)) \<le> total m"
    using Cons.IH [of "add (uint d) (get l)"] Cons.prems g by auto
  ultimately show ?case by (auto intro!: exI [of _ m])
qed

lemma takeWhile_digits_dec [simp]: "takeWhile is_digit (dec n) = dec n"
  using dec_digits [of n] takeWhile_eq_all_conv by blast

lemma strtoull_dec: "n < 2 ^ 64 \<Longrightarrow> strtoull (dec n) = Some (of_nat n)"
  by (simp add: strtoull_def Let_def)

lemma strtoll_dec: "0 < n \<Longrightarrow> n \<le> 2 ^ 63 \<Longrightarrow> strtoll (45 # dec n) = Some (word_of_int (- int n))"
  by (simp add: strtoll_def Let_def)

lemma dec_0 [simp]: "dec 0 = [48]"
  by (simp add: dec_less_10)

lemma dec_first:
  assumes "0 < n"
  obtains d ds where "dec n = d # ds" "is_digit d" "d \<noteq> 48" "\<forall>d \<in> set ds. is_digit d"
proof -
  obtain d ds where d: "dec n = d # ds" by (cases "dec n") auto
  have "hd (dec n) \<noteq> 48" using assms
  proof (induction n rule: dec.induct)
    case (1 n)
    show ?case
    proof (cases "n < 10")
      case True
      with 1 show ?thesis using uint_digit [of n] by (auto simp: dec_less_10 word_uint_eq_iff)
    next
      case False
      with 1 dec_10 [of n] show ?thesis by simp
    qed
  qed
  with d dec_digits [of n] that show ?thesis by auto
qed

text \<open>What a token leaves: \<open>l'\<close> has \<open>rest\<close> to read.\<close>

definition leaves :: "'f lexer \<Rightarrow> byte list \<Rightarrow> bool" where
  "leaves l rest \<longleftrightarrow> lex_ok l \<and> unread l = rest \<and> 0 < total l"

lemma leaves_update [simp]:
  "leaves (l\<lparr>value_unsigned := x\<rparr>) rest = leaves l rest"
  "leaves (l\<lparr>value_integer := x\<rparr>) rest = leaves l rest"
  by (simp_all add: leaves_def lex_ok_def unread_def total_def)

lemma leaves_unget_get:
  assumes "lex_ok m" "unread m = rest" "0 < total m"
  shows "leaves (unget (get m)) rest"
  using unread_unget_get [OF assms(1)] assms by (simp add: leaves_def)

lemma scan_number_done_unsigned:
  assumes "token_buffer m = dec n" "n < 2 ^ 64" "lex_ok m" "unread m = rest" "0 < total m"
  shows "\<exists>l'. scan_number_done F T_value_unsigned (get m) = (T_value_unsigned, l') \<and>
    value_unsigned l' = of_nat n \<and> leaves l' rest"
  using assms leaves_unget_get [OF assms(3-5)]
  by (simp add: scan_number_done_def Let_def strtoull_dec)

lemma scan_number_done_integer:
  assumes "token_buffer m = 45 # dec n" "0 < n" "n \<le> 2 ^ 63" "lex_ok m" "unread m = rest" "0 < total m"
  shows "\<exists>l'. scan_number_done F T_value_integer (get m) = (T_value_integer, l') \<and>
    value_integer l' = word_of_int (- int n) \<and> leaves l' rest"
  using assms leaves_unget_get [OF assms(4-6)]
  by (simp add: scan_number_done_def Let_def strtoll_dec)

text \<open>The decimal form of an unsigned and of a negative 64-bit integer.\<close>

lemma scan_number_zero_ends:
  assumes "lex_ok l" "unread l = rest" "ends_integer rest"
  shows "scan_number_zero F ty l = scan_number_done F ty (get l)"
proof (cases rest)
  case Nil
  with assms unread_get_Nil [of l] show ?thesis by (simp add: scan_number_zero_def Let_def)
next
  case (Cons b bs)
  with assms unread_get_Cons [of l b bs] show ?thesis
    by (auto simp: scan_number_zero_def Let_def ends_integer_def word_uint_eq_iff)
qed

lemma scan_number_unsigned:
  assumes l: "lex_ok l" "0 < total l" and n: "n < 2 ^ 64" and rest: "ends_integer rest"
    and d: "dec n = d # ds" "current l = uint d" "unread l = ds @ rest"
  shows "\<exists>l'. scan_number F l = (T_value_unsigned, l') \<and> value_unsigned l' = of_nat n \<and> leaves l' rest"
proof (cases "n = 0")
  case True
  let ?m = "add 48 (reset l)"
  have "scan_number F l = scan_number_done F T_value_unsigned (get ?m)"
    using True d scan_number_zero_ends [of ?m rest F T_value_unsigned] l rest
    by (simp add: scan_number_def Let_def)
  with scan_number_done_unsigned [of ?m n rest F] True d l n show ?thesis by simp
next
  case False
  obtain e es where e: "dec n = e # es" "is_digit e" "e \<noteq> 48" "\<forall>d \<in> set es. is_digit d"
    using dec_first [of n] False by auto
  let ?l1 = "add (uint d) (reset l)"
  obtain m where m: "scan_number_any1 F T_value_unsigned ?l1 = scan_number_done F T_value_unsigned (get m)"
    "lex_ok m" "unread m = rest" "token_buffer m = token_buffer ?l1 @ ds" "total ?l1 \<le> total m"
    using scan_number_any1_digits [of ?l1 ds rest F T_value_unsigned] l d e rest by auto
  have "48 \<le> uint d" "uint d \<noteq> 48"
    using d(1) e(1-3) by (auto simp: is_digit_def word_le_def word_uint_eq_iff)
  then have "scan_number F l = scan_number_any1 F T_value_unsigned ?l1"
    using d(2) by (simp add: scan_number_def Let_def)
  with m scan_number_done_unsigned [of m n rest F] d l n show ?thesis by simp
qed

lemma scan_number_integer:
  assumes l: "lex_ok l" "0 < total l" and n: "0 < n" "n \<le> 2 ^ 63" and rest: "ends_integer rest"
    and d: "current l = 45" "unread l = dec n @ rest"
  shows "\<exists>l'. scan_number F l = (T_value_integer, l') \<and> value_integer l' = word_of_int (- int n) \<and>
    leaves l' rest"
proof -
  obtain e es where e: "dec n = e # es" "is_digit e" "e \<noteq> 48" "\<forall>d \<in> set es. is_digit d"
    using dec_first [OF n(1)] by blast
  let ?l1 = "add 45 (reset l)"
  have g: "current (get ?l1) = uint e" "unread (get ?l1) = es @ rest"
    using unread_get_Cons [of ?l1 e "es @ rest"] l d e by simp_all
  let ?l2 = "add (uint e) (get ?l1)"
  obtain m where m: "scan_number_any1 F T_value_integer ?l2 = scan_number_done F T_value_integer (get m)"
    "lex_ok m" "unread m = rest" "token_buffer m = token_buffer ?l2 @ es" "total ?l2 \<le> total m"
    using scan_number_any1_digits [of ?l2 es rest F T_value_integer] l g e rest by auto
  have "uint e \<noteq> 48" using e(3) by (simp add: word_uint_eq_iff)
  then have "scan_number F l = scan_number_any1 F T_value_integer ?l2"
    using d g digit_uint [of e] e(2) by (auto simp: scan_number_def scan_number_minus_def Let_def)
  with m scan_number_done_integer [of m n rest F] d e l n show ?thesis by simp
qed

section \<open>The start of a token\<close>

definition space :: "byte \<Rightarrow> bool" where
  "space b \<longleftrightarrow> b = 0x20 \<or> b = 0x09 \<or> b = 0x0A \<or> b = 0x0D"

lemma skip_whitespace_token:
  assumes "lex_ok l" "unread l = b # bs" "\<not> space b"
  shows "skip_whitespace l = get l"
  using unread_get_Cons [OF assms(1,2)] assms(3)
  by (subst skip_whitespace.simps) (auto simp: Let_def space_def word_uint_eq_iff)

lemma skip_comments_none: "lex_ok l \<Longrightarrow> skip_comments l = (True, l)"
  by (subst skip_comments.simps) (simp add: lex_ok_def)

lemma skip_bom_none:
  assumes "lex_ok l" "unread l = b # bs" "b \<noteq> 0xEF"
  shows "skip_bom l = (True, unget (get l))"
  using unread_get_Cons [OF assms(1,2)] assms(3)
  by (simp add: skip_bom_def Let_def word_uint_eq_iff)

text \<open>\<open>scan\<close> gets to its \<open>switch\<close> with the first byte of the token as \<open>current\<close>.\<close>

lemma scan_starts:
  assumes "lex_ok l" "unread l = b # bs" "\<not> space b" "total l = 0 \<longrightarrow> b \<noteq> 0xEF"
  shows "\<exists>m. scan F l = scan_token F m \<and> current m = uint b \<and> leaves m bs"
proof (cases "total l = 0")
  case True
  let ?l = "unget (get l)"
  have u: "lex_ok ?l" "unread ?l = b # bs" using unread_unget_get [OF assms(1)] assms(2) by simp_all
  have "scan F l = scan_token F (get ?l)"
    using True assms skip_bom_none [OF assms(1,2)] skip_whitespace_token [OF u assms(3)]
      skip_comments_none [of "get ?l"] u(1)
    by (simp add: scan_def total_def)
  with unread_get_Cons [OF u] u(1) show ?thesis by (auto simp: leaves_def)
next
  case False
  have "scan F l = scan_token F (get l)"
    using False assms skip_whitespace_token [OF assms(1-3)] skip_comments_none [of "get l"]
    by (simp add: scan_def total_def)
  with unread_get_Cons [OF assms(1,2)] assms(1) show ?thesis by (auto simp: leaves_def)
qed

lemma scan_end:
  assumes "leaves l []"
  shows "fst (scan F l) = T_end_of_input"
proof -
  have l: "lex_ok l" "unread l = []" "0 < total l" using assms by (simp_all add: leaves_def)
  note g = unread_get_Nil [OF l(1,2)]
  then have "skip_whitespace l = get l" by (subst skip_whitespace.simps) (simp add: Let_def)
  with g l skip_comments_none [of "get l"] show ?thesis
    by (simp add: scan_def scan_token_def Let_def total_def)
qed

section \<open>Tokens\<close>

lemma scan_structural:
  assumes "lex_ok l" "unread l = b # rest"
    and "(b, t) \<in> {(0x5B, T_begin_array), (0x5D, T_end_array), (0x7B, T_begin_object),
      (0x7D, T_end_object), (0x3A, T_name_separator), (0x2C, T_value_separator)}"
  shows "\<exists>l'. scan F l = (t, l') \<and> leaves l' rest"
proof -
  have "\<not> space b" "b \<noteq> 0xEF" using assms(3) by (auto simp: space_def)
  with scan_starts [OF assms(1,2), of F] obtain m where
    m: "scan F l = scan_token F m" "current m = uint b" "leaves m rest" by blast
  moreover have "scan_token F m = (t, m)"
    using assms(3) by (elim insertE emptyE Pair_inject) (simp_all add: scan_token_def Let_def m(2))
  ultimately show ?thesis by auto
qed

lemma scan_string_token:
  assumes "lex_ok l" "unread l = 34 # escape_text s @ 34 # rest" "utf8_valid s"
  shows "\<exists>l'. scan F l = (T_value_string, l') \<and> token_buffer l' = s \<and> leaves l' rest"
proof -
  obtain m where m: "scan F l = scan_token F m" "current m = uint (34 :: byte)"
    "leaves m (escape_text s @ 34 # rest)"
    using scan_starts [OF assms(1,2), of F] by (auto simp: space_def)
  obtain l' where "scan_string m = (T_value_string, l')" "lex_ok l'" "unread l' = rest"
    "token_buffer l' = s" "total m \<le> total l'"
    using scan_string_escaped [OF assms(3), of m rest] m(3) by (auto simp: leaves_def)
  with m show ?thesis by (auto simp: scan_token_def Let_def leaves_def)
qed

lemma scan_literal_loop:
  assumes "lex_ok l" "unread l = cs @ rest" "0 < total l"
  shows "\<exists>l'. scan_literal_loop cs t l = (t, l') \<and> leaves l' rest"
  using assms
proof (induction cs arbitrary: l)
  case Nil
  then show ?case by (simp add: leaves_def)
next
  case (Cons c cs)
  with unread_get_Cons [of l c "cs @ rest"] Cons.IH [of "get l"] show ?case
    by (simp add: Let_def)
qed

lemma scan_literals:
  assumes "lex_ok l" "unread l = str s @ rest"
    and "(s, t) \<in> {(''true'', T_literal_true), (''false'', T_literal_false), (''null'', T_literal_null)}"
  shows "\<exists>l'. scan F l = (t, l') \<and> leaves l' rest"
proof -
  obtain b bs where b: "str s = b # bs" "\<not> space b" "b \<noteq> 0xEF"
    "\<And>m :: 'a lexer. current m = uint b \<Longrightarrow> scan_token F m = scan_literal_loop bs t m"
    using assms(3)
    by (elim insertE emptyE Pair_inject)
      (auto simp: str_def space_def scan_token_def scan_literal_def Let_def)
  obtain m where m: "scan F l = scan_token F m" "current m = uint b" "leaves m (bs @ rest)"
    using scan_starts [OF assms(1), of b "bs @ rest" F] assms(2) b(1-3) by auto
  with b(4) scan_literal_loop [of m bs rest t] show ?thesis by (auto simp: leaves_def)
qed

lemma scan_unsigned_token:
  assumes "lex_ok l" "unread l = dec n @ rest" "n < 2 ^ 64" "ends_integer rest"
  shows "\<exists>l'. scan F l = (T_value_unsigned, l') \<and> value_unsigned l' = of_nat n \<and> leaves l' rest"
proof -
  obtain d ds where d: "dec n = d # ds" by (cases "dec n") auto
  then have dig: "is_digit d" using dec_digits [of n] by auto
  then have u: "48 \<le> uint d" "uint d \<le> 57" by (auto simp: is_digit_def word_le_def)
  then have "\<not> space d" "d \<noteq> 0xEF" by (auto simp: space_def)
  then obtain m where m: "scan F l = scan_token F m" "current m = uint d" "leaves m (ds @ rest)"
    using scan_starts [OF assms(1), of d "ds @ rest" F] assms(2) d by auto
  have "scan_token F m = scan_number F m" using m(2) u by (simp add: scan_token_def Let_def)
  with m scan_number_unsigned [of m n rest d ds F] assms(3,4) d show ?thesis
    by (simp add: leaves_def)
qed

lemma scan_integer_token:
  assumes "lex_ok l" "unread l = 45 # dec n @ rest" "0 < n" "n \<le> 2 ^ 63" "ends_integer rest"
  shows "\<exists>l'. scan F l = (T_value_integer, l') \<and> value_integer l' = word_of_int (- int n) \<and> leaves l' rest"
proof -
  obtain m where m: "scan F l = scan_token F m" "current m = uint (45 :: byte)" "leaves m (dec n @ rest)"
    using scan_starts [OF assms(1,2), of F] by (auto simp: space_def)
  then have "scan_token F m = scan_number F m" by (simp add: scan_token_def Let_def)
  with m scan_number_integer [of m n rest F] assms(3-5) show ?thesis
    by (simp add: leaves_def)
qed

end
