(* ===== verification/Json_Dump.thy ===== *)
theory Json_Dump
  imports Json_Text
begin

text \<open>
  The compact text of a JSON value as a reference definition, and the proof that the
  serializer writes it: for every value whose strings are well-formed, and for no other.
\<close>

section \<open>The text of a value\<close>

fun commas :: "byte list list \<Rightarrow> byte list" where
  "commas [] = []"
| "commas [t] = t"
| "commas (t # ts) = t @ 44 # commas ts"

definition quote :: "byte list \<Rightarrow> byte list" where
  "quote s = 34 # escape_text s @ [34]"

fun json_text :: "('f, 'z) float_ops_scheme \<Rightarrow> 'f json \<Rightarrow> byte list"
and members_text :: "('f, 'z) float_ops_scheme \<Rightarrow> (byte list \<times> 'f json) list \<Rightarrow> byte list"
and elements_text :: "('f, 'z) float_ops_scheme \<Rightarrow> 'f json list \<Rightarrow> byte list" where
  "json_text F Null = str ''null''"
| "json_text F (Object ms) = 123 # members_text F ms @ [125]"
| "json_text F (Array xs) = 91 # elements_text F xs @ [93]"
| "json_text F (String s) = quote s"
| "json_text F (Boolean b) = (if b then str ''true'' else str ''false'')"
| "json_text F (Number_integer x) = dec_int (sint x)"
| "json_text F (Number_unsigned x) = dec_int (uint x)"
| "json_text F (Number_float x) = (if isfinite F x then to_chars F x else str ''null'')"
| "json_text F (Binary bs st) =
     123 # quote (str ''bytes'') @ 58 # 91 # commas (map (\<lambda>b. dec_int (uint b)) bs) @ 93 # 44 #
     quote (str ''subtype'') @ 58 #
     (case st of Some x \<Rightarrow> dec_int (uint x) | None \<Rightarrow> str ''null'') @ [125]"
| "json_text F Discarded = str ''<discarded>''"
| "members_text F [] = []"
| "members_text F ((k, v) # ms) =
     quote k @ 58 # json_text F v @ (if ms = [] then [] else 44 # members_text F ms)"
| "elements_text F [] = []"
| "elements_text F (v # xs) = json_text F v @ (if xs = [] then [] else 44 # elements_text F xs)"

text \<open>Every string and every key is well-formed UTF-8.\<close>

fun json_utf8 :: "'f json \<Rightarrow> bool"
and members_utf8 :: "(byte list \<times> 'f json) list \<Rightarrow> bool"
and elements_utf8 :: "'f json list \<Rightarrow> bool" where
  "json_utf8 (Object ms) = members_utf8 ms"
| "json_utf8 (Array xs) = elements_utf8 xs"
| "json_utf8 (String s) = utf8_valid s"
| "json_utf8 _ = True"
| "members_utf8 [] = True"
| "members_utf8 ((k, v) # ms) = (utf8_valid k \<and> json_utf8 v \<and> members_utf8 ms)"
| "elements_utf8 [] = True"
| "elements_utf8 (v # xs) = (json_utf8 v \<and> elements_utf8 xs)"

section \<open>The serializer writes it\<close>

definition serializer_ok :: "serializer \<Rightarrow> bool" where
  "serializer_ok s \<longleftrightarrow> length (number_buffer s) = 64 \<and> error_handler s = Strict"

text \<open>A step that writes \<open>t\<close> when \<open>ok\<close> holds, and refuses with the exception 316 otherwise.\<close>

definition dumps :: "bool \<Rightarrow> byte list \<Rightarrow> serializer \<Rightarrow> stop + serializer \<Rightarrow> bool" where
  "dumps ok t s m \<longleftrightarrow>
     (if ok then \<exists>s'. m = Inr s' \<and> serializer_ok s' \<and> out s' = out s @ t
      else \<exists>msg. m = Inl (Throw (Type_error 316 msg)))"

lemma dumps_Inr [simp]:
  "serializer_ok s \<Longrightarrow> dumps True t s (Inr (write_characters t s))"
  by (simp add: dumps_def write_characters_def serializer_ok_def)

lemma dumps_refl [simp]: "serializer_ok s \<Longrightarrow> dumps True [] s (Inr s)"
  by (simp add: dumps_def)

lemma serializer_ok_write [simp]: "serializer_ok (write_characters t s) = serializer_ok s"
  by (simp add: serializer_ok_def write_characters_def)

lemma dumps_bind:
  assumes "dumps ok1 t1 s m" "\<And>s'. serializer_ok s' \<Longrightarrow> out s' = out s @ t1 \<Longrightarrow> dumps ok2 t2 s' (f s')"
  shows "dumps (ok1 \<and> ok2) (t1 @ t2) s (bindE m f)"
proof (cases ok1)
  case True
  with assms(1) obtain s' where s': "m = Inr s'" "serializer_ok s'" "out s' = out s @ t1"
    by (auto simp: dumps_def)
  with assms(2) [OF s'(2,3)] True show ?thesis by (auto simp: dumps_def)
next
  case False
  with assms(1) show ?thesis by (auto simp: dumps_def)
qed

text \<open>Text that was written first comes first.\<close>

lemma dumps_write: "dumps ok t (write_characters u s) m \<Longrightarrow> dumps ok (u @ t) s m"
  by (auto simp: dumps_def write_characters_def)

lemma dumps_integer:
  assumes "serializer_ok s"
  shows "dumps True (dec_int (number_value is_signed x)) s (dump_integer is_signed x s)"
  using dump_integer_dec [of s is_signed x] assms by (auto simp: dumps_def serializer_ok_def)

lemma dumps_escaped:
  assumes "serializer_ok s"
  shows "dumps (utf8_valid t) (escape_text t) s (dump_escaped t False s)"
  using dump_escaped_strict [of s t] assms
  by (auto simp: dumps_def serializer_ok_def write_characters_def split: if_splits)

lemma dumps_quoted:
  assumes "serializer_ok s"
  shows "dumps (utf8_valid t) (quote t) s (quoted t False s)"
proof -
  have "dumps (utf8_valid t \<and> True) (escape_text t @ [34]) (write_characters [34] s)
      (bindE (dump_escaped t False (write_characters [34] s)) (\<lambda>s. Inr (write_characters [34] s)))"
    by (rule dumps_bind, rule dumps_escaped) (simp_all add: assms)
  from dumps_write [OF this] show ?thesis by (simp add: quote_def)
qed

lemma dumps_bytes:
  "serializer_ok s \<Longrightarrow>
   dumps True (commas (map (\<lambda>b. dec_int (uint b)) bs)) s (dump_bytes (str '','') bs s)"
proof (induction bs arbitrary: s)
  case (Cons b bs)
  have b: "dumps True (dec_int (uint b)) s (dump_integer False (ucast b) s)"
    using Cons.prems dumps_integer [of s False "ucast b"]
    by (simp add: number_value_def uint_up_ucast is_up)
  show ?case
  proof (cases bs)
    case Nil
    with b show ?thesis by simp
  next
    case (Cons c cs)
    have "dumps (True \<and> True) (dec_int (uint b) @ str '','' @ commas (map (\<lambda>b. dec_int (uint b)) bs)) s
        (bindE (dump_integer False (ucast b) s)
          (\<lambda>s. dump_bytes (str '','') bs (write_characters (str '','') s)))"
      by (rule dumps_bind [OF b]) (intro dumps_write Cons.IH, simp)
    with Cons show ?thesis by (simp add: str_def)
  qed
qed simp

lemma dumps_subtype:
  assumes "serializer_ok s"
  shows "dumps True (case st of Some x \<Rightarrow> dec_int (uint x) | None \<Rightarrow> str ''null'') s (dump_subtype st s)"
  using assms dumps_integer [of s False]
  by (auto simp: dump_subtype_def number_value_def split: option.split)

lemma dumps_binary:
  assumes "serializer_ok s"
  shows "dumps True (json_text F (Binary bs st)) s (dump_binary False step cur bs st s)"
proof -
  let ?a = "str ''{'' @ [34] @ str ''bytes'' @ [34] @ str '':[''"
  let ?b = "str ''],'' @ [34] @ str ''subtype'' @ [34] @ str '':''"
  let ?x = "commas (map (\<lambda>b. dec_int (uint b)) bs)"
  let ?y = "case st of Some x \<Rightarrow> dec_int (uint x) | None \<Rightarrow> str ''null''"
  have "dumps (True \<and> (True \<and> True)) (?x @ (?b @ ?y) @ [125]) (write_characters ?a s)
      (bindE (dump_bytes (str '','') bs (write_characters ?a s)) (\<lambda>s.
       bindE (dump_subtype st (write_characters ?b s)) (\<lambda>s. Inr (write_characters [125] s))))"
  proof (rule dumps_bind)
    show "dumps True ?x (write_characters ?a s) (dump_bytes (str '','') bs (write_characters ?a s))"
      using assms by (intro dumps_bytes) simp
    fix s1 assume s1: "serializer_ok s1"
    show "dumps (True \<and> True) ((?b @ ?y) @ [125]) s1
        (bindE (dump_subtype st (write_characters ?b s1)) (\<lambda>s. Inr (write_characters [125] s)))"
      by (rule dumps_bind, rule dumps_write, rule dumps_subtype) (simp_all add: s1)
  qed
  from dumps_write [OF this] show ?thesis
    by (simp add: dump_binary_def str_def quote_def escape_byte_def)
qed

lemma dumps_float:
  "serializer_ok s \<Longrightarrow> isfinite F x \<Longrightarrow> dumps True (to_chars F x) s (Inr (dump_float F x s))"
  "serializer_ok s \<Longrightarrow> \<not> isfinite F x \<Longrightarrow> dumps True (str ''null'') s (Inr (dump_float F x s))"
  by (simp_all add: dump_float_def)

lemma dumps_signed: "serializer_ok s \<Longrightarrow> dumps True (dec_int (sint x)) s (dump_integer True x s)"
  and dumps_unsigned: "serializer_ok s \<Longrightarrow> dumps True (dec_int (uint x)) s (dump_integer False x s)"
  using dumps_integer [of s True x] dumps_integer [of s False x] by (simp_all add: number_value_def)

lemma dumps_json:
  fixes F :: "('f, 'z) float_ops_scheme"
  shows "serializer_ok s \<Longrightarrow> dumps (json_utf8 j) (json_text F j) s (dump F False False step cur j s)"
    and "serializer_ok s \<Longrightarrow>
      dumps (members_utf8 ms) (members_text F ms) s (dump_members F False False step cur ms s)"
    and "serializer_ok s \<Longrightarrow>
      dumps (elements_utf8 xs) (elements_text F xs) s (dump_elements F False False step cur xs s)"
proof (induction j and ms and xs arbitrary: s and s and s
    rule: json_utf8_members_utf8_elements_utf8.induct)
  case (1 ms)
  show ?case
  proof (cases "ms = []")
    case True
    with 1(2) show ?thesis by (simp add: str_def)
  next
    case False
    have "dumps (members_utf8 ms \<and> True) (members_text F ms @ [125]) (write_characters [123] s)
        (bindE (dump_members F False False step cur ms (write_characters [123] s))
          (\<lambda>s. Inr (write_characters [125] s)))"
      by (rule dumps_bind, rule 1(1)) (simp_all add: 1(2))
    from dumps_write [OF this] False show ?thesis by simp
  qed
next
  case (2 xs)
  show ?case
  proof (cases "xs = []")
    case True
    with 2(2) show ?thesis by (simp add: str_def)
  next
    case False
    have "dumps (elements_utf8 xs \<and> True) (elements_text F xs @ [93]) (write_characters [91] s)
        (bindE (dump_elements F False False step cur xs (write_characters [91] s))
          (\<lambda>s. Inr (write_characters [93] s)))"
      by (rule dumps_bind, rule 2(1)) (simp_all add: 2(2))
    from dumps_write [OF this] False show ?thesis by simp
  qed
next
  case (3 t)
  then show ?case using dumps_quoted by simp
next
  case (6 k v ms)
  have *: "dumps (if ms = [] then True else members_utf8 ms)
      (if ms = [] then [] else 44 # members_text F ms) s'
      (if ms = [] then Inr s' else dump_members F False False step cur ms (write_characters (str '','') s'))"
    if "serializer_ok s'" for s'
    using that 6(2) [of "write_characters (str '','') s'"]
      dumps_write [of _ _ "str '',''" s' "dump_members F False False step cur ms (write_characters (str '','') s')"]
    by (auto simp: str_def)
  have "dumps (utf8_valid k \<and> json_utf8 v \<and> (if ms = [] then True else members_utf8 ms))
      (quote k @ (str '':'' @ json_text F v) @ (if ms = [] then [] else 44 # members_text F ms)) s
      (dump_members F False False step cur ((k, v) # ms) s)"
    unfolding dump_members.simps
  proof (simp only: if_False bindE.simps, rule dumps_bind)
    show "dumps (utf8_valid k) (quote k) s (quoted k False s)" by (rule dumps_quoted [OF 6(3)])
    fix s' assume s': "serializer_ok s'"
    show "dumps (json_utf8 v \<and> (if ms = [] then True else members_utf8 ms))
      ((str '':'' @ json_text F v) @ (if ms = [] then [] else 44 # members_text F ms)) s'
      (bindE (dump F False False step cur v (write_characters (str '':'') s'))
        (\<lambda>s. if ms = [] then Inr s
             else dump_members F False False step cur ms (write_characters (str '','') s)))"
      by (rule dumps_bind, rule dumps_write, rule 6(1)) (simp_all add: s' *)
  qed
  then show ?case by (cases "ms = []") (simp_all add: str_def)
next
  case (8 v xs)
  have *: "dumps (if xs = [] then True else elements_utf8 xs)
      (if xs = [] then [] else 44 # elements_text F xs) s'
      (if xs = [] then Inr s' else dump_elements F False False step cur xs (write_characters (str '','') s'))"
    if "serializer_ok s'" for s'
    using that 8(2) [of "write_characters (str '','') s'"]
      dumps_write [of _ _ "str '',''" s' "dump_elements F False False step cur xs (write_characters (str '','') s')"]
    by (auto simp: str_def)
  have "dumps (json_utf8 v \<and> (if xs = [] then True else elements_utf8 xs))
      (json_text F v @ (if xs = [] then [] else 44 # elements_text F xs)) s
      (bindE (dump F False False step cur v s)
        (\<lambda>s. if xs = [] then Inr s
             else dump_elements F False False step cur xs (write_characters (str '','') s)))"
    by (rule dumps_bind, rule 8(1)) (simp_all add: 8(3) *)
  then show ?case by (cases "xs = []") simp_all
qed (simp_all add: dumps_signed dumps_unsigned dumps_float dumps_binary [simplified])

end
