(* ===== verification/Json_Roundtrip.thy ===== *)
theory Json_Roundtrip
  imports Json_Parser Json_Tokens Json_Dump
begin

text \<open>
  Parsing the text that the serializer writes gives the value back: the loop of
  \<open>sax_parse_internal\<close> is followed through the text of a value, and the pointers of the
  builder through the value it makes.
\<close>

section \<open>Pointers\<close>

text \<open>
  What the builder needs of its pointers: a place that was changed is read back, two changes
  at one place are one change, and a change only depends on the value at the place.
\<close>

locale pointers =
  fixes look :: "'p \<Rightarrow> 's \<Rightarrow> 'v option" and change :: "'p \<Rightarrow> ('v \<Rightarrow> 'v) \<Rightarrow> 's \<Rightarrow> 's"
  assumes look_change: "look p s = Some v \<Longrightarrow> look p (change p f s) = Some (f v)"
    and change_change: "change p f (change p g s) = change p (f \<circ> g) s"
    and change_cong: "look p s = Some v \<Longrightarrow> f v = g v \<Longrightarrow> change p f s = change p g s"
begin

lemma change_const: "change p (\<lambda>_. v) (change p f s) = change p (\<lambda>_. v) s"
  by (simp add: change_change o_def)

lemma look_const: "look p s \<noteq> None \<Longrightarrow> look p (change p (\<lambda>_. v) s) = Some v"
  using look_change by fastforce

end

lemma map_of_object_update:
  "map_of (object_update k f ms) l = (if l = k then map_option f (map_of ms k) else map_of ms l)"
  by (induction ms) auto

lemma object_update_twice: "object_update k f (object_update k g ms) = object_update k (f \<circ> g) ms"
  by (induction ms) auto

lemma modify_Nil [simp]: "modify [] f = f"
  by (simp add: fun_eq_iff)

lemma object_update_cong:
  "map_of ms k = Some v \<Longrightarrow> f v = g v \<Longrightarrow> object_update k f ms = object_update k g ms"
  by (induction ms) (auto split: if_splits)

interpretation json_pointers: pointers deref modify
proof
  show "modify p f s = modify p g s" if "deref p s = Some v" "f v = g v" for p v f g and s :: "'a json"
    using that
    by (induction p f s rule: modify.induct)
      (auto split: if_splits option.splits intro: object_update_cong)
  show "deref p (modify p f s) = Some (f v)" if "deref p s = Some v" for p f v and s :: "'a json"
    using that
    by (induction p f s rule: modify.induct)
      (auto simp: map_of_object_update split: if_splits option.splits)
  show "modify p f (modify p g s) = modify p (f \<circ> g) s" for p f g and s :: "'a json"
  proof (induction p g s arbitrary: f rule: modify.induct)
    case (2 i p g xs)
    then show ?case by simp
  next
    case (3 k p g ms)
    have "(\<lambda>x. modify p f (modify p g x)) = modify p (\<lambda>x. f (g x))"
      using 3 by (auto simp: fun_eq_iff o_def)
    then show ?case by (simp add: object_update_twice o_def)
  qed simp_all
qed

lemma deref_append: "deref (p @ q) j = Option.bind (deref p j) (deref q)"
  by (induction p j rule: deref.induct) (auto split: option.splits)

lemma modify_append: "modify (p @ q) f j = modify p (modify q f) j"
proof (induction p "modify q f" j rule: modify.induct)
  case (3 k p ms)
  have "modify (p @ q) f = modify p (modify q f)" using 3 by (simp add: fun_eq_iff)
  then show ?case by simp
qed simp_all

section \<open>Putting a value where the builder expects one\<close>

text \<open>The builder can take a value: at the root, in an array, or as the value of a key.\<close>

definition accepts :: "'f dom \<Rightarrow> bool" where
  "accepts d \<longleftrightarrow>
     (case ref_stack d of
        [] \<Rightarrow> True
      | p # _ \<Rightarrow>
          (\<exists>xs. deref p (root d) = Some (Array xs)) \<or>
          (\<exists>ms k w. deref p (root d) = Some (Object ms) \<and> map_of ms k = Some w \<and>
             object_element d = Some (p @ [Member k])))"

definition place :: "'f json \<Rightarrow> 'f dom \<Rightarrow> 'f json" where
  "place v d = (case handle_value v d of Inr (_, d') \<Rightarrow> root d' | _ \<Rightarrow> root d)"

lemma handle_value_accepts:
  assumes "accepts d"
  shows "\<exists>q. \<forall>v. handle_value v d = Inr (q, d\<lparr>root := place v d\<rparr>) \<and> deref q (place v d) = Some v \<and>
    (\<forall>w. modify q (\<lambda>_. w) (place v d) = place w d)"
proof (cases "ref_stack d")
  case Nil
  then show ?thesis by (auto simp: handle_value_def place_def)
next
  case (Cons p ps)
  consider xs where "deref p (root d) = Some (Array xs)"
    | ms k w where "deref p (root d) = Some (Object ms)" "map_of ms k = Some w"
        "object_element d = Some (p @ [Member k])"
    using assms Cons by (auto simp: accepts_def)
  then show ?thesis
  proof cases
    case 1
    have h: "handle_value v d = Inr (p @ [Elem (length xs)],
        d\<lparr>root := modify p (\<lambda>_. Array (xs @ [v])) (root d)\<rparr>)" for v
      using Cons 1 by (simp add: handle_value_def)
    then have pl: "place v d = modify p (\<lambda>_. Array (xs @ [v])) (root d)" for v
      by (simp add: place_def)
    have "deref (p @ [Elem (length xs)]) (place v d) = Some v" for v
      using json_pointers.look_const [of p "root d"] 1 by (simp add: deref_append pl)
    moreover have "modify (p @ [Elem (length xs)]) (\<lambda>_. w) (place v d) = place w d" for v w
      by (simp add: modify_append pl json_pointers.change_change o_def)
    ultimately show ?thesis using h pl by (intro exI [of _ "p @ [Elem (length xs)]"]) simp
  next
    case 2
    let ?q = "p @ [Member k]"
    have d: "deref ?q (root d) = Some w" using 2 by (simp add: deref_append)
    have h: "handle_value v d = Inr (?q, d\<lparr>root := modify ?q (\<lambda>_. v) (root d)\<rparr>)" for v
      using Cons 2 by (simp add: handle_value_def)
    then have pl: "place v d = modify ?q (\<lambda>_. v) (root d)" for v by (simp add: place_def)
    show ?thesis
      using h d json_pointers.look_const [of ?q "root d"]
      by (intro exI [of _ ?q]) (simp add: pl json_pointers.change_const)
  qed
qed

lemma sax_value_accepts: "accepts d \<Longrightarrow> sax_value v d = Inr (d\<lparr>root := place v d\<rparr>)"
  using handle_value_accepts [of d] by (auto simp: sax_value_def)

text \<open>Entering an array or an object, filling it, and leaving it.\<close>

definition enters :: "json_ref \<Rightarrow> 'f json \<Rightarrow> 'f dom \<Rightarrow> 'f dom \<Rightarrow> bool" where
  "enters q v d d' \<longleftrightarrow>
     d' = d\<lparr>root := place v d, ref_stack := q # ref_stack d\<rparr> \<and> deref q (root d') = Some v \<and>
     (\<forall>w. modify q (\<lambda>_. w) (root d') = place w d)"

lemma start_array_accepts: "accepts d \<Longrightarrow> \<exists>q d'. start_array d = Inr d' \<and> enters q (Array []) d d'"
  using handle_value_accepts [of d] by (auto simp: start_array_def enters_def)

lemma start_object_accepts: "accepts d \<Longrightarrow> \<exists>q d'. start_object d = Inr d' \<and> enters q (Object []) d d'"
  using handle_value_accepts [of d] by (auto simp: start_object_def enters_def)

lemma accepts_array:
  assumes "ref_stack d = p # ps" "deref p (root d) = Some (Array xs)"
  shows "accepts d" and "place v d = modify p (\<lambda>_. Array (xs @ [v])) (root d)"
  using assms by (auto simp: accepts_def place_def handle_value_def)

lemma accepts_object:
  assumes "ref_stack d = p # ps" "deref p (root d) = Some (Object (ys @ (k, w) # zs))"
    "k \<notin> fst ` set ys" "object_element d = Some (p @ [Member k])"
  shows "accepts d" and "place v d = modify p (\<lambda>_. Object (ys @ (k, v) # zs)) (root d)"
proof -
  have "map_of ys k = None" using assms(3) by (simp add: map_of_eq_None_iff)
  then have m: "map_of (ys @ (k, w) # zs) k = Some w" by (simp add: map_add_def)
  then show "accepts d" using assms by (auto simp: accepts_def)
  have u: "object_update k (\<lambda>_. v) (ys @ (k, w) # zs) = ys @ (k, v) # zs"
    using assms(3) by (induction ys) auto
  have "modify (p @ [Member k]) (\<lambda>_. v) (root d) = modify p (\<lambda>_. Object (ys @ (k, v) # zs)) (root d)"
    unfolding modify_append by (rule json_pointers.change_cong [OF assms(2)]) (simp add: u)
  then show "place v d = modify p (\<lambda>_. Object (ys @ (k, v) # zs)) (root d)"
    using assms by (simp add: place_def handle_value_def)
qed

section \<open>Values the text determines\<close>

text \<open>
  A value that its text determines: strings are well-formed, keys are in the order of the
  map, a signed number is negative (the text of one that is not is that of an unsigned
  number), and there is no number of type \<open>double\<close>, binary value or discarded value.
\<close>

fun plain :: "'f json \<Rightarrow> bool"
and plain_members :: "(byte list \<times> 'f json) list \<Rightarrow> bool"
and plain_elements :: "'f json list \<Rightarrow> bool" where
  "plain Null = True"
| "plain (Object ms) = (sorted_wrt key_less (map fst ms) \<and> plain_members ms)"
| "plain (Array xs) = plain_elements xs"
| "plain (String s) = utf8_valid s"
| "plain (Boolean b) = True"
| "plain (Number_integer x) = (sint x < 0)"
| "plain (Number_unsigned x) = True"
| "plain (Number_float x) = False"
| "plain (Binary bs st) = False"
| "plain Discarded = False"
| "plain_members [] = True"
| "plain_members ((k, v) # ms) = (utf8_valid k \<and> plain v \<and> plain_members ms)"
| "plain_elements [] = True"
| "plain_elements (v # xs) = (plain v \<and> plain_elements xs)"

lemma plain_utf8:
  fixes v :: "'f json" and ms :: "(byte list \<times> 'f json) list" and xs :: "'f json list"
  shows "plain v \<Longrightarrow> json_utf8 v" "plain_members ms \<Longrightarrow> members_utf8 ms" "plain_elements xs \<Longrightarrow> elements_utf8 xs"
  by (induction v and ms and xs rule: plain_plain_members_plain_elements.induct) simp_all

lemma key_less_irrefl [simp]: "\<not> key_less k k"
  by (induction k) auto

lemma key_less_asym: "key_less k l \<Longrightarrow> \<not> key_less l k"
  by (induction k l rule: key_less.induct) auto

lemma object_emplace_last:
  "\<forall>l \<in> fst ` set ys. key_less l k \<Longrightarrow> object_emplace k v ys = ys @ [(k, v)]"
  by (induction ys) (auto dest: key_less_asym)

text \<open>The first token of a value, and what the lexer holds of a value that is one token.\<close>

fun first_token :: "'f json \<Rightarrow> token_type" where
  "first_token Null = T_literal_null"
| "first_token (Object ms) = T_begin_object"
| "first_token (Array xs) = T_begin_array"
| "first_token (String s) = T_value_string"
| "first_token (Boolean b) = (if b then T_literal_true else T_literal_false)"
| "first_token (Number_integer x) = T_value_integer"
| "first_token (Number_unsigned x) = T_value_unsigned"
| "first_token (Number_float x) = T_value_float"
| "first_token _ = T_parse_error"

fun atomic :: "'f json \<Rightarrow> bool" where
  "atomic (Object _) = False"
| "atomic (Array _) = False"
| "atomic _ = True"

fun holds :: "'f json \<Rightarrow> 'f lexer \<Rightarrow> bool" where
  "holds (String s) l = (token_buffer l = s)"
| "holds (Number_integer x) l = (value_integer l = x)"
| "holds (Number_unsigned x) l = (value_unsigned l = x)"
| "holds _ l = True"

lemma scan_atomic:
  assumes "plain v" "atomic v" "lex_ok l" "unread l = json_text F v @ rest" "ends_integer rest"
  shows "\<exists>l'. scan F l = (first_token v, l') \<and> holds v l' \<and> leaves l' rest"
proof (cases v)
  case (Number_integer x)
  let ?n = "nat (- sint x)"
  have n: "0 < ?n" "?n \<le> 2 ^ 63" using assms(1) Number_integer sint_ge [of x] by simp_all
  have "unread l = 45 # dec ?n @ rest"
    using assms(1,4) Number_integer by (simp add: dec_int_def)
  from scan_integer_token [OF assms(3) this n assms(5), of F] show ?thesis
    using n Number_integer by auto
next
  case (Number_unsigned x)
  have "unat x < 2 ^ LENGTH(64)" by (rule unsigned_less)
  with scan_unsigned_token [OF assms(3) _ _ assms(5), of "unat x" F] assms(4) Number_unsigned
  show ?thesis by (auto simp: dec_int_def)
next
  case (String s)
  then have "unread l = 34 # escape_text s @ 34 # rest" using assms(4) by (simp add: quote_def)
  from scan_string_token [OF assms(3) this] String assms(1) show ?thesis by auto
next
  case (Boolean b)
  then show ?thesis
    using assms(4) scan_literals [OF assms(3), of "''true''" rest T_literal_true F]
      scan_literals [OF assms(3), of "''false''" rest T_literal_false F]
    by (cases b) auto
next
  case Null
  then show ?thesis
    using assms(4) scan_literals [OF assms(3), of "''null''" rest T_literal_null F] by auto
qed (use assms in auto)

lemma scan_first_token:
  assumes "plain v" "lex_ok l" "unread l = json_text F v @ rest" "ends_integer rest"
  shows "fst (scan F l) = first_token v"
proof (cases "atomic v")
  case True
  then show ?thesis using scan_atomic [OF assms(1) _ assms(2-4)] by auto
next
  case False
  then show ?thesis
    using assms scan_structural [OF assms(2), of 123 _ T_begin_object F]
      scan_structural [OF assms(2), of 91 _ T_begin_array F]
    by (cases v) auto
qed

section \<open>The run of the parser\<close>

text \<open>The loop from the evaluation of the state on, with \<open>skip_to_state_evaluation\<close> off.\<close>

definition finish :: "('f, 'z) float_ops_scheme \<Rightarrow> 'f parser \<Rightarrow> stop + bool \<times> 'f parser" where
  "finish F s =
     (case evaluate_state F s of
        Inl e \<Rightarrow> Inl e
      | Inr (c, s') \<Rightarrow> (case c of Return b \<Rightarrow> Inr (b, s') | _ \<Rightarrow> sax_parse_internal F s'))"

lemma sax_parse_break:
  assumes "\<not> skip_to_state_evaluation s" "parse_value F s = Inr (Break, s')"
  shows "sax_parse_internal F s = finish F s'"
  using assms by (subst sax_parse_internal.simps) (simp add: sax_round_def finish_def)

lemma sax_parse_continue:
  assumes "\<not> skip_to_state_evaluation s" "parse_value F s = Inr (Continue, s')"
  shows "sax_parse_internal F s = sax_parse_internal F s'"
  using assms by (subst sax_parse_internal.simps) (simp add: sax_round_def)

lemma sax_parse_skip:
  "skip_to_state_evaluation s \<Longrightarrow> sax_parse_internal F s = finish F (s\<lparr>skip_to_state_evaluation := False\<rparr>)"
  by (subst sax_parse_internal.simps) (simp add: sax_round_def finish_def)

lemma get_token_scan:
  "scan F (m_lexer s) = (t, l) \<Longrightarrow> get_token F s = s\<lparr>last_token := t, m_lexer := l\<rparr>"
  by (simp add: get_token_def)

lemma last_token_get_token: "last_token (get_token F s) = fst (scan F (m_lexer s))"
  by (simp add: get_token_def split: prod.split)

text \<open>
  A value was read: \<open>s'\<close> differs from \<open>s\<close> in the lexer, which has \<open>rest\<close> to read, in the last
  token, in the root of the value and in the pointer to the last member.
\<close>

definition read_value :: "'f parser \<Rightarrow> 'f parser \<Rightarrow> byte list \<Rightarrow> 'f json \<Rightarrow> json_ref list \<Rightarrow> bool list \<Rightarrow> bool" where
  "read_value s s' rest r refs sts \<longleftrightarrow>
     leaves (m_lexer s') rest \<and> states s' = sts \<and> \<not> skip_to_state_evaluation s' \<and>
     root (sax s') = r \<and> ref_stack (sax s') = refs \<and>
     errored (sax s') = errored (sax s) \<and> allow_exceptions (sax s') = allow_exceptions (sax s)"

lemma parse_atomic:
  assumes "plain v" "atomic v" "lex_ok (m_lexer s)" "unread (m_lexer s) = json_text F v @ rest"
    "ends_integer rest" "\<not> skip_to_state_evaluation s" "accepts (sax s)"
  shows "\<exists>s'. sax_parse_internal F (get_token F s) = finish F s' \<and>
    read_value s s' rest (place v (sax s)) (ref_stack (sax s)) (states s)"
proof -
  obtain l' where l': "scan F (m_lexer s) = (first_token v, l')" "holds v l'" "leaves l' rest"
    using scan_atomic [OF assms(1-5)] by blast
  let ?s = "s\<lparr>last_token := first_token v, m_lexer := l'\<rparr>"
  have "parse_value F ?s = parse_primitive v ?s"
    using assms(1,2) l'(2) by (cases v) (auto simp: parse_value_def)
  also have "\<dots> = Inr (Break, ?s\<lparr>sax := (sax s)\<lparr>root := place v (sax s)\<rparr>\<rparr>)"
    using sax_value_accepts [OF assms(7)] by (simp add: parse_primitive_def on_sax_def)
  finally show ?thesis
    using sax_parse_break [of ?s F] assms(6) l'(3)
    by (auto simp: get_token_scan [OF l'(1)] read_value_def)
qed

text \<open>After an element: a comma and the next one, or the end of the array.\<close>

lemma finish_array_comma:
  assumes "states s = True # st" "leaves (m_lexer s) (44 # rest)"
  shows "\<exists>t l. finish F s = sax_parse_internal F (get_token F (s\<lparr>last_token := t, m_lexer := l\<rparr>)) \<and> leaves l rest"
proof -
  obtain l where l: "scan F (m_lexer s) = (T_value_separator, l)" "leaves l rest"
    using scan_structural [of "m_lexer s" 44 rest T_value_separator F] assms(2) by (auto simp: leaves_def)
  with assms(1) show ?thesis
    by (auto simp: finish_def evaluate_state_def evaluate_array_def get_token_scan [OF l(1)])
qed

lemma finish_array_end:
  assumes "states s = True # st" "leaves (m_lexer s) (93 # rest)" "ref_stack (sax s) = p # ps"
  shows "\<exists>t l. finish F s = finish F (s\<lparr>last_token := t, m_lexer := l, sax := (sax s)\<lparr>ref_stack := ps\<rparr>,
      states := st, skip_to_state_evaluation := False\<rparr>) \<and> leaves l rest"
proof -
  obtain l where l: "scan F (m_lexer s) = (T_end_array, l)" "leaves l rest"
    using scan_structural [of "m_lexer s" 93 rest T_end_array F] assms(2) by (auto simp: leaves_def)
  let ?s = "s\<lparr>last_token := T_end_array, m_lexer := l, sax := (sax s)\<lparr>ref_stack := ps\<rparr>, states := st\<rparr>"
  have "finish F s = sax_parse_internal F (?s\<lparr>skip_to_state_evaluation := True\<rparr>)"
    using assms by (simp add: finish_def evaluate_state_def evaluate_array_def get_token_scan [OF l(1)]
        close_container_def on_sax_def end_array_def)
  also have "\<dots> = finish F (?s\<lparr>skip_to_state_evaluation := False\<rparr>)"
    using sax_parse_skip [of "?s\<lparr>skip_to_state_evaluation := True\<rparr>" F] by simp
  finally show ?thesis using l(2) by blast
qed

lemma finish_object_end:
  assumes "states s = False # st" "leaves (m_lexer s) (125 # rest)" "ref_stack (sax s) = p # ps"
  shows "\<exists>t l. finish F s = finish F (s\<lparr>last_token := t, m_lexer := l, sax := (sax s)\<lparr>ref_stack := ps\<rparr>,
      states := st, skip_to_state_evaluation := False\<rparr>) \<and> leaves l rest"
proof -
  obtain l where l: "scan F (m_lexer s) = (T_end_object, l)" "leaves l rest"
    using scan_structural [of "m_lexer s" 125 rest T_end_object F] assms(2) by (auto simp: leaves_def)
  let ?s = "s\<lparr>last_token := T_end_object, m_lexer := l, sax := (sax s)\<lparr>ref_stack := ps\<rparr>, states := st\<rparr>"
  have "finish F s = sax_parse_internal F (?s\<lparr>skip_to_state_evaluation := True\<rparr>)"
    using assms by (simp add: finish_def evaluate_state_def evaluate_object_def get_token_scan [OF l(1)]
        close_container_def on_sax_def end_object_def)
  also have "\<dots> = finish F (?s\<lparr>skip_to_state_evaluation := False\<rparr>)"
    using sax_parse_skip [of "?s\<lparr>skip_to_state_evaluation := True\<rparr>" F] by simp
  finally show ?thesis using l(2) by blast
qed

text \<open>A key and its separator.\<close>

lemma parse_key_reads:
  assumes "lex_ok (m_lexer s)" "unread (m_lexer s) = quote k @ 58 # rest" "utf8_valid k"
    "ref_stack (sax s) = p # ps" "deref p (root (sax s)) = Some (Object ys)"
    "\<forall>l \<in> fst ` set ys. key_less l k"
  shows "\<exists>t l. parse_key F (get_token F s) = Inr (Continue, s\<lparr>last_token := t, m_lexer := l,
      sax := (sax s)\<lparr>object_element := Some (p @ [Member k]),
        root := modify p (\<lambda>_. Object (ys @ [(k, Null)])) (root (sax s))\<rparr>\<rparr>) \<and> leaves l rest"
proof -
  obtain l1 where l1: "scan F (m_lexer s) = (T_value_string, l1)" "token_buffer l1 = k" "leaves l1 (58 # rest)"
    using scan_string_token [of "m_lexer s" k "58 # rest" F] assms(1-3) by (auto simp: quote_def)
  obtain l2 where l2: "scan F l1 = (T_name_separator, l2)" "leaves l2 rest"
    using scan_structural [of l1 58 rest T_name_separator F] l1(3) by (auto simp: leaves_def)
  have "modify p (emplace_null k) (root (sax s)) = modify p (\<lambda>_. Object (ys @ [(k, Null)])) (root (sax s))"
    by (rule json_pointers.change_cong [OF assms(5)]) (simp add: object_emplace_last assms(6))
  then have "parse_key F (get_token F s) = Inr (Continue, s\<lparr>last_token := T_name_separator, m_lexer := l2,
      sax := (sax s)\<lparr>object_element := Some (p @ [Member k]),
        root := modify p (\<lambda>_. Object (ys @ [(k, Null)])) (root (sax s))\<rparr>\<rparr>)"
    using assms(4) l1 l2
    by (simp add: get_token_scan [OF l1(1)] parse_key_def on_sax_def sax_key_def get_token_def)
  with l2(2) show ?thesis by blast
qed

lemma finish_object_comma:
  assumes "states s = False # st" "leaves (m_lexer s) (44 # quote k @ 58 # rest)" "utf8_valid k"
    "ref_stack (sax s) = p # ps" "deref p (root (sax s)) = Some (Object ys)"
    "\<forall>l \<in> fst ` set ys. key_less l k"
  shows "\<exists>t l. finish F s = sax_parse_internal F (get_token F (s\<lparr>last_token := t, m_lexer := l,
      sax := (sax s)\<lparr>object_element := Some (p @ [Member k]),
        root := modify p (\<lambda>_. Object (ys @ [(k, Null)])) (root (sax s))\<rparr>\<rparr>)) \<and> leaves l rest"
proof -
  obtain l where l: "scan F (m_lexer s) = (T_value_separator, l)" "leaves l (quote k @ 58 # rest)"
    using scan_structural [of "m_lexer s" 44 "quote k @ 58 # rest" T_value_separator F] assms(2)
    by (auto simp: leaves_def)
  let ?s = "s\<lparr>last_token := T_value_separator, m_lexer := l\<rparr>"
  obtain t l2 where k: "parse_key F (get_token F ?s) = Inr (Continue, ?s\<lparr>last_token := t, m_lexer := l2,
      sax := (sax ?s)\<lparr>object_element := Some (p @ [Member k]),
        root := modify p (\<lambda>_. Object (ys @ [(k, Null)])) (root (sax ?s))\<rparr>\<rparr>)" "leaves l2 rest"
    using parse_key_reads [of ?s k rest p ps ys F] assms(3-6) l(2) by (auto simp: leaves_def)
  then have "finish F s = sax_parse_internal F (get_token F (s\<lparr>last_token := t, m_lexer := l2,
      sax := (sax s)\<lparr>object_element := Some (p @ [Member k]),
        root := modify p (\<lambda>_. Object (ys @ [(k, Null)])) (root (sax s))\<rparr>\<rparr>))"
    using assms(1)
    by (simp add: finish_def evaluate_state_def evaluate_object_def get_token_scan [OF l(1)])
  with k(2) show ?thesis by blast
qed

text \<open>The three statements of the induction: a value, the members of an object, the elements of an array.\<close>

definition parses :: "('f, 'z) float_ops_scheme \<Rightarrow> 'f json \<Rightarrow> bool" where
  "parses F v \<longleftrightarrow>
     (\<forall>s rest. lex_ok (m_lexer s) \<longrightarrow> unread (m_lexer s) = json_text F v @ rest \<longrightarrow>
        ends_integer rest \<longrightarrow> \<not> skip_to_state_evaluation s \<longrightarrow> accepts (sax s) \<longrightarrow>
        (\<exists>s'. sax_parse_internal F (get_token F s) = finish F s' \<and>
           read_value s s' rest (place v (sax s)) (ref_stack (sax s)) (states s)))"

definition parses_elements :: "('f, 'z) float_ops_scheme \<Rightarrow> 'f json list \<Rightarrow> bool" where
  "parses_elements F xs \<longleftrightarrow>
     (\<forall>s rest p ps ys st. xs \<noteq> [] \<longrightarrow> lex_ok (m_lexer s) \<longrightarrow>
        unread (m_lexer s) = elements_text F xs @ 93 # rest \<longrightarrow> \<not> skip_to_state_evaluation s \<longrightarrow>
        ref_stack (sax s) = p # ps \<longrightarrow> deref p (root (sax s)) = Some (Array ys) \<longrightarrow>
        states s = True # st \<longrightarrow>
        (\<exists>s'. sax_parse_internal F (get_token F s) = finish F s' \<and>
           read_value s s' rest (modify p (\<lambda>_. Array (ys @ xs)) (root (sax s))) ps st))"

definition parses_members :: "('f, 'z) float_ops_scheme \<Rightarrow> (byte list \<times> 'f json) list \<Rightarrow> bool" where
  "parses_members F ms \<longleftrightarrow>
     (\<forall>s rest p ps ys st k v ms'. ms = (k, v) # ms' \<longrightarrow> lex_ok (m_lexer s) \<longrightarrow>
        unread (m_lexer s) = json_text F v @ (if ms' = [] then [] else 44 # members_text F ms') @ 125 # rest \<longrightarrow>
        \<not> skip_to_state_evaluation s \<longrightarrow> ref_stack (sax s) = p # ps \<longrightarrow>
        deref p (root (sax s)) = Some (Object (ys @ [(k, Null)])) \<longrightarrow>
        object_element (sax s) = Some (p @ [Member k]) \<longrightarrow>
        sorted_wrt key_less (map fst ys @ map fst ms) \<longrightarrow> states s = False # st \<longrightarrow>
        (\<exists>s'. sax_parse_internal F (get_token F s) = finish F s' \<and>
           read_value s s' rest (modify p (\<lambda>_. Object (ys @ ms)) (root (sax s))) ps st))"

lemma get_token_states: "(get_token F s)\<lparr>states := st\<rparr> = get_token F (s\<lparr>states := st\<rparr>)"
  by (simp add: get_token_def split: prod.split)

lemma parses_elements_Cons:
  assumes v: "parses F v" and xs: "parses_elements F xs"
  shows "parses_elements F (v # xs)"
  unfolding parses_elements_def
proof (intro allI impI)
  fix s :: "'a parser" and rest p ps ys st
  assume l: "lex_ok (m_lexer s)" "unread (m_lexer s) = elements_text F (v # xs) @ 93 # rest"
    and sk: "\<not> skip_to_state_evaluation s" and d: "ref_stack (sax s) = p # ps"
      "deref p (root (sax s)) = Some (Array ys)" and st: "states s = True # st"
  let ?rest = "(if xs = [] then [] else 44 # elements_text F xs) @ 93 # rest"
  have "ends_integer ?rest" by (simp add: ends_integer_def is_digit_def)
  moreover have "unread (m_lexer s) = json_text F v @ ?rest" using l(2) by simp
  ultimately obtain s1 where s1: "sax_parse_internal F (get_token F s) = finish F s1"
    "read_value s s1 ?rest (place v (sax s)) (ref_stack (sax s)) (states s)"
    using v [unfolded parses_def, rule_format, of s ?rest] l(1) sk accepts_array(1) [OF d] by blast
  have r1: "root (sax s1) = modify p (\<lambda>_. Array (ys @ [v])) (root (sax s))"
    using s1(2) accepts_array(2) [OF d] by (simp add: read_value_def)
  then have d1: "deref p (root (sax s1)) = Some (Array (ys @ [v]))"
    using json_pointers.look_const [of p "root (sax s)"] d(2) by simp
  show "\<exists>s'. sax_parse_internal F (get_token F s) = finish F s' \<and>
      read_value s s' rest (modify p (\<lambda>_. Array (ys @ v # xs)) (root (sax s))) ps st"
  proof (cases "xs = []")
    case True
    then have "leaves (m_lexer s1) (93 # rest)" "states s1 = True # st" "ref_stack (sax s1) = p # ps"
      using s1(2) d st by (simp_all add: read_value_def)
    then obtain tk l2 where l2: "finish F s1 = finish F (s1\<lparr>last_token := tk, m_lexer := l2,
        sax := (sax s1)\<lparr>ref_stack := ps\<rparr>, states := st, skip_to_state_evaluation := False\<rparr>)"
      "leaves l2 rest"
      using finish_array_end by blast
    show ?thesis
      unfolding s1(1) l2(1) by (rule exI, rule conjI [OF refl]) (use s1(2) l2(2) r1 True in \<open>simp add: read_value_def\<close>)
  next
    case False
    then have "leaves (m_lexer s1) (44 # elements_text F xs @ 93 # rest)"
      using s1(2) by (simp add: read_value_def)
    then obtain tk l2 where l2: "finish F s1 =
        sax_parse_internal F (get_token F (s1\<lparr>last_token := tk, m_lexer := l2\<rparr>))"
      "leaves l2 (elements_text F xs @ 93 # rest)"
      using finish_array_comma [of s1 st _ F] s1(2) st unfolding read_value_def by metis
    let ?s2 = "s1\<lparr>last_token := tk, m_lexer := l2\<rparr>"
    obtain s' where s': "sax_parse_internal F (get_token F ?s2) = finish F s'"
      "read_value ?s2 s' rest (modify p (\<lambda>_. Array ((ys @ [v]) @ xs)) (root (sax ?s2))) ps st"
      using xs [unfolded parses_elements_def, rule_format, of ?s2 rest p ps "ys @ [v]" st]
        False l2(2) s1(2) d d1 st by (auto simp: read_value_def leaves_def)
    have "modify p (\<lambda>_. Array ((ys @ [v]) @ xs)) (root (sax ?s2))
        = modify p (\<lambda>_. Array (ys @ v # xs)) (root (sax s))"
      by (simp add: r1 json_pointers.change_const)
    with s' s1 l2 show ?thesis by (auto simp: read_value_def)
  qed
qed

lemma parses_members_Cons:
  assumes v: "parses F v" and ms: "parses_members F ms" and utf8: "members_utf8 ms"
  shows "parses_members F ((k, v) # ms)"
  unfolding parses_members_def
proof (intro allI impI)
  fix s :: "'a parser" and rest p ps ys st k' v' ms'
  assume "(k, v) # ms = (k', v') # ms'" and l: "lex_ok (m_lexer s)"
    "unread (m_lexer s) = json_text F v' @ (if ms' = [] then [] else 44 # members_text F ms') @ 125 # rest"
    and sk: "\<not> skip_to_state_evaluation s" and d: "ref_stack (sax s) = p # ps"
      "deref p (root (sax s)) = Some (Object (ys @ [(k', Null)]))"
      "object_element (sax s) = Some (p @ [Member k'])"
    and sorted: "sorted_wrt key_less (map fst ys @ map fst ((k, v) # ms))"
    and st: "states s = False # st"
  then have eq: "k' = k" "v' = v" "ms' = ms" by simp_all
  let ?rest = "(if ms = [] then [] else 44 # members_text F ms) @ 125 # rest"
  have k: "k \<notin> fst ` set ys" using sorted by (auto simp: sorted_wrt_append)
  have d': "deref p (root (sax s)) = Some (Object (ys @ (k, Null) # []))"
    "object_element (sax s) = Some (p @ [Member k])" using d eq by simp_all
  note acc = accepts_object [OF d(1) d'(1) k d'(2)]
  have "ends_integer ?rest" by (simp add: ends_integer_def is_digit_def)
  moreover have "unread (m_lexer s) = json_text F v @ ?rest" using l(2) eq by simp
  ultimately obtain s1 where s1: "sax_parse_internal F (get_token F s) = finish F s1"
    "read_value s s1 ?rest (place v (sax s)) (ref_stack (sax s)) (states s)"
    using v [unfolded parses_def, rule_format, of s ?rest] l(1) sk acc(1) by blast
  have r1: "root (sax s1) = modify p (\<lambda>_. Object (ys @ [(k, v)])) (root (sax s))"
    using s1(2) acc(2) by (simp add: read_value_def)
  then have d1: "deref p (root (sax s1)) = Some (Object (ys @ [(k, v)]))"
    using json_pointers.look_const [of p "root (sax s)"] d(2) by simp
  have st1: "states s1 = False # st" "ref_stack (sax s1) = p # ps"
    using s1(2) d st by (simp_all add: read_value_def)
  show "\<exists>s'. sax_parse_internal F (get_token F s) = finish F s' \<and>
      read_value s s' rest (modify p (\<lambda>_. Object (ys @ (k, v) # ms)) (root (sax s))) ps st"
  proof (cases ms)
    case Nil
    then have "leaves (m_lexer s1) (125 # rest)" using s1(2) by (simp add: read_value_def)
    then obtain tk l2 where l2: "finish F s1 = finish F (s1\<lparr>last_token := tk, m_lexer := l2,
        sax := (sax s1)\<lparr>ref_stack := ps\<rparr>, states := st, skip_to_state_evaluation := False\<rparr>)"
      "leaves l2 rest"
      using finish_object_end st1 by blast
    show ?thesis
      unfolding s1(1) l2(1)
      by (rule exI, rule conjI [OF refl]) (use s1(2) l2(2) r1 Nil in \<open>simp add: read_value_def\<close>)
  next
    case (Cons m ms2)
    obtain k2 v2 where m: "m = (k2, v2)" by (cases m)
    let ?rest2 = "json_text F v2 @ (if ms2 = [] then [] else 44 # members_text F ms2) @ 125 # rest"
    have "leaves (m_lexer s1) (44 # quote k2 @ 58 # ?rest2)"
      using s1(2) Cons m by (simp add: read_value_def)
    moreover have "utf8_valid k2" using utf8 Cons m by simp
    moreover have "\<forall>l \<in> fst ` set (ys @ [(k, v)]). key_less l k2"
      using sorted Cons m by (auto simp: sorted_wrt_append)
    ultimately obtain tk l2 where l2: "finish F s1 = sax_parse_internal F (get_token F
        (s1\<lparr>last_token := tk, m_lexer := l2, sax := (sax s1)\<lparr>object_element := Some (p @ [Member k2]),
          root := modify p (\<lambda>_. Object ((ys @ [(k, v)]) @ [(k2, Null)])) (root (sax s1))\<rparr>\<rparr>))"
      "leaves l2 ?rest2"
      using finish_object_comma [OF st1(1) _ _ st1(2) d1, of k2 ?rest2 F] by blast
    let ?s2 = "s1\<lparr>last_token := tk, m_lexer := l2, sax := (sax s1)\<lparr>object_element := Some (p @ [Member k2]),
          root := modify p (\<lambda>_. Object ((ys @ [(k, v)]) @ [(k2, Null)])) (root (sax s1))\<rparr>\<rparr>"
    have "deref p (root (sax ?s2)) = Some (Object ((ys @ [(k, v)]) @ [(k2, Null)]))"
      using json_pointers.look_const [of p "root (sax s1)"] d1 by simp
    then obtain s' where s': "sax_parse_internal F (get_token F ?s2) = finish F s'"
      "read_value ?s2 s' rest (modify p (\<lambda>_. Object ((ys @ [(k, v)]) @ ms)) (root (sax ?s2))) ps st"
      using ms [unfolded parses_members_def, rule_format, of k2 v2 ms2 ?s2 rest p ps "ys @ [(k, v)]" st]
        Cons m l2(2) s1(2) st1 sorted by (auto simp: read_value_def leaves_def)
    have "modify p (\<lambda>_. Object ((ys @ [(k, v)]) @ ms)) (root (sax ?s2))
        = modify p (\<lambda>_. Object (ys @ (k, v) # ms)) (root (sax s))"
      by (simp add: r1 json_pointers.change_const)
    with s' s1 l2 show ?thesis by (auto simp: read_value_def)
  qed
qed

lemma parses_array:
  assumes plain: "plain_elements xs" and xs: "parses_elements F xs"
  shows "parses F (Array xs)"
  unfolding parses_def
proof (intro allI impI)
  fix s :: "'a parser" and rest
  assume l: "lex_ok (m_lexer s)" "unread (m_lexer s) = json_text F (Array xs) @ rest"
    and sk: "\<not> skip_to_state_evaluation s" and acc: "accepts (sax s)"
  obtain l1 where l1: "scan F (m_lexer s) = (T_begin_array, l1)" "leaves l1 (elements_text F xs @ 93 # rest)"
    using scan_structural [OF l(1), of 91 "elements_text F xs @ 93 # rest" T_begin_array F] l(2) by auto
  obtain q d1 where d1: "start_array (sax s) = Inr d1" "enters q (Array []) (sax s) d1"
    using start_array_accepts [OF acc] by blast
  let ?s1 = "s\<lparr>last_token := T_begin_array, m_lexer := l1\<rparr>"
  let ?s2 = "?s1\<lparr>sax := d1\<rparr>"
  have pv: "parse_value F ?s1 = (let s = get_token F ?s2 in
      if last_token s = T_end_array then bindE (on_sax end_array s) (\<lambda>s. Inr (Break, s))
      else Inr (Continue, s\<lparr>states := True # states s\<rparr>))"
    using d1(1) by (simp add: parse_value_def parse_array_def on_sax_def)
  have place: "modify q (\<lambda>_. Array xs) (root d1) = place (Array xs) (sax s)"
    "ref_stack d1 = q # ref_stack (sax s)" "deref q (root d1) = Some (Array [])"
    "errored d1 = errored (sax s)" "allow_exceptions d1 = allow_exceptions (sax s)"
    "xs = [] \<Longrightarrow> root d1 = place (Array xs) (sax s)"
    using d1(2) by (auto simp: enters_def)
  show "\<exists>s'. sax_parse_internal F (get_token F s) = finish F s' \<and>
      read_value s s' rest (place (Array xs) (sax s)) (ref_stack (sax s)) (states s)"
  proof (cases xs)
    case Nil
    obtain l2 where l2: "scan F l1 = (T_end_array, l2)" "leaves l2 rest"
      using scan_structural [of l1 93 rest T_end_array F] l1(2) Nil by (auto simp: leaves_def)
    let ?s3 = "s\<lparr>last_token := T_end_array, m_lexer := l2, sax := d1\<lparr>ref_stack := ref_stack (sax s)\<rparr>\<rparr>"
    have "parse_value F ?s1 = Inr (Break, ?s3)"
      using l2(1) place(2) by (simp add: pv get_token_def on_sax_def end_array_def)
    then have "sax_parse_internal F (get_token F s) = finish F ?s3"
      using sk by (simp add: get_token_scan [OF l1(1)] sax_parse_break)
    then show ?thesis using l2(2) place Nil sk by (auto simp: read_value_def)
  next
    case (Cons x xs')
    let ?s3 = "?s2\<lparr>states := True # states s\<rparr>"
    let ?rest = "(if xs' = [] then [] else 44 # elements_text F xs') @ 93 # rest"
    have "fst (scan F l1) = first_token x"
      using plain l1(2) Cons by (intro scan_first_token [where rest = ?rest])
        (auto simp: leaves_def ends_integer_def is_digit_def)
    then have "last_token (get_token F ?s2) \<noteq> T_end_array"
      by (cases x) (simp_all add: last_token_get_token)
    then have "parse_value F ?s1 = Inr (Continue, get_token F ?s3)"
      using get_token_states [where F = F and s = ?s2 and st = "True # states s"] by (simp add: pv Let_def)
    then have "sax_parse_internal F (get_token F s) = sax_parse_internal F (get_token F ?s3)"
      using sk by (simp add: get_token_scan [OF l1(1)] sax_parse_continue)
    moreover obtain s' where "sax_parse_internal F (get_token F ?s3) = finish F s'"
      "read_value ?s3 s' rest (modify q (\<lambda>_. Array ([] @ xs)) (root (sax ?s3))) (ref_stack (sax s)) (states s)"
      using xs [unfolded parses_elements_def, rule_format, of ?s3 rest q "ref_stack (sax s)" "[]" "states s"]
        Cons l1(2) place sk by (auto simp: leaves_def)
    ultimately show ?thesis using place by (auto simp: read_value_def)
  qed
qed

lemma parses_object:
  assumes sorted: "sorted_wrt key_less (map fst ms)" and utf8: "members_utf8 ms" and ms: "parses_members F ms"
  shows "parses F (Object ms)"
  unfolding parses_def
proof (intro allI impI)
  fix s :: "'a parser" and rest
  assume l: "lex_ok (m_lexer s)" "unread (m_lexer s) = json_text F (Object ms) @ rest"
    and sk: "\<not> skip_to_state_evaluation s" and acc: "accepts (sax s)"
  obtain l1 where l1: "scan F (m_lexer s) = (T_begin_object, l1)" "leaves l1 (members_text F ms @ 125 # rest)"
    using scan_structural [OF l(1), of 123 "members_text F ms @ 125 # rest" T_begin_object F] l(2) by auto
  obtain q d1 where d1: "start_object (sax s) = Inr d1" "enters q (Object []) (sax s) d1"
    using start_object_accepts [OF acc] by blast
  let ?s1 = "s\<lparr>last_token := T_begin_object, m_lexer := l1\<rparr>"
  let ?s2 = "?s1\<lparr>sax := d1\<rparr>"
  have pv: "parse_value F ?s1 = (let s = get_token F ?s2 in
      if last_token s = T_end_object then bindE (on_sax end_object s) (\<lambda>s. Inr (Break, s))
      else bindE (parse_key F s) (\<lambda>(c, s).
         if c = Continue then Inr (Continue, get_token F (s\<lparr>states := False # states s\<rparr>))
         else Inr (c, s)))"
    using d1(1) by (simp add: parse_value_def parse_object_def on_sax_def)
  have place: "modify q (\<lambda>_. Object ms) (root d1) = place (Object ms) (sax s)"
    "ref_stack d1 = q # ref_stack (sax s)" "deref q (root d1) = Some (Object [])"
    "errored d1 = errored (sax s)" "allow_exceptions d1 = allow_exceptions (sax s)"
    "ms = [] \<Longrightarrow> root d1 = place (Object ms) (sax s)"
    using d1(2) by (auto simp: enters_def)
  show "\<exists>s'. sax_parse_internal F (get_token F s) = finish F s' \<and>
      read_value s s' rest (place (Object ms) (sax s)) (ref_stack (sax s)) (states s)"
  proof (cases ms)
    case Nil
    obtain l2 where l2: "scan F l1 = (T_end_object, l2)" "leaves l2 rest"
      using scan_structural [of l1 125 rest T_end_object F] l1(2) Nil by (auto simp: leaves_def)
    let ?s3 = "s\<lparr>last_token := T_end_object, m_lexer := l2, sax := d1\<lparr>ref_stack := ref_stack (sax s)\<rparr>\<rparr>"
    have "parse_value F ?s1 = Inr (Break, ?s3)"
      using l2(1) place(2) by (simp add: pv get_token_def on_sax_def end_object_def)
    then have "sax_parse_internal F (get_token F s) = finish F ?s3"
      using sk by (simp add: get_token_scan [OF l1(1)] sax_parse_break)
    then show ?thesis using l2(2) place Nil sk by (auto simp: read_value_def)
  next
    case (Cons m ms')
    obtain k v where m: "m = (k, v)" by (cases m)
    let ?rest = "json_text F v @ (if ms' = [] then [] else 44 # members_text F ms') @ 125 # rest"
    have u: "unread (m_lexer ?s2) = quote k @ 58 # ?rest" "lex_ok (m_lexer ?s2)" "utf8_valid k"
      using l1(2) Cons m utf8 by (auto simp: leaves_def)
    obtain tk l2 where key: "parse_key F (get_token F ?s2) = Inr (Continue, ?s2\<lparr>last_token := tk, m_lexer := l2,
        sax := (sax ?s2)\<lparr>object_element := Some (q @ [Member k]),
          root := modify q (\<lambda>_. Object ([] @ [(k, Null)])) (root (sax ?s2))\<rparr>\<rparr>)" "leaves l2 ?rest"
      using parse_key_reads [OF u(2,1,3), of q "ref_stack (sax s)" "[]" F] place by auto
    let ?d3 = "d1\<lparr>object_element := Some (q @ [Member k]), root := modify q (\<lambda>_. Object ([(k, Null)])) (root d1)\<rparr>"
    let ?s3 = "s\<lparr>last_token := tk, m_lexer := l2, sax := ?d3, states := False # states s\<rparr>"
    have "last_token (get_token F ?s2) = T_value_string"
      using scan_string_token [OF u(2) _ u(3), of "58 # ?rest" F] u(1) by (auto simp: quote_def get_token_def)
    with key have "parse_value F ?s1 = Inr (Continue, get_token F ?s3)"
      by (simp add: pv)
    then have "sax_parse_internal F (get_token F s) = sax_parse_internal F (get_token F ?s3)"
      using sk by (simp add: get_token_scan [OF l1(1)] sax_parse_continue)
    moreover have "deref q (root ?d3) = Some (Object ([] @ [(k, Null)]))"
      using json_pointers.look_const [of q "root d1"] place(3) by simp
    then obtain s' where "sax_parse_internal F (get_token F ?s3) = finish F s'"
      "read_value ?s3 s' rest (modify q (\<lambda>_. Object ([] @ ms)) (root (sax ?s3))) (ref_stack (sax s)) (states s)"
      using ms [unfolded parses_members_def, rule_format, of k v ms' ?s3 rest q "ref_stack (sax s)" "[]" "states s"]
        Cons m key(2) place sk sorted by (auto simp: leaves_def)
    ultimately show ?thesis using place by (auto simp: read_value_def json_pointers.change_const)
  qed
qed

lemma parses_json:
  fixes F :: "('f, 'z) float_ops_scheme"
  shows "plain v \<Longrightarrow> parses F v" and "plain_members ms \<Longrightarrow> parses_members F ms"
    and "plain_elements xs \<Longrightarrow> parses_elements F xs"
proof (induction v and ms and xs rule: plain_plain_members_plain_elements.induct)
  case (2 ms)
  then show ?case using plain_utf8(2) by (auto intro: parses_object)
next
  case (12 k v ms)
  then show ?case using plain_utf8(2) by (auto intro: parses_members_Cons)
next
  case (3 xs)
  then show ?case by (auto intro: parses_array)
next
  case (14 v xs)
  then show ?case by (auto intro: parses_elements_Cons)
qed (auto simp: parses_def parses_members_def parses_elements_def intro!: parse_atomic)

end
