(* ===== verification/Json_Props.thy ===== *)
theory Json_Props
  imports Json_Roundtrip
begin

text \<open>
  The properties of the JSON library: the serializer against its reference definitions, the
  scanner of strings, the round trip of a value, and the indentation string.
\<close>

section \<open>Parsing what was dumped\<close>

lemma json_parse_text:
  fixes F :: "('f, 'z) float_ops_scheme"
  assumes "plain v"
  shows "json_parse F allow False (json_text F v) = Inr v"
proof -
  let ?l = "lexer_init (json_text F v) False 0x2E :: 'f lexer"
  let ?s = "\<lparr>last_token = T_uninitialized, m_lexer = ?l, sax = dom_init allow :: 'f dom, states = [],
    skip_to_state_evaluation = False\<rparr>"
  have "lex_ok ?l" "unread ?l = json_text F v @ []"
    by (simp_all add: lex_ok_def unread_def lexer_init_def)
  moreover have "accepts (sax ?s)" by (simp add: accepts_def dom_init_def)
  ultimately obtain s' where s': "sax_parse_internal F (get_token F ?s) = finish F s'"
    "read_value ?s s' [] (place v (sax ?s)) (ref_stack (sax ?s)) (states ?s)"
    using parses_json(1) [OF assms, of F, unfolded parses_def, rule_format, of ?s "[]"]
    by (auto simp: ends_integer_def)
  have "states s' = []" and l: "leaves (m_lexer s') []" and r: "root (sax s') = v" "\<not> errored (sax s')"
    using s'(2) by (auto simp: read_value_def place_def handle_value_def dom_init_def)
  then have "sax_parse_internal F (get_token F ?s) = Inr (True, s')"
    using s'(1) by (simp add: finish_def evaluate_state_def)
  moreover have "last_token (get_token F s') = T_end_of_input"
    using scan_end [OF l] by (simp add: last_token_get_token)
  ultimately show ?thesis using r by (simp add: json_parse_def parser_init_def parser_parse_def)
qed

lemma json_text_no_nul:
  fixes v :: "'f json" and ms :: "(byte list \<times> 'f json) list" and xs :: "'f json list"
  shows "plain v \<Longrightarrow> 0 \<notin> set (json_text F v)" and "plain_members ms \<Longrightarrow> 0 \<notin> set (members_text F ms)"
    and "plain_elements xs \<Longrightarrow> 0 \<notin> set (elements_text F xs)"
proof -
  have hex: "hex_digit_lower n \<noteq> 0" if "n < 16" for n
    using that uint_digit [of n] by (auto simp: hex_digit_lower_def word_uint_eq_iff
        uint_word_ariths unsigned_of_nat take_bit_eq_mod)
  have "0 \<notin> set (escape_byte b)" for b
    by (auto simp: escape_byte_def hex4_def hex [THEN not_sym])
  then have q: "0 \<notin> set (quote s)" for s by (auto simp: quote_def escape_text_def)
  have d: "0 \<notin> set (dec n)" for n using dec_digits [of n] by (auto simp: is_digit_def)
  then have i: "0 \<notin> set (dec_int n)" for n by (simp add: dec_int_def)
  show "plain v \<Longrightarrow> 0 \<notin> set (json_text F v)" "plain_members ms \<Longrightarrow> 0 \<notin> set (members_text F ms)"
    "plain_elements xs \<Longrightarrow> 0 \<notin> set (elements_text F xs)"
    by (induction v and ms and xs rule: plain_plain_members_plain_elements.induct)
      (simp_all add: q i str_def)
qed

lemma serializer_init_ok: "serializer_ok (serializer_init ichar Strict)"
  by (simp add: serializer_ok_def serializer_init_def)

lemma dump_default_cases:
  "if json_utf8 j then dump_default F j = Inr (json_text F j)
   else \<exists>msg. dump_default F j = Inl (Throw (Type_error 316 msg))"
  using dumps_json(1) [OF serializer_init_ok [of 32], of j F 0 0]
  by (auto simp: dump_default_def json_dump_def dumps_def serializer_init_def)

text \<open>
  C25. \<open>dump\<close> writes the compact text of a value, whatever the value and its nesting, when
  every string and every key in it is well-formed UTF-8, and otherwise throws
  \<open>type_error.316\<close>: the table-driven decoder, the buffer of 512 bytes and the digits written
  backwards in pairs do what the reference text says, and none of the arrays overflows.
\<close>

theorem dump_writes_json_text:
  "case dump_default F j of
     Inr t \<Rightarrow> json_utf8 j \<and> t = json_text F j
   | Inl e \<Rightarrow> \<not> json_utf8 j \<and> (\<exists>msg. e = Throw (Type_error 316 msg))"
  using dump_default_cases [of j F] by (auto split: sum.split if_splits)

text \<open>
  C6. A value without \<open>double\<close>, binary or discarded values, whose strings and keys are well-formed
  UTF-8, whose keys are in the order of the map and whose signed numbers are negative is parsed back
  from the text that \<open>dump\<close> writes, also when that text is handed on as a C string as the client does it.
\<close>

theorem parse_dump:
  assumes "plain v"
  shows "\<exists>t. dump_default F v = Inr t \<and> json_parse F True False t = Inr v \<and> parse_c_string F t = Inr v"
proof (intro exI conjI)
  show "dump_default F v = Inr (json_text F v)"
    using dump_default_cases [of v F] plain_utf8(1) [OF assms] by simp
  show "json_parse F True False (json_text F v) = Inr v" by (rule json_parse_text [OF assms])
  have "c_string (json_text F v) = json_text F v"
    using json_text_no_nul(1) [OF assms, of F] unfolding c_string_def
    by (induction "json_text F v" rule: rev_induct) (auto intro: takeWhile_eq_all_conv [THEN iffD2])
  then show "parse_c_string F (json_text F v) = Inr v"
    by (simp add: parse_c_string_def json_parse_text [OF assms])
qed

theorem parse_dump_witness:
  "\<exists>t. dump_default whole_floats (Object [(str ''id'', Number_unsigned 7), (str ''title'', Array [String [34, 10], Null])]) = Inr t
    \<and> json_parse whole_floats True False t = Inr (Object [(str ''id'', Number_unsigned 7), (str ''title'', Array [String [34, 10], Null])])
    \<and> parse_c_string whole_floats t = Inr (Object [(str ''id'', Number_unsigned 7), (str ''title'', Array [String [34, 10], Null])])"
  by (rule parse_dump) (simp add: str_def utf8_valid_def byte_ranges_def)

text \<open>
  C37. \<open>dump_integer\<close>, which counts the digits in steps of four and writes them from the end
  two at a time, writes the decimal form of every 64-bit value, the least one included.
\<close>

theorem dump_integer_decimal:
  "bindE (dump_integer is_signed x (serializer_init c h)) (\<lambda>s. Inr (out s))
    = Inr (dec_int (number_value is_signed x))"
  using dump_integer_dec [of "serializer_init c h" is_signed x] by (auto simp: serializer_init_def)

section \<open>Strings\<close>

text \<open>
  C33. The strings that \<open>scan_string\<close> can deliver are exactly the well-formed UTF-8 strings:
  escapes, surrogate pairs and the byte ranges of its cases let nothing else through, and
  every such string is the content of some literal.
\<close>

theorem scan_string_delivers_utf8:
  "(\<exists>l l' :: 'f lexer. lex_ok l \<and> scan_string l = (T_value_string, l') \<and> token_buffer l' = s) \<longleftrightarrow> utf8_valid s"
proof
  assume "\<exists>l l' :: 'f lexer. lex_ok l \<and> scan_string l = (T_value_string, l') \<and> token_buffer l' = s"
  then show "utf8_valid s" using scan_string_valid(1) by blast
next
  assume s: "utf8_valid s"
  let ?l = "lexer_init (escape_text s @ [34]) False 0x2E :: 'f lexer"
  have l: "lex_ok ?l" "unread ?l = escape_text s @ 34 # []"
    by (simp_all add: lex_ok_def unread_def lexer_init_def)
  from scan_string_escaped [OF s l] l(1)
  show "\<exists>l l' :: 'f lexer. lex_ok l \<and> scan_string l = (T_value_string, l') \<and> token_buffer l' = s"
    by blast
qed

section \<open>Indentation\<close>

lemma word_of_indent: "0 \<le> i \<Longrightarrow> i < 2 ^ 31 \<Longrightarrow> unat (word_of_int i :: u32) = nat i"
  by (simp add: unat_eq_nat_uint unsigned_of_int take_bit_int_eq_self)

text \<open>
  \<open>indent_string\<close> is enlarged only once, so a pretty-printed array reads beyond its end
  when the indentation is more than 1025.
\<close>

lemma dump_indent_overread:
  assumes "1025 < indent" "indent < 2 ^ 31"
  shows "json_dump F indent c ascii h (Array (v # xs)) = Inl (Undefined Array_overread)"
proof -
  have "1025 < nat indent" using assms(1) by linarith
  then show ?thesis
    using assms word_of_indent [of indent]
    by (simp add: json_dump_def serializer_init_def grow_indent_def write_indent_def write_characters_def)
qed

lemma dump_indent_overread_example:
  "json_dump whole_floats 1100 32 False Strict (Array [Null]) = Inl (Undefined Array_overread)"
  by (rule dump_indent_overread) simp_all

text \<open>
  What is added when \<open>indent_string\<close> is enlarged are spaces, whatever character was asked
  for: between 513 and 1024 columns, the first 512 have the chosen character and the others
  do not.
\<close>

lemma dump_indent_mixed:
  assumes "512 < indent" "indent \<le> 1024"
  shows "json_dump F indent c ascii h (Array [Null]) =
    Inr ([91, 10] @ replicate 512 c @ replicate (nat indent - 512) 32 @ str ''null'' @ [10, 93])"
proof -
  have "512 < nat indent" "nat indent \<le> 1024" using assms by linarith+
  then show ?thesis
    using assms word_of_indent [of indent]
    by (simp add: json_dump_def serializer_init_def grow_indent_def write_indent_def write_characters_def
        min_absorb1)
qed

lemma dump_indent_mixed_example:
  "json_dump whole_floats 600 9 False Strict (Array [Null]) =
    Inr ([91, 10] @ replicate 512 9 @ replicate 88 32 @ str ''null'' @ [10, 93])"
  using dump_indent_mixed [of 600 whole_floats 9 False Strict] by simp

end
