(* ===== verification/Json_Objects.thy ===== *)
theory Json_Objects
  imports Json_Roundtrip
begin

text \<open>
  The members of a JSON object as the \<open>std::map\<close> they are: the order of the keys, lookup,
  insertion, replacement and erasure on the sorted list, and the contract of a dictionary that the
  components above rely on.
\<close>

section \<open>The order of the keys\<close>

lemma key_less_Nil [simp]: "key_less [] s \<longleftrightarrow> s \<noteq> []"
  by (cases s) auto

lemma key_less_trans: "key_less a b \<Longrightarrow> key_less b c \<Longrightarrow> key_less a c"
proof (induction a b arbitrary: c rule: key_less.induct)
  case (2 x s)
  then show ?case by (cases c) auto
next
  case (3 x s y t)
  then show ?case by (cases c) auto
qed simp

lemma key_less_total: "key_less a b \<or> a = b \<or> key_less b a"
  by (induction a b rule: key_less.induct) auto

definition key_leq :: "byte list \<Rightarrow> byte list \<Rightarrow> bool" where
  "key_leq a b \<longleftrightarrow> a = b \<or> key_less a b"

interpretation keys: linorder key_leq key_less
proof
  fix a b c :: "byte list"
  show "key_less a b = (key_leq a b \<and> \<not> key_leq b a)"
    using key_less_asym by (auto simp: key_leq_def)
  show "key_leq a b \<Longrightarrow> key_leq b c \<Longrightarrow> key_leq a c"
    using key_less_trans by (auto simp: key_leq_def)
  show "key_leq a b \<Longrightarrow> key_leq b a \<Longrightarrow> a = b"
    using key_less_asym by (auto simp: key_leq_def)
  show "key_leq a b \<or> key_leq b a" using key_less_total by (auto simp: key_leq_def)
qed (simp add: key_leq_def)

section \<open>Sorted members\<close>

definition sorted_keys :: "(byte list \<times> 'v) list \<Rightarrow> bool" where
  "sorted_keys ms \<longleftrightarrow> sorted_wrt key_less (map fst ms)"

lemma sorted_keys_Nil [simp]: "sorted_keys []"
  by (simp add: sorted_keys_def)

lemma sorted_keys_Cons [simp]:
  "sorted_keys ((k, v) # ms) \<longleftrightarrow> (\<forall>l \<in> fst ` set ms. key_less k l) \<and> sorted_keys ms"
  by (auto simp: sorted_keys_def)

lemma sorted_keys_append:
  "sorted_keys (ms @ ns) \<longleftrightarrow>
     sorted_keys ms \<and> sorted_keys ns \<and> (\<forall>k \<in> fst ` set ms. \<forall>l \<in> fst ` set ns. key_less k l)"
  by (auto simp: sorted_keys_def sorted_wrt_append)

lemma sorted_keys_distinct: "sorted_keys ms \<Longrightarrow> distinct (map fst ms)"
  by (simp add: sorted_keys_def keys.strict_sorted_iff)

lemma map_of_None_iff: "map_of ms k = None \<longleftrightarrow> k \<notin> fst ` set ms"
  by (rule map_of_eq_None_iff)

lemma map_of_smaller: "\<forall>l \<in> fst ` set ms. key_less k l \<Longrightarrow> map_of ms k = None"
  by (auto simp: map_of_None_iff)

text \<open>\<open>std::map::erase\<close> with a key.\<close>

fun object_erase :: "byte list \<Rightarrow> (byte list \<times> 'v) list \<Rightarrow> (byte list \<times> 'v) list" where
  "object_erase k [] = []"
| "object_erase k ((l, w) # ms) = (if k = l then ms else (l, w) # object_erase k ms)"

lemma keys_emplace [simp]: "fst ` set (object_emplace k v ms) = insert k (fst ` set ms)"
  by (induction k v ms rule: object_emplace.induct) (simp_all add: insert_commute)

lemma map_of_emplace:
  "map_of (object_emplace k v ms) l = (if l = k \<and> map_of ms k = None then Some v else map_of ms l)"
  if "sorted_keys ms"
  using that
proof (induction ms)
  case (Cons m ms)
  obtain a b where m: "m = (a, b)" by (cases m)
  show ?case
  proof (cases "key_less k a")
    case True
    then have "k \<noteq> a" "map_of ms k = None"
      using Cons.prems m key_less_trans by (fastforce simp: map_of_None_iff)+
    with True show ?thesis by (auto simp: m)
  next
    case False
    with Cons m show ?thesis by auto
  qed
qed simp

lemma sorted_keys_emplace: "sorted_keys ms \<Longrightarrow> sorted_keys (object_emplace k v ms)"
proof (induction ms)
  case (Cons m ms)
  obtain a b where m: "m = (a, b)" by (cases m)
  from Cons show ?case
    using key_less_trans [of k a] key_less_total [of k a] by (auto simp: m)
qed simp

lemma object_emplace_present: "sorted_keys ms \<Longrightarrow> map_of ms k = Some v \<Longrightarrow> object_emplace k w ms = ms"
proof (induction ms)
  case (Cons m ms)
  obtain a b where m: "m = (a, b)" by (cases m)
  from Cons.prems have "\<not> key_less k a" if "k \<noteq> a"
  proof -
    have "k \<in> fst ` set ms" using Cons.prems(2) that m by (auto dest: map_of_SomeD intro: rev_image_eqI split: if_splits)
    then have "key_less a k" using Cons.prems(1) m by auto
    then show ?thesis by (rule key_less_asym)
  qed
  with Cons m show ?case by (auto split: if_splits)
qed simp

lemma keys_update [simp]: "map fst (object_update k f ms) = map fst ms"
  by (induction ms) auto

lemma sorted_keys_update [simp]: "sorted_keys (object_update k f ms) = sorted_keys ms"
  by (simp add: sorted_keys_def)

lemma sorted_keys_erase: "sorted_keys ms \<Longrightarrow> sorted_keys (object_erase k ms)"
proof (induction ms)
  case (Cons m ms)
  obtain a b where m: "m = (a, b)" by (cases m)
  have "set (object_erase k ms) \<subseteq> set ms" for ms :: "(byte list \<times> 'a) list"
    by (induction ms) (auto split: if_splits)
  with Cons show ?case by (fastforce simp: m)
qed simp

lemma map_of_erase:
  "map_of (object_erase k ms) l = (if l = k then None else map_of ms l)" if "sorted_keys ms"
  using that
proof (induction ms)
  case (Cons m ms)
  obtain a b where m: "m = (a, b)" by (cases m)
  from Cons show ?case using map_of_smaller [of ms a] by (auto simp: m)
qed simp

lemma object_erase_absent: "map_of ms k = None \<Longrightarrow> object_erase k ms = ms"
  by (induction ms) (auto split: if_splits)

text \<open>Two objects with the same members are the same list.\<close>

lemma sorted_keys_ext:
  "sorted_keys ms \<Longrightarrow> sorted_keys ns \<Longrightarrow> (\<And>k. map_of ms k = map_of ns k) \<Longrightarrow> ms = ns"
proof (induction ms arbitrary: ns)
  case Nil
  have "ns = []"
  proof (rule ccontr)
    assume "ns \<noteq> []"
    then obtain k v ns' where "ns = (k, v) # ns'" by (cases ns) auto
    with Nil(3) [of k] show False by simp
  qed
  then show ?case by simp
next
  case (Cons m ms)
  obtain a b where m: "m = (a, b)" by (cases m)
  from Cons.prems(3) [of a] m obtain k v ns' where ns: "ns = (k, v) # ns'" by (cases ns) auto
  have k: "k \<in> fst ` set (m # ms)" using Cons.prems(3) [of k] ns
    by (metis map_of_None_iff map_of_Cons_code(2) option.distinct(1))
  have a: "a \<in> fst ` set ns" using Cons.prems(3) [of a] m
    by (metis map_of_None_iff map_of_Cons_code(2) option.distinct(1))
  have "a = k"
  proof (rule ccontr)
    assume "a \<noteq> k"
    with k m Cons.prems(1) have "key_less a k" by auto
    moreover from \<open>a \<noteq> k\<close> a ns Cons.prems(2) have "key_less k a" by auto
    ultimately show False using key_less_asym by blast
  qed
  have none: "map_of ms a = None" "map_of ns' a = None"
    using Cons.prems(1,2) m ns \<open>a = k\<close> by (auto simp: map_of_smaller)
  have "map_of ms l = map_of ns' l" for l
    using Cons.prems(3) [of l] none by (cases "l = a") (auto simp: m ns \<open>a = k\<close>)
  with Cons.IH [of ns'] Cons.prems m ns have "ms = ns'" by auto
  with Cons.prems(3) [of a] m ns \<open>a = k\<close> show ?case by simp
qed

section \<open>The contract of a dictionary\<close>

locale dictionary =
  fixes lookup :: "'d \<Rightarrow> 'k \<Rightarrow> 'v option" and put :: "'k \<Rightarrow> 'v \<Rightarrow> 'd \<Rightarrow> 'd" and del :: "'k \<Rightarrow> 'd \<Rightarrow> 'd"
    and ok :: "'d \<Rightarrow> bool"
  assumes ok_put: "ok d \<Longrightarrow> ok (put k v d)" and ok_del: "ok d \<Longrightarrow> ok (del k d)"
    and lookup_put: "ok d \<Longrightarrow> lookup (put k v d) = (lookup d)(k \<mapsto> v)"
    and lookup_del: "ok d \<Longrightarrow> lookup (del k d) = (lookup d)(k := None)"
    and lookup_ext: "ok d \<Longrightarrow> ok e \<Longrightarrow> lookup d = lookup e \<Longrightarrow> d = e"
begin

lemma put_put: "ok d \<Longrightarrow> put k v (put k w d) = put k v d"
  by (rule lookup_ext) (auto simp: ok_put lookup_put)

lemma del_put: "ok d \<Longrightarrow> del k (put k v d) = del k d"
  by (rule lookup_ext) (auto simp: ok_put ok_del lookup_put lookup_del)

lemma del_twice: "ok d \<Longrightarrow> del k (del k d) = del k d"
  by (rule lookup_ext) (auto simp: ok_del lookup_del)

lemma put_same: "ok d \<Longrightarrow> lookup d k = Some v \<Longrightarrow> put k v d = d"
  by (rule lookup_ext) (auto simp: ok_put lookup_put)

lemma del_absent: "ok d \<Longrightarrow> lookup d k = None \<Longrightarrow> del k d = d"
  by (rule lookup_ext) (auto simp: ok_del lookup_del)

lemma put_commute: "ok d \<Longrightarrow> k \<noteq> l \<Longrightarrow> put k v (put l w d) = put l w (put k v d)"
  by (rule lookup_ext) (auto simp: ok_put lookup_put)

end

text \<open>\<open>j[key] = v\<close> on the members: the member is added when it is missing, then replaced.\<close>

definition object_put :: "byte list \<Rightarrow> 'f json \<Rightarrow> (byte list \<times> 'f json) list \<Rightarrow> (byte list \<times> 'f json) list" where
  "object_put k v ms = object_update k (\<lambda>_. v) (object_emplace k Null ms)"

interpretation members: dictionary map_of object_put object_erase sorted_keys
proof
  show "d = e" if "sorted_keys d" "sorted_keys e" "map_of d = map_of e" for d e :: "(byte list \<times> 'a json) list"
    using sorted_keys_ext [OF that(1,2)] that(3) by simp
qed (auto simp: object_put_def fun_eq_iff map_of_object_update map_of_emplace map_of_erase sorted_keys_emplace sorted_keys_erase)

lemma assign_key_object [simp]: "assign_key k v (Object ms) = Inr (Object (object_put k v ms))"
  "assign_key k v Null = Inr (Object [(k, v)])"
  by (simp_all add: assign_key_def operator_key_def object_put_def)

lemma object_put_update:
  "sorted_keys ms \<Longrightarrow> map_of ms k \<noteq> None \<Longrightarrow> object_put k v ms = object_update k (\<lambda>_. v) ms"
  by (auto simp: object_put_def object_emplace_present)

end
