(* ===== verification/Json_Access.thy ===== *)
theory Json_Access
  imports Json_Objects
begin

text \<open>
  The member functions of \<open>basic_json\<close> (\<open>json.hpp\<close>) that read and change arrays and objects: the
  access with and without a check, insertion, erasure, the constructor from an initializer list and
  \<open>update\<close>. A function that changes the value returns the new one; a reference into a value is a
  path (\<open>json_ref\<close>).
\<close>

section \<open>Kinds of values\<close>

fun is_primitive :: "'f json \<Rightarrow> bool" where
  "is_primitive (Object _) = False"
| "is_primitive (Array _) = False"
| "is_primitive Discarded = False"
| "is_primitive _ = True"

fun json_empty :: "'f json \<Rightarrow> bool" where
  "json_empty Null = True"
| "json_empty (Array xs) = (xs = [])"
| "json_empty (Object ms) = (ms = [])"
| "json_empty _ = False"

fun json_clear :: "('f, 'z) float_ops_scheme \<Rightarrow> 'f json \<Rightarrow> 'f json" where
  "json_clear F (Number_integer _) = Number_integer 0"
| "json_clear F (Number_unsigned _) = Number_unsigned 0"
| "json_clear F (Number_float _) = Number_float (float_of_int F 0)"
| "json_clear F (Boolean _) = Boolean False"
| "json_clear F (String _) = String []"
| "json_clear F (Binary _ st) = Binary [] st"
| "json_clear F (Array _) = Array []"
| "json_clear F (Object _) = Object []"
| "json_clear F j = j"

section \<open>Initializer lists\<close>

text \<open>An element that can be a member: an array of a string and a value.\<close>

fun pair_of :: "'f json \<Rightarrow> (byte list \<times> 'f json) option" where
  "pair_of (Array [String k, v]) = Some (k, v)"
| "pair_of _ = None"

definition emplace_pairs :: "'f json list \<Rightarrow> (byte list \<times> 'f json) list" where
  "emplace_pairs init =
     foldl (\<lambda>ms e. case pair_of e of Some (k, v) \<Rightarrow> object_emplace k v ms | None \<Rightarrow> ms) [] init"

text \<open>\<open>basic_json ({...})\<close>, with type deduction, and \<open>object ({...})\<close>.\<close>

definition init_list :: "'f json list \<Rightarrow> 'f json" where
  "init_list init =
     (if list_all (\<lambda>e. pair_of e \<noteq> None) init then Object (emplace_pairs init) else Array init)"

definition init_object :: "'f json list \<Rightarrow> stop + 'f json" where
  "init_object init =
     (if list_all (\<lambda>e. pair_of e \<noteq> None) init then Inr (Object (emplace_pairs init))
      else Inl (Throw (type_error_create 301 (str ''cannot create object from initializer list''))))"

section \<open>Access\<close>

definition key_not_found :: "byte list \<Rightarrow> stop" where
  "key_not_found key = Throw (out_of_range_create 403 (str ''key '' @ [39] @ key @ [39] @ str '' not found''))"

definition at_key :: "byte list \<Rightarrow> 'f json \<Rightarrow> stop + 'f json" where
  "at_key key j =
     (case j of
        Object ms \<Rightarrow> (case map_of ms key of None \<Rightarrow> Inl (key_not_found key) | Some v \<Rightarrow> Inr v)
      | _ \<Rightarrow> Inl (Throw (type_error_create 304 (str ''cannot use at() with '' @ type_name j))))"

text \<open>\<open>std::vector<basic_json>::max_size\<close>: an element takes 16 bytes.\<close>

definition vector_max_size :: nat where
  "vector_max_size = (2 ^ 63 - 1) div 16"

text \<open>
  \<open>operator[]\<close> with an index: null becomes an empty array, and an array is filled up with null to the
  index; \<open>resize\<close> throws when that is longer than a vector can be. Memory does not run out.
\<close>

definition operator_index :: "nat \<Rightarrow> 'f json \<Rightarrow> stop + 'f json" where
  "operator_index idx j =
     (case (case j of Null \<Rightarrow> Array [] | _ \<Rightarrow> j) of
        Array xs \<Rightarrow>
          (if idx < length xs then Inr (Array xs)
           else if idx + 1 > vector_max_size then Inl (Throw Length_error)
           else Inr (Array (xs @ replicate (idx + 1 - length xs) Null)))
      | _ \<Rightarrow> Inl (Throw (type_error_create 305
               (str ''cannot use operator[] with a numeric argument with '' @ type_name j))))"

text \<open>The same for a constant value: an index out of range is undefined, a missing key fails an assertion.\<close>

definition const_index :: "nat \<Rightarrow> 'f json \<Rightarrow> stop + 'f json" where
  "const_index idx j =
     (case j of
        Array xs \<Rightarrow> (if idx < length xs then Inr (xs ! idx) else Inl (Undefined Array_overread))
      | _ \<Rightarrow> Inl (Throw (type_error_create 305
               (str ''cannot use operator[] with a numeric argument with '' @ type_name j))))"

definition const_key :: "byte list \<Rightarrow> 'f json \<Rightarrow> stop + 'f json" where
  "const_key key j =
     (case j of
        Object ms \<Rightarrow> (case map_of ms key of None \<Rightarrow> Inl (Undefined Assertion) | Some v \<Rightarrow> Inr v)
      | _ \<Rightarrow> Inl (Throw (type_error_create 305
               (str ''cannot use operator[] with a string argument with '' @ type_name j))))"

definition contains_key :: "byte list \<Rightarrow> 'f json \<Rightarrow> bool" where
  "contains_key key j = (case j of Object ms \<Rightarrow> map_of ms key \<noteq> None | _ \<Rightarrow> False)"

text \<open>\<open>value\<close> with a key and a default of type \<open>std::string\<close>.\<close>

definition value_string :: "byte list \<Rightarrow> byte list \<Rightarrow> 'f json \<Rightarrow> stop + byte list" where
  "value_string key dflt j =
     (case j of
        Object ms \<Rightarrow> (case map_of ms key of Some v \<Rightarrow> get_to_string v | None \<Rightarrow> Inr dflt)
      | _ \<Rightarrow> Inl (Throw (type_error_create 306 (str ''cannot use value() with '' @ type_name j))))"

section \<open>Insertion and erasure\<close>

text \<open>A vector of the largest size cannot take another element.\<close>

definition push_back :: "'f json \<Rightarrow> 'f json \<Rightarrow> stop + 'f json" where
  "push_back v j =
     (case j of
        Null \<Rightarrow> Inr (Array [v])
      | Array xs \<Rightarrow>
          (if length xs \<ge> vector_max_size then Inl (Throw Length_error) else Inr (Array (xs @ [v])))
      | _ \<Rightarrow> Inl (Throw (type_error_create 308 (str ''cannot use push_back() with '' @ type_name j))))"

definition push_back_member :: "byte list \<times> 'f json \<Rightarrow> 'f json \<Rightarrow> stop + 'f json" where
  "push_back_member m j =
     (case j of
        Null \<Rightarrow> Inr (Object [m])
      | Object ms \<Rightarrow> Inr (Object (object_emplace (fst m) (snd m) ms))
      | _ \<Rightarrow> Inl (Throw (type_error_create 308 (str ''cannot use push_back() with '' @ type_name j))))"

text \<open>\<open>emplace\<close> also says whether the key is new.\<close>

definition json_emplace :: "byte list \<Rightarrow> 'f json \<Rightarrow> 'f json \<Rightarrow> stop + bool \<times> 'f json" where
  "json_emplace key v j =
     (case j of
        Null \<Rightarrow> Inr (True, Object [(key, v)])
      | Object ms \<Rightarrow> Inr (map_of ms key = None, Object (object_emplace key v ms))
      | _ \<Rightarrow> Inl (Throw (type_error_create 311 (str ''cannot use emplace() with '' @ type_name j))))"

text \<open>\<open>insert\<close> at \<open>begin () + idx\<close>, which is undefined behind the end.\<close>

definition insert_position :: "nat \<Rightarrow> 'f json \<Rightarrow> 'f json \<Rightarrow> stop + 'f json" where
  "insert_position idx v j =
     (case j of
        Array xs \<Rightarrow>
          (if idx > length xs then Inl (Undefined Array_overflow)
           else if length xs \<ge> vector_max_size then Inl (Throw Length_error)
           else Inr (Array (take idx xs @ v # drop idx xs)))
      | _ \<Rightarrow> Inl (Throw (type_error_create 309 (str ''cannot use insert() with '' @ type_name j))))"

definition erase_key :: "byte list \<Rightarrow> 'f json \<Rightarrow> stop + 'f json" where
  "erase_key key j =
     (case j of
        Object ms \<Rightarrow> Inr (Object (object_erase key ms))
      | _ \<Rightarrow> Inl (Throw (type_error_create 307 (str ''cannot use erase() with '' @ type_name j))))"

definition erase_index :: "nat \<Rightarrow> 'f json \<Rightarrow> stop + 'f json" where
  "erase_index idx j =
     (case j of
        Array xs \<Rightarrow>
          (if idx < length xs then Inr (Array (take idx xs @ drop (Suc idx) xs))
           else Inl (Throw (out_of_range_create 401 (str ''array index '' @ dec idx @ str '' is out of range''))))
      | _ \<Rightarrow> Inl (Throw (type_error_create 307 (str ''cannot use erase() with '' @ type_name j))))"

text \<open>\<open>update\<close> from the members of another value; with \<open>merge_objects\<close> it descends into members that are objects in both.\<close>

fun json_update :: "bool \<Rightarrow> 'f json \<Rightarrow> 'f json \<Rightarrow> stop + 'f json"
and update_members :: "bool \<Rightarrow> (byte list \<times> 'f json) list \<Rightarrow> (byte list \<times> 'f json) list
  \<Rightarrow> stop + (byte list \<times> 'f json) list" where
  "json_update merge other j =
     (case (case j of Null \<Rightarrow> Object [] | _ \<Rightarrow> j) of
        Object ms \<Rightarrow>
          (case other of
             Object ns \<Rightarrow> bindE (update_members merge ns ms) (\<lambda>ms. Inr (Object ms))
           | _ \<Rightarrow> Inl (Throw (type_error_create 312 (str ''cannot use update() with '' @ type_name other))))
      | _ \<Rightarrow> Inl (Throw (type_error_create 312 (str ''cannot use update() with '' @ type_name j))))"
| "update_members merge [] ms = Inr ms"
| "update_members merge ((k, v) # ns) ms =
     (case (if merge \<and> json_type v = t_object then map_of ms k else None) of
        Some w \<Rightarrow>
          bindE (json_update True v w) (\<lambda>w. update_members merge ns (object_update k (\<lambda>_. w) ms))
      | None \<Rightarrow> update_members merge ns (object_put k v ms))"

section \<open>Well-formed values\<close>

text \<open>Every object is sorted by its keys, and no array is longer than a vector can be.\<close>

fun json_ok :: "'f json \<Rightarrow> bool"
and members_ok :: "(byte list \<times> 'f json) list \<Rightarrow> bool"
and elements_ok :: "'f json list \<Rightarrow> bool" where
  "json_ok (Object ms) = (sorted_keys ms \<and> members_ok ms)"
| "json_ok (Array xs) = (length xs \<le> vector_max_size \<and> elements_ok xs)"
| "json_ok _ = True"
| "members_ok [] = True"
| "members_ok ((k, v) # ms) = (json_ok v \<and> members_ok ms)"
| "elements_ok [] = True"
| "elements_ok (x # xs) = (json_ok x \<and> elements_ok xs)"

lemma members_ok_iff: "members_ok ms \<longleftrightarrow> (\<forall>v \<in> snd ` set ms. json_ok v)"
  by (induction ms) auto

lemma elements_ok_iff: "elements_ok xs \<longleftrightarrow> (\<forall>x \<in> set xs. json_ok x)"
  by (induction xs) auto

lemma members_ok_map_of: "members_ok ms \<Longrightarrow> map_of ms k = Some v \<Longrightarrow> json_ok v"
  by (induction ms) (auto split: if_splits)

lemma members_ok_emplace: "members_ok ms \<Longrightarrow> json_ok v \<Longrightarrow> members_ok (object_emplace k v ms)"
  by (induction ms) auto

lemma members_ok_update:
  "members_ok ms \<Longrightarrow> (\<And>v. map_of ms k = Some v \<Longrightarrow> json_ok (f v)) \<Longrightarrow> members_ok (object_update k f ms)"
  by (induction ms) auto

lemma members_ok_put: "members_ok ms \<Longrightarrow> json_ok v \<Longrightarrow> members_ok (object_put k v ms)"
  by (simp add: object_put_def members_ok_update members_ok_emplace)

lemma members_ok_erase: "members_ok ms \<Longrightarrow> members_ok (object_erase k ms)"
  by (induction ms) auto

text \<open>Every operation keeps values well-formed.\<close>

text \<open>Changing nothing.\<close>

lemma modify_id: "modify r (\<lambda>v. v) j = j"
proof (induction r "\<lambda>v. v :: 'a json" j rule: modify.induct)
  case (3 k p ms)
  have "object_update k (\<lambda>v. v) ms = ms" for ms :: "(byte list \<times> 'a json) list" by (induction ms) auto
  moreover have "modify p (\<lambda>v. v) = (\<lambda>v :: 'a json. v)" using 3 by (simp add: fun_eq_iff)
  ultimately show ?case by simp
qed simp_all

lemma modify_same: "deref r j = Some s \<Longrightarrow> modify r (\<lambda>_. s) j = j"
  using json_pointers.change_cong [of r j s "\<lambda>_. s" "\<lambda>v. v"] by (simp add: modify_id)

lemma modify_ok: "json_ok j \<Longrightarrow> (\<And>v. deref r j = Some v \<Longrightarrow> json_ok v \<Longrightarrow> json_ok (f v)) \<Longrightarrow> json_ok (modify r f j)"
proof (induction r f j rule: modify.induct)
  case (2 i p f xs)
  then show ?case
    by (auto simp: elements_ok_iff set_conv_nth nth_list_update)
next
  case (3 k p f ms)
  have "json_ok (modify p f v)" if v: "map_of ms k = Some v" for v
    by (rule 3(1)) (use 3(2,3) v members_ok_map_of in auto)
  with 3(2) show ?case by (auto intro: members_ok_update)
qed simp_all

lemma assign_key_ok: "json_ok j \<Longrightarrow> json_ok v \<Longrightarrow> assign_key k v j = Inr j' \<Longrightarrow> json_ok j'"
  by (cases j) (auto simp: members.ok_put members_ok_put, auto simp: assign_key_def operator_key_def)

lemma operator_key_ok: "json_ok j \<Longrightarrow> operator_key k j = Inr j' \<Longrightarrow> json_ok j'"
  by (cases j) (auto simp: operator_key_def sorted_keys_emplace members_ok_emplace)

lemma operator_index_ok: "json_ok j \<Longrightarrow> operator_index i j = Inr j' \<Longrightarrow> json_ok j'"
  by (cases j) (auto simp: operator_index_def elements_ok_iff split: if_splits)

lemma push_back_ok: "json_ok j \<Longrightarrow> json_ok v \<Longrightarrow> push_back v j = Inr j' \<Longrightarrow> json_ok j'"
  by (cases j) (auto simp: push_back_def elements_ok_iff vector_max_size_def split: if_splits)

lemma insert_position_ok: "json_ok j \<Longrightarrow> json_ok v \<Longrightarrow> insert_position i v j = Inr j' \<Longrightarrow> json_ok j'"
  by (cases j) (auto simp: insert_position_def elements_ok_iff split: if_splits dest!: in_set_takeD in_set_dropD)

lemma erase_key_ok: "json_ok j \<Longrightarrow> erase_key k j = Inr j' \<Longrightarrow> json_ok j'"
  by (cases j) (auto simp: erase_key_def members.ok_del members_ok_erase)

lemma erase_index_ok: "json_ok j \<Longrightarrow> erase_index i j = Inr j' \<Longrightarrow> json_ok j'"
  by (cases j) (auto simp: erase_index_def elements_ok_iff split: if_splits dest!: in_set_takeD in_set_dropD)

end
