(* ===== verification/Json_Pointer.thy ===== *)
theory Json_Pointer
  imports Json_Access
begin

text \<open>
  JSON pointers: \<open>detail/string_escape.hpp\<close> and \<open>detail/json_pointer.hpp\<close>. A pointer is the list of
  its reference tokens; following it through a value yields the path (\<open>json_ref\<close>) that stands for
  the reference the code returns, and the value as the access has changed it.
\<close>

type_synonym json_pointer = "byte list list"

section \<open>Escaping\<close>

text \<open>All occurrences from left to right; the search goes on behind what was put in.\<close>

function replace_substring :: "byte list \<Rightarrow> byte list \<Rightarrow> byte list \<Rightarrow> byte list" where
  "replace_substring f t s =
     (if f = [] then s
      else case find_sub f s of
             None \<Rightarrow> s
           | Some n \<Rightarrow> take n s @ t @ replace_substring f t (drop (n + length f) s))"
  by pat_completeness auto

termination
  by (relation "measure (\<lambda>(f, t, s). length s)") (auto dest!: find_sub_Some simp: Suc_le_eq [symmetric] neq_Nil_conv)

declare replace_substring.simps [simp del]

definition escape :: "byte list \<Rightarrow> byte list" where
  "escape s = replace_substring (str ''/'') (str ''~1'') (replace_substring (str ''~'') (str ''~0'') s)"

definition unescape :: "byte list \<Rightarrow> byte list" where
  "unescape s = replace_substring (str ''~0'') (str ''~'') (replace_substring (str ''~1'') (str ''/'') s)"

section \<open>Pointers and their text\<close>

definition to_string :: "json_pointer \<Rightarrow> byte list" where
  "to_string ptr = foldl (\<lambda>a b. a @ 47 # escape b) [] ptr"

text \<open>Every \<open>~\<close> is followed by \<open>0\<close> or \<open>1\<close>.\<close>

fun properly_escaped :: "byte list \<Rightarrow> bool" where
  "properly_escaped [] = True"
| "properly_escaped (c # s) =
     ((c = 126 \<longrightarrow> (case s of [] \<Rightarrow> False | d # _ \<Rightarrow> d = 48 \<or> d = 49)) \<and> properly_escaped s)"

text \<open>The loop of \<open>split\<close>, on the text behind the previous slash.\<close>

function split_tokens :: "byte list \<Rightarrow> stop + json_pointer" where
  "split_tokens s =
     (let reference_token = takeWhile (\<lambda>c. c \<noteq> 47) s
      in if properly_escaped reference_token
         then (case dropWhile (\<lambda>c. c \<noteq> 47) s of
                 [] \<Rightarrow> Inr [unescape reference_token]
               | _ # s' \<Rightarrow> bindE (split_tokens s') (\<lambda>ts. Inr (unescape reference_token # ts)))
         else Inl (Throw (parse_error_byte 108 0
                (str ''escape character '' @ [39] @ str ''~'' @ [39] @ str '' must be followed with '' @ [39] @ str ''0''
                   @ [39] @ str '' or '' @ [39] @ str ''1'' @ [39]))))"
  by pat_completeness auto

termination
proof (relation "measure length", goal_cases)
  case (2 s x y ys)
  have "length (dropWhile (\<lambda>c. c \<noteq> 47) s) \<le> length s" by (rule length_dropWhile_le)
  with 2(3) show ?case by (simp add: Suc_le_eq [symmetric] del: length_dropWhile_le)
qed simp

declare split_tokens.simps [simp del]

text \<open>\<open>split\<close>, which is the constructor of \<open>json_pointer\<close>.\<close>

definition split :: "byte list \<Rightarrow> stop + json_pointer" where
  "split s =
     (case s of
        [] \<Rightarrow> Inr []
      | c # s' \<Rightarrow>
          if c \<noteq> 47
          then Inl (Throw (parse_error_byte 107 1
                 (str ''JSON pointer must be empty or begin with '' @ [39] @ str ''/'' @ [39] @ str '' - was: ''
                    @ [39] @ s @ [39])))
          else split_tokens s')"

definition no_parent :: stop where
  "no_parent = Throw (out_of_range_create 405 (str ''JSON pointer has no parent''))"

definition pop_back :: "json_pointer \<Rightarrow> stop + json_pointer" where
  "pop_back ptr = (if ptr = [] then Inl no_parent else Inr (butlast ptr))"

definition back_token :: "json_pointer \<Rightarrow> stop + byte list" where
  "back_token ptr = (if ptr = [] then Inl no_parent else Inr (last ptr))"

definition top_pointer :: "json_pointer \<Rightarrow> stop + json_pointer" where
  "top_pointer ptr = (if ptr = [] then Inl no_parent else Inr [hd ptr])"

definition parent_pointer :: "json_pointer \<Rightarrow> json_pointer" where
  "parent_pointer ptr = (if ptr = [] then ptr else butlast ptr)"

section \<open>Array indices\<close>

text \<open>
  \<open>strtoull (s, &end, 10)\<close>: how far it reads (nothing without a digit), and the number, \<open>None\<close> when
  \<open>errno\<close> is \<open>ERANGE\<close>.
\<close>

definition strtoull_end :: "byte list \<Rightarrow> nat \<times> 64 word option" where
  "strtoull_end s =
     (let t = c_string s;
          blanks = length (takeWhile is_space t);
          u = drop blanks t;
          signs = (if u \<noteq> [] \<and> (hd u = 45 \<or> hd u = 43) then 1 else 0);
          digits = takeWhile is_digit (drop signs u);
          v = digits_value digits
      in if digits = [] then (0, Some 0)
         else (blanks + signs + length digits,
               if v < 2 ^ 64 then Some (if u \<noteq> [] \<and> hd u = 45 then - word_of_int v else word_of_int v) else None))"

definition unresolved_token :: "byte list \<Rightarrow> stop" where
  "unresolved_token s =
     Throw (out_of_range_create 404 (str ''unresolved reference token '' @ [39] @ s @ [39]))"

definition array_index :: "byte list \<Rightarrow> stop + nat" where
  "array_index s =
     (if length s > 1 \<and> s ! 0 = 48
      then Inl (Throw (parse_error_byte 106 0
             (str ''array index '' @ [39] @ s @ [39] @ str '' must not begin with '' @ [39] @ str ''0'' @ [39])))
      else if length s > 1 \<and> \<not> (49 \<le> s ! 0 \<and> s ! 0 \<le> 57)
      then Inl (Throw (parse_error_byte 109 0 (str ''array index '' @ [39] @ s @ [39] @ str '' is not a number'')))
      else case strtoull_end s of
             (n, Some res) \<Rightarrow>
               if n = 0 \<or> n \<noteq> length s then Inl (unresolved_token s)
               else if uint res \<ge> 2 ^ 64 - 1
               then Inl (Throw (out_of_range_create 410 (str ''array index '' @ s @ str '' exceeds size_type'')))
               else Inr (unat res)
           | (_, None) \<Rightarrow> Inl (unresolved_token s))"

section \<open>Following a pointer\<close>

definition dash_out_of_range :: "nat \<Rightarrow> stop" where
  "dash_out_of_range n =
     Throw (out_of_range_create 402 (str ''array index '' @ [39] @ str ''-'' @ [39] @ str '' ('' @ dec n @ str '') is out of range''))"

text \<open>\<open>get_checked\<close>, the same for a constant value and for one that can be changed: no step changes it.\<close>

fun get_checked :: "json_pointer \<Rightarrow> 'f json \<Rightarrow> stop + json_ref" where
  "get_checked [] j = Inr []"
| "get_checked (t # ts) j =
     (case j of
        Object ms \<Rightarrow>
          bindE (at_key t j) (\<lambda>v. bindE (get_checked ts v) (\<lambda>r. Inr (Member t # r)))
      | Array xs \<Rightarrow>
          if t = str ''-'' then Inl (dash_out_of_range (length xs))
          else bindE (array_index t) (\<lambda>i.
               bindE (at_index i j) (\<lambda>v. bindE (get_checked ts v) (\<lambda>r. Inr (Elem i # r))))
      | _ \<Rightarrow> Inl (unresolved_token t))"

text \<open>The value the reference stands for.\<close>

definition at_pointer :: "json_pointer \<Rightarrow> 'f json \<Rightarrow> stop + 'f json" where
  "at_pointer ptr j =
     bindE (get_checked ptr j) (\<lambda>r. case deref r j of Some v \<Rightarrow> Inr v | None \<Rightarrow> Inl (Undefined Null_deref))"

text \<open>\<open>get_unchecked\<close> on a constant value.\<close>

fun get_unchecked_const :: "json_pointer \<Rightarrow> 'f json \<Rightarrow> stop + 'f json" where
  "get_unchecked_const [] j = Inr j"
| "get_unchecked_const (t # ts) j =
     (case j of
        Object ms \<Rightarrow> bindE (const_key t j) (get_unchecked_const ts)
      | Array xs \<Rightarrow>
          if t = str ''-'' then Inl (dash_out_of_range (length xs))
          else bindE (array_index t) (\<lambda>i. bindE (const_index i j) (get_unchecked_const ts))
      | _ \<Rightarrow> Inl (unresolved_token t))"

text \<open>
  \<open>get_unchecked\<close> on a value that can be changed: null becomes an array or an object, missing elements
  and members are added. The result is the changed value and the path of the reference.
\<close>

definition null_as :: "byte list \<Rightarrow> 'f json \<Rightarrow> 'f json" where
  "null_as t j = (case j of Null \<Rightarrow> (if list_all is_digit t \<or> t = str ''-'' then Array [] else Object []) | _ \<Rightarrow> j)"

fun get_unchecked :: "json_pointer \<Rightarrow> 'f json \<Rightarrow> stop + 'f json \<times> json_ref" where
  "get_unchecked [] j = Inr (j, [])"
| "get_unchecked (t # ts) j =
     (case null_as t j of
        Object ms \<Rightarrow>
          bindE (operator_key t (Object ms)) (\<lambda>j.
          bindE (get_unchecked ts (member t j)) (\<lambda>(v, r). Inr (modify [Member t] (\<lambda>_. v) j, Member t # r)))
      | Array xs \<Rightarrow>
          bindE (if t = str ''-'' then Inr (length xs) else array_index t) (\<lambda>i.
          bindE (operator_index i (Array xs)) (\<lambda>j.
          bindE (at_index i j) (\<lambda>w.
          bindE (get_unchecked ts w) (\<lambda>(v, r). Inr (modify [Elem i] (\<lambda>_. v) j, Elem i # r)))))
      | _ \<Rightarrow> Inl (unresolved_token t))"

text \<open>\<open>get_and_create\<close>: null becomes an array only for the token \<open>0\<close>.\<close>

fun get_and_create :: "json_pointer \<Rightarrow> 'f json \<Rightarrow> stop + 'f json \<times> json_ref" where
  "get_and_create [] j = Inr (j, [])"
| "get_and_create (t # ts) j =
     (case (case j of Null \<Rightarrow> (if t = str ''0'' then Array [] else Object []) | _ \<Rightarrow> j) of
        Object ms \<Rightarrow>
          bindE (operator_key t (Object ms)) (\<lambda>j.
          bindE (get_and_create ts (member t j)) (\<lambda>(v, r). Inr (modify [Member t] (\<lambda>_. v) j, Member t # r)))
      | Array xs \<Rightarrow>
          bindE (array_index t) (\<lambda>i.
          bindE (operator_index i (Array xs)) (\<lambda>j.
          bindE (at_index i j) (\<lambda>w.
          bindE (get_and_create ts w) (\<lambda>(v, r). Inr (modify [Elem i] (\<lambda>_. v) j, Elem i # r)))))
      | _ \<Rightarrow> Inl (Throw (type_error_create 313 (str ''invalid value to unflatten''))))"

text \<open>\<open>contains\<close>: its own tests of the token come before the conversion.\<close>

definition index_token :: "byte list \<Rightarrow> bool" where
  "index_token t \<longleftrightarrow>
     \<not> (length t = 1 \<and> \<not> (48 \<le> t ! 0 \<and> t ! 0 \<le> 57))
     \<and> (length t > 1 \<longrightarrow> 49 \<le> t ! 0 \<and> t ! 0 \<le> 57 \<and> list_all is_digit (tl t))"

fun contains_pointer :: "json_pointer \<Rightarrow> 'f json \<Rightarrow> stop + bool" where
  "contains_pointer [] j = Inr True"
| "contains_pointer (t # ts) j =
     (case j of
        Object ms \<Rightarrow>
          if \<not> contains_key t j then Inr False else bindE (const_key t j) (contains_pointer ts)
      | Array xs \<Rightarrow>
          if t = str ''-'' then Inr False
          else if \<not> index_token t then Inr False
          else bindE (array_index t) (\<lambda>idx.
               if idx \<ge> json_size j then Inr False else bindE (const_index idx j) (contains_pointer ts))
      | _ \<Rightarrow> Inr False)"

text \<open>\<open>value\<close> with a pointer and a default of type \<open>std::string\<close>: only \<open>out_of_range\<close> is caught.\<close>

definition value_pointer :: "json_pointer \<Rightarrow> byte list \<Rightarrow> 'f json \<Rightarrow> stop + byte list" where
  "value_pointer ptr dflt j =
     (case j of
        Object ms \<Rightarrow>
          (case bindE (at_pointer ptr j) get_to_string of
             Inl (Throw (Out_of_range _ _)) \<Rightarrow> Inr dflt
           | r \<Rightarrow> r)
      | _ \<Rightarrow> Inl (Throw (type_error_create 306 (str ''cannot use value() with '' @ type_name j))))"

section \<open>Flattening\<close>

text \<open>The members of the object that \<open>flatten\<close> fills; an empty array or object becomes null.\<close>

fun flatten_value :: "byte list \<Rightarrow> 'f json \<Rightarrow> (byte list \<times> 'f json) list \<Rightarrow> (byte list \<times> 'f json) list"
and flatten_elements :: "byte list \<Rightarrow> nat \<Rightarrow> 'f json list \<Rightarrow> (byte list \<times> 'f json) list \<Rightarrow> (byte list \<times> 'f json) list"
and flatten_members :: "byte list \<Rightarrow> (byte list \<times> 'f json) list \<Rightarrow> (byte list \<times> 'f json) list \<Rightarrow> (byte list \<times> 'f json) list" where
  "flatten_value reference_string (Array xs) result =
     (if xs = [] then object_put reference_string Null result else flatten_elements reference_string 0 xs result)"
| "flatten_value reference_string (Object ms) result =
     (if ms = [] then object_put reference_string Null result else flatten_members reference_string ms result)"
| "flatten_value reference_string j result = object_put reference_string j result"
| "flatten_elements reference_string i [] result = result"
| "flatten_elements reference_string i (x # xs) result =
     flatten_elements reference_string (Suc i) xs (flatten_value (reference_string @ 47 # dec i) x result)"
| "flatten_members reference_string [] result = result"
| "flatten_members reference_string ((k, v) # ms) result =
     flatten_members reference_string ms (flatten_value (reference_string @ 47 # escape k) v result)"

definition flatten :: "'f json \<Rightarrow> 'f json" where
  "flatten j = Object (flatten_value [] j [])"

fun unflatten_members :: "(byte list \<times> 'f json) list \<Rightarrow> 'f json \<Rightarrow> stop + 'f json" where
  "unflatten_members [] result = Inr result"
| "unflatten_members ((k, v) # ms) result =
     (if \<not> is_primitive v then Inl (Throw (type_error_create 315 (str ''values in object must be primitive'')))
      else bindE (split k) (\<lambda>ptr.
           bindE (get_and_create ptr result) (\<lambda>(result, r).
             unflatten_members ms (modify r (\<lambda>_. v) result))))"

definition unflatten :: "'f json \<Rightarrow> stop + 'f json" where
  "unflatten j =
     (case j of
        Object ms \<Rightarrow> unflatten_members ms Null
      | _ \<Rightarrow> Inl (Throw (type_error_create 314 (str ''only objects can be unflattened''))))"

end
