(* ===== verification/Json_Patch.thy ===== *)
theory Json_Patch
  imports Json_Pointer
begin

text \<open>
  JSON Patch and JSON Merge Patch (\<open>patch\<close>, \<open>diff\<close> and \<open>merge_patch\<close> of \<open>json.hpp\<close>). The working
  copy \<open>result\<close> is passed from operation to operation; an exception leaves \<open>patch\<close> and the copy is lost.
\<close>

section \<open>The operations of a patch\<close>

datatype patch_operations = p_add | p_remove | p_replace | p_move | p_copy | p_test | p_invalid

definition get_op :: "byte list \<Rightarrow> patch_operations" where
  "get_op op =
     (if op = str ''add'' then p_add
      else if op = str ''remove'' then p_remove
      else if op = str ''replace'' then p_replace
      else if op = str ''move'' then p_move
      else if op = str ''copy'' then p_copy
      else if op = str ''test'' then p_test
      else p_invalid)"

text \<open>
  \<open>operation_add\<close>: a new root, or a member or element of the parent, to which \<open>operator[]\<close> leads. The
  default of the switch is \<open>JSON_ASSERT (false)\<close>.
\<close>

definition add_to_parent :: "byte list \<Rightarrow> 'f json \<Rightarrow> 'f json \<Rightarrow> stop + 'f json" where
  "add_to_parent last_path val parent =
     (case parent of
        Null \<Rightarrow> assign_key last_path val parent
      | Object _ \<Rightarrow> assign_key last_path val parent
      | Array xs \<Rightarrow>
          if last_path = str ''-'' then push_back val parent
          else bindE (array_index last_path) (\<lambda>idx.
               if idx > length xs
               then Inl (Throw (out_of_range_create 401 (str ''array index '' @ dec idx @ str '' is out of range'')))
               else insert_position idx val parent)
      | _ \<Rightarrow> Inl (Undefined Assertion))"

definition operation_add :: "json_pointer \<Rightarrow> 'f json \<Rightarrow> 'f json \<Rightarrow> stop + 'f json" where
  "operation_add ptr val result =
     (if ptr = [] then Inr val
      else
        bindE (top_pointer ptr) (\<lambda>top.
        bindE (if top \<noteq> ptr then bindE (get_checked top result) (\<lambda>_. Inr ()) else Inr ()) (\<lambda>_.
        bindE (back_token ptr) (\<lambda>last_path.
        bindE (pop_back ptr) (\<lambda>ptr.
        bindE (get_unchecked ptr result) (\<lambda>(result, r).
          case deref r result of
            None \<Rightarrow> Inl (Undefined Null_deref)
          | Some parent \<Rightarrow>
              bindE (add_to_parent last_path val parent) (\<lambda>parent. Inr (modify r (\<lambda>_. parent) result))))))))"

text \<open>\<open>operation_remove\<close>: a parent that is neither an object nor an array is left as it is.\<close>

definition remove_from_parent :: "byte list \<Rightarrow> 'f json \<Rightarrow> stop + 'f json" where
  "remove_from_parent last_path parent =
     (case parent of
        Object ms \<Rightarrow>
          (if map_of ms last_path \<noteq> None then erase_key last_path parent else Inl (key_not_found last_path))
      | Array _ \<Rightarrow> bindE (array_index last_path) (\<lambda>idx. erase_index idx parent)
      | _ \<Rightarrow> Inr parent)"

definition operation_remove :: "json_pointer \<Rightarrow> 'f json \<Rightarrow> stop + 'f json" where
  "operation_remove ptr result =
     bindE (back_token ptr) (\<lambda>last_path.
     bindE (pop_back ptr) (\<lambda>ptr.
     bindE (get_checked ptr result) (\<lambda>r.
       case deref r result of
         None \<Rightarrow> Inl (Undefined Null_deref)
       | Some parent \<Rightarrow>
           bindE (remove_from_parent last_path parent) (\<lambda>parent. Inr (modify r (\<lambda>_. parent) result)))))"

text \<open>\<open>result.at (ptr) = v\<close>.\<close>

definition assign_at :: "json_pointer \<Rightarrow> 'f json \<Rightarrow> 'f json \<Rightarrow> stop + 'f json" where
  "assign_at ptr v result = bindE (get_checked ptr result) (\<lambda>r. Inr (modify r (\<lambda>_. v) result))"

section \<open>Reading an operation\<close>

definition quoted :: "byte list \<Rightarrow> byte list" where
  "quoted s = 39 # s @ [39]"

definition patch_not_objects :: stop where
  "patch_not_objects = Throw (parse_error_byte 104 0 (str ''JSON patch must be an array of objects''))"

text \<open>\<open>get_value\<close>: a member of the operation, which has to be a string when \<open>string_type\<close> is set.\<close>

definition get_value ::
  "(byte list \<times> 'f json) list \<Rightarrow> byte list \<Rightarrow> string \<Rightarrow> bool \<Rightarrow> stop + 'f json" where
  "get_value ms op mem string_type =
     (let error_msg = (if op = str ''op'' then str ''operation'' else str ''operation '' @ quoted op)
      in case map_of ms (str mem) of
           None \<Rightarrow> Inl (Throw (parse_error_byte 105 0 (error_msg @ str '' must have member '' @ quoted (str mem))))
         | Some v \<Rightarrow>
             if string_type \<and> json_type v \<noteq> t_string
             then Inl (Throw (parse_error_byte 105 0
                    (error_msg @ str '' must have string member '' @ quoted (str mem))))
             else Inr v)"

definition get_string_value :: "(byte list \<times> 'f json) list \<Rightarrow> byte list \<Rightarrow> string \<Rightarrow> stop + byte list" where
  "get_string_value ms op mem = bindE (get_value ms op mem True) get_to_string"

text \<open>
  One round of the loop. Where the standard leaves the order of two operands open, they are taken from
  left to right in the comparison of \<open>test\<close>; an assignment takes its right side first. Only
  \<open>out_of_range\<close> is caught in \<open>test\<close>, whose message is the text of the operation.
\<close>

definition patch_test :: "('f, 'z) float_ops_scheme \<Rightarrow> 'f json \<Rightarrow> json_pointer \<Rightarrow> stop + 'f json \<Rightarrow> 'f json \<Rightarrow> stop + 'f json" where
  "patch_test F val ptr expected result =
     (case bindE (at_pointer ptr result) (\<lambda>v. bindE expected (\<lambda>e. Inr (json_eq F v e))) of
        Inr True \<Rightarrow> Inr result
      | Inl (Throw (Out_of_range _ _)) \<Rightarrow>
          bindE (dump_default F val) (\<lambda>t. Inl (Throw (other_error_create 501 (str ''unsuccessful: '' @ t))))
      | Inr False \<Rightarrow>
          bindE (dump_default F val) (\<lambda>t. Inl (Throw (other_error_create 501 (str ''unsuccessful: '' @ t))))
      | Inl e \<Rightarrow> Inl e)"

definition patch_step :: "('f, 'z) float_ops_scheme \<Rightarrow> 'f json \<Rightarrow> 'f json \<Rightarrow> stop + 'f json" where
  "patch_step F val result =
     (case val of
        Object ms \<Rightarrow>
          bindE (get_string_value ms (str ''op'') ''op'') (\<lambda>op.
          bindE (get_string_value ms op ''path'') (\<lambda>path.
          bindE (split path) (\<lambda>ptr.
            case get_op op of
              p_add \<Rightarrow> bindE (get_value ms (str ''add'') ''value'' False) (\<lambda>v. operation_add ptr v result)
            | p_remove \<Rightarrow> operation_remove ptr result
            | p_replace \<Rightarrow> bindE (get_value ms (str ''replace'') ''value'' False) (\<lambda>v. assign_at ptr v result)
            | p_move \<Rightarrow>
                bindE (get_string_value ms (str ''move'') ''from'') (\<lambda>from_path.
                bindE (split from_path) (\<lambda>from_ptr.
                bindE (at_pointer from_ptr result) (\<lambda>v.
                bindE (operation_remove from_ptr result) (\<lambda>result. operation_add ptr v result))))
            | p_copy \<Rightarrow>
                bindE (get_string_value ms (str ''copy'') ''from'') (\<lambda>from_path.
                bindE (split from_path) (\<lambda>from_ptr.
                bindE (at_pointer from_ptr result) (\<lambda>v. operation_add ptr v result)))
            | p_test \<Rightarrow> patch_test F val ptr (get_value ms (str ''test'') ''value'' False) result
            | p_invalid \<Rightarrow>
                Inl (Throw (parse_error_byte 105 0 (str ''operation value '' @ quoted op @ str '' is invalid''))))))
      | _ \<Rightarrow> Inl patch_not_objects)"

fun patch_loop :: "('f, 'z) float_ops_scheme \<Rightarrow> 'f json list \<Rightarrow> 'f json \<Rightarrow> stop + 'f json" where
  "patch_loop F [] result = Inr result"
| "patch_loop F (val # vals) result = bindE (patch_step F val result) (patch_loop F vals)"

definition patch :: "('f, 'z) float_ops_scheme \<Rightarrow> 'f json \<Rightarrow> 'f json \<Rightarrow> stop + 'f json" where
  "patch F source json_patch =
     (case json_patch of Array vals \<Rightarrow> patch_loop F vals source | _ \<Rightarrow> Inl patch_not_objects)"

section \<open>The difference of two values\<close>

text \<open>\<open>{{"op", op}, {"path", path}}\<close> and the same with a value.\<close>

definition pair :: "string \<Rightarrow> 'f json \<Rightarrow> 'f json" where
  "pair k v = Array [String (str k), v]"

definition op_object :: "string \<Rightarrow> byte list \<Rightarrow> 'f json" where
  "op_object op path = init_list [pair ''op'' (String (str op)), pair ''path'' (String path)]"

definition op_value_object :: "string \<Rightarrow> byte list \<Rightarrow> 'f json \<Rightarrow> 'f json" where
  "op_value_object op path v =
     init_list [pair ''op'' (String (str op)), pair ''path'' (String path), pair ''value'' v]"

text \<open>
  The loops for the elements that are left: the first puts each operation at the place where the
  first one went, so that the last element is removed first.
\<close>

definition diff_removals :: "byte list \<Rightarrow> nat \<Rightarrow> nat \<Rightarrow> 'f json list \<Rightarrow> 'f json list" where
  "diff_removals path i n result =
     (let end_index = length result
      in foldl (\<lambda>result i. take end_index result @ op_object ''remove'' (path @ 47 # dec i) # drop end_index result)
           result [i..<n])"

definition diff_additions :: "byte list \<Rightarrow> 'f json list \<Rightarrow> 'f json list \<Rightarrow> 'f json list" where
  "diff_additions path ys result =
     result @ map (\<lambda>y. op_value_object ''add'' (path @ str ''/-'') y) ys"

text \<open>The second loop over the members: what is not in the source is added.\<close>

definition diff_new_members ::
  "byte list \<Rightarrow> (byte list \<times> 'f json) list \<Rightarrow> (byte list \<times> 'f json) list \<Rightarrow> 'f json list" where
  "diff_new_members path ms ns =
     map (\<lambda>(k, v). op_value_object ''add'' (path @ 47 # escape k) v)
       (filter (\<lambda>(k, v). map_of ms k = None) ns)"

fun diff_ops :: "('f, 'z) float_ops_scheme \<Rightarrow> 'f json \<Rightarrow> 'f json \<Rightarrow> byte list \<Rightarrow> 'f json list"
and diff_elements :: "('f, 'z) float_ops_scheme \<Rightarrow> 'f json list \<Rightarrow> 'f json list \<Rightarrow> nat \<Rightarrow> byte list \<Rightarrow> 'f json list"
and diff_members :: "('f, 'z) float_ops_scheme \<Rightarrow> (byte list \<times> 'f json) list \<Rightarrow> (byte list \<times> 'f json) list
  \<Rightarrow> byte list \<Rightarrow> 'f json list" where
  "diff_ops F (Array xs) target path =
     (if json_eq F (Array xs) target then []
      else case target of
             Array ys \<Rightarrow>
               let i = min (length xs) (length ys)
               in diff_additions path (drop i ys)
                    (diff_removals path i (length xs) (diff_elements F xs ys 0 path))
           | _ \<Rightarrow> [op_value_object ''replace'' path target])"
| "diff_ops F (Object ms) target path =
     (if json_eq F (Object ms) target then []
      else case target of
             Object ns \<Rightarrow> diff_members F ms ns path @ diff_new_members path ms ns
           | _ \<Rightarrow> [op_value_object ''replace'' path target])"
| "diff_ops F source target path =
     (if json_eq F source target then [] else [op_value_object ''replace'' path target])"
| "diff_elements F [] ys i path = []"
| "diff_elements F (x # xs) ys i path =
     (case ys of
        [] \<Rightarrow> []
      | y # ys' \<Rightarrow> diff_ops F x y (path @ 47 # dec i) @ diff_elements F xs ys' (Suc i) path)"
| "diff_members F [] ns path = []"
| "diff_members F ((k, v) # ms) ns path =
     (case map_of ns k of
        Some w \<Rightarrow> diff_ops F v w (path @ 47 # escape k)
      | None \<Rightarrow> [op_object ''remove'' (path @ 47 # escape k)]) @ diff_members F ms ns path"

definition diff :: "('f, 'z) float_ops_scheme \<Rightarrow> 'f json \<Rightarrow> 'f json \<Rightarrow> 'f json" where
  "diff F source target = Array (diff_ops F source target [])"

section \<open>Merge patches\<close>

text \<open>\<open>merge_patch\<close> on the value of the second argument, and its loop over the members of the patch.\<close>

fun merge_patch :: "'f json \<Rightarrow> 'f json \<Rightarrow> stop + 'f json"
and merge_members :: "(byte list \<times> 'f json) list \<Rightarrow> 'f json \<Rightarrow> stop + 'f json" where
  "merge_patch (Object ps) j = merge_members ps (case j of Object _ \<Rightarrow> j | _ \<Rightarrow> Object [])"
| "merge_patch p j = Inr p"
| "merge_members [] j = Inr j"
| "merge_members ((k, p) # ps) j =
     bindE (if json_type p = t_null then erase_key k j
            else bindE (operator_key k j) (\<lambda>j.
                 bindE (merge_patch p (member k j)) (\<lambda>v. Inr (modify [Member k] (\<lambda>_. v) j))))
       (merge_members ps)"

end
