(* ===== verification/Json_Pointer_Facts.thy ===== *)
theory Json_Pointer_Facts
  imports Json_Pointer
begin

text \<open>
  JSON pointers: the text of a pointer determines its tokens and the other way round, the index of a
  token, and the four ways to follow a pointer compared with each other.
\<close>

section \<open>Replacing\<close>

lemma replace_Nil [simp]: "replace_substring f t [] = []"
  by (subst replace_substring.simps) simp

lemma replace_Cons:
  assumes "f \<noteq> []"
  shows "replace_substring f t (x # r) =
    (if take (length f) (x # r) = f then t @ replace_substring f t (drop (length f) (x # r))
     else x # replace_substring f t r)"
proof (cases "take (length f) (x # r) = f")
  case True
  with assms show ?thesis by (subst replace_substring.simps) simp
next
  case False
  have "replace_substring f t r = (case find_sub f r of None \<Rightarrow> r
      | Some n \<Rightarrow> take n r @ t @ replace_substring f t (drop (n + length f) r))"
    using assms by (subst replace_substring.simps) simp
  with False assms show ?thesis
    by (subst replace_substring.simps) (simp split: option.split)
qed

lemma replace_byte: "replace_substring [c] t s = concat (map (\<lambda>b. if b = c then t else [b]) s)"
  by (induction s) (simp_all add: replace_Cons)

definition escape_token_byte :: "byte \<Rightarrow> byte list" where
  "escape_token_byte b = (if b = 126 then [126, 48] else if b = 47 then [126, 49] else [b])"

lemma escape_bytes: "escape s = concat (map escape_token_byte s)"
  by (induction s) (simp_all add: escape_def replace_byte escape_token_byte_def str_def)

lemma escape_append [simp]: "escape (s @ t) = escape s @ escape t"
  by (simp add: escape_bytes)

lemma escape_digits: "\<forall>b \<in> set s. is_digit b \<Longrightarrow> escape s = s"
proof -
  have "escape_token_byte b = [b]" if "is_digit b" for b
    using that by (auto simp: escape_token_byte_def is_digit_def word_le_def)
  then show "\<forall>b \<in> set s. is_digit b \<Longrightarrow> escape s = s" by (induction s) (simp_all add: escape_bytes)
qed

lemma escape_dec [simp]: "escape (dec n) = dec n"
  by (rule escape_digits) (rule dec_digits)

lemma escape_no_slash: "47 \<notin> set (escape s)"
  by (auto simp: escape_bytes escape_token_byte_def split: if_splits)

lemma escape_proper: "properly_escaped (escape s)"
  by (induction s) (auto simp: escape_bytes escape_token_byte_def)

lemma unescape_pass1:
  "replace_substring [126, 49] [47] (concat (map escape_token_byte s)) = concat (map (\<lambda>b. if b = 126 then [126, 48] else [b]) s)"
proof (induction s)
  case (Cons b s)
  then show ?case by (simp add: escape_token_byte_def replace_Cons)
qed simp

lemma unescape_pass2:
  "replace_substring [126, 48] [126] (concat (map (\<lambda>b. if b = 126 then [126, 48] else [b]) s)) = s"
proof (induction s)
  case (Cons b s)
  then show ?case by (simp add: replace_Cons)
qed simp

lemma unescape_escape [simp]: "unescape (escape s) = s"
  using unescape_pass1 [of s] unescape_pass2 [of s] by (simp add: unescape_def escape_bytes str_def)

text \<open>A token without a slash that is properly escaped is the escape of something.\<close>

lemma properly_escaped_escape: "properly_escaped u \<Longrightarrow> 47 \<notin> set u \<Longrightarrow> \<exists>s. u = escape s"
proof (induction u rule: length_induct)
  case (1 u)
  show ?case
  proof (cases u)
    case Nil
    then have "u = escape []" by (simp add: escape_bytes)
    then show ?thesis ..
  next
    case (Cons c u')
    show ?thesis
    proof (cases "c = 126")
      case False
      with 1(1) [rule_format, of u'] 1(2,3) Cons obtain s where "u' = escape s" by auto
      with False 1(3) Cons have "u = escape (c # s)" by (simp add: escape_bytes escape_token_byte_def)
      then show ?thesis ..
    next
      case True
      with 1(2) Cons obtain d u'' where d: "u' = d # u''" "d = 48 \<or> d = 49" "properly_escaped u''"
        by (auto split: list.splits)
      with 1(1) [rule_format, of u''] 1(3) Cons obtain s where "u'' = escape s" by auto
      with d True Cons have "u = escape ((if d = 48 then 126 else 47) # s)"
        by (auto simp: escape_bytes escape_token_byte_def)
      then show ?thesis ..
    qed
  qed
qed

lemma escape_unescape: "properly_escaped u \<Longrightarrow> 47 \<notin> set u \<Longrightarrow> escape (unescape u) = u"
  using properly_escaped_escape [of u] by auto

section \<open>The text of a pointer\<close>

lemma to_string_concat: "to_string ptr = concat (map (\<lambda>t. 47 # escape t) ptr)"
proof -
  have "foldl (\<lambda>a b. a @ 47 # escape b) s ptr = s @ concat (map (\<lambda>t. 47 # escape t) ptr)" for s
    by (induction ptr arbitrary: s) simp_all
  then show ?thesis by (simp add: to_string_def)
qed

lemma to_string_Nil [simp]: "to_string [] = []"
  and to_string_Cons: "to_string (t # ts) = 47 # escape t @ to_string ts"
  and to_string_append: "to_string (p @ q) = to_string p @ to_string q"
  by (simp_all add: to_string_concat)

lemma to_string_snoc: "to_string (p @ [t]) = to_string p @ 47 # escape t"
  by (simp add: to_string_concat)

lemma takeWhile_escape:
  "takeWhile (\<lambda>c. c \<noteq> 47) (escape t @ 47 # r) = escape t" "dropWhile (\<lambda>c. c \<noteq> 47) (escape t @ 47 # r) = 47 # r"
  "takeWhile (\<lambda>c. c \<noteq> 47) (escape t) = escape t" "dropWhile (\<lambda>c. c \<noteq> 47) (escape t) = []"
  using escape_no_slash [of t] by (auto simp: takeWhile_append dropWhile_append takeWhile_eq_all_conv dropWhile_eq_Nil_conv)

lemma split_tokens_escape: "split_tokens (escape t @ to_string ts) = Inr (t # ts)"
proof (induction ts arbitrary: t)
  case Nil
  show ?case by (subst split_tokens.simps) (simp add: takeWhile_escape escape_proper)
next
  case (Cons u us)
  show ?case
    by (subst split_tokens.simps) (simp add: to_string_Cons takeWhile_escape escape_proper Cons.IH)
qed

lemma split_to_string [simp]: "split (to_string ptr) = Inr ptr"
proof (cases ptr)
  case Nil
  then show ?thesis by (simp add: split_def)
next
  case (Cons t ts)
  then show ?thesis by (simp add: split_def to_string_Cons split_tokens_escape)
qed

lemma split_tokens_text: "split_tokens s = Inr ptr \<Longrightarrow> to_string ptr = 47 # s"
proof (induction s arbitrary: ptr rule: split_tokens.induct)
  case (1 s)
  let ?u = "takeWhile (\<lambda>c. c \<noteq> 47) s"
  have proper: "properly_escaped ?u"
    using 1(2) by (subst (asm) split_tokens.simps) (auto simp: Let_def split: if_splits)
  have "47 \<notin> set ?u" by (auto dest: set_takeWhileD)
  note u = escape_unescape [OF proper this]
  show ?case
  proof (cases "dropWhile (\<lambda>c. c \<noteq> 47) s")
    case Nil
    with 1(2) proper have "ptr = [unescape ?u]" by (subst (asm) split_tokens.simps) (simp add: Let_def)
    moreover have "?u = s" using Nil by (metis append_Nil2 takeWhile_dropWhile_id)
    ultimately show ?thesis using u by (simp only: to_string_concat) simp
  next
    case (Cons x s')
    with 1(2) proper obtain ts where ts: "split_tokens s' = Inr ts" "ptr = unescape ?u # ts"
      by (subst (asm) split_tokens.simps) (auto simp: Let_def)
    have "x = 47" using Cons hd_dropWhile [of "\<lambda>c. c \<noteq> 47" s] by simp
    then have "s = ?u @ 47 # s'" using Cons by (metis takeWhile_dropWhile_id)
    moreover have "to_string ts = 47 # s'" by (rule 1(1) [OF refl proper Cons ts(1)])
    ultimately show ?thesis using u ts(2) by (simp add: to_string_Cons)
  qed
qed

lemma split_text: "split s = Inr ptr \<Longrightarrow> to_string ptr = s"
  by (auto simp: split_def split_tokens_text split: list.splits if_splits)

section \<open>Array indices\<close>

lemma digits_value_bound: "\<forall>b \<in> set s. is_digit b \<Longrightarrow> 0 \<le> digits_value s"
  by (induction s rule: rev_induct) (auto simp: digits_value_snoc is_digit_def word_le_def, simp add: digits_value_def)

lemma digit_byte: "is_digit b \<Longrightarrow> b = of_nat (48 + nat (uint b - 48)) \<and> nat (uint b - 48) < 10 \<and> 48 \<le> uint b"
  by (auto simp: is_digit_def word_le_def word_uint_eq_iff uint_word_ariths unsigned_of_nat take_bit_eq_mod)

text \<open>A number without a leading zero is its own decimal text.\<close>

lemma dec_digits_value:
  "\<forall>b \<in> set s. is_digit b \<Longrightarrow> s \<noteq> [] \<Longrightarrow> length s > 1 \<longrightarrow> hd s \<noteq> 48 \<Longrightarrow> dec (nat (digits_value s)) = s"
proof (induction s rule: rev_induct)
  case (snoc b s)
  let ?d = "nat (uint b - 48)"
  from snoc.prems(1) digit_byte [of b] have b: "b = of_nat (48 + ?d)" "?d < 10" "48 \<le> uint b" by auto
  show ?case
  proof (cases "s = []")
    case True
    then have "nat (digits_value (s @ [b])) = ?d" using b(3) by (simp add: digits_value_def)
    moreover have "dec ?d = [b]" using dec_less_10 [OF b(2)] b(1) by simp
    ultimately show ?thesis using True by simp
  next
    case False
    with snoc.prems have "hd s \<noteq> 48" by simp
    with snoc False have IH: "dec (nat (digits_value s)) = s" by auto
    have nn: "0 \<le> digits_value s" by (rule digits_value_bound) (use snoc.prems in auto)
    have "nat (digits_value s) \<noteq> 0"
    proof
      assume "nat (digits_value s) = 0"
      with IH have "s = [48]" by (simp add: dec_less_10)
      with \<open>hd s \<noteq> 48\<close> show False by simp
    qed
    then have "10 \<le> 10 * nat (digits_value s) + ?d" by simp
    moreover have "nat (digits_value (s @ [b])) = 10 * nat (digits_value s) + ?d"
      using b(3) nn by (simp add: digits_value_snoc nat_add_distrib nat_mult_distrib)
    ultimately show ?thesis using b IH by (simp add: dec_10)
  qed
qed simp

lemma dec_first_not_zero: "length (dec n) > 1 \<Longrightarrow> 49 \<le> dec n ! 0 \<and> dec n ! 0 \<le> 57"
proof (induction n rule: dec.induct)
  case (1 n)
  then have n: "10 \<le> n" by (cases "n < 10") (auto simp: dec_less_10)
  note eq = dec_10 [OF n]
  show ?case
  proof (cases "n div 10 < 10")
    case True
    with n have "dec n ! 0 = of_nat (48 + n div 10)" "1 \<le> n div 10" by (simp_all add: eq dec_less_10)
    with True show ?thesis
      by (simp add: word_le_def uint_word_ariths unsigned_of_nat take_bit_eq_mod)
  next
    case False
    then have "length (dec (n div 10)) > 1" using length_dec_div [of "n div 10"] dec_nonempty [of "n div 10 div 10"] by simp
    with 1(1) n show ?thesis by (simp add: eq nth_append)
  qed
qed

lemma strtoull_end_digits:
  assumes "\<forall>b \<in> set s. is_digit b" "s \<noteq> []"
  shows "strtoull_end s = (length s, if digits_value s < 2 ^ 64 then Some (word_of_int (digits_value s)) else None)"
proof -
  have c: "c_string s = s"
    using assms(1) digit_not_special unfolding c_string_def by (auto intro!: takeWhile_eq_all_conv [THEN iffD2])
  obtain b r where s: "s = b # r" using assms(2) by (cases s) auto
  with assms(1) digit_not_special [of b] have b: "\<not> is_space b" "b \<noteq> 45" "b \<noteq> 43" by auto
  have digits: "takeWhile is_digit s = s" using assms(1) by (simp add: takeWhile_eq_all_conv)
  have "takeWhile is_space s = []" "hd s \<noteq> 45" "hd s \<noteq> 43" using b s by simp_all
  then show ?thesis using assms(2) by (simp add: strtoull_end_def c Let_def digits)
qed

lemma array_index_dec:
  assumes "i < 2 ^ 64 - 1"
  shows "array_index (dec i) = Inr i"
proof -
  have u: "uint (word_of_int (int i) :: 64 word) = int i" by (rule uint_64) (use assms in auto)
  then have "unat (word_of_int (int i) :: 64 word) = i" by (metis nat_int unat_eq_nat_uint)
  with u assms dec_first_not_zero [of i] strtoull_end_digits [of "dec i"] dec_digits [of i] show ?thesis
    by (auto simp: array_index_def)
qed

text \<open>What the conversion reads when it reads the whole text.\<close>

lemma strtoull_end_all:
  assumes "strtoull_end s = (length s, r)" "s \<noteq> []" "length s > 1 \<longrightarrow> is_digit (s ! 0)"
  shows "\<forall>b \<in> set s. is_digit b"
proof -
  let ?t = "c_string s"
  define k where "k = length (takeWhile is_space ?t)"
  define g where "g = (if drop k ?t \<noteq> [] \<and> (hd (drop k ?t) = 45 \<or> hd (drop k ?t) = 43) then 1 else 0 :: nat)"
  define ds where "ds = takeWhile is_digit (drop g (drop k ?t))"
  have ds: "ds \<noteq> []" "k + g + length ds = length s"
    using assms(1,2) by (auto simp: strtoull_end_def Let_def k_def g_def ds_def split: if_splits)
  have len: "length ds + (g + k) \<le> length ?t"
    using length_takeWhile_le [of is_digit "drop g (drop k ?t)"] ds(1) unfolding ds_def by (auto simp: takeWhile_eq_Nil_iff)
  have t: "?t = s"
  proof -
    have "length ?t = length s" using len ds(2) length_c_string_le [of s] by simp
    then show ?thesis by (metis c_string_def takeWhile_eq_take take_all order_refl)
  qed
  have "k = 0 \<and> g = 0"
  proof (cases "length s > 1")
    case True
    with assms(2,3) obtain b r where "s = b # r" "is_digit b" by (cases s) auto
    with digit_not_special [of b] t show ?thesis by (simp add: k_def g_def)
  next
    case False
    with ds show ?thesis by (cases ds) auto
  qed
  with ds t have "takeWhile is_digit s = s"
    unfolding ds_def by (metis add_0 drop_0 takeWhile_eq_take take_all order_refl)
  then show ?thesis by (metis set_takeWhileD)
qed

lemma array_index_Inr_iff: "array_index s = Inr i \<longleftrightarrow> s = dec i \<and> i < 2 ^ 64 - 1"
proof
  assume a: "array_index s = Inr i"
  then obtain res where r: "strtoull_end s = (length s, Some res)" "s \<noteq> []" "i = unat res" "uint res < 2 ^ 64 - 1"
      "length s > 1 \<longrightarrow> s ! 0 \<noteq> 48 \<and> 49 \<le> s ! 0 \<and> s ! 0 \<le> 57"
    by (auto simp: array_index_def split: if_splits prod.splits option.splits)
  have "length s > 1 \<longrightarrow> is_digit (s ! 0)"
    using r(5) by (auto simp: is_digit_def word_le_def)
  from strtoull_end_all [OF r(1,2) this] have d: "\<forall>b \<in> set s. is_digit b" .
  from strtoull_end_digits [OF d r(2)] r(1) have v: "res = word_of_int (digits_value s)" "digits_value s < 2 ^ 64"
    by (auto split: if_splits)
  have "uint res = digits_value s" unfolding v(1) by (rule uint_64) (use digits_value_bound [OF d] v(2) in auto)
  then have "i = nat (digits_value s)" using r(3) by (simp add: unat_eq_nat_uint)
  moreover have "dec (nat (digits_value s)) = s"
    by (rule dec_digits_value [OF d r(2)]) (use r(2,5) in \<open>auto simp: hd_conv_nth\<close>)
  moreover have "int i < 2 ^ 64 - 1" using r(4) by (simp only: r(3) uint_nat)
  then have "i < 2 ^ 64 - 1" by simp
  ultimately show "s = dec i \<and> i < 2 ^ 64 - 1" by simp
qed (auto simp: array_index_dec)

lemma dec_not_dash [simp]: "dec n \<noteq> str ''-''" "str ''-'' \<noteq> dec n"
proof -
  obtain b bs where "dec n = b # bs" "is_digit b" using dec_leading by blast
  with digit_not_special [of b] show "dec n \<noteq> str ''-''" by (auto simp: str_def)
  then show "str ''-'' \<noteq> dec n" by simp
qed

lemma array_index_dash [simp]: "array_index (str ''-'') \<noteq> Inr i"
  by (simp add: array_index_Inr_iff)

section \<open>Following a pointer\<close>

lemma at_key_Inr: "at_key t j = Inr v \<longleftrightarrow> (\<exists>ms. j = Object ms \<and> map_of ms t = Some v)"
  by (cases j) (auto simp: at_key_def key_not_found_def split: option.splits)

lemma at_index_Inr: "at_index i j = Inr v \<longleftrightarrow> (\<exists>xs. j = Array xs \<and> i < length xs \<and> v = xs ! i)"
  by (cases j) (auto simp: at_index_def)

text \<open>The steps of \<open>get_checked\<close> that succeed.\<close>

lemma get_checked_Cons_Inr:
  "get_checked (t # ts) j = Inr r \<longleftrightarrow>
     (\<exists>ms v r'. j = Object ms \<and> map_of ms t = Some v \<and> get_checked ts v = Inr r' \<and> r = Member t # r') \<or>
     (\<exists>xs i r'. j = Array xs \<and> t = dec i \<and> i < 2 ^ 64 - 1 \<and> i < length xs \<and> get_checked ts (xs ! i) = Inr r' \<and> r = Elem i # r')"
  by (cases j) (auto simp: at_key_Inr at_index_Inr array_index_Inr_iff)

lemma get_checked_deref: "get_checked p j = Inr r \<Longrightarrow> \<exists>v. deref r j = Some v"
proof (induction p arbitrary: j r)
  case (Cons t ts)
  from Cons.prems Cons.IH show ?case unfolding get_checked_Cons_Inr by fastforce
qed simp

lemma get_checked_append:
  "get_checked p j = Inr r \<Longrightarrow> deref r j = Some v \<Longrightarrow> get_checked q v = Inr r' \<Longrightarrow> get_checked (p @ q) j = Inr (r @ r')"
proof (induction p arbitrary: j r)
  case (Cons t ts)
  from Cons.prems(1) show ?case
    unfolding get_checked_Cons_Inr append_Cons
    by (elim disjE exE conjE) (use Cons.prems(2,3) Cons.IH in fastforce)+
qed simp

lemma get_checked_prefix: "get_checked (p @ q) j = Inr r \<Longrightarrow> \<exists>r'. get_checked p j = Inr r'"
proof (induction p arbitrary: j r)
  case (Cons t ts)
  from Cons.prems show ?case
    unfolding get_checked_Cons_Inr append_Cons by (fastforce dest: Cons.IH)
qed simp

text \<open>A change at the place a pointer leads to does not change where it leads.\<close>

lemma get_checked_modify: "get_checked p j = Inr r \<Longrightarrow> get_checked p (modify r f j) = Inr r"
proof (induction p arbitrary: j r)
  case (Cons t ts)
  from Cons.prems show ?case
    unfolding get_checked_Cons_Inr
    by (elim disjE exE conjE) (use Cons.IH in \<open>auto simp: map_of_object_update\<close>)
qed simp

lemma get_unchecked_checked: "json_ok j \<Longrightarrow> get_checked p j = Inr r \<Longrightarrow> get_unchecked p j = Inr (j, r)"
proof (induction p arbitrary: j r)
  case (Cons t ts)
  from Cons.prems(2) show ?case unfolding get_checked_Cons_Inr
  proof (elim disjE exE conjE)
    fix ms v r' assume o: "j = Object ms" "map_of ms t = Some v" "get_checked ts v = Inr r'" "r = Member t # r'"
    from Cons.prems(1) o(1,2) have "sorted_keys ms" "json_ok v" by (auto intro: members_ok_map_of)
    with Cons.IH [OF _ o(3)] o show ?thesis
      using members.put_same [of ms t v] object_put_update [of ms t v]
      by (simp add: null_as_def operator_key_def object_emplace_present)
  next
    fix xs i r'
    assume a: "j = Array xs" "t = dec i" "i < 2 ^ 64 - 1" "i < length xs" "get_checked ts (xs ! i) = Inr r'" "r = Elem i # r'"
    from Cons.prems(1) a(1,4) have "json_ok (xs ! i)" by (auto simp: elements_ok_iff)
    with Cons.IH [OF _ a(5)] a show ?thesis
      by (simp add: null_as_def operator_index_def array_index_dec at_index_def)
  qed
qed simp

lemma get_unchecked_const_checked:
  "get_checked p j = Inr r \<Longrightarrow> deref r j = Some v \<Longrightarrow> get_unchecked_const p j = Inr v"
proof (induction p arbitrary: j r)
  case (Cons t ts)
  from Cons.prems(1) show ?case
    unfolding get_checked_Cons_Inr
    by (elim disjE exE conjE) (use Cons.prems(2) Cons.IH in \<open>auto simp: const_key_def const_index_def array_index_dec\<close>)
qed simp

text \<open>\<open>contains\<close> against \<open>get_checked\<close>.\<close>

lemma index_token_dec: "index_token (dec i)"
proof -
  obtain b bs where b: "dec i = b # bs" "is_digit b" using dec_leading by blast
  have "\<forall>b \<in> set bs. is_digit b" using dec_digits [of i] b(1) by simp
  with b dec_first_not_zero [of i] show ?thesis
    by (cases bs) (auto simp: index_token_def is_digit_def list_all_iff)
qed

lemma index_token_error:
  assumes "index_token t" "array_index t = Inl e"
  shows "\<exists>n msg. e = Throw (Out_of_range n msg) \<and> (n = 404 \<or> n = 410)"
proof -
  have "\<not> (length t > 1 \<and> t ! 0 = 48)" "\<not> (length t > 1 \<and> \<not> (49 \<le> t ! 0 \<and> t ! 0 \<le> 57))"
    using assms(1) by (auto simp: index_token_def)
  with assms(2) show ?thesis
    by (auto simp: array_index_def unresolved_token_def out_of_range_create_def split: prod.splits option.splits if_splits)
qed

lemma contains_checked:
  "case contains_pointer p j of
     Inr b \<Rightarrow> b \<longleftrightarrow> (\<exists>r. get_checked p j = Inr r)
   | Inl e \<Rightarrow> get_checked p j = Inl e \<and> (\<exists>n msg. e = Throw (Out_of_range n msg) \<and> (n = 404 \<or> n = 410))"
proof (induction p arbitrary: j)
  case (Cons t ts)
  show ?case
  proof (cases j)
    case (Object ms)
    show ?thesis
    proof (cases "map_of ms t")
      case (Some v)
      with Object Cons.IH [of v] show ?thesis
        by (auto simp: contains_key_def const_key_def at_key_def split: sum.splits)
    qed (simp add: Object contains_key_def at_key_def)
  next
    case (Array xs)
    show ?thesis
    proof (cases "t = str ''-'' \<or> \<not> index_token t")
      case True
      then have "array_index t \<noteq> Inr i" for i using index_token_dec by (auto simp: array_index_Inr_iff)
      with True Array show ?thesis by auto
    next
      case False
      show ?thesis
      proof (cases "array_index t")
        case (Inl e)
        with False Array index_token_error [of t e] show ?thesis by auto
      next
        case (Inr i)
        show ?thesis
        proof (cases "i < length xs")
          case True
          with False Array Inr Cons.IH [of "xs ! i"] show ?thesis
            by (auto simp: const_index_def at_index_def split: sum.splits)
        qed (use False Array Inr in \<open>auto simp: at_index_Inr\<close>)
      qed
    qed
  qed simp_all
qed simp

end
