(* ===== verification/Json_Patch_Facts.thy ===== *)
theory Json_Patch_Facts
  imports Json_Patch Json_Pointer_Facts
begin

text \<open>
  What a list of patch operations does to the value at one place of a document, and the operations
  that \<open>diff\<close> writes: together they turn the source into the target.
\<close>

section \<open>Operations that \<open>diff\<close> writes\<close>

lemma op_object_eq: "op_object op path = Object [(str ''op'', String (str op)), (str ''path'', String path)]"
  by (simp add: op_object_def init_list_def emplace_pairs_def pair_def str_def)

lemma op_value_object_eq:
  "op_value_object op path v = Object [(str ''op'', String (str op)), (str ''path'', String path), (str ''value'', v)]"
  by (simp add: op_value_object_def init_list_def emplace_pairs_def pair_def str_def)

lemmas patch_reads = patch_step_def get_string_value_def get_value_def get_to_string_def op_object_eq op_value_object_eq
  get_op_def

lemma patch_step_replace: "patch_step F (op_value_object ''replace'' (to_string p) v) j = assign_at p v j"
  and patch_step_add: "patch_step F (op_value_object ''add'' (to_string p) v) j = operation_add p v j"
  and patch_step_remove: "patch_step F (op_object ''remove'' (to_string p)) j = operation_remove p j"
  by (simp_all add: patch_reads str_def)

lemma patch_loop_append: "patch_loop F (as @ bs) j = bindE (patch_loop F as j) (patch_loop F bs)"
  by (induction as arbitrary: j) (simp_all add: bindE_assoc fun_eq_iff cong: bindE_cong)

section \<open>A change at one place\<close>

text \<open>
  The operations change the value \<open>s\<close> at the pointer \<open>p\<close> into \<open>t\<close>, in every document in which \<open>p\<close>
  leads to \<open>s\<close>, and change nothing else.
\<close>

definition patches ::
  "('f, 'z) float_ops_scheme \<Rightarrow> 'f json list \<Rightarrow> json_pointer \<Rightarrow> 'f json \<Rightarrow> 'f json \<Rightarrow> bool" where
  "patches F ops p s t \<longleftrightarrow> json_ok t \<and>
     (\<forall>j r. json_ok j \<longrightarrow> get_checked p j = Inr r \<longrightarrow> deref r j = Some s
        \<longrightarrow> patch_loop F ops j = Inr (modify r (\<lambda>_. t) j))"

lemma patchesI:
  assumes "json_ok t"
    and "\<And>j r. json_ok j \<Longrightarrow> get_checked p j = Inr r \<Longrightarrow> deref r j = Some s \<Longrightarrow> patch_loop F ops j = Inr (modify r (\<lambda>_. t) j)"
  shows "patches F ops p s t"
  using assms by (simp add: patches_def)

lemma patches_ok: "patches F ops p s t \<Longrightarrow> json_ok t"
  by (simp add: patches_def)

lemma patches_Nil: "json_ok s \<Longrightarrow> patches F [] p s s"
  by (rule patchesI) (simp_all add: modify_same)

lemma patches_append:
  assumes "patches F as p s u" "patches F bs p u t"
  shows "patches F (as @ bs) p s t"
proof (rule patchesI)
  show "json_ok t" using assms(2) by (rule patches_ok)
  fix j r assume j: "json_ok j" "get_checked p j = Inr r" "deref r j = Some s"
  let ?j = "modify r (\<lambda>_. u) j"
  have "json_ok ?j" using j(1) patches_ok [OF assms(1)] by (auto intro: modify_ok)
  moreover have "get_checked p ?j = Inr r" using j(2) by (rule get_checked_modify)
  moreover have "deref r ?j = Some u" by (rule json_pointers.look_const) (simp add: j(3))
  ultimately have "patch_loop F bs ?j = Inr (modify r (\<lambda>_. t) ?j)" using assms(2) by (simp add: patches_def)
  moreover have "patch_loop F as j = Inr ?j" using assms(1) j by (simp add: patches_def)
  ultimately show "patch_loop F (as @ bs) j = Inr (modify r (\<lambda>_. t) j)"
    by (simp add: patch_loop_append json_pointers.change_const)
qed

text \<open>A change of an element or a member is a change of the array or the object.\<close>

lemma patches_element:
  assumes "patches F ops (p @ [dec i]) (xs ! i) t" "i < length xs" "json_ok (Array xs)"
  shows "patches F ops p (Array xs) (Array (xs[i := t]))"
proof (rule patchesI)
  have max: "length xs \<le> vector_max_size" using assms(3) by simp
  show "json_ok (Array (xs[i := t]))"
    using assms(3) patches_ok [OF assms(1)] by (auto simp: elements_ok_iff dest!: set_update_subset_insert [THEN subsetD])
  fix j r assume j: "json_ok j" "get_checked p j = Inr r" "deref r j = Some (Array xs)"
  have "i < 2 ^ 64 - 1" using assms(2) max by (simp add: vector_max_size_def)
  with assms(2) have "get_checked [dec i] (Array xs) = Inr [Elem i]" by (simp add: array_index_dec at_index_def)
  from get_checked_append [OF j(2,3) this] have "get_checked (p @ [dec i]) j = Inr (r @ [Elem i])" .
  moreover have "deref (r @ [Elem i]) j = Some (xs ! i)" using j(3) assms(2) by (simp add: deref_append)
  ultimately have "patch_loop F ops j = Inr (modify (r @ [Elem i]) (\<lambda>_. t) j)"
    using assms(1) j(1) by (simp add: patches_def)
  moreover have "modify (r @ [Elem i]) (\<lambda>_. t) j = modify r (\<lambda>_. Array (xs[i := t])) j"
    unfolding modify_append by (rule json_pointers.change_cong [OF j(3)]) (use assms(2) in simp)
  ultimately show "patch_loop F ops j = Inr (modify r (\<lambda>_. Array (xs[i := t])) j)" by simp
qed

lemma patches_member:
  assumes "patches F ops (p @ [k]) v t" "map_of ms k = Some v" "json_ok (Object ms)"
  shows "patches F ops p (Object ms) (Object (object_update k (\<lambda>_. t) ms))"
proof (rule patchesI)
  show "json_ok (Object (object_update k (\<lambda>_. t) ms))"
    using assms(3) patches_ok [OF assms(1)] by (simp add: members_ok_update)
  fix j r assume j: "json_ok j" "get_checked p j = Inr r" "deref r j = Some (Object ms)"
  have "get_checked [k] (Object ms) = Inr [Member k]" using assms(2) by (simp add: at_key_def)
  from get_checked_append [OF j(2,3) this] have "get_checked (p @ [k]) j = Inr (r @ [Member k])" .
  moreover have "deref (r @ [Member k]) j = Some v" using j(3) assms(2) by (simp add: deref_append)
  ultimately have "patch_loop F ops j = Inr (modify (r @ [Member k]) (\<lambda>_. t) j)"
    using assms(1) j(1) by (simp add: patches_def)
  moreover have "modify (r @ [Member k]) (\<lambda>_. t) j = modify r (\<lambda>_. Object (object_update k (\<lambda>_. t) ms)) j"
    unfolding modify_append by (rule json_pointers.change_cong [OF j(3)]) (simp add: modify_Nil)
  ultimately show "patch_loop F ops j = Inr (modify r (\<lambda>_. Object (object_update k (\<lambda>_. t) ms)) j)" by simp
qed

section \<open>The single operations\<close>

lemma patches_replace: "json_ok t \<Longrightarrow> patches F [op_value_object ''replace'' (to_string p) t] p s t"
  by (rule patchesI) (simp_all add: patch_step_replace assign_at_def)

lemma operation_remove_eq:
  assumes "get_checked p j = Inr r" "deref r j = Some s"
  shows "operation_remove (p @ [k]) j = bindE (remove_from_parent k s) (\<lambda>t. Inr (modify r (\<lambda>_. t) j))"
  using assms by (simp add: operation_remove_def back_token_def pop_back_def)

lemma operation_remove_at:
  assumes "get_checked p j = Inr r" "deref r j = Some s" "remove_from_parent k s = Inr t"
  shows "operation_remove (p @ [k]) j = Inr (modify r (\<lambda>_. t) j)"
  using assms(3) by (simp add: operation_remove_eq [OF assms(1,2)])

lemma operation_add_top:
  assumes "get_checked p j = Inr r" "p \<noteq> []"
  shows "\<exists>r'. get_checked [hd (p @ [k])] j = Inr r'"
proof -
  from assms(2) obtain q where "p = [hd (p @ [k])] @ q" by (cases p) auto
  with assms(1) show ?thesis by (metis get_checked_prefix)
qed

lemma operation_add_eq:
  assumes "json_ok j" "get_checked p j = Inr r" "deref r j = Some s"
  shows "operation_add (p @ [k]) v j = bindE (add_to_parent k v s) (\<lambda>t. Inr (modify r (\<lambda>_. t) j))"
  using assms(3) get_unchecked_checked [OF assms(1,2)] operation_add_top [OF assms(2), of k]
  by (auto simp: operation_add_def top_pointer_def back_token_def pop_back_def simp del: hd_append2 get_checked.simps)

lemma operation_add_at:
  assumes "json_ok j" "get_checked p j = Inr r" "deref r j = Some s" "add_to_parent k v s = Inr t"
  shows "operation_add (p @ [k]) v j = Inr (modify r (\<lambda>_. t) j)"
  using assms(4) by (simp add: operation_add_eq [OF assms(1-3)])

lemma patches_remove:
  assumes "remove_from_parent k s = Inr t" "json_ok t"
  shows "patches F [op_object ''remove'' (to_string p @ 47 # escape k)] p s t"
proof (rule patchesI)
  fix j r assume "get_checked p j = Inr r" "deref r j = Some s"
  from operation_remove_at [OF this assms(1)]
  show "patch_loop F [op_object ''remove'' (to_string p @ 47 # escape k)] j = Inr (modify r (\<lambda>_. t) j)"
    by (simp add: to_string_snoc [symmetric] patch_step_remove)
qed (rule assms(2))

lemma patches_add:
  assumes "add_to_parent k v s = Inr t" "json_ok t"
  shows "patches F [op_value_object ''add'' (to_string p @ 47 # escape k) v] p s t"
proof (rule patchesI)
  fix j r assume "json_ok j" "get_checked p j = Inr r" "deref r j = Some s"
  from operation_add_at [OF this assms(1)]
  show "patch_loop F [op_value_object ''add'' (to_string p @ 47 # escape k) v] j = Inr (modify r (\<lambda>_. t) j)"
    by (simp add: to_string_snoc [symmetric] patch_step_add)
qed (rule assms(2))

section \<open>Comparing lists\<close>

lemma elements_eq_iff: "elements_eq F xs ys \<longleftrightarrow> list_all2 (json_eq F) xs ys"
proof (induction xs arbitrary: ys)
  case (Cons x xs)
  then show ?case by (cases ys) simp_all
qed simp

lemma members_eq_iff: "members_eq F ms ns \<longleftrightarrow> list_all2 (\<lambda>(k, v) (l, w). k = l \<and> json_eq F v w) ms ns"
proof (induction ms arbitrary: ns)
  case (Cons m ms)
  then show ?case by (cases m; cases ns) auto
qed simp

text \<open>Objects are equal when their members are, key by key.\<close>

lemma members_eqI:
  assumes "sorted_keys ms" "sorted_keys ns" "\<And>k. rel_option (json_eq F) (map_of ms k) (map_of ns k)"
  shows "members_eq F ms ns"
proof -
  have "fst ` set ms = fst ` set ns"
  proof (rule set_eqI)
    fix k
    from assms(3) [of k] have "map_of ms k = None \<longleftrightarrow> map_of ns k = None" by (cases "map_of ns k"; cases "map_of ms k") auto
    then show "k \<in> fst ` set ms \<longleftrightarrow> k \<in> fst ` set ns" by (auto simp: map_of_None_iff)
  qed
  then have keys: "map fst ms = map fst ns"
    using assms(1,2) keys.strict_sorted_equal [of "map fst ms" "map fst ns"] by (auto simp: sorted_keys_def)
  then have len: "length ms = length ns" by (metis length_map)
  have "(case ms ! i of (k, v) \<Rightarrow> \<lambda>(l, w). k = l \<and> json_eq F v w) (ns ! i)" if "i < length ms" for i
  proof -
    obtain k v where m: "ms ! i = (k, v)" by (cases "ms ! i")
    obtain l w where n: "ns ! i = (l, w)" by (cases "ns ! i")
    have "k = l" using keys that len m n by (metis fst_conv nth_map)
    moreover have "map_of ms k = Some v" "map_of ns l = Some w"
      using sorted_keys_distinct [OF assms(1)] sorted_keys_distinct [OF assms(2)] that len m n
      by (metis map_of_eq_Some_iff nth_mem)+
    ultimately show ?thesis using assms(3) [of k] m n by simp
  qed
  with len show ?thesis by (simp add: members_eq_iff list_all2_conv_all_nth)
qed

lemma members_eq_map_of: "members_eq F ns ns \<Longrightarrow> map_of ns k = Some w \<Longrightarrow> json_eq F w w"
  by (induction ns) (auto split: if_splits)

section \<open>The loops of \<open>diff\<close>\<close>

lemma diff_removals_rev:
  "diff_removals path i n result = result @ rev (map (\<lambda>i. op_object ''remove'' (path @ 47 # dec i)) [i..<n])"
proof -
  have "foldl (\<lambda>result i. take (length base) result @ f i # drop (length base) result) (base @ acc) is
      = base @ rev (map f is) @ acc" for f :: "nat \<Rightarrow> 'a json" and base acc "is"
    by (induction "is" arbitrary: acc) simp_all
  from this [of result _ "[]"] show ?thesis by (simp add: diff_removals_def Let_def)
qed

lemma patches_removals:
  "json_ok (Array (xs @ ys)) \<Longrightarrow>
   patches F (rev (map (\<lambda>i. op_object ''remove'' (to_string p @ 47 # dec i)) [length xs..<length xs + length ys]))
     p (Array (xs @ ys)) (Array xs)"
proof (induction ys rule: rev_induct)
  case Nil
  then show ?case by (simp add: patches_Nil)
next
  case (snoc y ys)
  let ?n = "length xs + length ys"
  have ok: "json_ok (Array (xs @ ys))" using snoc.prems by (simp add: elements_ok_iff)
  have "?n < 2 ^ 64 - 1" using snoc.prems by (simp add: vector_max_size_def)
  then have "remove_from_parent (dec ?n) (Array (xs @ ys @ [y])) = Inr (Array (xs @ ys))"
    by (simp add: remove_from_parent_def array_index_dec erase_index_def)
  from patches_remove [OF this ok, of F p] have
    "patches F [op_object ''remove'' (to_string p @ 47 # dec ?n)] p (Array (xs @ ys @ [y])) (Array (xs @ ys))" by simp
  from patches_append [OF this snoc.IH [OF ok]] show ?case by simp
qed

lemma patches_additions:
  "json_ok (Array (xs @ ys)) \<Longrightarrow>
   patches F (map (\<lambda>y. op_value_object ''add'' (to_string p @ str ''/-'') y) ys) p (Array xs) (Array (xs @ ys))"
proof (induction ys arbitrary: xs)
  case Nil
  then show ?case by (simp add: patches_Nil)
next
  case (Cons y ys)
  have ok: "json_ok (Array (xs @ [y]))" "json_ok (Array ((xs @ [y]) @ ys))"
    using Cons.prems by (simp_all add: elements_ok_iff)
  have "add_to_parent (str ''-'') y (Array xs) = Inr (Array (xs @ [y]))"
    using Cons.prems by (simp add: add_to_parent_def push_back_def)
  moreover have "to_string p @ str ''/-'' = to_string p @ 47 # escape (str ''-'')"
    by (simp add: escape_bytes escape_token_byte_def str_def)
  ultimately have "patches F [op_value_object ''add'' (to_string p @ str ''/-'') y] p (Array xs) (Array (xs @ [y]))"
    using patches_add [OF _ ok(1), of "str ''-''" y "Array xs" F p] by simp
  from patches_append [OF this Cons.IH [OF ok(2)]] show ?case by simp
qed

definition put_all :: "(byte list \<times> 'f json) list \<Rightarrow> (byte list \<times> 'f json) list \<Rightarrow> (byte list \<times> 'f json) list" where
  "put_all news ms = foldl (\<lambda>ms (k, v). object_put k v ms) ms news"

lemma put_all_simps [simp]: "put_all [] ms = ms" "put_all ((k, v) # news) ms = put_all news (object_put k v ms)"
  by (simp_all add: put_all_def)

lemma sorted_keys_put_all: "sorted_keys ms \<Longrightarrow> sorted_keys (put_all news ms)"
  by (induction news arbitrary: ms) (auto simp: members.ok_put)

lemma map_of_put_all:
  "sorted_keys ms \<Longrightarrow> distinct (map fst news) \<Longrightarrow>
   map_of (put_all news ms) k = (case map_of news k of Some v \<Rightarrow> Some v | None \<Rightarrow> map_of ms k)"
proof (induction news arbitrary: ms)
  case (Cons m news)
  obtain l v where m: "m = (l, v)" by (cases m)
  have "map_of news l = None" using Cons.prems(2) m by (simp add: map_of_None_iff)
  with Cons m show ?case by (auto simp: members.ok_put members.lookup_put split: option.split)
qed simp

lemma patches_new_members:
  "json_ok (Object ms) \<Longrightarrow> members_ok news \<Longrightarrow>
   patches F (map (\<lambda>(k, v). op_value_object ''add'' (to_string p @ 47 # escape k) v) news)
     p (Object ms) (Object (put_all news ms))"
proof (induction news arbitrary: ms)
  case Nil
  then show ?case by (simp add: patches_Nil)
next
  case (Cons m news)
  obtain k v where m: "m = (k, v)" by (cases m)
  have ok: "json_ok (Object (object_put k v ms))"
    using Cons.prems m by (simp add: members.ok_put members_ok_put)
  have "add_to_parent k v (Object ms) = Inr (Object (object_put k v ms))" by (simp add: add_to_parent_def)
  from patches_append [OF patches_add [OF this ok] Cons.IH [OF ok]] Cons.prems(2) m show ?case by simp
qed

section \<open>The operations of \<open>diff\<close> lead to the target\<close>

definition kept :: "('f, 'z) float_ops_scheme \<Rightarrow> (byte list \<times> 'f json) list \<Rightarrow> (byte list \<times> 'f json) list
  \<Rightarrow> (byte list \<times> 'f json) list \<Rightarrow> bool" where
  "kept F ms ns ms' \<longleftrightarrow> map fst ms' = filter (\<lambda>k. map_of ns k \<noteq> None) (map fst ms)
     \<and> (\<forall>(k, v) \<in> set ms'. \<exists>w. map_of ns k = Some w \<and> json_eq F v w)"

lemma kept_map_of:
  assumes "kept F ms ns ms'"
  shows "case map_of ms' k of
      None \<Rightarrow> map_of ns k = None \<or> map_of ms k = None
    | Some v \<Rightarrow> map_of ms k \<noteq> None \<and> (\<exists>w. map_of ns k = Some w \<and> json_eq F v w)"
proof -
  have "map fst ms' = filter (\<lambda>k. map_of ns k \<noteq> None) (map fst ms)" using assms by (simp add: kept_def)
  then have "set (map fst ms') = set (filter (\<lambda>k. map_of ns k \<noteq> None) (map fst ms))" by (rule arg_cong)
  then have "fst ` set ms' = {k \<in> fst ` set ms. map_of ns k \<noteq> None}" by simp
  then have k: "map_of ms' k = None \<longleftrightarrow> map_of ns k = None \<or> map_of ms k = None"
    by (auto simp: map_of_None_iff)
  show ?thesis
  proof (cases "map_of ms' k")
    case (Some v)
    then have "(k, v) \<in> set ms'" by (rule map_of_SomeD)
    with assms Some k show ?thesis by (auto simp: kept_def)
  qed (use k in simp)
qed

lemma map_of_filter_keys: "map_of (filter (\<lambda>(k, v). P k) ms) k = (if P k then map_of ms k else None)"
  by (induction ms) auto

text \<open>A member in the middle of an object.\<close>

lemma member_in_middle:
  assumes "sorted_keys (os @ (k, v) # ms)"
  shows "map_of (os @ (k, v) # ms) k = Some v" "object_update k f (os @ (k, v) # ms) = os @ (k, f v) # ms"
    "object_erase k (os @ (k, v) # ms) = os @ ms"
proof -
  have "k \<notin> fst ` set os" using assms by (auto simp: sorted_keys_append)
  then show "map_of (os @ (k, v) # ms) k = Some v" "object_update k f (os @ (k, v) # ms) = os @ (k, f v) # ms"
    "object_erase k (os @ (k, v) # ms) = os @ ms"
    by (induction os) (auto simp: map_add_def)
qed

lemma sorted_keys_skip: "sorted_keys (ms @ m # ns) \<Longrightarrow> sorted_keys (ms @ ns)"
  by (cases m) (auto simp: sorted_keys_append)

lemma diff_elements_step:
  assumes "patches F ops (p @ [dec (length xs)]) x x'" "json_eq F x' y" "json_ok (Array (xs @ x # zs))"
    and "\<exists>ws. patches F ops' p (Array ((xs @ [x']) @ zs)) (Array ((xs @ [x']) @ ws @ drop (length ys) zs))
       \<and> length ws = min (length zs) (length ys) \<and> elements_eq F ws (take (length zs) ys)"
  shows "\<exists>ws. patches F (ops @ ops') p (Array (xs @ x # zs)) (Array (xs @ ws @ drop (length (y # ys)) (x # zs)))
       \<and> length ws = min (length (x # zs)) (length (y # ys)) \<and> elements_eq F ws (take (length (x # zs)) (y # ys))"
proof -
  from patches_element [of F ops p "length xs" "xs @ x # zs" x'] assms(1,3)
  have "patches F ops p (Array (xs @ x # zs)) (Array ((xs @ [x']) @ zs))" by (simp add: list_update_append)
  note first = patches_append [OF this]
  from assms(4) obtain ws where w: "patches F ops' p (Array ((xs @ [x']) @ zs)) (Array ((xs @ [x']) @ ws @ drop (length ys) zs))"
    "length ws = min (length zs) (length ys)" "elements_eq F ws (take (length zs) ys)" by blast
  show ?thesis by (rule exI [of _ "x' # ws"]) (use first [OF w(1)] w(2,3) assms(2) in simp)
qed

lemma patches_atomic:
  assumes "path = to_string p" "json_ok s" "json_ok t" "json_eq F t t"
  shows "\<exists>t'. patches F (if json_eq F s t then [] else [op_value_object ''replace'' path t]) p s t' \<and> json_eq F t' t"
proof (cases "json_eq F s t")
  case True
  with patches_Nil [OF assms(2)] show ?thesis by auto
next
  case False
  with patches_replace [OF assms(3)] assms(1,4) show ?thesis by auto
qed

lemma diff_patches:
  fixes F :: "('f, 'z) float_ops_scheme"
  shows "path = to_string p \<Longrightarrow> json_ok s \<Longrightarrow> json_ok t \<Longrightarrow> json_eq F t t \<Longrightarrow>
      \<exists>t'. patches F (diff_ops F s t path) p s t' \<and> json_eq F t' t"
    and "path = to_string p \<Longrightarrow> i = length xs \<Longrightarrow> json_ok (Array (xs @ zs)) \<Longrightarrow> elements_ok ys \<Longrightarrow> elements_eq F ys ys \<Longrightarrow>
      \<exists>ws. patches F (diff_elements F zs ys i path) p (Array (xs @ zs)) (Array (xs @ ws @ drop (length ys) zs))
        \<and> length ws = min (length zs) (length ys) \<and> elements_eq F ws (take (length zs) ys)"
    and "path = to_string p \<Longrightarrow> json_ok (Object (os @ ms)) \<Longrightarrow> json_ok (Object ns) \<Longrightarrow> members_eq F ns ns \<Longrightarrow>
      \<exists>ms'. patches F (diff_members F ms ns path) p (Object (os @ ms)) (Object (os @ ms')) \<and> kept F ms ns ms'"
proof (induction F s t path and F zs ys i path and F ms ns path arbitrary: p and p xs and p os
    rule: diff_ops_diff_elements_diff_members.induct)
  case (1 F xs target path)
  show ?case
  proof (cases "json_eq F (Array xs) target")
    case True
    with patches_Nil [OF 1(3)] show ?thesis by (intro exI [of _ "Array xs"]) simp
  next
    case False
    note ne = this
    show ?thesis
    proof (cases "\<exists>ys. target = Array ys")
      case True
      then obtain ys where target: "target = Array ys" by blast
      let ?i = "min (length xs) (length ys)"
      from 1(1) [OF ne target refl 1(2), of "[]"] 1(3-5) target obtain ws where
        w: "patches F (diff_elements F xs ys 0 path) p (Array xs) (Array (ws @ drop (length ys) xs))"
          "length ws = ?i" "elements_eq F ws (take (length xs) ys)" by auto
      have "json_ok (Array (ws @ drop ?i xs))" using patches_ok [OF w(1)] w(2) by (cases "length xs \<le> length ys") simp_all
      from patches_removals [OF this, of F p] w(2) have
        r: "patches F (rev (map (\<lambda>i. op_object ''remove'' (to_string p @ 47 # dec i)) [?i..<length xs])) p
          (Array (ws @ drop ?i xs)) (Array ws)" by simp
      have "json_ok (Array (ws @ drop ?i ys))"
        using patches_ok [OF r] 1(4) w(2) target by (auto simp: elements_ok_iff dest: in_set_dropD)
      note a = patches_additions [OF this, of F p]
      have split: "drop (length ys) xs = drop ?i xs" by (cases "length xs \<le> length ys") simp_all
      from patches_append [OF patches_append [OF w(1) [unfolded split] r] a]
      have "patches F (diff_ops F (Array xs) target path) p (Array xs) (Array (ws @ drop ?i ys))"
        using ne 1(2) by (simp add: target diff_removals_rev diff_additions_def Let_def)
      moreover have "elements_eq F (ws @ drop ?i ys) ys"
      proof -
        have "elements_eq F ys ys" using 1(5) target by simp
        then have "elements_eq F (drop ?i ys) (drop ?i ys)" by (simp add: elements_eq_iff list_all2_dropI)
        moreover have "take (length xs) ys = take ?i ys" by (simp add: min_def)
        ultimately have "elements_eq F (ws @ drop ?i ys) (take ?i ys @ drop ?i ys)"
          using w(3) unfolding elements_eq_iff by (simp only: list_all2_appendI)
        then show ?thesis by simp
      qed
      ultimately show ?thesis using target by auto
    next
      case False
      then have "diff_ops F (Array xs) target path = [op_value_object ''replace'' (to_string p) target]"
        using ne 1(2) by (cases target) auto
      with patches_replace [OF 1(4)] 1(5) show ?thesis by auto
    qed
  qed
next
  case (2 F ms target path)
  show ?case
  proof (cases "json_eq F (Object ms) target")
    case True
    with patches_Nil [OF 2(3)] show ?thesis by (intro exI [of _ "Object ms"]) simp
  next
    case False
    note ne = this
    show ?thesis
    proof (cases "\<exists>ns. target = Object ns")
      case True
      then obtain ns where target: "target = Object ns" by blast
      let ?news = "filter (\<lambda>(k, v). map_of ms k = None) ns"
      from 2(1) [OF ne target 2(2), of "[]"] 2(3-5) target obtain ms' where
        m: "patches F (diff_members F ms ns path) p (Object ms) (Object ms')" "kept F ms ns ms'" by auto
      have news: "members_ok ?news" using 2(4) target by (auto simp: members_ok_iff)
      from patches_append [OF m(1) patches_new_members [OF patches_ok [OF m(1)] news]]
      have "patches F (diff_ops F (Object ms) target path) p (Object ms) (Object (put_all ?news ms'))"
        using ne 2(2) by (simp add: target diff_new_members_def)
      moreover have "members_eq F (put_all ?news ms') ns"
      proof (rule members_eqI)
        have s: "sorted_keys ms'" using patches_ok [OF m(1)] by simp
        then show "sorted_keys (put_all ?news ms')" by (rule sorted_keys_put_all)
        show n: "sorted_keys ns" using 2(4) target by simp
        fix k
        have d: "distinct (map fst ?news)"
          using sorted_keys_distinct [OF n] by (rule distinct_map_filter)
        show "rel_option (json_eq F) (map_of (put_all ?news ms') k) (map_of ns k)"
          using kept_map_of [OF m(2), of k] members_eq_map_of [of F ns k] 2(5) target
          by (auto simp: map_of_put_all [OF s d] map_of_filter_keys [where P = "\<lambda>k. map_of ms k = None"] split: option.splits)
      qed
      ultimately show ?thesis using target by auto
    next
      case False
      then have "diff_ops F (Object ms) target path = [op_value_object ''replace'' (to_string p) target]"
        using ne 2(2) by (cases target) auto
      with patches_replace [OF 2(4)] 2(5) show ?thesis by auto
    qed
  qed
next
  case (5 F z zs ys i path)
  show ?case
  proof (cases ys)
    case Nil
    with patches_Nil [OF 5(5), of F p] show ?thesis by (intro exI [of _ "[]"]) simp
  next
    case (Cons y ys')
    have path: "path @ 47 # dec i = to_string (p @ [dec (length xs)])" using 5(3,4) by (simp add: to_string_snoc)
    have "json_ok z" "json_ok y" "json_eq F y y" using 5(5-7) Cons by (simp_all add: elements_ok_iff)
    from 5(1) [OF Cons path this] obtain z' where
      z: "patches F (diff_ops F z y (path @ 47 # dec i)) (p @ [dec (length xs)]) z z'" "json_eq F z' y" by blast
    have ok: "json_ok (Array ((xs @ [z']) @ zs))" using 5(5) patches_ok [OF z(1)] by (simp add: elements_ok_iff)
    have i: "Suc i = length (xs @ [z'])" using 5(4) by simp
    have "elements_ok ys'" "elements_eq F ys' ys'" using 5(6,7) Cons by simp_all
    from diff_elements_step [OF z 5(5) 5(2) [OF Cons 5(3) i ok this]] Cons 5(4) show ?thesis by simp
  qed
next
  case (7 F k v ms ns path)
  have ms: "sorted_keys (os @ (k, v) # ms)" using 7(4) by simp
  have path: "path @ 47 # escape k = to_string (p @ [k])" using 7(3) by (simp add: to_string_snoc)
  show ?case
  proof (cases "map_of ns k")
    case None
    have "remove_from_parent k (Object (os @ (k, v) # ms)) = Inr (Object (os @ ms))"
      using member_in_middle [OF ms] by (simp add: remove_from_parent_def erase_key_def)
    moreover have ok: "json_ok (Object (os @ ms))"
      using 7(4) sorted_keys_skip [OF ms] by (auto simp: members_ok_iff)
    ultimately have r: "patches F [op_object ''remove'' (path @ 47 # escape k)] p (Object (os @ (k, v) # ms)) (Object (os @ ms))"
      unfolding 7(3) by (rule patches_remove)
    from 7(2) [OF 7(3) ok 7(5,6)] obtain ms' where
      "patches F (diff_members F ms ns path) p (Object (os @ ms)) (Object (os @ ms'))" "kept F ms ns ms'" by blast
    with patches_append [OF r] None show ?thesis by (intro exI [of _ ms']) (auto simp: kept_def)
  next
    case (Some w)
    have "json_ok v" "json_ok w" "json_eq F w w"
      using 7(4,5) Some members_ok_map_of members_eq_map_of [OF 7(6) Some] by (auto simp: members_ok_iff)
    from 7(1) [OF Some path this] obtain v' where
      v: "patches F (diff_ops F v w (path @ 47 # escape k)) (p @ [k]) v v'" "json_eq F v' w" by blast
    have u: "patches F (diff_ops F v w (path @ 47 # escape k)) p (Object (os @ (k, v) # ms)) (Object ((os @ [(k, v')]) @ ms))"
      using patches_member [OF v(1) member_in_middle(1) [OF ms] 7(4)] by (simp add: member_in_middle(2) [OF ms])
    from 7(2) [OF 7(3) patches_ok [OF u] 7(5,6)] obtain ms' where
      "patches F (diff_members F ms ns path) p (Object ((os @ [(k, v')]) @ ms)) (Object ((os @ [(k, v')]) @ ms'))"
      "kept F ms ns ms'" by blast
    with patches_append [OF u] Some v(2) show ?thesis
      by (intro exI [of _ "(k, v') # ms'"]) (auto simp: kept_def)
  qed
qed (simp_all only: diff_ops.simps patches_atomic, auto intro: patches_Nil simp: kept_def)

end
