(* ===== verification/Json_Patch_Props.thy ===== *)
theory Json_Patch_Props
  imports Json_Patch_Facts
begin

text \<open>The properties of JSON pointers, patches and merge patches.\<close>

section \<open>Pointers\<close>

text \<open>
  C21. Parsing a pointer and writing it are inverse to each other: a text is accepted as the tokens
  exactly when it is the text \<open>to_string\<close> writes for them.
\<close>

theorem pointer_text: "split s = Inr ptr \<longleftrightarrow> s = to_string ptr"
  using split_text [of s ptr] by auto

text \<open>
  C38. \<open>array_index\<close> takes exactly the canonical decimal texts of the numbers below \<open>2^64 - 1\<close>: no
  leading zero, no sign, no white space and nothing behind the digits.
\<close>

theorem array_index_canonical: "array_index s = Inr i \<longleftrightarrow> s = dec i \<and> i < 2 ^ 64 - 1"
  by (rule array_index_Inr_iff)

text \<open>
  What RFC 6901 says a pointer leads to, as far as there is a value: a member by its key, an element
  by its index, which is a number without a leading zero. The token for the place behind the last
  element leads to no value.
\<close>

definition index_of_token :: "byte list \<Rightarrow> nat option" where
  "index_of_token t =
     (if t \<noteq> [] \<and> list_all is_digit t \<and> (t = [48] \<or> hd t \<noteq> 48) then Some (nat (digits_value t)) else None)"

fun points_to :: "json_pointer \<Rightarrow> 'f json \<Rightarrow> 'f json option" where
  "points_to [] j = Some j"
| "points_to (t # ts) (Object ms) = (case map_of ms t of Some v \<Rightarrow> points_to ts v | None \<Rightarrow> None)"
| "points_to (t # ts) (Array xs) =
     (case index_of_token t of
        Some i \<Rightarrow> if i < length xs then points_to ts (xs ! i) else None
      | None \<Rightarrow> None)"
| "points_to _ _ = None"

lemma index_of_token_dec: "index_of_token t = Some i \<longleftrightarrow> t = dec i"
proof
  assume i: "index_of_token t = Some i"
  then have "dec (nat (digits_value t)) = t"
    by (intro dec_digits_value) (auto simp: index_of_token_def list_all_iff split: if_splits)
  with i show "t = dec i" by (auto simp: index_of_token_def split: if_splits)
next
  assume t: "t = dec i"
  have "hd (dec i) \<noteq> 48" if "dec i \<noteq> [48]"
  proof (cases "length (dec i) > 1")
    case True
    from dec_first_not_zero [OF this] show ?thesis using dec_nonempty [of i] by (auto simp: hd_conv_nth)
  next
    case False
    then have "length (dec i) = 1" using dec_nonempty [of i] by (cases "dec i") auto
    then show ?thesis using that by (auto simp: length_Suc_conv)
  qed
  then show "index_of_token t = Some i"
    using dec_digits [of i] dec_nonempty [of i] by (auto simp: t index_of_token_def list_all_iff)
qed

lemma dec_eq_iff: "dec i = dec k \<longleftrightarrow> i = k"
  by (metis index_of_token_dec option.inject)

lemma points_to_checked:
  assumes "json_ok j"
  shows "points_to p j = Some v \<longleftrightarrow> (\<exists>r. get_checked p j = Inr r \<and> deref r j = Some v)"
  using assms
proof (induction p arbitrary: j)
  case (Cons t ts)
  show ?case
  proof (cases j)
    case (Object ms)
    show ?thesis
    proof (cases "map_of ms t")
      case (Some w)
      with Cons.prems Object have "json_ok w" by (auto intro: members_ok_map_of)
      from Cons.IH [OF this] Object Some show ?thesis by (auto simp: at_key_def)
    qed (simp add: Object at_key_def)
  next
    case (Array xs)
    have i: "index_of_token t = Some i \<Longrightarrow> i < length xs \<Longrightarrow> i < 2 ^ 64 - 1" for i
      using Cons.prems Array by (simp add: vector_max_size_def)
    have ok: "json_ok (xs ! i)" if "i < length xs" for i
      using Cons.prems Array that by (auto simp: elements_ok_iff)
    show ?thesis
    proof (cases "index_of_token t")
      case None
      then have "t \<noteq> dec i" for i using index_of_token_dec [of t i] by simp
      with None Array show ?thesis unfolding get_checked_Cons_Inr by auto
    next
      case (Some i)
      then have t: "t = dec i" by (simp add: index_of_token_dec)
      show ?thesis
      proof (cases "i < length xs")
        case True
        with Cons.IH [OF ok [OF True]] i [OF Some True] Array Some show ?thesis
          by (auto simp: t array_index_dec at_index_def)
      next
        case False
        with Array Some show ?thesis unfolding get_checked_Cons_Inr by (auto simp: t dec_eq_iff)
      qed
    qed
  qed (auto simp: get_checked_Cons_Inr)
qed auto

lemma bindE_Inl_iff: "bindE m f = Inl e \<longleftrightarrow> m = Inl e \<or> (\<exists>a. m = Inr a \<and> f a = Inl e)"
  by (cases m) auto

lemma get_checked_throws: "get_checked p j = Inl e \<Longrightarrow> \<exists>x. e = Throw x"
proof (induction p arbitrary: j)
  case (Cons t ts)
  have index: "array_index t = Inl e \<Longrightarrow> \<exists>x. e = Throw x"
    by (auto simp: array_index_def unresolved_token_def split: if_splits prod.splits option.splits)
  show ?case
  proof (cases j)
    case (Object ms)
    with Cons show ?thesis
      by (cases "map_of ms t") (auto simp: at_key_def key_not_found_def bindE_Inl_iff)
  next
    case (Array xs)
    with Cons index show ?thesis
      by (auto simp: dash_out_of_range_def at_index_def bindE_Inl_iff split: if_splits)
  qed (use Cons.prems in \<open>auto simp: unresolved_token_def\<close>)
qed simp

text \<open>
  C22. Looking up a pointer is resolving it in the sense of RFC 6901: \<open>at\<close> returns exactly the value
  the tokens lead to, the unchecked access to a constant value returns the same one, \<open>contains\<close> is
  true exactly when there is one, and where there is none \<open>at\<close> throws an exception.
\<close>

theorem pointer_resolves:
  assumes "json_ok j"
  shows "(at_pointer ptr j = Inr v \<longleftrightarrow> points_to ptr j = Some v)
    \<and> (points_to ptr j = Some v \<longrightarrow> get_unchecked_const ptr j = Inr v)
    \<and> (contains_pointer ptr j = Inr True \<longleftrightarrow> points_to ptr j \<noteq> None)
    \<and> (points_to ptr j = None \<longrightarrow> (\<exists>x. at_pointer ptr j = Inl (Throw x)))"
proof (cases "get_checked ptr j")
  case (Inl e)
  then have "points_to ptr j = None" using points_to_checked [OF assms, of ptr] by (cases "points_to ptr j") auto
  moreover have "contains_pointer ptr j \<noteq> Inr True" using contains_checked [of ptr j] Inl by auto
  moreover from get_checked_throws [OF Inl] Inl have "\<exists>x. at_pointer ptr j = Inl (Throw x)"
    by (auto simp: at_pointer_def)
  ultimately show ?thesis by auto
next
  case (Inr r)
  then obtain w where w: "deref r j = Some w" using get_checked_deref by blast
  with Inr points_to_checked [OF assms, of ptr w] have "points_to ptr j = Some w" by blast
  moreover have "contains_pointer ptr j = Inr True"
    using contains_checked [of ptr j] Inr by (auto split: sum.splits)
  moreover have "at_pointer ptr j = Inr w" using Inr w by (simp add: at_pointer_def)
  ultimately show ?thesis using get_unchecked_const_checked [OF Inr w] by auto
qed

theorem pointer_resolves_witness:
  "at_pointer [str ''a'', str ''1''] (Object [(str ''a'', Array [Null, String [66 :: byte]])]) = Inr (String [66] :: int json)
   \<and> contains_pointer [str ''a'', str ''2''] (Object [(str ''a'', Array [Null, String [66 :: byte]])] :: int json) \<noteq> Inr True"
proof -
  let ?j = "Object [(str ''a'', Array [Null, String [66 :: byte]])] :: int json"
  have ok: "json_ok ?j" by (simp add: str_def vector_max_size_def)
  have "points_to [str ''a'', str ''1''] ?j = Some (String [66])" "points_to [str ''a'', str ''2''] ?j = None"
    by (simp_all add: str_def index_of_token_def is_digit_def digits_value_def)
  with pointer_resolves [OF ok, of "[str ''a'', str ''1'']" "String [66]"] pointer_resolves [OF ok, of "[str ''a'', str ''2'']"]
  show ?thesis by blast
qed

text \<open>
  \<open>contains\<close> is false for a token that cannot be an index, and otherwise ends as \<open>at\<close> does: what it
  throws is always an \<open>out_of_range\<close> exception, 404 or 410.
\<close>

lemma contains_agrees:
  "case contains_pointer ptr j of
     Inr b \<Rightarrow> b \<longleftrightarrow> (\<exists>r. get_checked ptr j = Inr r)
   | Inl e \<Rightarrow> get_checked ptr j = Inl e \<and> (\<exists>n msg. e = Throw (Out_of_range n msg) \<and> (n = 404 \<or> n = 410))"
  by (rule contains_checked)

text \<open>The documentation of \<open>contains\<close> only names \<open>parse_error\<close>, and says that 410 needs a 32-bit platform.\<close>

lemma contains_throws:
  "contains_pointer [[]] (Array xs) = Inl (unresolved_token [])"
  "contains_pointer [dec (2 ^ 64 - 1)] (Array xs)
     = Inl (Throw (out_of_range_create 410 (str ''array index '' @ dec (2 ^ 64 - 1) @ str '' exceeds size_type'')))"
proof -
  show "contains_pointer [[]] (Array xs) = Inl (unresolved_token [])"
    by (simp add: index_token_def array_index_def strtoull_end_def c_string_def str_def)
  let ?s = "dec (2 ^ 64 - 1)"
  have s: "strtoull_end ?s = (length ?s, Some (word_of_int (2 ^ 64 - 1)))"
    using strtoull_end_digits [OF dec_digits dec_nonempty] by simp
  have "array_index ?s = Inl (Throw (out_of_range_create 410 (str ''array index '' @ ?s @ str '' exceeds size_type'')))"
    using dec_first_not_zero [of "2 ^ 64 - 1"] s by (auto simp: array_index_def)
  then show "contains_pointer [?s] (Array xs)
     = Inl (Throw (out_of_range_create 410 (str ''array index '' @ ?s @ str '' exceeds size_type'')))"
    using index_token_dec [of "2 ^ 64 - 1"] by simp
qed

section \<open>Patches\<close>

text \<open>
  C4. The patch that \<open>diff\<close> writes turns the source into the target: \<open>patch\<close> applies every one of its
  operations without an exception, and the result is equal to the target by the \<open>==\<close> of the library,
  for all well-formed values of which the target is equal to itself (it has no NaN and no discarded
  value).
\<close>

theorem patch_diff:
  assumes "json_ok source" "json_ok target" "json_eq F target target"
  shows "\<exists>r. patch F source (diff F source target) = Inr r \<and> json_eq F r target"
proof -
  from diff_patches(1) [of "[]" "[]", OF _ assms] obtain t where
    t: "patches F (diff_ops F source target []) [] source t" "json_eq F t target" by auto
  then have "patch_loop F (diff_ops F source target []) source = Inr t"
    using assms(1) by (simp add: patches_def)
  with t(2) show ?thesis by (simp add: patch_def diff_def)
qed

theorem patch_diff_witness:
  "\<exists>r. patch whole_floats (Object [(str ''a'', Array [Number_unsigned 1, Null, Boolean True]), (str ''b'', Null)])
       (diff whole_floats (Object [(str ''a'', Array [Number_unsigned 1, Null, Boolean True]), (str ''b'', Null)])
         (Object [(str ''a'', Array [String [47]]), (str ''c/~'', Number_float 2)])) = Inr r
     \<and> json_eq whole_floats r (Object [(str ''a'', Array [String [47]]), (str ''c/~'', Number_float 2)])"
  by (rule patch_diff) (simp_all add: str_def vector_max_size_def whole_floats_def)

lemma deref_ok: "json_ok j \<Longrightarrow> deref r j = Some v \<Longrightarrow> json_ok v"
  by (induction r j rule: deref.induct) (auto simp: elements_ok_iff intro: members_ok_map_of split: if_splits option.splits)

lemma modify_const_ok: "json_ok j \<Longrightarrow> json_ok v \<Longrightarrow> json_ok (modify r (\<lambda>_. v) j)"
  by (rule modify_ok)

lemma null_as_ok: "json_ok j \<Longrightarrow> json_ok (null_as t j)"
  by (cases j) (auto simp: null_as_def)

lemma member_ok: "json_ok j \<Longrightarrow> json_ok (member k j)"
  by (cases j) (auto intro: members_ok_map_of split: option.split)

lemma get_unchecked_ok: "json_ok j \<Longrightarrow> get_unchecked p j = Inr (j', r) \<Longrightarrow> json_ok j'"
proof (induction p arbitrary: j j' r)
  case (Cons t ts)
  have n: "json_ok (null_as t j)" using Cons.prems(1) by (rule null_as_ok)
  show ?case
  proof (cases "null_as t j")
    case (Object ms)
    with Cons.prems(2) obtain o' v where o: "operator_key t (Object ms) = Inr o'" "get_unchecked ts (member t o') = Inr (v, tl r)"
      "j' = modify [Member t] (\<lambda>_. v) o'" by auto
    from operator_key_ok [OF _ o(1)] n Object have "json_ok o'" by simp
    with Cons.IH [OF member_ok o(2)] modify_const_ok show ?thesis unfolding o(3) by blast
  next
    case (Array xs)
    with Cons.prems(2) obtain i o' w v where a: "operator_index i (Array xs) = Inr o'" "at_index i o' = Inr w"
      "get_unchecked ts w = Inr (v, tl r)" "j' = modify [Elem i] (\<lambda>_. v) o'" by auto
    from operator_index_ok [OF _ a(1)] n Array have o: "json_ok o'" by simp
    with a(2) have "json_ok w" by (auto simp: at_index_Inr elements_ok_iff)
    with Cons.IH [OF _ a(3)] o modify_const_ok show ?thesis unfolding a(4) by blast
  qed (use Cons.prems in auto)
qed simp

lemma add_to_parent_ok: "json_ok v \<Longrightarrow> json_ok j \<Longrightarrow> add_to_parent k v j = Inr j' \<Longrightarrow> json_ok j'"
  by (cases j) (auto simp: add_to_parent_def simp del: json_ok.simps assign_key_object split: if_splits
      intro: push_back_ok assign_key_ok insert_position_ok)

lemma operation_add_ok:
  assumes "json_ok v" "json_ok j" "operation_add p v j = Inr j'"
  shows "json_ok j'"
proof (cases "p = []")
  case False
  with assms(3) obtain q j1 r k parent parent' where a: "get_unchecked q j = Inr (j1, r)" "deref r j1 = Some parent"
    "add_to_parent k v parent = Inr parent'" "j' = modify r (\<lambda>_. parent') j1"
    by (auto simp: operation_add_def simp del: get_checked.simps split: option.splits)
  note j1 = get_unchecked_ok [OF assms(2) a(1)]
  show ?thesis unfolding a(4)
    by (rule modify_const_ok [OF j1 add_to_parent_ok [OF assms(1) deref_ok [OF j1 a(2)] a(3)]])
qed (use assms in \<open>simp add: operation_add_def\<close>)

lemma remove_from_parent_ok: "json_ok j \<Longrightarrow> remove_from_parent k j = Inr j' \<Longrightarrow> json_ok j'"
  by (cases j) (auto simp: remove_from_parent_def simp del: json_ok.simps split: if_splits intro: erase_key_ok erase_index_ok)

lemma operation_remove_ok:
  assumes "json_ok j" "operation_remove p j = Inr j'"
  shows "json_ok j'"
proof -
  from assms(2) obtain r k parent parent' where a: "deref r j = Some parent" "remove_from_parent k parent = Inr parent'"
    "j' = modify r (\<lambda>_. parent') j"
    by (auto simp: operation_remove_def split: option.splits)
  show ?thesis unfolding a(3)
    by (rule modify_const_ok [OF assms(1) remove_from_parent_ok [OF deref_ok [OF assms(1) a(1)] a(2)]])
qed

lemma get_value_ok: "members_ok ms \<Longrightarrow> get_value ms op m st = Inr v \<Longrightarrow> json_ok v"
  by (auto simp: get_value_def Let_def intro: members_ok_map_of split: option.splits if_splits)

lemma at_pointer_ok: "json_ok j \<Longrightarrow> at_pointer p j = Inr v \<Longrightarrow> json_ok v"
  by (auto simp: at_pointer_def intro: deref_ok split: option.splits)

lemma patch_test_ok: "json_ok j \<Longrightarrow> patch_test F val ptr e j = Inr j' \<Longrightarrow> json_ok j'"
  by (auto simp: patch_test_def split: sum.splits bool.splits stop.splits json_exception.splits)

lemma patch_step_ok:
  assumes "json_ok val" "json_ok j" "patch_step F val j = Inr j'"
  shows "json_ok j'"
proof -
  from assms(3) obtain ms where val: "val = Object ms" by (cases val) (auto simp: patch_step_def)
  with assms(1) have ms: "members_ok ms" by simp
  from assms(3) val obtain op path ptr where "get_string_value ms (str ''op'') ''op'' = Inr op"
    "get_string_value ms op ''path'' = Inr path" "split path = Inr ptr" by (auto simp: patch_step_def)
  note step = assms(3) [unfolded patch_step_def val, simplified this json.case bindE.simps]
  show ?thesis
  proof (cases "get_op op")
    case p_add
    with step assms(2) show ?thesis by (auto intro: operation_add_ok get_value_ok [OF ms])
  next
    case p_remove
    with step assms(2) show ?thesis by (auto intro: operation_remove_ok)
  next
    case p_replace
    with step obtain v r where "get_value ms (str ''replace'') ''value'' False = Inr v" "j' = modify r (\<lambda>_. v) j"
      by (auto simp: assign_at_def)
    with assms(2) get_value_ok [OF ms] show ?thesis by (auto intro: modify_const_ok)
  next
    case p_move
    with step obtain from_ptr v k where m: "at_pointer from_ptr j = Inr v" "operation_remove from_ptr j = Inr k"
      "operation_add ptr v k = Inr j'" by auto
    show ?thesis
      by (rule operation_add_ok [OF at_pointer_ok [OF assms(2) m(1)] operation_remove_ok [OF assms(2) m(2)] m(3)])
  next
    case p_copy
    with step obtain from_ptr v where c: "at_pointer from_ptr j = Inr v" "operation_add ptr v j = Inr j'" by auto
    show ?thesis by (rule operation_add_ok [OF at_pointer_ok [OF assms(2) c(1)] assms(2) c(2)])
  next
    case p_test
    with step assms(2) show ?thesis by (auto intro: patch_test_ok)
  next
    case p_invalid
    with step show ?thesis by simp
  qed
qed

text \<open>Whatever a patch does, the result is well-formed when the document and the patch are.\<close>

lemma patch_keeps_ok:
  assumes "json_ok source" "json_ok json_patch" "patch F source json_patch = Inr r"
  shows "json_ok r"
proof -
  have "elements_ok vals \<Longrightarrow> json_ok j \<Longrightarrow> patch_loop F vals j = Inr r \<Longrightarrow> json_ok r" for vals j
    by (induction vals arbitrary: j) (auto dest: patch_step_ok)
  with assms show ?thesis by (auto simp: patch_def split: json.splits)
qed

text \<open>The operation with a second location, \<open>move\<close> or \<open>copy\<close>.\<close>

definition op_from_object :: "string \<Rightarrow> byte list \<Rightarrow> byte list \<Rightarrow> 'f json" where
  "op_from_object op from path =
     Object [(str ''from'', String from), (str ''op'', String (str op)), (str ''path'', String path)]"

lemma patch_step_move:
  "patch_step F (op_from_object ''move'' (to_string q) (to_string p)) j =
     bindE (at_pointer q j) (\<lambda>v. bindE (operation_remove q j) (operation_add p v))"
  by (simp add: patch_reads op_from_object_def str_def)

definition no_element :: "nat \<Rightarrow> stop" where
  "no_element i = Throw (out_of_range_create 401 (str ''array index '' @ dec i @ str '' is out of range''))"

lemma get_checked_onward:
  "get_checked p j = Inr r \<Longrightarrow> deref r j = Some v \<Longrightarrow>
     get_checked (p @ q) j = bindE (get_checked q v) (\<lambda>r'. Inr (r @ r'))"
proof (induction p arbitrary: j r)
  case (Cons t ts)
  from Cons.prems(1) show ?case
    unfolding get_checked_Cons_Inr append_Cons
    by (elim disjE exE conjE)
      (use Cons.prems(2) Cons.IH in \<open>auto simp: at_key_def at_index_def array_index_dec bindE_assoc\<close>)
qed simp

lemma patch_single: "patch F j (Array [x]) = patch_step F x j"
proof -
  have "patch_loop F [] = Inr" by (rule ext) simp
  then show ?thesis by (simp add: patch_def)
qed

text \<open>The single steps on an array, for an index that \<open>array_index\<close> takes.\<close>

lemma add_to_array:
  assumes "i < 2 ^ 64 - 1" "length ys < vector_max_size"
  shows "add_to_parent (dec i) v (Array ys) =
    (if i \<le> length ys then Inr (Array (take i ys @ v # drop i ys)) else Inl (no_element i))"
  using assms(2) by (auto simp: add_to_parent_def array_index_dec [OF assms(1)] insert_position_def no_element_def)

lemma remove_from_array:
  assumes "i < 2 ^ 64 - 1"
  shows "remove_from_parent (dec i) (Array xs) =
    (if i < length xs then Inr (Array (take i xs @ drop (Suc i) xs)) else Inl (no_element i))"
  by (simp add: remove_from_parent_def array_index_dec [OF assms] erase_index_def no_element_def)

lemma get_checked_element:
  assumes "get_checked p j = Inr r" "deref r j = Some (Array xs)" "i < 2 ^ 64 - 1"
  shows "get_checked (p @ [dec i]) j = (if i < length xs then Inr (r @ [Elem i]) else Inl (no_element i))"
  by (simp add: get_checked_onward [OF assms(1,2)] array_index_dec [OF assms(3)] at_index_def no_element_def)

text \<open>
  C31. The operations of RFC 6902 on an array, wherever in the document it is: \<open>add\<close> puts the value
  before the element of the index, or behind the last one, and moves the others up; \<open>remove\<close> takes
  the element out; \<open>replace\<close> changes it; \<open>move\<close> takes an element out and puts it where its new index
  is in the array that is left. An index behind the end is the exception 401, and nothing else in the
  document changes.
\<close>

theorem patch_edits_array:
  assumes "json_ok j" "get_checked p j = Inr r" "deref r j = Some (Array xs)" "length xs < vector_max_size"
    and "i < 2 ^ 64 - 1" "k < length xs"
  defines "put \<equiv> \<lambda>ys. Inr (modify r (\<lambda>_. Array ys) j)"
  defines "rest \<equiv> take k xs @ drop (Suc k) xs"
  shows "patch F j (Array [op_value_object ''add'' (to_string (p @ [dec i])) w]) =
      (if i \<le> length xs then put (take i xs @ w # drop i xs) else Inl (no_element i))
    \<and> patch F j (Array [op_value_object ''add'' (to_string (p @ [str ''-''])) w]) = put (xs @ [w])
    \<and> patch F j (Array [op_object ''remove'' (to_string (p @ [dec i]))]) =
      (if i < length xs then put (take i xs @ drop (Suc i) xs) else Inl (no_element i))
    \<and> patch F j (Array [op_value_object ''replace'' (to_string (p @ [dec i])) w]) =
      (if i < length xs then put (xs[i := w]) else Inl (no_element i))
    \<and> patch F j (Array [op_from_object ''move'' (to_string (p @ [dec k])) (to_string (p @ [dec i]))]) =
      (if i < length xs then put (take i rest @ xs ! k # drop i rest) else Inl (no_element i))"
proof -
  note at = assms(1-3)
  have k: "k < 2 ^ 64 - 1" using assms(4,6) by (simp add: vector_max_size_def)
  note get = get_checked_element [OF at(2,3)] and add = add_to_array [OF assms(5)]
  let ?j = "modify r (\<lambda>_. Array rest) j"
  have "json_ok (Array xs)" using deref_ok [OF at(1,3)] .
  then have "json_ok (Array rest)" by (auto simp: rest_def elements_ok_iff dest: in_set_takeD in_set_dropD)
  then have "json_ok ?j" by (rule modify_ok [OF at(1)])
  moreover have "get_checked p ?j = Inr r" using at(2) by (rule get_checked_modify)
  moreover have "deref r ?j = Some (Array rest)" by (rule json_pointers.look_const) (simp add: at(3))
  ultimately have move: "operation_add (p @ [dec i]) v ?j =
      (if i < length xs then put (take i rest @ v # drop i rest) else Inl (no_element i))" for v
    using assms(6) assms(4) by (auto simp: operation_add_eq add rest_def put_def json_pointers.change_const)
  have taken: "at_pointer (p @ [dec k]) j = Inr (xs ! k)"
    using assms(6) at(3) by (simp add: at_pointer_def get [OF k] deref_append)
  have "modify (r @ [Elem i]) (\<lambda>_. w) j = modify r (\<lambda>_. Array (xs[i := w])) j" if "i < length xs"
    unfolding modify_append by (rule json_pointers.change_cong [OF at(3)]) (use that in simp)
  then have "patch F j (Array [op_value_object ''replace'' (to_string (p @ [dec i])) w]) =
      (if i < length xs then put (xs[i := w]) else Inl (no_element i))"
    by (simp add: patch_single patch_step_replace assign_at_def get [OF assms(5)] put_def)
  moreover have "patch F j (Array [op_value_object ''add'' (to_string (p @ [dec i])) w]) =
      (if i \<le> length xs then put (take i xs @ w # drop i xs) else Inl (no_element i))"
    by (simp add: patch_single patch_step_add operation_add_eq [OF at] add [OF assms(4)] put_def)
  moreover have "patch F j (Array [op_value_object ''add'' (to_string (p @ [str ''-''])) w]) = put (xs @ [w])"
    using assms(4) by (simp add: patch_single patch_step_add operation_add_eq [OF at] add_to_parent_def push_back_def put_def)
  moreover have "patch F j (Array [op_object ''remove'' (to_string (p @ [dec i]))]) =
      (if i < length xs then put (take i xs @ drop (Suc i) xs) else Inl (no_element i))"
    by (simp add: patch_single patch_step_remove operation_remove_eq [OF at(2,3)] remove_from_array [OF assms(5)] put_def)
  moreover have "patch F j (Array [op_from_object ''move'' (to_string (p @ [dec k])) (to_string (p @ [dec i]))]) =
      (if i < length xs then put (take i rest @ xs ! k # drop i rest) else Inl (no_element i))"
    using assms(6)
    by (simp add: patch_single patch_step_move taken operation_remove_eq [OF at(2,3)] remove_from_array [OF k] move
        flip: rest_def)
  ultimately show ?thesis by blast
qed

theorem patch_edits_array_witness:
  "patch whole_floats (Object [(str ''a'', Array [Null, Boolean True, Boolean False])])
     (Array [op_from_object ''move'' (to_string [str ''a'', dec 0]) (to_string [str ''a'', dec 2])])
   = Inr (Object [(str ''a'', Array [Boolean True, Boolean False, Null])])"
proof -
  let ?j = "Object [(str ''a'', Array [Null, Boolean True, Boolean False])] :: int json"
  let ?xs = "[Null, Boolean True, Boolean False] :: int json list"
  have at: "json_ok ?j" "get_checked [str ''a''] ?j = Inr [Member (str ''a'')]" "deref [Member (str ''a'')] ?j = Some (Array ?xs)"
    "length ?xs < vector_max_size" "2 < (2 :: nat) ^ 64 - 1" "0 < length ?xs"
    by (simp_all add: str_def vector_max_size_def at_key_def)
  from patch_edits_array [OF at, of whole_floats Null] show ?thesis by simp
qed

text \<open>
  Below a value that is neither a container nor null, a patch goes wrong silently or not at all
  as RFC 6902 asks: \<open>add\<close> runs into the assertion that such a parent cannot be, and \<open>remove\<close> of a
  location that does not exist succeeds and changes nothing.
\<close>

lemma patch_below_primitive:
  assumes "json_ok j" "get_checked p j = Inr r" "deref r j = Some v" "is_primitive v" "v \<noteq> Null"
  shows "patch F j (Array [op_value_object ''add'' (to_string (p @ [k])) w]) = Inl (Undefined Assertion)
    \<and> patch F j (Array [op_object ''remove'' (to_string (p @ [k]))]) = Inr j"
proof
  have add: "add_to_parent k w v = Inl (Undefined Assertion)" and remove: "remove_from_parent k v = Inr v"
    using assms(4,5) by (cases v; simp add: add_to_parent_def remove_from_parent_def)+
  have top: "\<exists>r'. get_checked [hd (p @ [k])] j = Inr r'" if "p \<noteq> []"
    using operation_add_top [OF assms(2) that] .
  show "patch F j (Array [op_value_object ''add'' (to_string (p @ [k])) w]) = Inl (Undefined Assertion)"
    using top get_unchecked_checked [OF assms(1,2)] assms(3) add
    by (auto simp: patch_def patch_step_add operation_add_def top_pointer_def back_token_def pop_back_def
        simp del: hd_append2 get_checked.simps)
  show "patch F j (Array [op_object ''remove'' (to_string (p @ [k]))]) = Inr j"
    by (simp add: patch_def patch_step_remove operation_remove_at [OF assms(2,3) remove] modify_same [OF assms(3)])
qed

lemma patch_below_primitive_example:
  "patch whole_floats (Object [(str ''a'', Boolean True)]) (Array [op_value_object ''add'' (to_string [str ''a'', str ''b'']) Null])
     = Inl (Undefined Assertion)"
  using patch_below_primitive [of "Object [(str ''a'', Boolean True)]" "[str ''a'']" "[Member (str ''a'')]" "Boolean True"
      whole_floats "str ''b''" Null]
  by (simp add: at_key_def)

section \<open>Merge patches\<close>

lemma merge_members_result:
  shows "json_ok p \<Longrightarrow> json_ok j \<Longrightarrow> \<exists>r. merge_patch p j = Inr r \<and> json_ok r"
    and "sorted_keys ps \<Longrightarrow> members_ok ps \<Longrightarrow> j = Object ms \<Longrightarrow> json_ok j \<Longrightarrow>
      \<exists>rs. merge_members ps j = Inr (Object rs) \<and> json_ok (Object rs) \<and>
        (\<forall>k. case map_of ps k of
               None \<Rightarrow> map_of rs k = map_of ms k
             | Some p \<Rightarrow> if p = Null then map_of rs k = None
                         else \<exists>v. merge_patch p (member k j) = Inr v \<and> map_of rs k = Some v)"
proof (induction p j and ps j arbitrary: and ms rule: merge_patch_merge_members.induct)
  case (1 ps j)
  obtain ms where "(case j of Object _ \<Rightarrow> j | _ \<Rightarrow> Object []) = Object ms" by (cases j) auto
  moreover from this 1(3) have "json_ok (Object ms)" by (cases j) auto
  ultimately show ?case using 1(1) [of ms] 1(2) by auto
next
  case (4 k p ps j)
  note j = 4(5)
  have ps: "sorted_keys ps" "members_ok ps" "map_of ps k = None" "json_ok p"
    using 4(3,4) by (simp_all add: map_of_smaller)
  have ms: "sorted_keys ms" using 4(6) j by simp
  define step where "step = (if json_type p = t_null then erase_key k j
    else bindE (operator_key k j) (\<lambda>j. bindE (merge_patch p (member k j)) (\<lambda>v. Inr (modify [Member k] (\<lambda>_. v) j))))"
  have "\<exists>ns. step = Inr (Object ns) \<and> json_ok (Object ns) \<and> (\<forall>l. l \<noteq> k \<longrightarrow> map_of ns l = map_of ms l) \<and>
      (if p = Null then map_of ns k = None
       else \<exists>v. merge_patch p (member k j) = Inr v \<and> map_of ns k = Some v)"
  proof (cases "p = Null")
    case True
    with ms 4(6) show ?thesis
      by (auto simp: step_def j erase_key_def members.ok_del members.lookup_del members_ok_erase
          intro!: exI [of _ "object_erase k ms"])
  next
    case False
    then have t: "json_type p \<noteq> t_null" by (cases p) auto
    have o: "operator_key k j = Inr (Object (object_emplace k Null ms))" by (simp add: j operator_key_def)
    have m: "member k (Object (object_emplace k Null ms)) = member k j"
      by (simp add: j map_of_emplace [OF ms] split: option.split)
    from 4(1) [OF t o] member_ok [OF 4(6)] ps(4) obtain v where v: "merge_patch p (member k j) = Inr v" "json_ok v"
      unfolding m by blast
    then have "step = Inr (Object (object_put k v ms))" using t o m by (simp add: step_def object_put_def modify_Nil)
    with v ms 4(6) j False show ?thesis
      by (auto simp: members.ok_put members.lookup_put members_ok_put intro!: exI [of _ "object_put k v ms"])
  qed
  then obtain ns where n: "step = Inr (Object ns)" "json_ok (Object ns)" "\<And>l. l \<noteq> k \<Longrightarrow> map_of ns l = map_of ms l"
    "if p = Null then map_of ns k = None else \<exists>v. merge_patch p (member k j) = Inr v \<and> map_of ns k = Some v" by blast
  have eq: "merge_members ((k, p) # ps) j = merge_members ps (Object ns)"
    using n(1) by (simp add: step_def)
  have same: "member l (Object ns) = member l j" if "l \<noteq> k" for l using n(3) [OF that] by (simp add: j)
  from 4(2) [OF n(1) [unfolded step_def] ps(1,2) refl n(2)] obtain rs where
    r: "merge_members ps (Object ns) = Inr (Object rs)" "json_ok (Object rs)"
      "\<forall>l. case map_of ps l of None \<Rightarrow> map_of rs l = map_of ns l
         | Some p \<Rightarrow> if p = Null then map_of rs l = None
                     else \<exists>v. merge_patch p (member l (Object ns)) = Inr v \<and> map_of rs l = Some v" by blast
  have keys: "case map_of ((k, p) # ps) l of None \<Rightarrow> map_of rs l = map_of ms l
      | Some p \<Rightarrow> if p = Null then map_of rs l = None
                  else \<exists>v. merge_patch p (member l j) = Inr v \<and> map_of rs l = Some v" for l
  proof (cases "l = k")
    case True
    with r(3) [rule_format, of k] ps(3) n(4) show ?thesis by auto
  next
    case False
    with r(3) [rule_format, of l] n(3) [OF False] same [OF False] show ?thesis by (auto split: option.splits)
  qed
  show ?case unfolding eq by (intro exI [of _ rs] conjI allI r(1,2) keys)
qed auto

lemma merge_patch_object:
  assumes "json_ok (Object ps)" "json_ok j" "members_of = (case j of Object ms \<Rightarrow> ms | _ \<Rightarrow> [])"
  shows "\<exists>rs. merge_patch (Object ps) j = Inr (Object rs) \<and> json_ok (Object rs) \<and>
    (\<forall>k. case map_of ps k of
           None \<Rightarrow> map_of rs k = map_of members_of k
         | Some p \<Rightarrow> if p = Null then map_of rs k = None
                     else \<exists>v. merge_patch p (member k j) = Inr v \<and> map_of rs k = Some v)"
proof -
  let ?j = "case j of Object _ \<Rightarrow> j | _ \<Rightarrow> Object []"
  have j: "?j = Object members_of" "json_ok ?j" and m: "member k ?j = member k j" for k
    using assms(2,3) by (cases j; simp)+
  have ps: "sorted_keys ps" "members_ok ps" using assms(1) by simp_all
  from merge_members_result(2) [OF ps j, unfolded m] show ?thesis by (simp only: merge_patch.simps)
qed

text \<open>
  C20. Merging an object into any value never fails and yields an object, as RFC 7396 has it: a member that
  the patch does not name stays, a member the patch sets to null is gone, and any other member is what
  merging its patch into the old member (null when there was none) gives.
\<close>

theorem merge_patch_members:
  assumes "json_ok (Object ps)" "json_ok j"
  shows "\<exists>rs. merge_patch (Object ps) j = Inr (Object rs) \<and> sorted_keys rs \<and>
    (\<forall>k. map_of rs k =
       (case map_of ps k of
          None \<Rightarrow> if contains_key k j then Some (member k j) else None
        | Some Null \<Rightarrow> None
        | Some p \<Rightarrow> (case merge_patch p (member k j) of Inr v \<Rightarrow> Some v | Inl _ \<Rightarrow> None)))"
proof -
  let ?ms = "case j of Object ms \<Rightarrow> ms | _ \<Rightarrow> []"
  have j: "map_of ?ms k = (if contains_key k j then Some (member k j) else None)" for k
    by (cases j) (auto simp: contains_key_def)
  from merge_patch_object [OF assms refl] obtain rs where
    r: "merge_patch (Object ps) j = Inr (Object rs)" "json_ok (Object rs)"
    "\<And>k. case map_of ps k of None \<Rightarrow> map_of rs k = map_of ?ms k
       | Some p \<Rightarrow> if p = Null then map_of rs k = None
                   else \<exists>v. merge_patch p (member k j) = Inr v \<and> map_of rs k = Some v" by blast
  show ?thesis
  proof (intro exI [of _ rs] conjI allI r(1))
    show "sorted_keys rs" using r(2) by simp
    show "map_of rs k =
       (case map_of ps k of
          None \<Rightarrow> if contains_key k j then Some (member k j) else None
        | Some Null \<Rightarrow> None
        | Some p \<Rightarrow> (case merge_patch p (member k j) of Inr v \<Rightarrow> Some v | Inl _ \<Rightarrow> None))" for k
      using r(3) [of k, unfolded j] by (cases "map_of ps k"; simp split: json.split) (auto split: if_splits)
  qed
qed

theorem merge_patch_members_witness:
  "\<exists>rs. merge_patch (Object [(str ''a'', Null), (str ''b'', Null :: int json)]) (Object [(str ''a'', Null), (str ''c'', Null)]) = Inr (Object rs)
     \<and> map_of rs (str ''a'') = None \<and> map_of rs (str ''c'') = Some Null"
proof -
  have "json_ok (Object [(str ''a'', Null), (str ''b'', Null :: int json)])" "json_ok (Object [(str ''a'', Null), (str ''c'', Null :: int json)])"
    by (simp_all add: str_def)
  from merge_patch_members [OF this] obtain rs where r:
    "merge_patch (Object [(str ''a'', Null), (str ''b'', Null :: int json)]) (Object [(str ''a'', Null), (str ''c'', Null)]) = Inr (Object rs)"
    "\<And>k. map_of rs k =
       (case map_of [(str ''a'', Null), (str ''b'', Null :: int json)] k of
          None \<Rightarrow> if contains_key k (Object [(str ''a'', Null), (str ''c'', Null :: int json)])
            then Some (member k (Object [(str ''a'', Null), (str ''c'', Null)])) else None
        | Some Null \<Rightarrow> None
        | Some p \<Rightarrow> (case merge_patch p (member k (Object [(str ''a'', Null), (str ''c'', Null)])) of Inr v \<Rightarrow> Some v | Inl _ \<Rightarrow> None))"
    by blast
  show ?thesis
    by (intro exI [of _ rs] conjI r(1)) (simp_all add: r(2) contains_key_def str_def)
qed

lemma member_size: "map_of ps k = Some p \<Longrightarrow> size p < size (Object ps :: 'f json)"
  by (induction ps) (auto split: if_splits)

text \<open>
  Merging is idempotent: it always succeeds, and merging the same patch into the result changes
  nothing.
\<close>

lemma merge_patch_idempotent:
  assumes "json_ok p" "json_ok j"
  shows "\<exists>r. merge_patch p j = Inr r \<and> merge_patch p r = Inr r"
  using assms
proof (induction "size p" arbitrary: p j rule: less_induct)
  case less
  show ?case
  proof (cases "\<exists>ps. p = Object ps")
    case False
    then have "merge_patch p k = Inr p" for k by (cases p) auto
    then show ?thesis by simp
  next
    case True
    then obtain ps where p: "p = Object ps" by blast
    from merge_patch_object [OF less.prems [unfolded p] refl] obtain rs where
      r: "merge_patch (Object ps) j = Inr (Object rs)" "json_ok (Object rs)"
      "\<And>k. case map_of ps k of None \<Rightarrow> True
         | Some p \<Rightarrow> if p = Null then map_of rs k = None
                     else \<exists>v. merge_patch p (member k j) = Inr v \<and> map_of rs k = Some v"
      by (auto split: option.splits)
    from merge_patch_object [OF less.prems(1) [unfolded p] r(2) refl, unfolded json.case] obtain qs where
      q: "merge_patch (Object ps) (Object rs) = Inr (Object qs)" "json_ok (Object qs)"
      "\<And>k. case map_of ps k of None \<Rightarrow> map_of qs k = map_of rs k
         | Some p \<Rightarrow> if p = Null then map_of qs k = None
                     else \<exists>v. merge_patch p (member k (Object rs)) = Inr v \<and> map_of qs k = Some v" by blast
    have "map_of qs k = map_of rs k" for k
    proof (cases "map_of ps k")
      case (Some p')
      have "json_ok p'" using less.prems(1) p Some members_ok_map_of by auto
      with less.hyps [of p' "member k j"] member_size [OF Some] p member_ok [OF less.prems(2)]
      have "\<exists>v. merge_patch p' (member k j) = Inr v \<and> merge_patch p' v = Inr v" by simp
      with r(3) [of k] q(3) [of k] Some show ?thesis by (auto split: if_splits)
    qed (use q(3) [of k] in simp)
    with q(2) r(2) have "qs = rs" by (intro sorted_keys_ext) simp_all
    with r(1) q(1) p show ?thesis by simp
  qed
qed

lemma merge_patch_idempotent_example:
  "\<exists>r. merge_patch (Object [(str ''a'', Null :: int json)]) Null = Inr r \<and> merge_patch (Object [(str ''a'', Null)]) r = Inr r"
  by (rule merge_patch_idempotent) simp_all

end
