(* ===== verification/Http_Buffer.thy ===== *)
theory Http_Buffer
  imports Prelude
begin

text \<open>
  \<open>tema3/buffer.cpp\<close>: the growing byte buffer the REST client receives into, with its two
  searches. The pointer \<open>data\<close> is \<open>None\<close> for NULL and otherwise holds the bytes of its block.
\<close>

section \<open>The buffer\<close>

record buffer =
  data :: "byte list option"
  bsize :: nat

definition buffer_init :: buffer where
  "buffer_init = \<lparr>data = None, bsize = 0\<rparr>"

definition buffer_destroy :: "buffer \<Rightarrow> buffer" where
  "buffer_destroy b = b\<lparr>data := None, bsize := 0\<rparr>"

definition buffer_is_empty :: "buffer \<Rightarrow> bool" where
  "buffer_is_empty b \<longleftrightarrow> data b = None"

text \<open>
  \<open>realloc\<close> keeps what fits into the new block, \<open>calloc\<close> clears it; the bytes behind are written
  by \<open>memcpy\<close>.
\<close>

definition buffer_add :: "buffer \<Rightarrow> byte list \<Rightarrow> fault + buffer" where
  "buffer_add b bytes =
     (let n = bsize b + length bytes;
          block = (case data b of
                     Some d \<Rightarrow> take n (d @ replicate n 0)
                   | None \<Rightarrow> replicate (length bytes) 0)
      in if n \<le> length block
         then Inr (b\<lparr>data := Some (take (bsize b) block @ bytes @ drop n block), bsize := n\<rparr>)
         else Inl Array_overflow)"

section \<open>Searching\<close>

text \<open>The inner loop: the index at which it stops.\<close>

fun match_len :: "(byte \<Rightarrow> byte \<Rightarrow> bool) \<Rightarrow> byte list \<Rightarrow> byte list \<Rightarrow> nat \<Rightarrow> nat" where
  "match_len eq (d # ds) (p # ps) j = (if \<not> eq d p then j else match_len eq ds ps (j + 1))"
| "match_len eq _ _ j = j"

text \<open>The outer loop over the positions \<open>i < last_pos\<close>; a position is returned as an \<open>int\<close>.\<close>

function find_from :: "(byte \<Rightarrow> byte \<Rightarrow> bool) \<Rightarrow> byte list \<Rightarrow> byte list \<Rightarrow> nat \<Rightarrow> nat \<Rightarrow> int" where
  "find_from eq d pat last_pos i =
     (if i < last_pos then
        if match_len eq (drop i d) pat 0 = length pat then sint (word_of_int (int i) :: u32)
        else find_from eq d pat last_pos (i + 1)
      else -1)"
  by pat_completeness auto

termination
  by (relation "measure (\<lambda>(eq, d, pat, last_pos, i). last_pos - i)") auto

declare find_from.simps [simp del]

definition buffer_find :: "buffer \<Rightarrow> byte list \<Rightarrow> int" where
  "buffer_find b pat =
     (if length pat > bsize b then -1
      else find_from (=) (case data b of Some d \<Rightarrow> d | None \<Rightarrow> []) pat (bsize b - length pat + 1) 0)"

definition tolower :: "byte \<Rightarrow> byte" where
  "tolower c = (if 65 \<le> c \<and> c \<le> 90 then c + 32 else c)"

definition buffer_find_insensitive :: "buffer \<Rightarrow> byte list \<Rightarrow> int" where
  "buffer_find_insensitive b pat =
     (if length pat > bsize b then -1
      else find_from (\<lambda>x y. tolower x = tolower y) (case data b of Some d \<Rightarrow> d | None \<Rightarrow> []) pat
        (bsize b - length pat + 1) 0)"

section \<open>What they compute\<close>

text \<open>A buffer that holds exactly the bytes \<open>bs\<close>.\<close>

definition holds_bytes :: "buffer \<Rightarrow> byte list \<Rightarrow> bool" where
  "holds_bytes b bs \<longleftrightarrow> bsize b = length bs \<and> (case data b of Some d \<Rightarrow> d = bs | None \<Rightarrow> bs = [])"

lemma holds_bytes_init: "holds_bytes buffer_init []"
  by (simp add: holds_bytes_def buffer_init_def)

lemma buffer_add_holds:
  "holds_bytes b bs \<Longrightarrow> \<exists>b'. buffer_add b extra = Inr b' \<and> holds_bytes b' (bs @ extra) \<and> data b' = Some (bs @ extra)"
  by (cases "data b") (auto simp: holds_bytes_def buffer_add_def Let_def)

lemma match_len_whole:
  "match_len eq d pat j = j + length pat \<longleftrightarrow> length pat \<le> length d \<and> list_all2 eq (take (length pat) d) pat"
proof (induction eq d pat j rule: match_len.induct)
  case (1 eq d ds p ps j)
  then show ?case by auto
qed (auto simp: list_all2_lengthD)

lemma find_from_find:
  assumes "length pat \<le> length d" "i \<le> length d - length pat + 1" "length d < 2 ^ 31"
  shows "find_from eq d pat (length d - length pat + 1) i =
    (case find (\<lambda>k. list_all2 eq (take (length pat) (drop k d)) pat) [i..<length d - length pat + 1] of
       None \<Rightarrow> -1 | Some k \<Rightarrow> int k)"
  using assms(2)
proof (induction "length d - length pat + 1 - i" arbitrary: i)
  case 0
  then have "i = length d - length pat + 1" by simp
  then show ?case by (subst find_from.simps) simp
next
  case (Suc n)
  then have i: "i < length d - length pat + 1" by simp
  have "match_len eq (drop i d) pat 0 = length pat \<longleftrightarrow> list_all2 eq (take (length pat) (drop i d)) pat"
    using match_len_whole [of eq "drop i d" pat 0] i assms(1) by auto
  moreover have "sint (word_of_int (int i) :: u32) = int i"
    by (rule sint_32) (use i assms in auto)
  ultimately show ?case
    using Suc.hyps(1) [of "i + 1"] Suc.hyps(2) i
    by (subst find_from.simps) (simp add: upt_rec [of i] del: of_int_of_nat_eq upt_Suc)
qed

text \<open>The first position at which the pattern occurs, up to a map of the bytes.\<close>

lemma find_sub_conv:
  "find_sub pat d = find (\<lambda>k. take (length pat) (drop k d) = pat) [0..<Suc (length d - length pat)]"
  if "length pat \<le> length d"
proof (rule sym)
  let ?P = "\<lambda>k. take (length pat) (drop k d) = pat"
  show "find ?P [0..<Suc (length d - length pat)] = find_sub pat d"
  proof (cases "find_sub pat d")
    case None
    have "\<not> ?P k" for k
    proof
      assume "?P k"
      from find_sub_least [OF this] None show False by auto
    qed
    with None show ?thesis by (simp add: find_None_iff)
  next
    case (Some n)
    from find_sub_Some [OF Some] have n: "?P n" "n + length pat \<le> length d" by auto
    have "\<not> ?P k" if "k < n" for k
    proof
      assume "?P k"
      from find_sub_least [OF this] Some that show False by auto
    qed
    with n Some show ?thesis by (auto simp: find_Some_iff nth_upt simp del: upt_Suc intro!: exI [of _ n])
  qed
qed

lemma buffer_find_sub:
  assumes "holds_bytes b bs" "length bs < 2 ^ 31"
  shows "buffer_find b pat = (case find_sub pat bs of None \<Rightarrow> -1 | Some k \<Rightarrow> int k)"
proof -
  have d: "(case data b of Some d \<Rightarrow> d | None \<Rightarrow> []) = bs" "bsize b = length bs"
    using assms(1) by (auto simp: holds_bytes_def split: option.splits)
  show ?thesis
  proof (cases "length pat \<le> length bs")
    case True
    have "list_all2 (=) x y \<longleftrightarrow> x = y" for x y :: "byte list" by (simp add: list_all2_eq)
    with True find_from_find [OF True _ assms(2), of 0 "(=)"] find_sub_conv [OF True] show ?thesis
      by (simp add: buffer_find_def d)
  next
    case False
    then have "find_sub pat bs = None" using find_sub_Some [of pat bs] by (cases "find_sub pat bs") auto
    with False show ?thesis by (simp add: buffer_find_def d)
  qed
qed

lemma buffer_find_insensitive_sub:
  assumes "holds_bytes b bs" "length bs < 2 ^ 31"
  shows "buffer_find_insensitive b pat =
    (case find_sub (map tolower pat) (map tolower bs) of None \<Rightarrow> -1 | Some k \<Rightarrow> int k)"
proof -
  have d: "(case data b of Some d \<Rightarrow> d | None \<Rightarrow> []) = bs" "bsize b = length bs"
    using assms(1) by (auto simp: holds_bytes_def split: option.splits)
  show ?thesis
  proof (cases "length pat \<le> length bs")
    case True
    have e: "list_all2 (\<lambda>x y. tolower x = tolower y) x y \<longleftrightarrow> map tolower x = map tolower y" for x y
      by (auto simp: list_all2_conv_all_nth list_eq_iff_nth_eq)
    have "length (map tolower pat) \<le> length (map tolower bs)" using True by simp
    from find_sub_conv [OF this] show ?thesis
      using True find_from_find [OF True _ assms(2), of 0 "\<lambda>x y. tolower x = tolower y"]
      by (simp add: buffer_find_insensitive_def d e take_map drop_map)
  next
    case False
    then have "find_sub (map tolower pat) (map tolower bs) = None"
      using find_sub_Some [of "map tolower pat" "map tolower bs"] by (cases "find_sub (map tolower pat) (map tolower bs)") auto
    with False show ?thesis by (simp add: buffer_find_insensitive_def d)
  qed
qed

end
