(* ===== verification/Http_Helpers.thy ===== *)
theory Http_Helpers
  imports Http_Buffer Json_Value
begin

text \<open>
  \<open>tema3/helpers.cpp\<close>: lines of a request in a fixed array, sending and receiving on a socket
  whose answers are an argument, and the parts of a response. A run can stop: undefined
  behaviour, an exception that is not caught, \<open>exit\<close>, or a call that waits for ever since the
  other side says nothing any longer.
\<close>

section \<open>How a run stops\<close>

datatype halt =
    Crash fault
  | Uncaught json_exception
  | Exited
  | Blocked

fun crash :: "fault + 'a \<Rightarrow> halt + 'a" where
  "crash (Inl f) = Inl (Crash f)"
| "crash (Inr a) = Inr a"

section \<open>C strings in arrays\<close>

definition strcat :: "byte list \<Rightarrow> byte list \<Rightarrow> fault + byte list" where
  "strcat dest s =
     (case string_of_array dest of
        None \<Rightarrow> Inl Array_overread
      | Some t \<Rightarrow>
          if length t + length s < length dest
          then Inr (t @ s @ 0 # drop (length t + length s + 1) dest)
          else Inl Array_overflow)"

definition sprintf :: "byte list \<Rightarrow> byte list \<Rightarrow> fault + byte list" where
  "sprintf dest s =
     (if length s < length dest then Inr (s @ 0 # drop (length s + 1) dest) else Inl Array_overflow)"

definition strchr :: "byte \<Rightarrow> byte list \<Rightarrow> byte list option" where
  "strchr c s = (case dropWhile (\<lambda>b. b \<noteq> c) s of [] \<Rightarrow> None | p \<Rightarrow> Some p)"

definition strstr :: "byte list \<Rightarrow> byte list \<Rightarrow> byte list option" where
  "strstr pat s = map_option (\<lambda>k. drop k s) (find_sub pat s)"

definition BUFLEN :: nat where "BUFLEN = 4096"
definition LINELEN :: nat where "LINELEN = 1000"

definition CRLF :: "byte list" where "CRLF = [13, 10]"
definition HEADER_TERMINATOR :: "byte list" where "HEADER_TERMINATOR = [13, 10, 13, 10]"
definition CONTENT_LENGTH :: "byte list" where "CONTENT_LENGTH = str ''Content-Length: ''"

definition compute_message :: "byte list \<Rightarrow> byte list \<Rightarrow> fault + byte list" where
  "compute_message message line = bindE (strcat message line) (\<lambda>message. strcat message CRLF)"

section \<open>Sending\<close>

text \<open>
  What \<open>write\<close> answers: the number of bytes it took, or a negative number. The result holds what
  was taken and the answers that are left.
\<close>

fun send_loop :: "byte list \<Rightarrow> nat \<Rightarrow> int list \<Rightarrow> byte list \<Rightarrow> halt + byte list \<times> int list" where
  "send_loop message sent [] out = Inl Blocked"
| "send_loop message sent (k # ws) out =
     (if k < 0 then Inl Exited
      else if k = 0 then Inr (out, ws)
      else
        let out = out @ take (nat k) (drop sent message);
            sent = sent + nat k
        in if sent < length message then send_loop message sent ws out else Inr (out, ws))"

definition send_to_server :: "byte list \<Rightarrow> int list \<Rightarrow> halt + byte list \<times> int list" where
  "send_to_server message ws = send_loop (c_string message) 0 ws []"

section \<open>Receiving\<close>

text \<open>What \<open>read\<close> answers: bytes that have arrived, none at the end of the stream, or a failure.\<close>

datatype answer = Data "byte list" | Failed

definition read_socket :: "answer list \<Rightarrow> halt + byte list \<times> answer list" where
  "read_socket rs =
     (case rs of
        [] \<Rightarrow> Inl Blocked
      | Failed # _ \<Rightarrow> Inl Exited
      | Data b # rs \<Rightarrow> Inr (take BUFLEN b, if BUFLEN < length b then Data (drop BUFLEN b) # rs else rs))"

fun answer_size :: "answer \<Rightarrow> nat" where
  "answer_size (Data b) = Suc (length b)"
| "answer_size Failed = 1"

definition pending_answers :: "answer list \<Rightarrow> nat" where
  "pending_answers rs = sum_list (map answer_size rs)"

lemma read_socket_less: "read_socket rs = Inr (b, rs') \<Longrightarrow> pending_answers rs' < pending_answers rs"
  by (auto simp: read_socket_def pending_answers_def BUFLEN_def split: list.splits answer.splits if_splits)

text \<open>
  \<open>strtol\<close> on memory that need not hold a NUL: it stops at the first byte that cannot belong to
  the number, and runs off the block when there is none.
\<close>

definition strtol_memory :: "byte list \<Rightarrow> fault + int" where
  "strtol_memory mem =
     (let t = dropWhile is_space mem;
          u = (if t \<noteq> [] \<and> (hd t = 45 \<or> hd t = 43) then tl t else t)
      in if dropWhile is_digit u = [] then Inl Array_overread else Inr (strtol10 mem))"

definition stored :: "buffer \<Rightarrow> byte list" where
  "stored b = (case data b of Some d \<Rightarrow> d | None \<Rightarrow> [])"

text \<open>The first loop. It yields the buffer, \<open>header_end\<close> and \<open>content_length\<close>.\<close>

function receive_header ::
  "buffer \<Rightarrow> int \<Rightarrow> answer list \<Rightarrow> halt + (buffer \<times> int \<times> int) \<times> answer list" where
  "receive_header buf header_end rs =
     (case read_socket rs of
        Inl h \<Rightarrow> Inl h
      | Inr (b, rs) \<Rightarrow>
          if b = [] then Inr ((buf, header_end, 0), rs)
          else bindE (crash (buffer_add buf b)) (\<lambda>buf.
            let header_end = buffer_find buf HEADER_TERMINATOR
            in if header_end \<ge> 0 then
                 let header_end = header_end + int (length HEADER_TERMINATOR);
                     start = buffer_find_insensitive buf CONTENT_LENGTH
                 in if start < 0 then receive_header buf header_end rs
                    else
                      bindE (crash (strtol_memory (drop (nat start + length CONTENT_LENGTH) (stored buf)))) (\<lambda>n.
                        Inr ((buf, header_end, sint (word_of_int n :: u32)), rs))
               else receive_header buf header_end rs))"
  by pat_completeness auto

termination
  by (relation "measure (\<lambda>(buf, header_end, rs). pending_answers rs)") (auto dest: read_socket_less)

function receive_body :: "64 word \<Rightarrow> buffer \<Rightarrow> answer list \<Rightarrow> halt + buffer \<times> answer list" where
  "receive_body total_size buf rs =
     (if bsize buf < unat total_size then
        (case read_socket rs of
           Inl h \<Rightarrow> Inl h
         | Inr (b, rs) \<Rightarrow>
             if b = [] then Inr (buf, rs)
             else bindE (crash (buffer_add buf b)) (\<lambda>buf. receive_body total_size buf rs))
      else Inr (buf, rs))"
  by pat_completeness auto

termination
  by (relation "measure (\<lambda>(total_size, buf, rs). pending_answers rs)") (auto dest: read_socket_less)

declare receive_header.simps [simp del] receive_body.simps [simp del]

definition receive_from_server :: "answer list \<Rightarrow> halt + byte list \<times> answer list" where
  "receive_from_server rs =
     bindE (receive_header buffer_init 0 rs) (\<lambda>((buf, header_end, content_length), rs).
       let total_size = word_of_int content_length + word_of_int header_end
       in bindE (receive_body total_size buf rs) (\<lambda>(buf, rs).
            bindE (crash (buffer_add buf [0])) (\<lambda>buf. Inr (stored buf, rs))))"

section \<open>Parts of a response\<close>

definition get_response_code :: "byte list \<Rightarrow> fault + int" where
  "get_response_code response =
     (case strchr 32 (c_string response) of
        None \<Rightarrow> Inl Null_deref
      | Some p \<Rightarrow> Inr (atoi (tl p)))"

definition get_response_body :: "byte list \<Rightarrow> fault + byte list" where
  "get_response_body response =
     (case strstr HEADER_TERMINATOR (c_string response) of
        None \<Rightarrow> Inl Null_deref
      | Some p \<Rightarrow> Inr (drop 4 p))"

text \<open>The first of an object and an array in the body; \<open>None\<close> is NULL.\<close>

definition basic_extract_json_response :: "byte list \<Rightarrow> fault + byte list option" where
  "basic_extract_json_response s =
     bindE (get_response_body s) (\<lambda>p.
       let obj = strchr 123 p; arr = strchr 91 p
       in Inr (case arr of
                 None \<Rightarrow> obj
               | Some a \<Rightarrow>
                   (case obj of
                      None \<Rightarrow> arr
                    | Some ob \<Rightarrow> if length p - length ob > length p - length a then arr else obj)))"

section \<open>Reassembly\<close>

text \<open>Searching a longer text finds the same, and searching a prefix of a text finds what lies in it.\<close>

lemma find_sub_longer:
  assumes "find_sub pat xs = Some k"
  shows "find_sub pat (xs @ ys) = Some k"
proof -
  from find_sub_Some [OF assms] have k: "take (length pat) (drop k xs) = pat" "k + length pat \<le> length xs" by auto
  then have "take (length pat) (drop k (xs @ ys)) = pat" by simp
  from find_sub_least [OF this] obtain n where n: "find_sub pat (xs @ ys) = Some n" "n \<le> k" by auto
  with find_sub_Some [OF n(1)] k(2) have "take (length pat) (drop n xs) = pat" by simp
  from find_sub_least [OF this] assms n show ?thesis by auto
qed

lemma find_sub_prefix:
  assumes "find_sub pat (xs @ ys) = Some k"
  shows "find_sub pat xs = (if k + length pat \<le> length xs then Some k else None)"
proof (cases "find_sub pat xs")
  case None
  have "\<not> k + length pat \<le> length xs"
  proof
    assume "k + length pat \<le> length xs"
    with find_sub_Some [OF assms] have "take (length pat) (drop k xs) = pat" by simp
    from find_sub_least [OF this] None show False by auto
  qed
  with None show ?thesis by simp
next
  case (Some n)
  from find_sub_Some [OF Some] have n: "take (length pat) (drop n (xs @ ys)) = pat" "n + length pat \<le> length xs"
    by auto
  from find_sub_least [OF n(1)] assms have "k \<le> n" by auto
  with n(2) have "k + length pat \<le> length xs" by simp
  moreover from this find_sub_Some [OF assms] have "take (length pat) (drop k xs) = pat" by simp
  from find_sub_least [OF this] Some have "n \<le> k" by auto
  ultimately show ?thesis using Some \<open>k \<le> n\<close> by simp
qed

lemma append_longer: "xs @ ys = zs @ ws \<Longrightarrow> length zs \<le> length xs \<Longrightarrow> \<exists>us. xs = zs @ us"
  by (auto simp: append_eq_append_conv2)

text \<open>
  The bytes \<open>d\<close> have been read and the segments are still to come. Only the last one reaches the \<open>n\<close> bytes of the
  response, and what it carries behind them, \<open>extra\<close>, comes with the same read.
\<close>

definition last_completes :: "nat \<Rightarrow> byte list \<Rightarrow> byte list \<Rightarrow> byte list list \<Rightarrow> bool" where
  "last_completes n extra d segs \<longleftrightarrow>
     segs = [] \<or> length (d @ concat (butlast segs)) < n \<and> (length (last segs) \<le> BUFLEN \<or> extra = [])"

lemma read_socket_completes:
  assumes "segs \<noteq> []" "\<forall>b \<in> set segs. b \<noteq> []" "last_completes n extra d segs" "n + length extra = length (d @ concat segs)"
  shows "\<exists>b segs'. read_socket (map Data segs @ rest) = Inr (b, map Data segs' @ rest) \<and> b \<noteq> []
    \<and> concat segs = b @ concat segs' \<and> (\<forall>b \<in> set segs'. b \<noteq> []) \<and> last_completes n extra (d @ b) segs'"
proof -
  obtain s ss where s: "segs = s # ss" using assms(1) by (cases segs) auto
  show ?thesis
  proof (cases "BUFLEN < length s")
    case True
    have "length (d @ take BUFLEN s) < n" if "ss = []"
      using that assms(3,4) s True by (simp add: last_completes_def)
    then have "last_completes n extra (d @ take BUFLEN s) (drop BUFLEN s # ss)"
      using assms(3) s True by (auto simp: last_completes_def)
    with True s assms(2) show ?thesis
      by (intro exI [of _ "take BUFLEN s"] exI [of _ "drop BUFLEN s # ss"])
        (auto simp: read_socket_def BUFLEN_def)
  next
    case False
    have "last_completes n extra (d @ s) ss" using assms(3) s by (auto simp: last_completes_def)
    with False s assms(2) show ?thesis
      by (intro exI [of _ s] exI [of _ ss]) (auto simp: read_socket_def)
  qed
qed

lemma receive_body_reads:
  assumes "holds_bytes buf d" "\<forall>b \<in> set segs. b \<noteq> []" "unat tot + length extra = length (d @ concat segs)"
    "last_completes (unat tot) extra d segs"
  shows "\<exists>buf'. receive_body tot buf (map Data segs @ rest) = Inr (buf', rest) \<and> holds_bytes buf' (d @ concat segs)"
  using assms
proof (induction "length (concat segs)" arbitrary: buf d segs rule: less_induct)
  case less
  have bs: "bsize buf = length d" using less.prems(1) by (simp add: holds_bytes_def)
  show ?case
  proof (cases "segs = []")
    case True
    with less.prems bs show ?thesis by (simp add: receive_body.simps)
  next
    case False
    from read_socket_completes [OF this less.prems(2,4,3), of rest] obtain b segs' where
      r: "read_socket (map Data segs @ rest) = Inr (b, map Data segs' @ rest)" "b \<noteq> []"
        "concat segs = b @ concat segs'" "\<forall>b \<in> set segs'. b \<noteq> []" "last_completes (unat tot) extra (d @ b) segs'" by blast
    from buffer_add_holds [OF less.prems(1), of b] obtain buf1 where
      b1: "buffer_add buf b = Inr buf1" "holds_bytes buf1 (d @ b)" by blast
    have "length (concat segs') < length (concat segs)" using r(2,3) by (cases b) auto
    from less.hyps [OF this b1(2) r(4) _ r(5)] less.prems(3) r(3) obtain buf' where
      "receive_body tot buf1 (map Data segs' @ rest) = Inr (buf', rest)" "holds_bytes buf' (d @ concat segs)"
      by auto
    moreover have "bsize buf < unat tot" using less.prems(4) bs False by (simp add: last_completes_def)
    ultimately show ?thesis using r b1(1) by (subst receive_body.simps) simp
  qed
qed

text \<open>
  A response as the client expects it: a header with one Content-Length, the empty line, and a
  body of that length.
\<close>

definition response_ok :: "byte list \<Rightarrow> byte list \<Rightarrow> byte list \<Rightarrow> byte list \<Rightarrow> byte list \<Rightarrow> byte list \<Rightarrow> bool" where
  "response_ok msg pre key num mid body \<longleftrightarrow>
     msg = pre @ key @ num @ 13 # mid @ body \<and> num = dec (length body) \<and> length msg < 2 ^ 31
     \<and> find_sub HEADER_TERMINATOR msg = Some (length msg - length body - 4)
     \<and> map tolower key = map tolower CONTENT_LENGTH
     \<and> find_sub (map tolower CONTENT_LENGTH) (map tolower msg) = Some (length pre)
     \<and> 4 \<le> length (13 # mid)"

lemma strtol_memory_number:
  assumes "n < 2 ^ 31"
  shows "strtol_memory (dec n @ 13 # r) = Inr (int n)"
proof -
  obtain b bs where b: "dec n = b # bs" "is_digit b" using dec_leading by blast
  have d: "dropWhile is_space (dec n @ 13 # r) = dec n @ 13 # r" "hd (dec n @ 13 # r) \<noteq> 45" "hd (dec n @ 13 # r) \<noteq> 43"
    using b digit_not_special [of b] by auto
  have nd: "\<not> is_digit 13" by (simp add: is_digit_def word_le_def)
  have dw: "dropWhile is_digit (dec n @ 13 # r) = 13 # r"
    using dec_digits [of n] nd by (simp add: dropWhile_append)
  have "strtol10 (dec n @ 13 # r) = int n"
  proof -
    have "\<forall>b \<in> set (dec n). b \<noteq> 0" using dec_digits [of n] digit_not_special by auto
    then have c: "c_string (dec n @ 13 # r) = dec n @ 13 # c_string r"
      by (simp add: c_string_def takeWhile_append)
    have t: "takeWhile is_digit (dec n @ 13 # c_string r) = dec n"
      using dec_digits [of n] nd by (simp add: takeWhile_append)
    have d': "dropWhile is_space (dec n @ 13 # c_string r) = dec n @ 13 # c_string r"
      "hd (dec n @ 13 # c_string r) \<noteq> 45" "hd (dec n @ 13 # c_string r) \<noteq> 43"
      using b digit_not_special [of b] by auto
    show ?thesis
      using assms d' t by (simp add: strtol10_def c Let_def long_max_def long_min_def)
  qed
  with d dw nd show ?thesis by (simp add: strtol_memory_def Let_def)
qed

lemma receive_header_reads:
  assumes ok: "response_ok msg pre key num mid body"
    and long: "length (msg @ extra) < 2 ^ 31"
    and "holds_bytes buf d" "\<forall>b \<in> set segs. b \<noteq> []" "msg @ extra = d @ concat segs" "length d < length msg - length body"
      "last_completes (length msg) extra d segs"
  shows "\<exists>buf' d' segs'. receive_header buf he (map Data segs @ rest)
      = Inr ((buf', int (length msg - length body), int (length body)), map Data segs' @ rest)
    \<and> holds_bytes buf' d' \<and> (\<forall>b \<in> set segs'. b \<noteq> []) \<and> msg @ extra = d' @ concat segs'
    \<and> last_completes (length msg) extra d' segs'"
  using assms(3-7)
proof (induction "length (concat segs)" arbitrary: buf d segs he rule: less_induct)
  case less
  define K where "K = length msg - length body - 4"
  have m: "msg = pre @ key @ num @ 13 # mid @ body" "num = dec (length body)" "length msg < 2 ^ 31"
    "find_sub HEADER_TERMINATOR msg = Some K" "map tolower key = map tolower CONTENT_LENGTH"
    "find_sub (map tolower CONTENT_LENGTH) (map tolower msg) = Some (length pre)" "4 \<le> length (13 # mid)"
    using ok unfolding response_ok_def K_def by blast+
  have k: "length msg - length body = K + 4" using m(1,7) by (simp add: K_def)
  have keylen: "length key = 16" using arg_cong [OF m(5), of length] by (simp add: CONTENT_LENGTH_def str_def)
  have "length d < length (msg @ extra)" using less.prems(4) by simp
  then have ne: "segs \<noteq> []" unfolding less.prems(3) by auto
  have "length msg + length extra = length (d @ concat segs)" using arg_cong [OF less.prems(3), of length] by simp
  from read_socket_completes [OF ne less.prems(2,5) this, of rest] obtain b segs' where
    r: "read_socket (map Data segs @ rest) = Inr (b, map Data segs' @ rest)" "b \<noteq> []"
      "concat segs = b @ concat segs'" "\<forall>b \<in> set segs'. b \<noteq> []" "last_completes (length msg) extra (d @ b) segs'" by blast
  from buffer_add_holds [OF less.prems(1), of b] obtain buf1 where
    b1: "buffer_add buf b = Inr buf1" "holds_bytes buf1 (d @ b)" "data buf1 = Some (d @ b)" by blast
  have split: "msg @ extra = (d @ b) @ concat segs'" using less.prems(3) r(3) by simp
  have short: "length (d @ b) < 2 ^ 31" using long arg_cong [OF split, of length] by simp
  note m4 = find_sub_longer [OF m(4), of extra] and m6 = find_sub_longer [OF m(6), of "map tolower extra"]
  have found: "buffer_find buf1 HEADER_TERMINATOR = (if K + 4 \<le> length (d @ b) then int K else -1)"
    using buffer_find_sub [OF b1(2) short, of HEADER_TERMINATOR]
      find_sub_prefix [OF m4 [unfolded split]]
    by (simp add: HEADER_TERMINATOR_def)
  show ?case
  proof (cases "K + 4 \<le> length (d @ b)")
    case False
    have "length (concat segs') < length (concat segs)" using r(2,3) by (cases b) auto
    moreover have "length (d @ b) < length msg - length body" using False k by linarith
    ultimately obtain buf' d' segs'' where
      "receive_header buf1 (-1) (map Data segs' @ rest)
        = Inr ((buf', int (length msg - length body), int (length body)), map Data segs'' @ rest)"
      "holds_bytes buf' d'" "\<forall>b \<in> set segs''. b \<noteq> []" "msg @ extra = d' @ concat segs''"
      "last_completes (length msg) extra d' segs''"
      using less.hyps [OF _ b1(2) r(4) split _ r(5), of "-1"] by blast
    moreover have "receive_header buf he (map Data segs @ rest) = receive_header buf1 (-1) (map Data segs' @ rest)"
      using r(1,2) b1(1) found False by (subst receive_header.simps) simp
    ultimately show ?thesis by auto
  next
    case True
    have pre: "length (pre @ key @ num @ [13]) \<le> length (d @ b)"
      using True k m(1) m(7) by simp
    have start: "buffer_find_insensitive buf1 CONTENT_LENGTH = int (length pre)"
    proof -
      have "find_sub (map tolower CONTENT_LENGTH) (map tolower (d @ b) @ map tolower (concat segs')) = Some (length pre)"
        using m6 split by (metis map_append)
      from find_sub_prefix [OF this] pre keylen
      have "find_sub (map tolower CONTENT_LENGTH) (map tolower (d @ b)) = Some (length pre)"
        by (simp add: CONTENT_LENGTH_def str_def)
      with buffer_find_insensitive_sub [OF b1(2) short, of CONTENT_LENGTH] show ?thesis by simp
    qed
    obtain rr where rr: "d @ b = pre @ key @ num @ 13 # rr"
    proof -
      let ?x = "pre @ key @ num @ [13]"
      have "(d @ b) @ concat segs' = ?x @ mid @ body @ extra" using split m(1) by simp
      from append_longer [OF this pre] obtain us where "d @ b = ?x @ us" by blast
      then have "d @ b = pre @ key @ num @ 13 # us" by auto
      then show ?thesis by (rule that)
    qed
    have "drop (nat (int (length pre)) + length CONTENT_LENGTH) (stored buf1) = dec (length body) @ 13 # rr"
      using keylen m(2) by (simp add: stored_def b1(3) rr CONTENT_LENGTH_def str_def)
    moreover have "length body < 2 ^ 31" using m(1,3) by simp
    ultimately have num: "strtol_memory (drop (nat (int (length pre)) + length CONTENT_LENGTH) (stored buf1))
        = Inr (int (length body))" by (simp add: strtol_memory_number)
    have "sint (word_of_int (int (length body)) :: u32) = int (length body)"
      by (rule sint_32) (use \<open>length body < 2 ^ 31\<close> in simp_all)
    then have "receive_header buf he (map Data segs @ rest)
        = Inr ((buf1, int (length msg - length body), int (length body)), map Data segs' @ rest)"
      using r(1,2) b1(1) found True start num k
      by (subst receive_header.simps) (simp add: HEADER_TERMINATOR_def k del: of_int_of_nat_eq)
    with b1(2) r(4,5) split show ?thesis by blast
  qed
qed

end
