(* ===== verification/Http_Requests.thy ===== *)
theory Http_Requests
  imports Http_Helpers
begin

text \<open>
  \<open>tema3/requests.cpp\<close>: the text of the three kinds of requests, put together line by line in
  arrays of fixed size, and the properties of requests and of the transport of \<open>helpers.cpp\<close>.
\<close>

section \<open>The code\<close>

text \<open>The loops that join cookies with \<open>"; "\<close> and body fields with \<open>"&"\<close>.\<close>

fun cat_cookies :: "byte list \<Rightarrow> byte list list \<Rightarrow> fault + byte list" where
  "cat_cookies line [] = Inr line"
| "cat_cookies line (c # cs) =
     bindE (strcat line c) (\<lambda>line.
     bindE (if cs \<noteq> [] then strcat line (str ''; '') else Inr line) (\<lambda>line. cat_cookies line cs))"

fun cat_fields :: "bool \<Rightarrow> byte list \<Rightarrow> byte list list \<Rightarrow> fault + byte list" where
  "cat_fields first buf [] = Inr buf"
| "cat_fields first buf (f # fs) =
     bindE (if \<not> first then strcat buf (str ''&'') else Inr buf) (\<lambda>buf.
     bindE (strcat buf f) (\<lambda>buf. cat_fields False buf fs))"

text \<open>One line: \<open>sprintf\<close> into \<open>line\<close>, then \<open>compute_message\<close>.\<close>

definition add_line :: "byte list \<Rightarrow> byte list \<Rightarrow> byte list \<Rightarrow> fault + byte list \<times> byte list" where
  "add_line message line text =
     bindE (sprintf line text) (\<lambda>line.
     bindE (compute_message message (c_string line)) (\<lambda>message. Inr (message, line)))"

text \<open>\<open>None\<close> stands for a null pointer.\<close>

definition compute_rest_request ::
  "byte list \<Rightarrow> byte list list option \<Rightarrow> byte list option \<Rightarrow> byte list \<Rightarrow> byte list \<Rightarrow> byte list list
    \<Rightarrow> fault + byte list" where
  "compute_rest_request host cookies auth message content_type body_data =
     (let line = replicate LINELEN 0; body_data_buffer = replicate LINELEN 0
      in bindE (add_line message line (str ''Host: '' @ host)) (\<lambda>(message, line).
         bindE (case cookies of
                  None \<Rightarrow> Inr (message, line)
                | Some cs \<Rightarrow>
                    bindE (strcat (line[0 := 0]) (str ''Cookie: '')) (\<lambda>line.
                    bindE (cat_cookies line cs) (\<lambda>line.
                    bindE (compute_message message (c_string line)) (\<lambda>message. Inr (message, line))))) (\<lambda>(message, line).
         bindE (case auth of
                  None \<Rightarrow> Inr (message, line)
                | Some a \<Rightarrow> add_line message line (str ''Authorization: Bearer '' @ a)) (\<lambda>(message, line).
         bindE (if body_data \<noteq> [] then
                  bindE (cat_fields True body_data_buffer body_data) (\<lambda>buf.
                  bindE (add_line message line (str ''Content-Length: '' @ dec (length (c_string buf)))) (\<lambda>(message, line).
                  bindE (add_line message line (str ''Content-Type: '' @ content_type)) (\<lambda>(message, line).
                    Inr (message, buf))))
                else Inr (message, body_data_buffer)) (\<lambda>(message, buf).
         bindE (compute_message message []) (\<lambda>message. compute_message message (c_string buf)))))))"

definition compute_get_request ::
  "byte list \<Rightarrow> byte list \<Rightarrow> byte list option \<Rightarrow> byte list list option \<Rightarrow> byte list option \<Rightarrow> fault + byte list" where
  "compute_get_request host url query_params cookies auth =
     (let message = replicate BUFLEN 0; line = replicate LINELEN 0
      in bindE (add_line message line (case query_params of
            Some q \<Rightarrow> str ''GET '' @ url @ str ''?'' @ q @ str '' HTTP/1.1''
          | None \<Rightarrow> str ''GET '' @ url @ str '' HTTP/1.1'')) (\<lambda>(message, line).
           compute_rest_request host cookies auth message [] []))"

definition compute_post_request ::
  "byte list \<Rightarrow> byte list \<Rightarrow> byte list \<Rightarrow> byte list list \<Rightarrow> byte list list option \<Rightarrow> byte list option \<Rightarrow> fault + byte list" where
  "compute_post_request host url content_type body_data cookies auth =
     (let message = replicate BUFLEN 0; line = replicate LINELEN 0
      in bindE (add_line message line (str ''POST '' @ url @ str '' HTTP/1.1'')) (\<lambda>(message, line).
           compute_rest_request host cookies auth message content_type body_data))"

definition compute_del_request ::
  "byte list \<Rightarrow> byte list \<Rightarrow> byte list \<Rightarrow> byte list list \<Rightarrow> byte list list option \<Rightarrow> byte list option \<Rightarrow> fault + byte list" where
  "compute_del_request host url content_type body_data cookies auth =
     (let message = replicate BUFLEN 0; line = replicate LINELEN 0
      in bindE (add_line message line (str ''DELETE '' @ url @ str '' HTTP/1.1'')) (\<lambda>(message, line).
           compute_rest_request host cookies auth message content_type body_data))"

section \<open>The text of a request\<close>

text \<open>An array of the given size that holds a C string.\<close>

definition array_of :: "nat \<Rightarrow> byte list \<Rightarrow> byte list \<Rightarrow> bool" where
  "array_of n s a \<longleftrightarrow> length a = n \<and> (\<exists>pad. a = s @ 0 # pad) \<and> 0 \<notin> set s"

lemma array_of_zero: "0 < n \<Longrightarrow> array_of n [] (replicate n 0)"
  by (cases n) (auto simp: array_of_def)

lemma array_of_string: "array_of n s a \<Longrightarrow> c_string a = s"
  by (auto simp: array_of_def)

lemma strcat_array:
  assumes "array_of n s a" "0 \<notin> set t"
  shows "length s + length t < n \<Longrightarrow> \<exists>a'. strcat a t = Inr a' \<and> array_of n (s @ t) a'"
    and "\<not> length s + length t < n \<Longrightarrow> strcat a t = Inl Array_overflow"
  using assms by (auto simp: strcat_def array_of_def)

lemma sprintf_array:
  assumes "length a = n" "0 \<notin> set t"
  shows "length t < n \<Longrightarrow> \<exists>a'. sprintf a t = Inr a' \<and> array_of n t a'"
    and "\<not> length t < n \<Longrightarrow> sprintf a t = Inl Array_overflow"
  using assms by (auto simp: sprintf_def array_of_def)

lemma compute_message_array:
  assumes "array_of n s a" "0 \<notin> set t"
  shows "length s + length t + 2 < n \<Longrightarrow> \<exists>a'. compute_message a t = Inr a' \<and> array_of n (s @ t @ CRLF) a'"
    and "\<not> length s + length t + 2 < n \<Longrightarrow> compute_message a t = Inl Array_overflow"
proof -
  have c: "0 \<notin> set CRLF" "length CRLF = 2" by (auto simp: CRLF_def)
  show "\<exists>a'. compute_message a t = Inr a' \<and> array_of n (s @ t @ CRLF) a'" if fits: "length s + length t + 2 < n"
  proof -
    from strcat_array(1) [OF assms] fits obtain a1 where a1: "strcat a t = Inr a1" "array_of n (s @ t) a1" by auto
    from strcat_array(1) [OF a1(2) c(1)] fits c(2) a1(1) show ?thesis by (auto simp: compute_message_def)
  qed
  show "compute_message a t = Inl Array_overflow" if big: "\<not> length s + length t + 2 < n"
  proof (cases "length s + length t < n")
    case True
    from strcat_array(1) [OF assms True] obtain a1 where a1: "strcat a t = Inr a1" "array_of n (s @ t) a1" by auto
    from strcat_array(2) [OF a1(2) c(1)] big c(2) a1(1) show ?thesis by (simp add: compute_message_def)
  next
    case False
    from strcat_array(2) [OF assms False] show ?thesis by (simp add: compute_message_def)
  qed
qed

lemma add_line_array:
  assumes "array_of n s a" "length line = LINELEN" "0 \<notin> set t"
  shows "length t < LINELEN \<and> length s + length t + 2 < n \<Longrightarrow>
      \<exists>a' line'. add_line a line t = Inr (a', line') \<and> array_of n (s @ t @ CRLF) a' \<and> array_of LINELEN t line'"
    and "\<not> (length t < LINELEN \<and> length s + length t + 2 < n) \<Longrightarrow> add_line a line t = Inl Array_overflow"
proof -
  show "\<exists>a' line'. add_line a line t = Inr (a', line') \<and> array_of n (s @ t @ CRLF) a' \<and> array_of LINELEN t line'"
    if fits: "length t < LINELEN \<and> length s + length t + 2 < n"
  proof -
    from sprintf_array(1) [OF assms(2,3)] fits obtain l where l: "sprintf line t = Inr l" "array_of LINELEN t l" by blast
    from compute_message_array(1) [OF assms(1,3)] fits obtain a' where
      "compute_message a t = Inr a'" "array_of n (s @ t @ CRLF) a'" by blast
    with l show ?thesis by (simp add: add_line_def array_of_string)
  qed
  show "add_line a line t = Inl Array_overflow" if big: "\<not> (length t < LINELEN \<and> length s + length t + 2 < n)"
  proof (cases "length t < LINELEN")
    case True
    from sprintf_array(1) [OF assms(2,3) True] obtain l where l: "sprintf line t = Inr l" "array_of LINELEN t l" by blast
    from compute_message_array(2) [OF assms(1,3)] big True l show ?thesis by (simp add: add_line_def array_of_string)
  next
    case False
    from sprintf_array(2) [OF assms(2,3) False] show ?thesis by (simp add: add_line_def)
  qed
qed

text \<open>Strings joined by a separator.\<close>

fun join :: "byte list \<Rightarrow> byte list list \<Rightarrow> byte list" where
  "join sep [] = []"
| "join sep [s] = s"
| "join sep (s # ss) = s @ sep @ join sep ss"

text \<open>A step that yields a value with the property \<open>P\<close> if everything fits, and overflows if not.\<close>

definition yields :: "('a \<Rightarrow> bool) \<Rightarrow> bool \<Rightarrow> fault + 'a \<Rightarrow> bool" where
  "yields P ok r \<longleftrightarrow> (if ok then \<exists>a. r = Inr a \<and> P a else r = Inl Array_overflow)"

definition line_of :: "nat \<Rightarrow> byte list \<Rightarrow> byte list \<times> byte list \<Rightarrow> bool" where
  "line_of n s = (\<lambda>(a, line). array_of n s a \<and> length line = LINELEN)"

lemma yields_bind:
  "yields P ok r \<Longrightarrow> (\<And>a. P a \<Longrightarrow> yields Q ok' (f a)) \<Longrightarrow> yields Q (ok \<and> ok') (bindE r f)"
  by (auto simp: yields_def split: if_splits)

lemma yields_bind_line:
  "yields (line_of n s) ok r \<Longrightarrow>
   (\<And>a line. array_of n s a \<Longrightarrow> length line = LINELEN \<Longrightarrow> yields Q ok' (f a line))
   \<Longrightarrow> yields Q (ok \<and> ok') (bindE r (\<lambda>(a, line). f a line))"
  by (auto simp: yields_def line_of_def split: if_splits)

lemma yields_eq: "yields P ok r \<Longrightarrow> P = P' \<Longrightarrow> ok = ok' \<Longrightarrow> yields P' ok' r"
  by simp

lemma yields_Inr: "P a \<Longrightarrow> yields P True (Inr a)"
  by (simp add: yields_def)

lemma yields_strcat: "array_of n s a \<Longrightarrow> 0 \<notin> set t \<Longrightarrow> yields (array_of n (s @ t)) (length (s @ t) < n) (strcat a t)"
  using strcat_array [of n s a t] by (auto simp: yields_def)

lemma yields_message:
  "array_of n s a \<Longrightarrow> 0 \<notin> set t \<Longrightarrow>
   yields (array_of n (s @ t @ CRLF)) (length (s @ t @ CRLF) < n) (compute_message a t)"
  using compute_message_array [of n s a t] by (auto simp: yields_def CRLF_def)

lemma yields_add_line:
  assumes "array_of n s a" "length line = LINELEN" "0 \<notin> set t"
  shows "yields (line_of n (s @ t @ CRLF)) (length t < LINELEN \<and> length (s @ t @ CRLF) < n) (add_line a line t)"
proof (cases "length t < LINELEN \<and> length s + length t + 2 < n")
  case True
  from add_line_array(1) [OF assms True] True show ?thesis
    by (auto simp: yields_def line_of_def CRLF_def array_of_def)
next
  case False
  from add_line_array(2) [OF assms False] False show ?thesis by (auto simp: yields_def CRLF_def)
qed

lemma cat_cookies_yields:
  "array_of n s a \<Longrightarrow> \<forall>c \<in> set cs. 0 \<notin> set c \<Longrightarrow>
   yields (array_of n (s @ join (str ''; '') cs)) (length (s @ join (str ''; '') cs) < n) (cat_cookies a cs)"
proof (induction cs arbitrary: s a)
  case Nil
  then show ?case by (auto simp: yields_def array_of_def)
next
  case (Cons c cs)
  let ?sep = "str ''; ''"
  have sep: "0 \<notin> set ?sep" by (simp add: str_def)
  have c: "0 \<notin> set c" "\<forall>c \<in> set cs. 0 \<notin> set c" using Cons.prems(2) by auto
  show ?case
  proof (cases cs)
    case Nil
    have "yields (array_of n (s @ c)) (length (s @ c) < n \<and> True) (cat_cookies a (c # cs))"
      unfolding cat_cookies.simps
      by (rule yields_bind [OF yields_strcat [OF Cons.prems(1) c(1)]]) (auto simp: yields_def Nil)
    with Nil show ?thesis by simp
  next
    case (Cons c' cs')
    then have ne: "cs \<noteq> []" by simp
    have "yields (array_of n (((s @ c) @ ?sep) @ join ?sep cs))
        (length (s @ c) < n \<and> (length ((s @ c) @ ?sep) < n \<and> length (((s @ c) @ ?sep) @ join ?sep cs) < n))
        (cat_cookies a (c # cs))"
      unfolding cat_cookies.simps if_P [OF ne]
      by (rule yields_bind [OF yields_strcat [OF Cons.prems(1) c(1)] yields_bind [OF yields_strcat [OF _ sep] Cons.IH [OF _ c(2)]]])
    then show ?thesis by (rule yields_eq) (auto simp: Cons)
  qed
qed

lemma cat_fields_yields:
  "array_of n s a \<Longrightarrow> \<forall>f \<in> set fs. 0 \<notin> set f \<Longrightarrow>
   yields (array_of n (s @ (if first \<or> fs = [] then [] else str ''&'') @ join (str ''&'') fs))
     (length (s @ (if first \<or> fs = [] then [] else str ''&'') @ join (str ''&'') fs) < n) (cat_fields first a fs)"
proof (induction fs arbitrary: s a first)
  case Nil
  then show ?case by (auto simp: yields_def array_of_def)
next
  case (Cons f fs)
  let ?sep = "str ''&''"
  let ?amp = "if first then [] else ?sep"
  let ?rest = "(if fs = [] then [] else ?sep) @ join ?sep fs"
  have sep: "0 \<notin> set ?sep" by (simp add: str_def)
  have f: "0 \<notin> set f" "\<forall>f \<in> set fs. 0 \<notin> set f" using Cons.prems(2) by auto
  have amp: "yields (array_of n (s @ ?amp)) (length (s @ ?amp) < n) (if \<not> first then strcat a ?sep else Inr a)"
  proof (cases first)
    case True
    with Cons.prems(1) show ?thesis by (auto simp: yields_def array_of_def)
  next
    case False
    with yields_strcat [OF Cons.prems(1) sep] show ?thesis by simp
  qed
  have rest: "yields (array_of n (t @ ?rest)) (length (t @ ?rest) < n) (cat_fields False b fs)" if "array_of n t b" for t b
    using Cons.IH [OF that f(2), of False] by simp
  have "yields (array_of n (((s @ ?amp) @ f) @ ?rest))
      (length (s @ ?amp) < n \<and> (length ((s @ ?amp) @ f) < n \<and> length (((s @ ?amp) @ f) @ ?rest) < n))
      (cat_fields first a (f # fs))"
    unfolding cat_fields.simps
    by (rule yields_bind [OF amp yields_bind [OF yields_strcat [OF _ f(1)] rest]])
  then show ?case by (rule yields_eq) (cases fs; auto)+
qed

text \<open>The lines of a message, and when they fit behind a text of a message of \<open>n\<close> bytes.\<close>

definition lines :: "byte list list \<Rightarrow> byte list" where
  "lines ls = concat (map (\<lambda>l. l @ CRLF) ls)"

definition fits :: "nat \<Rightarrow> byte list \<Rightarrow> byte list list \<Rightarrow> bool" where
  "fits n s ls \<longleftrightarrow> (\<forall>l \<in> set ls. length l < LINELEN) \<and> length (s @ lines ls) < n"

lemma lines_simps [simp]: "lines [] = []" "lines (l # ls) = l @ CRLF @ lines ls" "lines (ls @ ms) = lines ls @ lines ms"
  by (simp_all add: lines_def)

lemma fits_append: "fits n s (ls @ ms) \<longleftrightarrow> fits n s ls \<and> fits n (s @ lines ls) ms"
  by (auto simp: fits_def)

lemma fits_one: "fits n s [l] \<longleftrightarrow> length l < LINELEN \<and> length (s @ l @ CRLF) < n"
  by (auto simp: fits_def)

lemma fits_none: "array_of n s a \<Longrightarrow> fits n s []"
  by (auto simp: fits_def array_of_def)

lemma yields_line: "array_of n s a \<Longrightarrow> length line = LINELEN \<Longrightarrow> 0 \<notin> set t \<Longrightarrow>
    yields (line_of n (s @ lines [t])) (fits n s [t]) (add_line a line t)"
  using yields_add_line [of n s a line t] by (simp add: fits_one)

text \<open>The optional lines.\<close>

definition cookie_lines :: "byte list list option \<Rightarrow> byte list list" where
  "cookie_lines cookies = (case cookies of None \<Rightarrow> [] | Some cs \<Rightarrow> [str ''Cookie: '' @ join (str ''; '') cs])"

definition auth_lines :: "byte list option \<Rightarrow> byte list list" where
  "auth_lines auth = (case auth of None \<Rightarrow> [] | Some a \<Rightarrow> [str ''Authorization: Bearer '' @ a])"

definition body_lines :: "byte list \<Rightarrow> byte list list \<Rightarrow> byte list list" where
  "body_lines ctype fs =
     (if fs = [] then []
      else [str ''Content-Length: '' @ dec (length (join (str ''&'') fs)), str ''Content-Type: '' @ ctype])"

definition rest_lines ::
  "byte list \<Rightarrow> byte list list option \<Rightarrow> byte list option \<Rightarrow> byte list \<Rightarrow> byte list list \<Rightarrow> byte list list" where
  "rest_lines host cookies auth ctype fs =
     [str ''Host: '' @ host] @ cookie_lines cookies @ auth_lines auth @ body_lines ctype fs @ [[], join (str ''&'') fs]"

lemma yields_cookies:
  assumes "array_of n s a" "length line = LINELEN" "\<forall>cs. cookies = Some cs \<longrightarrow> (\<forall>c \<in> set cs. 0 \<notin> set c)"
  shows "yields (line_of n (s @ lines (cookie_lines cookies))) (fits n s (cookie_lines cookies))
    (case cookies of
       None \<Rightarrow> Inr (a, line)
     | Some cs \<Rightarrow>
         bindE (strcat (line[0 := 0]) (str ''Cookie: '')) (\<lambda>line.
         bindE (cat_cookies line cs) (\<lambda>line.
         bindE (compute_message a (c_string line)) (\<lambda>message. Inr (message, line)))))"
proof (cases cookies)
  case None
  then show ?thesis
    using assms(1,2) fits_none [OF assms(1)] by (simp add: cookie_lines_def yields_def line_of_def)
next
  case (Some cs)
  let ?c = "str ''Cookie: ''"
  let ?t = "?c @ join (str ''; '') cs"
  have cs: "\<forall>c \<in> set cs. 0 \<notin> set c" using assms(3) Some by simp
  have cn: "0 \<notin> set ?c" by (simp add: str_def)
  have "array_of LINELEN [] (line[0 := 0])"
    using assms(2) by (cases line) (auto simp: array_of_def LINELEN_def)
  note first = yields_strcat [OF this cn]
  have last: "yields (line_of n (s @ lines [?t])) (length (s @ lines [?t]) < n \<and> True)
      (bindE (compute_message a (c_string l)) (\<lambda>message. Inr (message, l)))" if l: "array_of LINELEN ?t l" for l
  proof (rule yields_bind)
    show "yields (array_of n (s @ ?t @ CRLF)) (length (s @ lines [?t]) < n) (compute_message a (c_string l))"
    proof -
      have "0 \<notin> set ?t" using l unfolding array_of_def by blast
      from yields_message [OF assms(1) this] array_of_string [OF l] show ?thesis by simp
    qed
    show "yields (line_of n (s @ lines [?t])) True (Inr (a', l))" if "array_of n (s @ ?t @ CRLF) a'" for a'
      using that l by (auto simp: yields_def line_of_def array_of_def)
  qed
  have "yields (line_of n (s @ lines [?t]))
      (length ([] @ ?c) < LINELEN \<and> (length (([] @ ?c) @ join (str ''; '') cs) < LINELEN \<and> (length (s @ lines [?t]) < n \<and> True)))
      (bindE (strcat (line[0 := 0]) ?c) (\<lambda>line. bindE (cat_cookies line cs) (\<lambda>line.
         bindE (compute_message a (c_string line)) (\<lambda>message. Inr (message, line)))))"
    by (rule yields_bind [OF first yields_bind [OF cat_cookies_yields [OF _ cs]]]) (use last in simp_all)
  then show ?thesis
    by (auto simp: Some cookie_lines_def fits_def elim!: yields_eq)
qed

lemma yields_auth:
  assumes "array_of n s a" "length line = LINELEN" "\<forall>x. auth = Some x \<longrightarrow> 0 \<notin> set x"
  shows "yields (line_of n (s @ lines (auth_lines auth))) (fits n s (auth_lines auth))
    (case auth of None \<Rightarrow> Inr (a, line) | Some x \<Rightarrow> add_line a line (str ''Authorization: Bearer '' @ x))"
proof (cases auth)
  case None
  then show ?thesis
    using assms(1,2) fits_none [OF assms(1)] by (simp add: auth_lines_def yields_def line_of_def)
next
  case (Some x)
  have "0 \<notin> set (str ''Authorization: Bearer '' @ x)" using assms(3) Some by (simp add: str_def)
  from yields_line [OF assms(1,2) this] show ?thesis by (simp add: Some auth_lines_def)
qed

lemma join_no_nul: "0 \<notin> set sep \<Longrightarrow> \<forall>c \<in> set cs. 0 \<notin> set c \<Longrightarrow> 0 \<notin> set (join sep cs)"
  by (induction sep cs rule: join.induct) auto

definition body_of :: "nat \<Rightarrow> byte list \<Rightarrow> byte list \<Rightarrow> byte list \<times> byte list \<Rightarrow> bool" where
  "body_of n s body = (\<lambda>(message, buf). array_of n s message \<and> array_of LINELEN body buf)"

lemma yields_body:
  assumes "array_of n s a" "length line = LINELEN" "0 \<notin> set ctype" "\<forall>f \<in> set fs. 0 \<notin> set f"
  shows "yields (body_of n (s @ lines (body_lines ctype fs)) (join (str ''&'') fs))
      (length (join (str ''&'') fs) < LINELEN \<and> fits n s (body_lines ctype fs))
    (if fs \<noteq> [] then
       bindE (cat_fields True (replicate LINELEN 0) fs) (\<lambda>buf.
       bindE (add_line a line (str ''Content-Length: '' @ dec (length (c_string buf)))) (\<lambda>(message, line).
       bindE (add_line message line (str ''Content-Type: '' @ ctype)) (\<lambda>(message, line). Inr (message, buf))))
     else Inr (a, replicate LINELEN 0))"
proof (cases "fs = []")
  case True
  have pos: "0 < LINELEN" by (simp add: LINELEN_def)
  from True show ?thesis
    using assms(1) fits_none [OF assms(1)] array_of_zero [OF pos] pos
    by (simp add: body_lines_def yields_def body_of_def)
next
  case False
  let ?b = "join (str ''&'') fs"
  let ?l1 = "str ''Content-Length: '' @ dec (length ?b)" and ?l2 = "str ''Content-Type: '' @ ctype"
  have nul: "0 \<notin> set ?l1" "0 \<notin> set ?l2"
    using assms(3) dec_digits [of "length ?b"] digit_not_special by (auto simp: str_def)
  have "array_of LINELEN [] (replicate LINELEN 0)" by (rule array_of_zero) (simp add: LINELEN_def)
  from cat_fields_yields [OF this assms(4), of True]
  have first: "yields (array_of LINELEN ?b) (length ?b < LINELEN) (cat_fields True (replicate LINELEN 0) fs)" by simp
  have last: "yields (body_of n (s @ lines [?l1, ?l2]) ?b) (fits n s [?l1] \<and> (fits n (s @ lines [?l1]) [?l2] \<and> True))
      (bindE (add_line a line (str ''Content-Length: '' @ dec (length (c_string buf)))) (\<lambda>(message, line).
       bindE (add_line message line ?l2) (\<lambda>(message, line). Inr (message, buf))))"
    if buf: "array_of LINELEN ?b buf" for buf
    unfolding array_of_string [OF buf]
    by (rule yields_bind_line [OF yields_line [OF assms(1,2) nul(1)] yields_bind_line [OF yields_line [OF _ _ nul(2)]]])
      (use buf in \<open>auto simp: yields_def body_of_def\<close>)
  have "yields (body_of n (s @ lines [?l1, ?l2]) ?b)
      (length ?b < LINELEN \<and> (fits n s [?l1] \<and> (fits n (s @ lines [?l1]) [?l2] \<and> True)))
      (bindE (cat_fields True (replicate LINELEN 0) fs) (\<lambda>buf.
       bindE (add_line a line (str ''Content-Length: '' @ dec (length (c_string buf)))) (\<lambda>(message, line).
       bindE (add_line message line ?l2) (\<lambda>(message, line). Inr (message, buf)))))"
    by (rule yields_bind [OF first last])
  then show ?thesis
    using fits_append [of n s "[?l1]" "[?l2]"] False by (simp add: body_lines_def)
qed

text \<open>
  The whole request: the lines with their line ends, if every line is below \<open>LINELEN\<close> and all of
  them below \<open>BUFLEN\<close>.
\<close>

lemma yields_rest:
  assumes a: "array_of n s a"
    and nul: "0 \<notin> set host" "\<forall>cs. cookies = Some cs \<longrightarrow> (\<forall>c \<in> set cs. 0 \<notin> set c)"
      "\<forall>x. auth = Some x \<longrightarrow> 0 \<notin> set x" "0 \<notin> set ctype" "\<forall>f \<in> set fs. 0 \<notin> set f"
  shows "yields (array_of n (s @ lines (rest_lines host cookies auth ctype fs)))
    (fits n s (rest_lines host cookies auth ctype fs)) (compute_rest_request host cookies auth a ctype fs)"
proof -
  let ?b = "join (str ''&'') fs" and ?h = "str ''Host: '' @ host"
  let ?c = "cookie_lines cookies" and ?u = "auth_lines auth" and ?d = "body_lines ctype fs"
  let ?s1 = "s @ lines [?h]"
  let ?s2 = "?s1 @ lines ?c"
  let ?s3 = "?s2 @ lines ?u"
  let ?s4 = "?s3 @ lines ?d"
  have h: "0 \<notin> set ?h" using nul(1) by (simp add: str_def)
  have b: "0 \<notin> set ?b" by (rule join_no_nul) (use nul(5) in \<open>auto simp: str_def\<close>)
  have len: "length (replicate LINELEN (0::byte)) = LINELEN" by simp
  note end1 = yields_message [where t = "[]"]
  note end2 = yields_message [where t = ?b]
  have tail: "yields (array_of n (((?s4 @ [] @ CRLF) @ ?b @ CRLF)))
      (length (?s4 @ [] @ CRLF) < n \<and> length ((?s4 @ [] @ CRLF) @ ?b @ CRLF) < n)
      (case p of (message, buf) \<Rightarrow> bindE (compute_message message []) (\<lambda>message. compute_message message (c_string buf)))"
    if "body_of n ?s4 ?b p" for p
  proof -
    obtain m buf where p: "p = (m, buf)" by (cases p)
    with that have m: "array_of n ?s4 m" "array_of LINELEN ?b buf" by (simp_all add: body_of_def)
    show ?thesis
      unfolding p prod.case array_of_string [OF m(2)]
      by (rule yields_bind [OF end1 [OF m(1)] end2 [OF _ b]]) simp
  qed
  have "yields (array_of n (((?s4 @ [] @ CRLF) @ ?b @ CRLF)))
      (fits n s [?h] \<and> (fits n ?s1 ?c \<and> (fits n ?s2 ?u \<and> ((length ?b < LINELEN \<and> fits n ?s3 ?d)
        \<and> (length (?s4 @ [] @ CRLF) < n \<and> length ((?s4 @ [] @ CRLF) @ ?b @ CRLF) < n)))))
      (compute_rest_request host cookies auth a ctype fs)"
    unfolding compute_rest_request_def Let_def
    by (rule yields_bind_line [OF yields_line [OF a len h] yields_bind_line [OF yields_cookies [OF _ _ nul(2)]
          yields_bind_line [OF yields_auth [OF _ _ nul(3)] yields_bind [OF yields_body [OF _ _ nul(4,5)] tail]]]])
  then show ?thesis
    by (rule yields_eq) (auto simp: rest_lines_def fits_def LINELEN_def)
qed

text \<open>A whole request starts in an empty array of \<open>BUFLEN\<close> bytes.\<close>

definition no_nul :: "byte list list option \<Rightarrow> bool" where
  "no_nul ss = (case ss of None \<Rightarrow> True | Some ss \<Rightarrow> list_all (\<lambda>s. 0 \<notin> set s) ss)"

definition request_lines ::
  "byte list \<Rightarrow> byte list \<Rightarrow> byte list list option \<Rightarrow> byte list option \<Rightarrow> byte list \<Rightarrow> byte list list \<Rightarrow> byte list list" where
  "request_lines first host cookies auth ctype fs = first # rest_lines host cookies auth ctype fs"

lemma yields_request:
  assumes "0 \<notin> set first" "0 \<notin> set host" "0 \<notin> set ctype" "no_nul cookies" "no_nul (map_option (\<lambda>x. [x]) auth)"
    "no_nul (Some fs)"
  shows "yields (array_of BUFLEN (lines (request_lines first host cookies auth ctype fs)))
    (fits BUFLEN [] (request_lines first host cookies auth ctype fs))
    (bindE (add_line (replicate BUFLEN 0) (replicate LINELEN 0) first) (\<lambda>(message, line).
       compute_rest_request host cookies auth message ctype fs))"
proof -
  have len: "length (replicate LINELEN (0::byte)) = LINELEN" by simp
  have "array_of BUFLEN [] (replicate BUFLEN 0)" by (rule array_of_zero) (simp add: BUFLEN_def)
  note first = yields_line [OF this len assms(1)]
  have "yields (array_of BUFLEN (([] @ lines [first]) @ lines (rest_lines host cookies auth ctype fs)))
      (fits BUFLEN [] [first] \<and> fits BUFLEN ([] @ lines [first]) (rest_lines host cookies auth ctype fs))
      (bindE (add_line (replicate BUFLEN 0) (replicate LINELEN 0) first) (\<lambda>(message, line).
         compute_rest_request host cookies auth message ctype fs))"
    by (rule yields_bind_line [OF first yields_rest [OF _ assms(2) _ _ assms(3)]])
      (use assms in \<open>auto simp: no_nul_def list_all_iff\<close>)
  then show ?thesis
    by (rule yields_eq) (auto simp: request_lines_def fits_def)
qed

end
