(* ===== verification/Http_Props.thy ===== *)
theory Http_Props
  imports Http_Requests
begin

text \<open>The properties of the HTTP layer of the REST client.\<close>

section \<open>Requests\<close>

lemma first_line_no_nul: "0 \<notin> set url \<Longrightarrow> 0 \<notin> set query \<Longrightarrow> 0 \<notin> set (str ''GET '' @ url @ query @ str '' HTTP/1.1'')"
  "0 \<notin> set url \<Longrightarrow> 0 \<notin> set (str ''POST '' @ url @ str '' HTTP/1.1'')"
  "0 \<notin> set url \<Longrightarrow> 0 \<notin> set (str ''DELETE '' @ url @ str '' HTTP/1.1'')"
  by (simp_all add: str_def)

text \<open>
  C26. The three builders of requests write exactly the lines of the request, each with its line
  end, the empty line and the body included, when every line is below \<open>LINELEN\<close> bytes and all of
  them together below \<open>BUFLEN\<close> (\<open>fits\<close>); in every other case one of the fixed arrays
  overflows (\<open>yields\<close>).
\<close>

theorem request_text:
  assumes "0 \<notin> set host" "0 \<notin> set url" "0 \<notin> set ctype" "no_nul cookies"
    "no_nul (map_option (\<lambda>x. [x]) auth)" "no_nul (map_option (\<lambda>x. [x]) query)" "no_nul (Some body)"
    and g: "g = request_lines (str ''GET '' @ url @ (case query of None \<Rightarrow> [] | Some q \<Rightarrow> str ''?'' @ q) @ str '' HTTP/1.1'')
        host cookies auth [] []"
    and p: "p = request_lines (str ''POST '' @ url @ str '' HTTP/1.1'') host cookies auth ctype body"
    and d: "d = request_lines (str ''DELETE '' @ url @ str '' HTTP/1.1'') host cookies auth ctype body"
  shows "yields (array_of BUFLEN (lines g)) (fits BUFLEN [] g) (compute_get_request host url query cookies auth)
    \<and> yields (array_of BUFLEN (lines p)) (fits BUFLEN [] p) (compute_post_request host url ctype body cookies auth)
    \<and> yields (array_of BUFLEN (lines d)) (fits BUFLEN [] d) (compute_del_request host url ctype body cookies auth)"
proof (intro conjI)
  have none: "0 \<notin> set []" "no_nul (Some [])" by (simp_all add: no_nul_def)
  have q: "0 \<notin> set (case query of None \<Rightarrow> [] | Some q \<Rightarrow> str ''?'' @ q)"
    using assms(6) by (cases query) (auto simp: no_nul_def str_def)
  have first: "(case query of Some q \<Rightarrow> str ''GET '' @ url @ str ''?'' @ q @ str '' HTTP/1.1''
      | None \<Rightarrow> str ''GET '' @ url @ str '' HTTP/1.1'')
    = str ''GET '' @ url @ (case query of None \<Rightarrow> [] | Some q \<Rightarrow> str ''?'' @ q) @ str '' HTTP/1.1''"
    by (cases query) auto
  show "yields (array_of BUFLEN (lines g)) (fits BUFLEN [] g) (compute_get_request host url query cookies auth)"
    unfolding compute_get_request_def Let_def g first
    by (rule yields_request [OF first_line_no_nul(1) assms(1) none(1) assms(4,5) none(2)]) (use assms(2) q in auto)
  show "yields (array_of BUFLEN (lines p)) (fits BUFLEN [] p) (compute_post_request host url ctype body cookies auth)"
    unfolding compute_post_request_def Let_def p
    by (rule yields_request [OF first_line_no_nul(2) assms(1,3,4,5,7)]) (use assms(2) in auto)
  show "yields (array_of BUFLEN (lines d)) (fits BUFLEN [] d) (compute_del_request host url ctype body cookies auth)"
    unfolding compute_del_request_def Let_def d
    by (rule yields_request [OF first_line_no_nul(3) assms(1,3,4,5,7)]) (use assms(2) in auto)
qed

theorem request_text_witness:
  "\<exists>a. compute_post_request (str ''h'') (str ''/u'') (str ''t'') [str ''{}''] None (Some (str ''k'')) = Inr a
    \<and> c_string a = str ''POST /u HTTP/1.1'' @ CRLF @ str ''Host: h'' @ CRLF @ str ''Authorization: Bearer k'' @ CRLF
        @ str ''Content-Length: 2'' @ CRLF @ str ''Content-Type: t'' @ CRLF @ CRLF @ str ''{}'' @ CRLF"
proof -
  let ?p = "request_lines (str ''POST '' @ str ''/u'' @ str '' HTTP/1.1'') (str ''h'') None (Some (str ''k'')) (str ''t'') [str ''{}'']"
  have t: "lines ?p = str ''POST /u HTTP/1.1'' @ CRLF @ str ''Host: h'' @ CRLF @ str ''Authorization: Bearer k'' @ CRLF
        @ str ''Content-Length: 2'' @ CRLF @ str ''Content-Type: t'' @ CRLF @ CRLF @ str ''{}'' @ CRLF"
    by (simp add: request_lines_def rest_lines_def cookie_lines_def auth_lines_def body_lines_def str_def dec_less_10)
  have fit: "fits BUFLEN [] ?p"
    unfolding fits_def t
    by (simp add: request_lines_def rest_lines_def cookie_lines_def auth_lines_def body_lines_def str_def dec_less_10
        CRLF_def LINELEN_def BUFLEN_def)
  have "yields (array_of BUFLEN (lines ?p)) (fits BUFLEN [] ?p)
      (compute_post_request (str ''h'') (str ''/u'') (str ''t'') [str ''{}''] None (Some (str ''k'')))"
    using request_text [of "str ''h''" "str ''/u''" "str ''t''" None "Some (str ''k'')" None "[str ''{}'']" _ ?p]
    by (simp add: no_nul_def str_def)
  with fit obtain a where a: "compute_post_request (str ''h'') (str ''/u'') (str ''t'') [str ''{}''] None (Some (str ''k'')) = Inr a"
    "array_of BUFLEN (lines ?p) a" by (auto simp: yields_def)
  from array_of_string [OF a(2)] have "c_string a = lines ?p" .
  with t a(1) show ?thesis by simp
qed

section \<open>Responses\<close>

lemma receive_completed:
  assumes "response_ok msg pre key num mid body" "concat (front @ [b]) = msg @ extra" "\<forall>c \<in> set front. c \<noteq> []"
    "length (concat front) < length msg" "length b \<le> BUFLEN \<or> extra = []" "length (msg @ extra) < 2 ^ 31"
  shows "receive_from_server (map Data (front @ [b]) @ rest) = Inr (msg @ extra @ [0], rest)"
proof -
  let ?segs = "front @ [b]"
  have len: "length [] < length msg - length body" using assms(1) by (auto simp: response_ok_def)
  have "length (concat front) + length b = length msg + length extra" using arg_cong [OF assms(2), of length] by simp
  with assms(4) have ne: "\<forall>c \<in> set ?segs. c \<noteq> []" using assms(3) by auto
  have last: "last_completes (length msg) extra [] ?segs" using assms(4,5) by (simp add: last_completes_def)
  have all: "msg @ extra = [] @ concat ?segs" using assms(2) by simp
  from receive_header_reads [OF assms(1,6) holds_bytes_init ne all len last, of 0 rest]
  obtain buf' d' segs' where r:
    "receive_header buffer_init 0 (map Data ?segs @ rest)
      = Inr ((buf', int (length msg - length body), int (length body)), map Data segs' @ rest)"
    "holds_bytes buf' d'" "\<forall>b \<in> set segs'. b \<noteq> []" "msg @ extra = d' @ concat segs'"
    "last_completes (length msg) extra d' segs'" by auto
  let ?total = "word_of_int (int (length body)) + word_of_int (int (length msg - length body)) :: 64 word"
  have "length body \<le> length msg" "length msg < 2 ^ 31" using assms(1) by (auto simp: response_ok_def)
  then have total: "unat ?total = length msg"
    by (simp add: unat_word_ariths unsigned_of_nat take_bit_nat_eq_self)
  have "unat ?total + length extra = length (d' @ concat segs')"
    unfolding total using arg_cong [OF r(4), of length] by simp
  moreover have "last_completes (unat ?total) extra d' segs'" unfolding total by (rule r(5))
  ultimately obtain buf'' where
    b: "receive_body ?total buf' (map Data segs' @ rest) = Inr (buf'', rest)" "holds_bytes buf'' (msg @ extra)"
    using receive_body_reads [OF r(2,3), of ?total extra rest] r(4) by auto
  from buffer_add_holds [OF b(2), of "[0]"] obtain b3 where
    "buffer_add buf'' [0] = Inr b3" "data b3 = Some ((msg @ extra) @ [0])" by blast
  with r(1) b(1) show ?thesis by (simp add: receive_from_server_def stored_def Let_def)
qed

lemma receive_whole:
  assumes "response_ok msg pre key num mid body" "concat segs = msg" "\<forall>b \<in> set segs. b \<noteq> []"
  shows "receive_from_server (map Data segs @ rest) = Inr (msg @ [0], rest)"
proof -
  have m: "msg \<noteq> []" "length msg < 2 ^ 31" using assms(1) by (auto simp: response_ok_def)
  with assms(2) have "segs \<noteq> []" by auto
  then obtain front b where s: "segs = front @ [b]" by (metis append_butlast_last_id)
  with assms(2,3) have "length (concat front) < length msg" by auto
  then show ?thesis
    using receive_completed [OF assms(1), of front b "[]" rest] assms(2,3) m(2) by (simp add: s)
qed

text \<open>
  C12. A response with a Content-Length and a body of that length is received whole, in one piece
  and with a NUL behind it, however TCP cuts it into segments. When the segment that completes it carries further bytes,
  these are taken for a part of the response; what arrives behind that segment is left alone.
\<close>

theorem receive_reassembles:
  assumes "response_ok msg pre key num mid body" "concat (front @ [b]) = msg @ extra" "\<forall>c \<in> set front. c \<noteq> []"
    and "length (concat front) < length msg" "length b \<le> BUFLEN \<or> extra = []" "length (msg @ extra) < 2 ^ 31"
  shows "receive_from_server (map Data (front @ [b]) @ rest) = Inr (msg @ extra @ [0], rest)"
  using assms by (rule receive_completed)

theorem receive_reassembles_witness:
  "receive_from_server (map Data [str ''HTTP/1.1 200 OK'' @ [13, 10, 67, 111], str ''ntent-length: 2'' @ [13],
      [10, 13], [10, 123], [125, 72, 84]] @ [Data [1]])
    = Inr ((str ''HTTP/1.1 200 OK'' @ [13, 10] @ str ''Content-length: 2'' @ [13, 10, 13, 10, 123, 125]) @ [72, 84, 0], [Data [1]])"
proof -
  have "receive_from_server (map Data ([str ''HTTP/1.1 200 OK'' @ [13, 10, 67, 111], str ''ntent-length: 2'' @ [13],
      [10, 13], [10, 123]] @ [[125, 72, 84]]) @ [Data [1]])
    = Inr ((str ''HTTP/1.1 200 OK'' @ [13, 10] @ str ''Content-length: 2'' @ [13, 10, 13, 10, 123, 125]) @ [72, 84] @ [0], [Data [1]])"
    by (rule receive_reassembles [where pre = "str ''HTTP/1.1 200 OK'' @ [13, 10]" and key = "str ''Content-length: ''"
          and num = "str ''2''" and mid = "[10, 13, 10]" and body = "[123, 125]"])
      (simp_all add: response_ok_def str_def dec_less_10 HEADER_TERMINATOR_def CONTENT_LENGTH_def tolower_def BUFLEN_def)
  then show ?thesis by simp
qed

text \<open>
  When every call of \<open>write\<close> takes at least one byte and together they take the whole
  message, \<open>send_to_server\<close> hands over the bytes of the message, each once and in order.
\<close>

lemma send_loop_sends:
  "\<lbrakk>\<forall>k \<in> set ks. 0 < k; ks \<noteq> []; sum_list ks = int (length m) - int sent; sent \<le> length m\<rbrakk>
   \<Longrightarrow> send_loop m sent (ks @ ws) out = Inr (out @ drop sent m, ws)"
proof (induction ks arbitrary: sent out)
  case (Cons k ks)
  have k: "0 < k" "0 \<le> sum_list ks" using Cons.prems(1) by (auto intro!: sum_list_nonneg intro: less_imp_le)
  show ?case
  proof (cases ks)
    case Nil
    with Cons.prems(3) have "nat k = length m - sent" by simp
    with Nil k Cons.prems(4) show ?thesis by (simp add: Let_def)
  next
    case (Cons k' ks')
    then have "0 < sum_list ks" using Cons.prems(1)
      by (auto simp: add_pos_nonneg intro!: add_pos_nonneg sum_list_nonneg intro: less_imp_le)
    with Cons.prems(3) k have s: "sent + nat k < length m" by simp
    have "send_loop m (sent + nat k) (ks @ ws) (out @ take (nat k) (drop sent m))
        = Inr ((out @ take (nat k) (drop sent m)) @ drop (sent + nat k) m, ws)"
      by (rule Cons.IH) (use Cons Cons.prems s k in auto)
    moreover have "take (nat k) (drop sent m) @ drop (sent + nat k) m = drop sent m"
      by (metis add.commute append_take_drop_id drop_drop)
    ultimately show ?thesis using k s by (simp add: Let_def)
  qed
qed simp

lemma send_takes_message:
  assumes "\<forall>k \<in> set ks. 0 < k" "sum_list ks = int (length (c_string message))" "c_string message \<noteq> []"
  shows "send_to_server message (ks @ ws) = Inr (c_string message, ws)"
proof -
  have "ks \<noteq> []" using assms(2,3) by auto
  with send_loop_sends [OF assms(1) this, of "c_string message" 0 ws "[]"] assms(2) show ?thesis
    by (simp add: send_to_server_def)
qed

end
