(* ===== verification/Rest_Client.thy ===== *)
theory Rest_Client
  imports Http_Requests Json_Props
begin

text \<open>
  \<open>tema3/client.cpp\<close>: the commands of the REST client. A command is a function on the state of
  the program and of its surroundings: what is left to read from \<open>stdin\<close> and from the
  connections, and what was printed and sent.
\<close>

section \<open>State\<close>

text \<open>\<open>struct client\<close>; \<open>None\<close> is a null pointer.\<close>

record client =
  sockfd :: int
  logged_in :: bool
  cookies :: "byte list list option"
  cookies_length :: int
  jwt :: "byte list option"

text \<open>
  The surroundings: \<open>frames\<close> holds what is in the uninitialised arrays of the calls of
  \<open>read_field\<close> to come (zeros when there are no more), \<open>conn\<close> the answers of \<open>read\<close> on the
  current connection, \<open>later\<close> the descriptors and the answers of the connections that
  \<open>open_connection\<close> will get (when there are no more, it fails), \<open>writes\<close> the answers of
  \<open>write\<close>. \<open>sent\<close> has what each \<open>send_to_server\<close> handed over.
\<close>

record world =
  me :: client
  stdin :: "byte list"
  frames :: "byte list list"
  conn :: "answer list"
  later :: "(int \<times> answer list) list"
  writes :: "int list"
  printed :: "byte list"
  sent :: "byte list list"

text \<open>The floating point operations of the JSON library and the usable size of a block of \<open>malloc\<close>.\<close>

record 'f platform = "'f float_ops" +
  usable :: "nat \<Rightarrow> nat"

type_synonym 'a prog = "world \<Rightarrow> (halt + 'a) \<times> world"

definition return :: "'a \<Rightarrow> 'a prog" where
  "return a w = (Inr a, w)"

definition bindM :: "'a prog \<Rightarrow> ('a \<Rightarrow> 'b prog) \<Rightarrow> 'b prog" where
  "bindM m f w = (case m w of (Inl h, w) \<Rightarrow> (Inl h, w) | (Inr a, w) \<Rightarrow> f a w)"

definition get_me :: "client prog" where
  "get_me w = (Inr (me w), w)"

definition set_me :: "(client \<Rightarrow> client) \<Rightarrow> unit prog" where
  "set_me f w = (Inr (), w\<lparr>me := f (me w)\<rparr>)"

definition print :: "byte list \<Rightarrow> unit prog" where
  "print bs w = (Inr (), w\<lparr>printed := printed w @ bs\<rparr>)"

definition println :: "byte list \<Rightarrow> unit prog" where
  "println bs = print (bs @ [10])"

text \<open>Steps without effects, and the steps of the JSON library, whose exceptions nobody catches.\<close>

definition pure_step :: "fault + 'a \<Rightarrow> 'a prog" where
  "pure_step r w = (crash r, w)"

fun uncaught :: "stop + 'a \<Rightarrow> halt + 'a" where
  "uncaught (Inl (Throw e)) = Inl (Uncaught e)"
| "uncaught (Inl (Undefined f)) = Inl (Crash f)"
| "uncaught (Inr a) = Inr a"

definition json_step :: "stop + 'a \<Rightarrow> 'a prog" where
  "json_step r w = (uncaught r, w)"

definition halt_with :: "halt \<Rightarrow> 'a prog" where
  "halt_with h w = (Inl h, w)"

section \<open>Helpers\<close>

definition DATA_FIELD_LENGTH :: nat where "DATA_FIELD_LENGTH = 1000"

definition host :: "byte list" where "host = str ''34.241.4.235:8080''"
definition json_payload :: "byte list" where "json_payload = str ''application/json''"

definition init :: "unit prog" where
  "init w =
     (case later w of
        [] \<Rightarrow> (Inl Exited, w)
      | (fd, rs) # cs \<Rightarrow> (Inr (), w\<lparr>me := (me w)\<lparr>sockfd := fd\<rparr>, conn := rs, later := cs\<rparr>))"

text \<open>Dropping the last character of the string in an array when it is \<open>c\<close>.\<close>

definition trim_char :: "byte \<Rightarrow> byte list \<Rightarrow> fault + byte list" where
  "trim_char c s =
     (case string_of_array s of
        None \<Rightarrow> Inl Array_overread
      | Some t \<Rightarrow> Inr (if length t \<ge> 1 \<and> s ! (length t - 1) = c then s[length t - 1 := 0] else s))"

definition trim :: "byte list \<Rightarrow> fault + byte list" where
  "trim s = bindE (trim_char 10 s) (trim_char 13)"

text \<open>\<open>fgets\<close> into an array, which keeps its content at the end of the stream.\<close>

definition fgets_array :: "byte list \<Rightarrow> byte list prog" where
  "fgets_array dest w =
     (case fgets (length dest) (stdin w) of
        None \<Rightarrow> (Inr dest, w)
      | Some (l, r) \<Rightarrow> (Inr (l @ 0 # drop (length l + 1) dest), w\<lparr>stdin := r\<rparr>))"

definition new_frame :: "byte list prog" where
  "new_frame w =
     (Inr (take DATA_FIELD_LENGTH (concat (take 1 (frames w)) @ replicate DATA_FIELD_LENGTH 0)),
      w\<lparr>frames := drop 1 (frames w)\<rparr>)"

text \<open>The character before the NUL; for an empty string that is before the array.\<close>

definition last_char :: "byte list \<Rightarrow> fault + byte" where
  "last_char dest =
     (case string_of_array dest of
        None \<Rightarrow> Inl Array_overread
      | Some t \<Rightarrow> if t = [] then Inl Array_overread else Inr (last t))"

definition read_field :: "byte list \<Rightarrow> 'f json \<Rightarrow> (bool \<times> 'f json) prog" where
  "read_field name j =
     bindM new_frame (\<lambda>dest.
     bindM (print (name @ str ''='')) (\<lambda>_.
     bindM (fgets_array dest) (\<lambda>dest.
     bindM (pure_step (last_char dest)) (\<lambda>c.
       if c \<noteq> 10 then bindM (println (name @ str '' too long!'')) (\<lambda>_. return (False, j))
       else
         bindM (pure_step (trim dest)) (\<lambda>dest.
         bindM (json_step (assign_key name (String (c_string dest)) j)) (\<lambda>j. return (True, j)))))))"

text \<open>\<open>j[name].get_to\<close> for a string; the member is added when it is missing.\<close>

definition get_field_string :: "byte list \<Rightarrow> 'f json \<Rightarrow> stop + byte list \<times> 'f json" where
  "get_field_string name j =
     bindE (operator_key name j) (\<lambda>j. bindE (get_to_string (member name j)) (\<lambda>s. Inr (s, j)))"

definition get_field_int :: "'f platform \<Rightarrow> byte list \<Rightarrow> 'f json \<Rightarrow> stop + int \<times> 'f json" where
  "get_field_int P name j =
     bindE (operator_key name j) (\<lambda>j. bindE (get_to_int P (member name j)) (\<lambda>i. Inr (i, j)))"

text \<open>\<open>malloc (strlen (s))\<close> and \<open>strcpy\<close>.\<close>

definition strcpy_malloc :: "'f platform \<Rightarrow> byte list \<Rightarrow> fault + byte list" where
  "strcpy_malloc P s =
     (let t = c_string s in if length t + 1 \<le> usable P (length t) then Inr t else Inl Array_overflow)"

definition to_cstring :: "'f platform \<Rightarrow> byte list \<Rightarrow> 'f json \<Rightarrow> byte list prog" where
  "to_cstring P name j =
     bindM (json_step (get_field_string name j)) (\<lambda>(s, _). pure_step (strcpy_malloc P s))"

text \<open>One check of \<open>ask_user\<close>: a message, and the value becomes the number 0.\<close>

definition refuse :: "bool \<Rightarrow> string \<Rightarrow> 'f json \<Rightarrow> 'f json prog" where
  "refuse bad msg j =
     (if bad then bindM (println (str msg)) (\<lambda>_. return json_NULL) else return j)"

definition ask_user :: "'f json prog" where
  "ask_user =
     bindM (read_field (str ''username'') Null) (\<lambda>(ok, j).
       if \<not> ok then return json_NULL
       else
     bindM (read_field (str ''password'') j) (\<lambda>(ok, j).
       if \<not> ok then return json_NULL
       else
     bindM (json_step (get_field_string (str ''username'') j)) (\<lambda>(name, j).
     bindM (json_step (get_field_string (str ''password'') j)) (\<lambda>(pass, j).
     bindM (refuse (32 \<in> set name) ''Error: Name can't contain spaces! Please try again!'' j) (\<lambda>j.
     bindM (refuse (length name = 0) ''Error: Name is empty! Please try again!'' j) (\<lambda>j.
     bindM (refuse (32 \<in> set pass) ''Error: Password can't contain spaces! Please try again!'' j) (\<lambda>j.
       refuse (length pass = 0) ''Error: Password is empty! Please try again!'' j)))))))"

definition deal_with_error_code :: "'f platform \<Rightarrow> byte list \<Rightarrow> unit prog" where
  "deal_with_error_code P response =
     bindM (pure_step (basic_extract_json_response response)) (\<lambda>js.
       case js of
         Some t \<Rightarrow>
           bindM (json_step (parse_c_string P t)) (\<lambda>j.
           bindM (json_step (get_field_string (str ''error'') j)) (\<lambda>(err, _).
             println (str ''Error: '' @ c_string err)))
       | None \<Rightarrow>
           bindM (pure_step (get_response_body response)) (\<lambda>body. println (str ''Error:'' @ body)))"

definition SET_COOKIE :: "byte list" where "SET_COOKIE = str ''Set-Cookie: ''"

definition has_set_cookie :: "byte list \<Rightarrow> bool" where
  "has_set_cookie response \<longleftrightarrow> strstr SET_COOKIE (c_string response) \<noteq> None"

text \<open>
  The cookie goes up to the next semicolon. Without one, \<open>end - p\<close> is negative: \<open>malloc\<close> of that
  size yields NULL, which \<open>strncpy\<close> follows.
\<close>

definition set_cookie :: "'f platform \<Rightarrow> byte list \<Rightarrow> unit prog" where
  "set_cookie P response =
     (case strstr SET_COOKIE (c_string response) of
        None \<Rightarrow> halt_with (Crash Null_deref)
      | Some q \<Rightarrow>
          let p = drop (length SET_COOKIE) q
          in case find_sub (str '';'') p of
               None \<Rightarrow> halt_with (Crash Null_deref)
             | Some n \<Rightarrow>
                 if n < usable P n
                 then set_me (\<lambda>c. c\<lparr>cookies := Some [take n p], cookies_length := 1\<rparr>)
                 else halt_with (Crash Array_overflow))"

section \<open>Sending and receiving\<close>

text \<open>The loop ends with the first response that is not empty; every other round takes a new connection.\<close>

function receive_certain_message :: "byte list \<Rightarrow> byte list prog" where
  "receive_certain_message message w =
     (case send_to_server message (writes w) of
        Inl h \<Rightarrow> (Inl h, w)
      | Inr (taken, ws) \<Rightarrow>
          let w = w\<lparr>writes := ws, sent := sent w @ [taken]\<rparr>
          in case receive_from_server (conn w) of
               Inl h \<Rightarrow> (Inl h, w)
             | Inr (response, rs) \<Rightarrow>
                 let w = w\<lparr>conn := rs\<rparr>
                 in if c_string response = []
                    then (case init w of
                            (Inl h, w) \<Rightarrow> (Inl h, w)
                          | (Inr _, w) \<Rightarrow> receive_certain_message message w)
                    else (Inr response, w))"
  by pat_completeness auto

termination
  by (relation "measure (\<lambda>(message, w). length (later w))") (auto simp: init_def split: list.splits)

declare receive_certain_message.simps [simp del]

definition cookie_args :: "client \<Rightarrow> byte list list option" where
  "cookie_args c = map_option (take (nat (cookies_length c))) (cookies c)"

text \<open>
  What every command does with its message: it prints the code of the response, and goes on with
  the response when the code is below 400.
\<close>

definition exchange :: "'f platform \<Rightarrow> byte list \<Rightarrow> (byte list \<Rightarrow> unit prog) \<Rightarrow> unit prog" where
  "exchange P message success =
     bindM (receive_certain_message message) (\<lambda>response.
     bindM (pure_step (get_response_code response)) (\<lambda>response_code.
     bindM (println (str ''Response Code: '' @ dec_int response_code)) (\<lambda>_.
       if response_code \<ge> 400 then deal_with_error_code P response else success response)))"

text \<open>\<open>malloc (strlen (u.dump ()))\<close> and \<open>strcpy\<close>.\<close>

definition dump_data :: "'f platform \<Rightarrow> 'f json \<Rightarrow> byte list prog" where
  "dump_data P j = bindM (json_step (dump_default P j)) (\<lambda>t. pure_step (strcpy_malloc P t))"

text \<open>\<open>json::parse\<close> on the pointer \<open>basic_extract_json_response\<close> returns, which can be NULL.\<close>

definition parse_response :: "'f platform \<Rightarrow> byte list \<Rightarrow> 'f json prog" where
  "parse_response P response =
     bindM (pure_step (basic_extract_json_response response)) (\<lambda>js.
       case js of
         None \<Rightarrow> halt_with (Crash Null_deref)
       | Some t \<Rightarrow> json_step (parse_c_string P t))"

section \<open>The commands\<close>

definition register_client :: "'f platform \<Rightarrow> unit prog" where
  "register_client P =
     bindM (ask_user :: 'f json prog) (\<lambda>u.
       if json_eq P u json_NULL then return ()
       else
     bindM (dump_data P u) (\<lambda>data.
     bindM get_me (\<lambda>c.
     bindM (pure_step (compute_post_request host (str ''/api/v1/tema/auth/register'') json_payload [data]
              (cookie_args c) (jwt c))) (\<lambda>message.
       exchange P message (\<lambda>response. println (str ''User created successfuly!''))))))"

definition login :: "'f platform \<Rightarrow> unit prog" where
  "login P =
     bindM get_me (\<lambda>c.
       if logged_in c then println (str ''You are already logged in! Perform a logout!'')
       else
     bindM (ask_user :: 'f json prog) (\<lambda>u.
       if json_eq P u json_NULL then return ()
       else
     bindM (dump_data P u) (\<lambda>data.
     bindM get_me (\<lambda>c.
     bindM (pure_step (compute_post_request host (str ''/api/v1/tema/auth/login'') json_payload [data]
              (cookie_args c) (jwt c))) (\<lambda>message.
       exchange P message (\<lambda>response.
         if has_set_cookie response then
           bindM (set_cookie P response) (\<lambda>_.
           bindM (println (str ''Successfully logged in!'')) (\<lambda>_. set_me (\<lambda>c. c\<lparr>logged_in := True\<rparr>)))
         else println (str ''Failed logging in!'')))))))"

definition verify_library :: "bool prog" where
  "verify_library =
     bindM get_me (\<lambda>c.
       if \<not> logged_in c then bindM (println (str ''You aren't logged in!'')) (\<lambda>_. return False)
       else if jwt c = None
       then bindM (println (str ''You don't have access to the library!'')) (\<lambda>_. return False)
       else return True)"

definition enter_library :: "'f platform \<Rightarrow> unit prog" where
  "enter_library P =
     bindM get_me (\<lambda>c.
       if \<not> logged_in c then println (str ''You aren't logged in!'')
       else if jwt c \<noteq> None then println (str ''You already have access to the library!'')
       else
     bindM (pure_step (compute_get_request host (str ''/api/v1/tema/library/access'') None
              (cookie_args c) (jwt c))) (\<lambda>message.
       exchange P message (\<lambda>response.
         bindM (parse_response P response) (\<lambda>j.
         bindM (to_cstring P (str ''token'') j) (\<lambda>token.
         bindM (set_me (\<lambda>c. c\<lparr>jwt := Some token\<rparr>)) (\<lambda>_.
           println (str ''Successfully accessed library!'')))))))"

text \<open>The loop over the elements of the list of books, at the indices that are left.\<close>

fun print_books :: "'f platform \<Rightarrow> 'f json \<Rightarrow> nat list \<Rightarrow> unit prog" where
  "print_books P j [] = return ()"
| "print_books P j (i # is) =
     bindM (json_step (at_index i j)) (\<lambda>elem.
     bindM (json_step (get_field_string (str ''title'') elem)) (\<lambda>(name, elem).
     bindM (json_step (get_field_int P (str ''id'') elem)) (\<lambda>(book, _).
     bindM (println (str ''ID: '' @ dec_int book @ str '' with title: '' @ c_string name)) (\<lambda>_.
       print_books P j is))))"

definition get_books :: "'f platform \<Rightarrow> unit prog" where
  "get_books P =
     bindM verify_library (\<lambda>ok.
       if \<not> ok then return ()
       else
     bindM get_me (\<lambda>c.
     bindM (pure_step (compute_get_request host (str ''/api/v1/tema/library/books'') None
              (cookie_args c) (jwt c))) (\<lambda>message.
       exchange P message (\<lambda>response.
         bindM (println (str ''List of books:'')) (\<lambda>_.
         bindM (parse_response P response) (\<lambda>j.
         bindM (print_books P j [0..<json_size j]) (\<lambda>_. println [])))))))"

text \<open>\<open>char\<close> is signed: a byte above 127 is below \<open>'0'\<close>.\<close>

definition get_int_field :: "byte list \<Rightarrow> 'f json \<Rightarrow> (int \<times> 'f json) prog" where
  "get_int_field name j =
     bindM (json_step (get_field_string name j)) (\<lambda>(s, j).
       if list_ex (\<lambda>k. sint k < 48 \<or> sint k > 57) s
       then bindM (println (name @ str '' must have only digits! Not sending!'')) (\<lambda>_. return (-1, j))
       else
     bindM (json_step (assign_key name (Number_integer (word_of_int (atoi s))) j)) (\<lambda>j.
     bindM (if atoi s < 0 then println (name @ str '' has to fit in int! Try < 10^9!'') else return ()) (\<lambda>_.
       if length s = 0 then
         bindM (json_step (assign_key name (Number_integer (word_of_int (-1))) j)) (\<lambda>j.
         bindM (println (name @ str '' is empty!'')) (\<lambda>_. return (-1, j)))
       else return (atoi s, j))))"

definition ask_book_id :: "'f json prog" where
  "ask_book_id =
     bindM (read_field (str ''id'') Null) (\<lambda>(_, j).
     bindM (get_int_field (str ''id'') j) (\<lambda>(i, j).
       if i < 0 then return json_NULL else return j))"

text \<open>\<open>sprintf\<close> into a block of \<open>DATA_FIELD_LENGTH\<close> bytes, whose content is not known.\<close>

definition book_url :: "int \<Rightarrow> fault + byte list" where
  "book_url book =
     bindE (sprintf (replicate DATA_FIELD_LENGTH 0) (str ''/api/v1/tema/library/books/'' @ dec_int book))
       (\<lambda>url. Inr (c_string url))"

definition get_book :: "'f platform \<Rightarrow> unit prog" where
  "get_book P =
     bindM verify_library (\<lambda>ok.
       if \<not> ok then return ()
       else
     bindM (ask_book_id :: 'f json prog) (\<lambda>j.
       if json_eq P j json_NULL then return ()
       else
     bindM (json_step (get_field_int P (str ''id'') j)) (\<lambda>(book, j).
     bindM (pure_step (book_url book)) (\<lambda>url.
     bindM get_me (\<lambda>c.
     bindM (pure_step (compute_get_request host url None (cookie_args c) (jwt c))) (\<lambda>message.
       exchange P message (\<lambda>response.
         bindM (parse_response P response) (\<lambda>j.
         bindM (json_step (at_index 0 j)) (\<lambda>e.
         bindM (json_step (get_field_string (str ''title'') e)) (\<lambda>(title, e).
         bindM (json_step (get_field_string (str ''author'') e)) (\<lambda>(author, e).
         bindM (json_step (get_field_string (str ''genre'') e)) (\<lambda>(genre, e).
         bindM (json_step (get_field_string (str ''publisher'') e)) (\<lambda>(publisher, e).
         bindM (json_step (get_field_int P (str ''page_count'') e)) (\<lambda>(page_count, e).
           println (str ''Book '' @ c_string title @ str '' by '' @ c_string author @ str '', genre ''
             @ c_string genre @ str '', publisher '' @ c_string publisher @ str '', page count ''
             @ dec_int page_count)))))))))))))))"

definition ask_add_book :: "'f json prog" where
  "ask_add_book =
     bindM (read_field (str ''title'') Null) (\<lambda>(ok, j). if \<not> ok then return json_NULL else
     bindM (read_field (str ''author'') j) (\<lambda>(ok, j). if \<not> ok then return json_NULL else
     bindM (read_field (str ''genre'') j) (\<lambda>(ok, j). if \<not> ok then return json_NULL else
     bindM (read_field (str ''publisher'') j) (\<lambda>(ok, j). if \<not> ok then return json_NULL else
     bindM (read_field (str ''page_count'') j) (\<lambda>(ok, j). if \<not> ok then return json_NULL else
     bindM (get_int_field (str ''page_count'') j) (\<lambda>(i, j).
     bindM (json_step (assign_key (str ''page_count'') (Number_integer (word_of_int i)) j)) (\<lambda>j.
       if i < 0 then return json_NULL else return j)))))))"

definition add_book :: "'f platform \<Rightarrow> unit prog" where
  "add_book P =
     bindM verify_library (\<lambda>ok.
       if \<not> ok then return ()
       else
     bindM (ask_add_book :: 'f json prog) (\<lambda>j.
       if json_eq P j json_NULL then return ()
       else
     bindM (dump_data P j) (\<lambda>data.
     bindM get_me (\<lambda>c.
     bindM (pure_step (compute_post_request host (str ''/api/v1/tema/library/books'') json_payload [data]
              (cookie_args c) (jwt c))) (\<lambda>message.
       exchange P message (\<lambda>response. println (str ''Successfully added book!'')))))))"

definition delete_book :: "'f platform \<Rightarrow> unit prog" where
  "delete_book P =
     bindM verify_library (\<lambda>ok.
       if \<not> ok then return ()
       else
     bindM (ask_book_id :: 'f json prog) (\<lambda>j.
       if json_eq P j json_NULL then return ()
       else
     bindM (json_step (get_field_int P (str ''id'') j)) (\<lambda>(book, j).
     bindM (pure_step (book_url book)) (\<lambda>url.
     bindM (dump_data P j) (\<lambda>data.
     bindM get_me (\<lambda>c.
     bindM (pure_step (compute_del_request host url json_payload [data] (cookie_args c) (jwt c))) (\<lambda>message.
       exchange P message (\<lambda>response. println (str ''Successfully deleted book!'')))))))))"

definition logout :: "'f platform \<Rightarrow> unit prog" where
  "logout P =
     bindM get_me (\<lambda>c.
       if \<not> logged_in c then println (str ''Log in you must, in order to log out!'')
       else
     bindM (pure_step (compute_get_request host (str ''/api/v1/tema/auth/logout'') None
              (cookie_args c) (jwt c))) (\<lambda>message.
       exchange P message (\<lambda>response.
         bindM (set_me (\<lambda>c. c\<lparr>jwt := None, cookies_length := 0, cookies := None, logged_in := False\<rparr>)) (\<lambda>_.
           println (str ''Logged out successfully!'')))))"

definition client_exit :: "unit prog" where
  "client_exit =
     bindM (set_me (\<lambda>c. (if cookies c \<noteq> None then c\<lparr>cookies := None, cookies_length := 0\<rparr> else c)\<lparr>jwt := None\<rparr>))
       (\<lambda>_. halt_with Exited)"

section \<open>The program\<close>

definition run_command :: "'f platform \<Rightarrow> byte list \<Rightarrow> unit prog" where
  "run_command P command =
     (if command = str ''register'' then register_client P
      else if command = str ''login'' then login P
      else if command = str ''enter_library'' then enter_library P
      else if command = str ''get_books'' then get_books P
      else if command = str ''get_book'' then get_book P
      else if command = str ''add_book'' then add_book P
      else if command = str ''delete_book'' then delete_book P
      else if command = str ''logout'' then logout P
      else if command = str ''exit'' then client_exit
      else return ())"

text \<open>One round of the loop of \<open>main\<close>, on the array \<open>command\<close>.\<close>

definition main_step :: "'f platform \<Rightarrow> byte list \<Rightarrow> byte list prog" where
  "main_step P command =
     bindM (fgets_array command) (\<lambda>command.
     bindM (pure_step (trim command)) (\<lambda>command.
     bindM (run_command P (c_string command)) (\<lambda>_. return command)))"

text \<open>The loop ends only when a round stops the program.\<close>

partial_function (option) main_loop :: "'f platform \<Rightarrow> byte list \<Rightarrow> world \<Rightarrow> (halt \<times> world) option" where
  "main_loop platform command w =
     (case main_step platform command w of
        (Inl h, w) \<Rightarrow> Some (h, w)
      | (Inr command, w) \<Rightarrow> main_loop platform command w)"

definition new_client :: client where
  "new_client = \<lparr>sockfd = 0, logged_in = False, cookies = None, cookies_length = 0, jwt = None\<rparr>"

text \<open>\<open>main\<close>, with what is in the uninitialised array \<open>command\<close>.\<close>

definition client_main :: "'f platform \<Rightarrow> byte list \<Rightarrow> world \<Rightarrow> (halt \<times> world) option" where
  "client_main P command w =
     (case init (w\<lparr>me := new_client\<rparr>) of
        (Inl h, w) \<Rightarrow> Some (h, w)
      | (Inr _, w) \<Rightarrow> main_loop P (take 505 (command @ replicate 505 0)) w)"

end
