(* ===== verification/Rest_Facts.thy ===== *)
theory Rest_Facts
  imports Rest_Client Http_Props
begin

text \<open>
  Rules for the programs of the REST client: what a program keeps of the client's record, what it
  sends, and how it runs on concrete input.
\<close>

named_theorems keeps \<open>programs that keep a predicate of the client\<close>

section \<open>Programs that keep a predicate\<close>

text \<open>A run that goes on keeps the predicate \<open>I\<close> of the client's record.\<close>

definition keeps_client :: "(client \<Rightarrow> bool) \<Rightarrow> 'a prog \<Rightarrow> bool" where
  "keeps_client I m \<longleftrightarrow> (\<forall>w a w'. I (me w) \<longrightarrow> m w = (Inr a, w') \<longrightarrow> I (me w'))"

definition ignores_socket :: "(client \<Rightarrow> bool) \<Rightarrow> bool" where
  "ignores_socket I \<longleftrightarrow> (\<forall>c n. I (c\<lparr>sockfd := n\<rparr>) = I c)"

lemma bindM_Inr_iff: "bindM m f w = (Inr b, w'') \<longleftrightarrow> (\<exists>a w'. m w = (Inr a, w') \<and> f a w' = (Inr b, w''))"
  by (auto simp: bindM_def split: prod.splits sum.splits)

lemma keeps_bind [keeps]:
  "keeps_client I m \<Longrightarrow> (\<And>a. keeps_client I (f a)) \<Longrightarrow> keeps_client I (bindM m f)"
  unfolding keeps_client_def bindM_Inr_iff by blast

lemma keeps_if [keeps]:
  "(b \<Longrightarrow> keeps_client I m) \<Longrightarrow> (\<not> b \<Longrightarrow> keeps_client I n) \<Longrightarrow> keeps_client I (if b then m else n)"
  by simp

lemma keeps_option [keeps]:
  "(x = None \<Longrightarrow> keeps_client I m) \<Longrightarrow> (\<And>y. x = Some y \<Longrightarrow> keeps_client I (f y))
    \<Longrightarrow> keeps_client I (case x of None \<Rightarrow> m | Some y \<Rightarrow> f y)"
  by (cases x) auto

lemma keeps_pair [keeps]: "(\<And>x y. keeps_client I (f x y)) \<Longrightarrow> keeps_client I (case p of (x, y) \<Rightarrow> f x y)"
  by (cases p) auto

lemma keeps_basic [keeps]:
  "keeps_client I (return a)" "keeps_client I get_me" "keeps_client I (print bs)" "keeps_client I (println bs)"
  "keeps_client I (pure_step r)" "keeps_client I (json_step r')" "keeps_client I (halt_with h)"
  "keeps_client I new_frame" "keeps_client I (fgets_array dest)"
  by (auto simp: keeps_client_def return_def get_me_def print_def println_def pure_step_def json_step_def
      halt_with_def new_frame_def fgets_array_def split: option.splits)

lemma keeps_read_field [keeps]: "keeps_client I (read_field name j)"
  unfolding read_field_def by (intro keeps)

lemma keeps_refuse [keeps]: "keeps_client I (refuse b m j)"
  unfolding refuse_def by (intro keeps)

lemma keeps_ask_user [keeps]: "keeps_client I ask_user"
  unfolding ask_user_def by (intro keeps)

lemma keeps_get_int_field [keeps]: "keeps_client I (get_int_field name j)"
  unfolding get_int_field_def by (intro keeps)

lemma keeps_ask_book_id [keeps]: "keeps_client I ask_book_id"
  unfolding ask_book_id_def by (intro keeps)

lemma keeps_ask_add_book [keeps]: "keeps_client I ask_add_book"
  unfolding ask_add_book_def by (intro keeps)

lemma keeps_deal_with_error_code [keeps]: "keeps_client I (deal_with_error_code P response)"
  unfolding deal_with_error_code_def by (intro keeps)

lemma keeps_data [keeps]:
  "keeps_client I (to_cstring P name j)" "keeps_client I (dump_data P j)" "keeps_client I (parse_response P r)"
  unfolding to_cstring_def dump_data_def parse_response_def by (intro keeps)+

lemma keeps_print_books [keeps]: "keeps_client I (print_books P j is)"
  by (induction "is") (simp_all, (intro keeps)+)

lemma keeps_verify_library [keeps]: "keeps_client I verify_library"
  unfolding verify_library_def by (intro keeps)

lemma keeps_receive [keeps]: "ignores_socket I \<Longrightarrow> keeps_client I (receive_certain_message message)"
proof -
  assume I: "ignores_socket I"
  have "I (me w) \<longrightarrow> receive_certain_message message w = (Inr a, w') \<longrightarrow> I (me w')" for a w' w
  proof (induction message w rule: receive_certain_message.induct)
    case (1 message w)
    show ?case
      using 1 I
      by (subst receive_certain_message.simps)
        (auto simp: init_def ignores_socket_def Let_def split: sum.splits list.splits if_splits)
  qed
  then show ?thesis by (auto simp: keeps_client_def)
qed

lemma keeps_exchange [keeps]:
  "ignores_socket I \<Longrightarrow> (\<And>r. keeps_client I (success r)) \<Longrightarrow> keeps_client I (exchange P message success)"
  unfolding exchange_def by (intro keeps)

section \<open>The client's record\<close>

text \<open>
  Logged in means having a cookie, access to the library needs a login, the number of cookies is
  the length of their array, and the texts are C strings.
\<close>

definition client_ok :: "client \<Rightarrow> bool" where
  "client_ok c \<longleftrightarrow>
     (logged_in c \<longleftrightarrow> cookies c \<noteq> None) \<and> (jwt c \<noteq> None \<longrightarrow> logged_in c)
     \<and> cookies_length c = (case cookies c of None \<Rightarrow> 0 | Some cs \<Rightarrow> int (length cs))
     \<and> no_nul (cookies c) \<and> no_nul (map_option (\<lambda>t. [t]) (jwt c))"

lemma ignores_socket_ok [keeps]:
  "ignores_socket client_ok" "ignores_socket (\<lambda>c. client_ok c \<and> logged_in c)"
  by (simp_all add: ignores_socket_def client_ok_def)

lemma client_ok_new: "client_ok new_client"
  by (simp add: client_ok_def new_client_def no_nul_def)

lemma c_string_suffix: "0 \<notin> set s \<Longrightarrow> strstr pat s = Some q \<Longrightarrow> 0 \<notin> set q"
  by (auto simp: strstr_def dest: in_set_dropD)

text \<open>\<open>set_cookie\<close> makes the record one that is right as soon as \<open>logged_in\<close> is set.\<close>

lemma set_cookie_ok:
  assumes "client_ok (me w)" "set_cookie P response w = (Inr u, w')"
  shows "client_ok ((me w')\<lparr>logged_in := True\<rparr>)"
proof -
  obtain q n where q: "strstr SET_COOKIE (c_string response) = Some q"
    and w': "w' = w\<lparr>me := (me w)\<lparr>cookies := Some [take n (drop (length SET_COOKIE) q)], cookies_length := 1\<rparr>\<rparr>"
    using assms(2) by (auto simp: set_cookie_def set_me_def halt_with_def Let_def split: option.splits if_splits)
  have "0 \<notin> set q" by (rule c_string_suffix [OF c_string_no_nul q])
  then have "0 \<notin> set (take n (drop (length SET_COOKIE) q))" by (auto dest: in_set_takeD in_set_dropD)
  with assms(1) show ?thesis by (simp add: w' client_ok_def no_nul_def)
qed

lemma keeps_login_success:
  "keeps_client client_ok (bindM (set_cookie P response) (\<lambda>_. bindM (println m) (\<lambda>_. set_me (\<lambda>c. c\<lparr>logged_in := True\<rparr>))))"
  using set_cookie_ok
  by (fastforce simp: keeps_client_def bindM_Inr_iff println_def print_def set_me_def)

lemma to_cstring_no_nul: "to_cstring P name j w = (Inr t, w') \<Longrightarrow> w' = w \<and> 0 \<notin> set t"
proof -
  assume "to_cstring P name j w = (Inr t, w')"
  then obtain s where "strcpy_malloc P s = Inr t" "w' = w"
    by (auto simp: to_cstring_def bindM_Inr_iff json_step_def pure_step_def elim!: uncaught.elims crash.elims)
  then show ?thesis using c_string_no_nul [of s] by (auto simp: strcpy_malloc_def Let_def split: if_splits)
qed

lemma keeps_token:
  "keeps_client (\<lambda>c. client_ok c \<and> logged_in c)
    (bindM (to_cstring P name j) (\<lambda>t. bindM (set_me (\<lambda>c. c\<lparr>jwt := Some t\<rparr>)) (\<lambda>_. println m)))"
  by (auto simp: keeps_client_def bindM_Inr_iff println_def print_def set_me_def client_ok_def no_nul_def
      dest!: to_cstring_no_nul)

lemma keeps_logged_out:
  "keeps_client client_ok
    (set_me (\<lambda>c. c\<lparr>jwt := None, cookies_length := 0, cookies := None, logged_in := False\<rparr>))"
  by (auto simp: keeps_client_def set_me_def client_ok_def no_nul_def)

lemma keeps_when_logged_in:
  "(\<And>c. keeps_client client_ok (m c)) \<Longrightarrow> (\<And>c. keeps_client (\<lambda>c. client_ok c \<and> logged_in c) (n c))
    \<Longrightarrow> keeps_client client_ok (bindM get_me (\<lambda>c. if \<not> logged_in c then m c else n c))"
proof (unfold keeps_client_def, intro allI impI)
  fix w a w'
  assume m: "\<And>c. \<forall>w a w'. client_ok (me w) \<longrightarrow> m c w = (Inr a, w') \<longrightarrow> client_ok (me w')"
    and n: "\<And>c. \<forall>w a w'. client_ok (me w) \<and> logged_in (me w) \<longrightarrow> n c w = (Inr a, w') \<longrightarrow> client_ok (me w') \<and> logged_in (me w')"
    and ok: "client_ok (me w)" and run: "bindM get_me (\<lambda>c. if \<not> logged_in c then m c else n c) w = (Inr a, w')"
  have eq: "(if \<not> logged_in (me w) then m (me w) else n (me w)) w = (Inr a, w')"
    using run by (simp only: bindM_def get_me_def prod.case sum.case)
  show "client_ok (me w')"
  proof (cases "logged_in (me w)")
    case True
    with eq have "n (me w) w = (Inr a, w')" by simp
    with n True ok show ?thesis by blast
  next
    case False
    with eq have "m (me w) w = (Inr a, w')" by simp
    with m ok show ?thesis by blast
  qed
qed

text \<open>Every command keeps the record right.\<close>

lemma keeps_commands:
  "keeps_client client_ok (register_client P)"
  "keeps_client client_ok (login P)"
  "keeps_client client_ok (get_books P)"
  "keeps_client client_ok (get_book P)"
  "keeps_client client_ok (add_book P)"
  "keeps_client client_ok (delete_book P)"
  "keeps_client client_ok (logout P)"
proof -
  show "keeps_client client_ok (register_client P)" unfolding register_client_def by (intro keeps)
  show "keeps_client client_ok (get_books P)" unfolding get_books_def by (intro keeps)
  show "keeps_client client_ok (get_book P)" unfolding get_book_def by (intro keeps)
  show "keeps_client client_ok (add_book P)" unfolding add_book_def by (intro keeps)
  show "keeps_client client_ok (delete_book P)" unfolding delete_book_def by (intro keeps)
  show "keeps_client client_ok (logout P)" unfolding logout_def by (intro keeps keeps_logged_out)
  show "keeps_client client_ok (login P)"
    unfolding login_def
    by (rule keeps_bind, intro keeps, rule keeps_if, intro keeps, rule keeps_bind, intro keeps, rule keeps_if, intro keeps,
      rule keeps_bind, intro keeps, rule keeps_bind, intro keeps, rule keeps_bind, intro keeps, rule keeps_exchange,
      intro keeps, rule keeps_if, rule keeps_login_success, intro keeps)
qed

lemma keeps_enter_library: "keeps_client client_ok (enter_library P)"
  unfolding enter_library_def
  by (rule keeps_when_logged_in) (rule keeps_token keeps)+

lemma exit_stops: "client_exit w = (Inl Exited, snd (client_exit w))"
  by (simp add: client_exit_def bindM_def set_me_def halt_with_def)

lemma keeps_exit: "keeps_client I client_exit"
  by (auto simp: keeps_client_def client_exit_def bindM_def set_me_def halt_with_def)

lemma keeps_main_step: "keeps_client client_ok (main_step P command)"
  unfolding main_step_def run_command_def
  by (intro keeps keeps_commands keeps_enter_library keeps_exit)

section \<open>States the program passes through\<close>

text \<open>Between two rounds of the loop of \<open>main\<close>, with the array \<open>command\<close>.\<close>

inductive client_session :: "'f platform \<Rightarrow> byte list \<Rightarrow> world \<Rightarrow> bool" for P :: "'f platform" where
  start: "init (w\<lparr>me := new_client\<rparr>) = (Inr (), w') \<Longrightarrow> client_session P (take 505 (command @ replicate 505 0)) w'"
| round: "client_session P command w \<Longrightarrow> main_step P command w = (Inr command', w') \<Longrightarrow> client_session P command' w'"

text \<open>A run of the loop that ends, ends with a round from such a state.\<close>

lemma main_loop_stops:
  assumes "main_loop P command w = Some (h, w')"
  shows "client_session P command w \<longrightarrow> (\<exists>command v. client_session P command v \<and> main_step P command v = (Inl h, w'))"
proof -
  have "(\<lambda>Q command w r. Q = P \<longrightarrow> client_session P command w \<longrightarrow>
      (\<exists>command v. client_session P command v \<and> main_step P command v = (Inl (fst r), snd r))) P command w (h, w')"
    by (rule main_loop.raw_induct [OF _ assms]) (auto split: prod.splits sum.splits dest: client_session.round, metis)
  then show ?thesis by simp
qed

section \<open>Reading a line\<close>

text \<open>A line as a user types it: it fits with its line end, and has no NUL and no CR at its end.\<close>

definition typed_line :: "byte list \<Rightarrow> bool" where
  "typed_line l \<longleftrightarrow> 10 \<notin> set l \<and> 0 \<notin> set l \<and> (l = [] \<or> last l \<noteq> 13) \<and> length l + 1 < DATA_FIELD_LENGTH"

lemma trim_line:
  assumes "0 \<notin> set l" "l = [] \<or> last l \<noteq> 13"
  shows "\<exists>pad'. trim (l @ 10 # 0 # pad) = Inr (l @ 0 # pad')"
proof -
  have s: "string_of_array (l @ 10 # 0 # pad) = Some (l @ [10])" "string_of_array (l @ 0 # 0 # pad) = Some l"
    using assms(1) string_of_array_append_nul [of "l @ [10]" pad] string_of_array_append_nul [of l "0 # pad"] by simp_all
  have "trim_char 10 (l @ 10 # 0 # pad) = Inr (l @ 0 # 0 # pad)"
    by (simp add: trim_char_def s nth_append list_update_append)
  moreover have "trim_char 13 (l @ 0 # 0 # pad) = Inr (l @ 0 # 0 # pad)"
    unfolding trim_char_def s(2) option.case
    using assms(2) by (cases l rule: rev_cases) (auto simp: nth_append)
  ultimately show ?thesis by (simp add: trim_def)
qed

lemma length_new_frame: "new_frame w = (r, w') \<Longrightarrow> \<exists>f. r = Inr f \<and> length f = DATA_FIELD_LENGTH"
  by (auto simp: new_frame_def)

lemma read_field_line:
  assumes l: "typed_line l" "stdin w = l @ 10 # rest" and j: "assign_key name (String l) j = Inr j'"
  shows "read_field name j w =
    (Inr (True, j'), w\<lparr>stdin := rest, frames := drop 1 (frames w), printed := printed w @ name @ str ''=''\<rparr>)"
proof -
  have t: "10 \<notin> set l" "0 \<notin> set l" "l = [] \<or> last l \<noteq> 13" "length l + 1 < DATA_FIELD_LENGTH"
    using l(1) by (auto simp: typed_line_def)
  obtain f w1 where f: "new_frame w = (Inr f, w1)" "length f = DATA_FIELD_LENGTH" "w1 = w\<lparr>frames := drop 1 (frames w)\<rparr>"
    by (simp add: new_frame_def)
  define pad where "pad = drop (length l + 2) f"
  have "fgets (length f) (stdin w) = Some (l @ [10], rest)"
    unfolding l(2) f(2) by (rule fgets_line [OF t(1,4)])
  then have g: "fgets_array f v = (Inr (l @ 10 # 0 # pad), v\<lparr>stdin := rest\<rparr>)" if "stdin v = stdin w" for v
    using that by (simp add: fgets_array_def pad_def)
  have c: "last_char (l @ 10 # 0 # pad) = Inr 10"
    using t(2) string_of_array_append_nul [of "l @ [10]" pad] by (simp add: last_char_def)
  from trim_line [OF t(2,3)] obtain pad' where p: "trim (l @ 10 # 0 # pad) = Inr (l @ 0 # pad')" by blast
  have cs: "c_string (l @ 0 # pad') = l" using t(2) by simp
  show ?thesis
    by (simp add: read_field_def bindM_def f(1,3) print_def g pure_step_def c p json_step_def cs j return_def)
qed

text \<open>A longer line is cut, and the value is not changed.\<close>

lemma read_field_long:
  assumes "stdin w = l @ rest" "length l = DATA_FIELD_LENGTH - 1" "10 \<notin> set l" "0 \<notin> set l"
  shows "read_field name j w =
    (Inr (False, j), w\<lparr>stdin := rest, frames := drop 1 (frames w),
       printed := printed w @ name @ str ''='' @ name @ str '' too long!'' @ [10]\<rparr>)"
proof -
  obtain f w1 where f: "new_frame w = (Inr f, w1)" "length f = DATA_FIELD_LENGTH" "w1 = w\<lparr>frames := drop 1 (frames w)\<rparr>"
    by (simp add: new_frame_def)
  have ne: "l \<noteq> []" using assms(2) by (auto simp: DATA_FIELD_LENGTH_def)
  have "length l \<le> length (takeWhile (\<lambda>b. b \<noteq> 10) (l @ rest))"
    using assms(3) by (induction l) auto
  then have "min (Suc (length (takeWhile (\<lambda>b. b \<noteq> 10) (l @ rest)))) (DATA_FIELD_LENGTH - 1) = length l"
    using assms(2) by linarith
  with ne have "fgets (length f) (stdin w) = Some (l, rest)"
    unfolding assms(1) f(2) by (simp add: fgets_def Let_def)
  then have g: "fgets_array f v = (Inr (l @ [0]), v\<lparr>stdin := rest\<rparr>)" if "stdin v = stdin w" for v
    using that assms(2) f(2) by (simp add: fgets_array_def DATA_FIELD_LENGTH_def)
  have "last l \<noteq> 10" using assms(3) ne last_in_set by metis
  then have "\<exists>c. last_char (l @ [0]) = Inr c \<and> c \<noteq> 10"
    using assms(4) ne string_of_array_append_nul [of l "[]"] by (simp add: last_char_def)
  then show ?thesis
    by (auto simp: read_field_def bindM_def f(1,3) print_def println_def g pure_step_def return_def)
qed

end
