(* ===== verification/Rest_Props.thy ===== *)
theory Rest_Props
  imports Rest_Facts
begin

text \<open>The properties of the REST client's commands.\<close>

section \<open>The client's record\<close>

text \<open>
  C29. Whenever the loop of \<open>main\<close> reads a command, the client has a cookie exactly when it is
  logged in, a library token only when it is logged in, the right number of cookies, and all of
  them are C strings.
\<close>

theorem client_record_invariant:
  assumes "client_session P command w"
  shows "client_ok (me w)"
  using assms
proof (induction rule: client_session.induct)
  case (start w w' command)
  with client_ok_new show ?case by (auto simp: init_def client_ok_def split: list.splits prod.splits)
next
  case (round command w command' w')
  with keeps_main_step [of P command] show ?case by (simp add: keeps_client_def)
qed

definition strict_platform :: "int platform" where
  "strict_platform = float_ops.extend whole_floats \<lparr>usable = id\<rparr>"

text \<open>The blocks of the GNU allocator on 64 bits: multiples of 16 bytes, of which 8 are its own, and at least 24 usable.\<close>

definition glibc_platform :: "int platform" where
  "glibc_platform = float_ops.extend whole_floats \<lparr>usable = (\<lambda>n. max 24 ((n + 23) div 16 * 16 - 8))\<rparr>"

definition idle_world :: world where
  "idle_world = \<lparr>me = new_client, stdin = [], frames = [], conn = [], later = [(3, [])], writes = [], printed = [], sent = []\<rparr>"

theorem client_record_invariant_witness:
  "client_ok (me (snd (init idle_world)))"
proof -
  have "init (idle_world\<lparr>me := new_client\<rparr>) = (Inr (), snd (init idle_world))"
    by (simp add: init_def idle_world_def)
  from client_record_invariant [OF client_session.start [OF this, of strict_platform "[]"]] show ?thesis .
qed

section \<open>Input\<close>

lemma idle_round:
  assumes "stdin w = []" "string_of_array command = Some s" "s = [] \<or> last s \<noteq> 10 \<and> last s \<noteq> 13"
    "s \<notin> str ` {''register'', ''login'', ''enter_library'', ''get_books'', ''get_book'', ''add_book'',
       ''delete_book'', ''logout'', ''exit''}"
  shows "main_step P command w = (Inr command, w)"
proof -
  have s: "c_string command = s" "length s < length command" "0 \<in> set command"
    using assms(2) length_c_string_less [of command] by (auto simp: string_of_array_def split: if_splits)
  have "command ! (length s - 1) = last s" if "s \<noteq> []"
  proof -
    have "s = take (length s) command"
      using s(1) by (metis c_string_def takeWhile_eq_take)
    with that s(2) show ?thesis by (metis diff_less last_conv_nth length_greater_0_conv nth_take zero_less_one)
  qed
  then have "trim command = Inr command"
    using assms(2,3) by (auto simp: trim_def trim_char_def Suc_le_eq)
  moreover have "fgets_array command w = (Inr command, w)" by (simp add: fgets_array_def fgets_def assms(1))
  ultimately show ?thesis
    using assms(4) by (simp add: main_step_def bindM_def pure_step_def s(1) run_command_def return_def)
qed

text \<open>
  C39. At the end of \<open>stdin\<close> the loop of \<open>main\<close> never ends when the last line was no command: it
  keeps trimming and comparing the same text.
\<close>

theorem end_of_input_spins:
  assumes "stdin w = []" "string_of_array command = Some s" "s = [] \<or> last s \<noteq> 10 \<and> last s \<noteq> 13"
    "s \<notin> str ` {''register'', ''login'', ''enter_library'', ''get_books'', ''get_book'', ''add_book'',
       ''delete_book'', ''logout'', ''exit''}"
  shows "main_loop P command w = None"
proof (rule ccontr)
  assume "main_loop P command w \<noteq> None"
  then obtain r where r: "main_loop P command w = Some r" by blast
  have step: "main_step P command w = (Inr command, w)" by (rule idle_round [OF assms])
  have "(\<lambda>Q c v r. Q = P \<longrightarrow> c = command \<longrightarrow> v = w \<longrightarrow> False) P command w r"
    by (rule main_loop.raw_induct [where P = "\<lambda>Q c v r. Q = P \<longrightarrow> c = command \<longrightarrow> v = w \<longrightarrow> False", OF _ r])
      (auto simp: step, blast)
  then show False by simp
qed

theorem end_of_input_spins_witness:
  "main_loop strict_platform [104, 105, 0] idle_world = None"
  by (rule end_of_input_spins [where s = "[104, 105]"]) (simp_all add: idle_world_def string_of_array_def c_string_def str_def)

definition may_use_library :: "client \<Rightarrow> bool" where
  "may_use_library c \<longleftrightarrow> logged_in c \<and> jwt c \<noteq> None"

lemma verify_library_ok: "may_use_library (me w) \<Longrightarrow> verify_library w = (Inr True, w)"
  by (auto simp: verify_library_def bindM_def get_me_def may_use_library_def return_def)

text \<open>
  C40. An id that does not fit into the array ends the client: \<open>ask_book_id\<close> does not look at what
  \<open>read_field\<close> returned, so the id is null and \<open>get_to\<close> throws \<open>type_error.302\<close>, which nobody
  catches.
\<close>

theorem long_id_uncaught:
  fixes P :: "'f platform"
  assumes "may_use_library (me w)" "stdin w = l @ rest" "length l = 999" "10 \<notin> set l" "0 \<notin> set l"
    "c \<in> {get_book P, delete_book P}"
  shows "\<exists>msg w'. c w = (Inl (Uncaught (Type_error 302 msg)), w') \<and> sent w' = sent w"
proof -
  have len: "length l = DATA_FIELD_LENGTH - 1" using assms(3) by (simp add: DATA_FIELD_LENGTH_def)
  define w' where "w' = w\<lparr>stdin := rest, frames := drop 1 (frames w),
    printed := printed w @ str ''id'' @ str ''='' @ str ''id'' @ str '' too long!'' @ [10]\<rparr>"
  have r: "read_field (str ''id'') (Null :: 'f json) w = (Inr (False, Null), w')"
    unfolding w'_def by (rule read_field_long [OF assms(2) len assms(4,5)])
  have "get_int_field (str ''id'') (Null :: 'f json) w' =
      (Inl (Uncaught (type_error_create 302 (str ''type must be string, but is '' @ str ''null''))), w')"
    by (simp add: get_int_field_def bindM_def json_step_def get_field_string_def operator_key_def get_to_string_def)
  then have "ask_book_id w =
      (Inl (Uncaught (type_error_create 302 (str ''type must be string, but is '' @ str ''null''))) :: halt + 'f json, w')"
    by (simp add: ask_book_id_def bindM_def r)
  moreover have "sent w' = sent w" by (simp add: w'_def)
  ultimately show ?thesis
    using assms(6) verify_library_ok [OF assms(1)]
    by (auto simp: get_book_def delete_book_def bindM_def type_error_create_def)
qed

definition reader_world :: "byte list \<Rightarrow> world" where
  "reader_world input = idle_world\<lparr>me := \<lparr>sockfd = 3, logged_in = True, cookies = Some [str ''s=1''],
     cookies_length = 1, jwt = Some (str ''k'')\<rparr>, stdin := input\<rparr>"

theorem long_id_uncaught_witness:
  "\<exists>msg w'. get_book strict_platform (reader_world (replicate 999 49 @ [10]))
     = (Inl (Uncaught (Type_error 302 msg)), w') \<and> sent w' = []"
  using long_id_uncaught [of "reader_world (replicate 999 49 @ [10])" "replicate 999 49" "[10]" "get_book strict_platform"
      strict_platform]
  by (simp add: reader_world_def idle_world_def may_use_library_def)

lemma read_field_result:
  assumes "read_field name j w = (Inr (ok, j'), w')"
  shows "if ok then \<exists>s. assign_key name (String s) j = Inr j' else j' = j"
  using assms
  by (auto simp: read_field_def bindM_Inr_iff return_def json_step_def pure_step_def split: if_splits
      elim!: uncaught.elims)

definition book :: "byte list \<Rightarrow> byte list \<Rightarrow> 'f json \<Rightarrow> byte list \<Rightarrow> byte list \<Rightarrow> 'f json" where
  "book a g n p t = Object [(str ''author'', String a), (str ''genre'', String g), (str ''page_count'', n),
     (str ''publisher'', String p), (str ''title'', String t)]"

lemma book_page_count:
  "operator_key (str ''page_count'') (book a g n p t) = Inr (book a g n p t)"
  "member (str ''page_count'') (book a g n p t) = n"
  "assign_key (str ''page_count'') n' (book a g n p t) = Inr (book a g n' p t)"
  by (simp_all add: book_def assign_key_def operator_key_def str_def)

lemma book_fields:
  assumes "assign_key (str ''title'') (String t) Null = Inr j1" "assign_key (str ''author'') (String a) j1 = Inr j2"
    "assign_key (str ''genre'') (String g) j2 = Inr j3" "assign_key (str ''publisher'') (String p) j3 = Inr j4"
    "assign_key (str ''page_count'') (String n) j4 = Inr j5"
  shows "j5 = book a g (String n) p t"
proof -
  have "j1 = Object [(str ''title'', String t)]"
    using assms(1) by (simp add: assign_key_def operator_key_def)
  with assms(2) have "j2 = Object [(str ''author'', String a), (str ''title'', String t)]"
    by (simp add: assign_key_def operator_key_def str_def)
  with assms(3) have "j3 = Object [(str ''author'', String a), (str ''genre'', String g), (str ''title'', String t)]"
    by (simp add: assign_key_def operator_key_def str_def)
  with assms(4) have "j4 = Object [(str ''author'', String a), (str ''genre'', String g), (str ''publisher'', String p),
      (str ''title'', String t)]"
    by (simp add: assign_key_def operator_key_def str_def)
  with assms(5) show ?thesis
    by (simp add: assign_key_def operator_key_def str_def book_def)
qed

lemma atoi_bounds: "- (2 ^ 31) \<le> atoi s \<and> atoi s < 2 ^ 31"
  using sint_ge [of "word_of_int (strtol10 s) :: u32"] sint_lt [of "word_of_int (strtol10 s) :: u32"]
  by (simp add: atoi_def)

lemma get_int_field_book:
  assumes "get_int_field (str ''page_count'') (book a g (String s) p t) w = (Inr (i, j), w')"
  shows "\<exists>n. j = book a g n p t \<and> (i = -1 \<or> i = atoi s)"
  using assms
  by (auto simp: get_int_field_def bindM_Inr_iff json_step_def get_field_string_def book_page_count get_to_string_def
      return_def split: if_splits)

text \<open>
  C36. What \<open>ask_add_book\<close> returns is the number 0 or an object with the five members of a book, of
  which \<open>page_count\<close> is a non-negative \<open>int\<close> and the others are strings.
\<close>

theorem ask_add_book_type:
  assumes "ask_add_book w = (Inr j, w')"
  shows "j = json_NULL \<or>
    (\<exists>a g n p t. j = Object [(str ''author'', String a), (str ''genre'', String g), (str ''page_count'', Number_integer n),
       (str ''publisher'', String p), (str ''title'', String t)] \<and> 0 \<le> sint n \<and> sint n < 2 ^ 31)"
proof (cases "j = json_NULL")
  case False
  with assms obtain j1 j2 j3 j4 j5 j6 i w1 w2 where
    "\<exists>s. assign_key (str ''title'') (String s) Null = Inr j1" "\<exists>s. assign_key (str ''author'') (String s) j1 = Inr j2"
    "\<exists>s. assign_key (str ''genre'') (String s) j2 = Inr j3" "\<exists>s. assign_key (str ''publisher'') (String s) j3 = Inr j4"
    "\<exists>s. assign_key (str ''page_count'') (String s) j4 = Inr j5"
    and i: "get_int_field (str ''page_count'') j5 w1 = (Inr (i, j6), w2)" "0 \<le> i"
      "assign_key (str ''page_count'') (Number_integer (word_of_int i)) j6 = Inr j"
    by (auto simp: ask_add_book_def bindM_Inr_iff return_def json_step_def split: if_splits
        elim!: uncaught.elims dest!: read_field_result)
  then obtain a g s p t where b: "j5 = book a g (String s) p t" using book_fields by metis
  from get_int_field_book [OF i(1) [unfolded b]] obtain n where n: "j6 = book a g n p t" "i = -1 \<or> i = atoi s" by blast
  have "j = book a g (Number_integer (word_of_int i)) p t" using i(3) by (simp add: n book_page_count)
  moreover have "sint (word_of_int i :: 64 word) = i"
    by (rule sint_64) (use n(2) i(2) atoi_bounds [of s] in auto)
  ultimately show ?thesis using i(2) n(2) atoi_bounds [of s] by (auto simp: book_def)
qed simp

lemma strtol10_dec:
  assumes "n < 2 ^ 63"
  shows "strtol10 (dec n) = int n"
proof -
  obtain b bs where b: "dec n = b # bs" "is_digit b" using dec_leading by blast
  have "\<forall>b \<in> set (dec n). b \<noteq> 0" using dec_digits [of n] digit_not_special by auto
  then have c: "c_string (dec n) = dec n" unfolding c_string_def by (rule takeWhile_eq_all_conv [THEN iffD2])
  have t: "takeWhile is_digit (dec n) = dec n" by (rule takeWhile_eq_all_conv [THEN iffD2]) (rule dec_digits)
  have d: "dropWhile is_space (dec n) = dec n" "hd (dec n) \<noteq> 45" "hd (dec n) \<noteq> 43"
    using b digit_not_special [of b] by auto
  show ?thesis using assms d t by (simp add: strtol10_def c Let_def long_max_def long_min_def)
qed

lemma digit_sint: "is_digit b \<Longrightarrow> \<not> (sint b < 48 \<or> sint b > 57)"
proof -
  assume "is_digit b"
  then have "48 \<le> uint b" "uint b \<le> 57" by (auto simp: is_digit_def word_le_def)
  then have "sint b = uint b" by (simp add: signed_take_bit_int_eq_self sint_uint)
  with \<open>48 \<le> uint b\<close> \<open>uint b \<le> 57\<close> show ?thesis by simp
qed

lemma typed_dec:
  assumes "n < 2 ^ 63"
  shows "typed_line (dec n)"
proof -
  have "length (dec n) \<le> 19" by (rule length_dec_le) (use assms in auto)
  moreover have nd: "\<not> is_digit 10" "\<not> is_digit 0" "\<not> is_digit 13" by (simp_all add: is_digit_def word_le_def)
  moreover have "last (dec n) \<noteq> 13" using dec_digits [of n] nd(3) dec_nonempty last_in_set by metis
  ultimately show ?thesis
    using dec_digits [of n] by (auto simp: typed_line_def DATA_FIELD_LENGTH_def)
qed

text \<open>What reading lines changes: the input that is left, the arrays used, and the prompts printed.\<close>

definition after_typing :: "nat \<Rightarrow> byte list \<Rightarrow> byte list \<Rightarrow> world \<Rightarrow> world" where
  "after_typing n rest prompts w =
     w\<lparr>stdin := rest, frames := drop n (frames w), printed := printed w @ prompts\<rparr>"

lemma after_typing_twice [simp]:
  "after_typing n rest q (after_typing m rest' p w) = after_typing (m + n) rest (p @ q) w"
  by (simp add: after_typing_def add.commute)

lemma after_typing_select [simp]:
  "me (after_typing n rest p w) = me w" "stdin (after_typing n rest p w) = rest" "conn (after_typing n rest p w) = conn w"
  "writes (after_typing n rest p w) = writes w" "sent (after_typing n rest p w) = sent w"
  "printed (after_typing n rest p w) = printed w @ p" "later (after_typing n rest p w) = later w"
  by (simp_all add: after_typing_def)

lemma read_field_typed:
  assumes "typed_line l" "stdin w = l @ 10 # rest" "assign_key name (String l) j = Inr j'"
  shows "read_field name j w = (Inr (True, j'), after_typing 1 rest (name @ str ''='') w)"
  using read_field_line [OF assms] by (simp add: after_typing_def)

text \<open>
  An id of digits is taken modulo \<open>2^32\<close>: \<open>ask_book_id\<close> lets \<open>4294967301\<close> pass and the
  client goes on with book 5, without the message that the number does not fit.
\<close>

lemma ask_book_id_reads:
  fixes w :: world
  assumes "n < 2 ^ 63" "stdin w = dec n @ 10 # rest" "i = sint (of_nat n :: u32)"
  shows "ask_book_id w =
    (Inr (if i < 0 then json_NULL else Object [(str ''id'', Number_integer (word_of_int i))] :: 'f json),
     after_typing 1 rest (str ''id='' @ (if i < 0 then str ''id has to fit in int! Try < 10^9!'' @ [10] else [])) w)"
proof -
  let ?o = "\<lambda>v. Object [(str ''id'', v)] :: 'f json"
  have o: "assign_key (str ''id'') (String (dec n)) (Null :: 'f json) = Inr (?o (String (dec n)))"
    "operator_key (str ''id'') (?o v) = Inr (?o v)" "member (str ''id'') (?o v) = v"
    "assign_key (str ''id'') v' (?o v) = Inr (?o v')" for v v'
    by (simp_all add: assign_key_def operator_key_def)
  have a: "atoi (dec n) = i" using strtol10_dec [OF assms(1)] by (simp add: atoi_def assms(3))
  have d: "\<not> list_ex (\<lambda>k. sint k < 48 \<or> sint k > 57) (dec n)"
    using dec_digits [of n] digit_sint by (auto simp: list_ex_iff)
  have i1: "str ''id='' = str ''id'' @ str ''=''" "str ''id has to fit in int! Try < 10^9!'' = str ''id'' @ str '' has to fit in int! Try < 10^9!''"
    by (simp_all add: str_def)
  show ?thesis
    by (simp add: ask_book_id_def bindM_def read_field_typed [OF typed_dec [OF assms(1)] assms(2) o(1)] get_int_field_def
        after_typing_def json_step_def get_field_string_def get_to_string_def o d a print_def println_def return_def i1)
qed

lemma ask_book_id_wraps_example:
  "ask_book_id (reader_world (dec 4294967301 @ 10 # []))
    = (Inr (Object [(str ''id'', Number_integer 5)]) :: halt + int json,
       (reader_world [])\<lparr>printed := str ''id=''\<rparr>)"
  using ask_book_id_reads [of 4294967301 "reader_world (dec 4294967301 @ 10 # [])" "[]" 5, where 'f = int]
  by (simp add: reader_world_def idle_world_def after_typing_def)

text \<open>What the user types for a book is what is sent.\<close>

lemma book_in_order:
  "assign_key (str ''title'') (String t) Null = Inr (Object [(str ''title'', String t)])"
  "assign_key (str ''author'') (String a) (Object [(str ''title'', String t)])
     = Inr (Object [(str ''author'', String a), (str ''title'', String t)])"
  "assign_key (str ''genre'') (String g) (Object [(str ''author'', String a), (str ''title'', String t)])
     = Inr (Object [(str ''author'', String a), (str ''genre'', String g), (str ''title'', String t)])"
  "assign_key (str ''publisher'') (String p) (Object [(str ''author'', String a), (str ''genre'', String g), (str ''title'', String t)])
     = Inr (Object [(str ''author'', String a), (str ''genre'', String g), (str ''publisher'', String p), (str ''title'', String t)])"
  "assign_key (str ''page_count'') (String n)
       (Object [(str ''author'', String a), (str ''genre'', String g), (str ''publisher'', String p), (str ''title'', String t)])
     = Inr (book a g (String n) p t)"
  by (simp_all add: assign_key_def operator_key_def str_def book_def)

lemma ask_add_book_reads:
  fixes w :: world
  assumes "list_all typed_line [t, a, g, p]" "n < 2 ^ 31"
    and s: "stdin w = t @ 10 # a @ 10 # g @ 10 # p @ 10 # dec n @ 10 # rest"
  shows "ask_add_book w = (Inr (book a g (Number_integer (word_of_int (int n))) p t) :: halt + 'f json,
    after_typing 5 rest (str ''title=author=genre=publisher=page_count='') w)"
proof -
  have l: "typed_line t" "typed_line a" "typed_line g" "typed_line p" "typed_line (dec n)"
    using assms(1,2) typed_dec [of n] by simp_all
  have d: "\<not> list_ex (\<lambda>k. sint k < 48 \<or> sint k > 57) (dec n)"
    using dec_digits [of n] digit_sint by (auto simp: list_ex_iff)
  have at: "atoi (dec n) = int n" by (rule atoi_dec_end) (use assms(2) in simp)
  have prompts: "str ''title=author=genre=publisher=page_count='' = str ''title'' @ str ''='' @ str ''author'' @ str ''=''
      @ str ''genre'' @ str ''='' @ str ''publisher'' @ str ''='' @ str ''page_count'' @ str ''=''" by (simp add: str_def)
  have fields: "read_field (str ''title'') Null w = (Inr (True, Object [(str ''title'', String t)] :: 'f json),
      after_typing 1 (a @ 10 # g @ 10 # p @ 10 # dec n @ 10 # rest) (str ''title'' @ str ''='') w)"
    by (rule read_field_typed [OF l(1) s book_in_order(1)])
  have int: "get_int_field (str ''page_count'') (book a g (String (dec n)) p t :: 'f json) v
      = (Inr (int n, book a g (Number_integer (word_of_int (int n))) p t), v)" for v
    by (simp add: get_int_field_def bindM_def json_step_def get_field_string_def book_page_count get_to_string_def
        d at return_def del: of_int_of_nat_eq)
  have five: "(5::nat) = Suc (Suc (Suc (Suc (Suc 0))))" by simp
  show ?thesis unfolding five
    by (simp add: ask_add_book_def bindM_def fields read_field_typed [OF l(2) _ book_in_order(2)]
        read_field_typed [OF l(3) _ book_in_order(3)] read_field_typed [OF l(4) _ book_in_order(4)]
        read_field_typed [OF l(5) _ book_in_order(5)] int json_step_def book_page_count return_def prompts
        del: of_int_of_nat_eq)
qed

theorem ask_add_book_type_witness:
  "\<exists>j w'. ask_add_book (reader_world (str ''A'' @ 10 # str ''B'' @ 10 # str ''C'' @ 10 # str ''D'' @ 10 # dec 7 @ 10 # []))
      = (Inr j :: halt + int json, w')
    \<and> (\<exists>a g n p t. j = Object [(str ''author'', String a), (str ''genre'', String g),
         (str ''page_count'', Number_integer n), (str ''publisher'', String p), (str ''title'', String t)]
       \<and> 0 \<le> sint n \<and> sint n < 2 ^ 31)"
proof -
  let ?w = "reader_world (str ''A'' @ 10 # str ''B'' @ 10 # str ''C'' @ 10 # str ''D'' @ 10 # dec 7 @ 10 # [])"
  have l: "list_all typed_line [str ''A'', str ''B'', str ''C'', str ''D'']"
    by (simp add: typed_line_def str_def DATA_FIELD_LENGTH_def)
  have "stdin ?w = str ''A'' @ 10 # str ''B'' @ 10 # str ''C'' @ 10 # str ''D'' @ 10 # dec 7 @ 10 # []"
    by (simp add: reader_world_def)
  from ask_add_book_reads [OF l _ this, where 'f = int] obtain w' where
    w': "ask_add_book ?w = (Inr (book (str ''B'') (str ''C'') (Number_integer (word_of_int (int 7))) (str ''D'') (str ''A''))
        :: halt + int json, w')" by simp
  from ask_add_book_type [OF w'] w' show ?thesis by (auto simp: json_NULL_def book_def)
qed

end
