(* ===== verification/Rest_Login.thy ===== *)
theory Rest_Login
  imports Rest_Props
begin

text \<open>
  Registering and logging in, from the lines the user types over the request and the response to
  the client's record.
\<close>

named_theorems sends \<open>programs that only add to what was sent\<close>

section \<open>Programs only add to what was sent\<close>

definition sends_more :: "'a prog \<Rightarrow> bool" where
  "sends_more m \<longleftrightarrow> (\<forall>w. \<exists>more. sent (snd (m w)) = sent w @ more)"

lemma sends_more_bind [sends]: "sends_more m \<Longrightarrow> (\<And>a. sends_more (f a)) \<Longrightarrow> sends_more (bindM m f)"
proof (unfold sends_more_def, intro allI)
  fix w
  assume m: "\<forall>w. \<exists>more. sent (snd (m w)) = sent w @ more" and f: "\<And>a. \<forall>w. \<exists>more. sent (snd (f a w)) = sent w @ more"
  obtain r w1 where w1: "m w = (r, w1)" by (cases "m w")
  with m obtain x where x: "sent w1 = sent w @ x" by (metis snd_conv)
  show "\<exists>more. sent (snd (bindM m f w)) = sent w @ more"
  proof (cases r)
    case (Inl h)
    with w1 x show ?thesis by (simp add: bindM_def)
  next
    case (Inr a)
    from f [of a] obtain y where "sent (snd (f a w1)) = sent w1 @ y" by blast
    with w1 x Inr show ?thesis by (simp add: bindM_def)
  qed
qed

lemma sends_more_if [sends]: "sends_more m \<Longrightarrow> sends_more n \<Longrightarrow> sends_more (if b then m else n)"
  by simp

lemma sends_more_option [sends]:
  "sends_more m \<Longrightarrow> (\<And>y. sends_more (f y)) \<Longrightarrow> sends_more (case x of None \<Rightarrow> m | Some y \<Rightarrow> f y)"
  by (cases x) auto

lemma sends_more_pair [sends]: "(\<And>x y. sends_more (f x y)) \<Longrightarrow> sends_more (case p of (x, y) \<Rightarrow> f x y)"
  by (cases p) auto

lemma sends_more_basic [sends]:
  "sends_more (println bs)" "sends_more (pure_step r)" "sends_more (json_step r')" "sends_more (halt_with h)"
  "sends_more (set_me g)"
  by (auto simp: sends_more_def print_def println_def pure_step_def json_step_def halt_with_def set_me_def)

text \<open>A round of \<open>receive_certain_message\<close> that could send ends the loop or leads to the next round.\<close>

lemma receive_round:
  assumes "send_to_server message (writes w) = Inr (m, ws)"
  shows "(\<exists>r w'. receive_certain_message message w = (r, w') \<and> sent w' = sent w @ [m])
    \<or> (\<exists>w'. receive_certain_message message w = receive_certain_message message w' \<and> sent w' = sent w @ [m]
         \<and> length (later w') < length (later w))"
proof -
  let ?w = "w\<lparr>writes := ws, sent := sent w @ [m]\<rparr>"
  show ?thesis
  proof (cases "receive_from_server (conn w)")
    case (Inl h)
    then have "receive_certain_message message w = (Inl h, ?w)"
      by (subst receive_certain_message.simps) (simp add: assms)
    then show ?thesis by simp
  next
    case (Inr b)
    obtain response rs where b: "b = (response, rs)" by (cases b)
    let ?v = "?w\<lparr>conn := rs\<rparr>"
    have eq: "receive_certain_message message w = (if c_string response = [] then
        (case init ?v of (Inl h, w) \<Rightarrow> (Inl h, w) | (Inr _, w) \<Rightarrow> receive_certain_message message w)
       else (Inr response, ?v))"
      by (subst receive_certain_message.simps) (simp add: assms Inr b)
    show ?thesis
    proof (cases "c_string response = []")
      case False
      with eq show ?thesis by simp
    next
      case True
      note eq = eq [unfolded if_P [OF True]]
      show ?thesis
      proof (cases "later w")
        case Nil
        then have "init ?v = (Inl Exited, ?v)" by (simp add: init_def)
        with eq show ?thesis by simp
      next
        case (Cons c cs)
        obtain fd rs' where c: "c = (fd, rs')" by (cases c)
        let ?u = "?v\<lparr>me := (me w)\<lparr>sockfd := fd\<rparr>, conn := rs', later := cs\<rparr>"
        have "init ?v = (Inr (), ?u)" using Cons c by (simp add: init_def)
        with eq have "receive_certain_message message w = receive_certain_message message ?u" by simp
        with Cons show ?thesis by fastforce
      qed
    qed
  qed
qed

lemma sends_more_receive [sends]: "sends_more (receive_certain_message message)"
proof -
  have "\<exists>more. sent (snd (receive_certain_message message w)) = sent w @ more" for w
  proof (induction "length (later w)" arbitrary: w rule: less_induct)
    case less
    show ?case
    proof (cases "send_to_server message (writes w)")
      case (Inl h)
      then have "receive_certain_message message w = (Inl h, w)"
        by (subst receive_certain_message.simps) simp
      then show ?thesis by simp
    next
      case (Inr b)
      obtain m ws where b: "b = (m, ws)" by (cases b)
      from receive_round [OF Inr [unfolded b]] show ?thesis
      proof (elim disjE exE conjE)
        fix r w' assume "receive_certain_message message w = (r, w')" "sent w' = sent w @ [m]"
        then show ?thesis by simp
      next
        fix w' assume w': "receive_certain_message message w = receive_certain_message message w'"
          "sent w' = sent w @ [m]" "length (later w') < length (later w)"
        from less.hyps [OF w'(3)] w'(1,2) show ?thesis by auto
      qed
    qed
  qed
  then show ?thesis by (simp add: sends_more_def)
qed

lemma sends_more_deal [sends]: "sends_more (deal_with_error_code P response)"
  unfolding deal_with_error_code_def by (intro sends)

lemma sends_more_set_cookie [sends]: "sends_more (set_cookie P response)"
  unfolding set_cookie_def by (auto simp: Let_def intro!: sends split: option.split)

text \<open>A message that is taken as a whole is the next that was sent.\<close>

lemma receive_sends_first:
  assumes "send_to_server message (writes w) = Inr (m, ws)"
  shows "\<exists>more. sent (snd (receive_certain_message message w)) = sent w @ m # more"
  using receive_round [OF assms]
proof (elim disjE exE conjE)
  fix r w' assume "receive_certain_message message w = (r, w')" "sent w' = sent w @ [m]"
  then show ?thesis by simp
next
  fix w' assume w': "receive_certain_message message w = receive_certain_message message w'" "sent w' = sent w @ [m]"
  from sends_more_receive obtain x where "sent (snd (receive_certain_message message w')) = sent w' @ x"
    by (auto simp: sends_more_def)
  with w' show ?thesis by simp
qed

lemma exchange_sends_first:
  assumes "send_to_server message (writes w) = Inr (m, ws)" "\<And>r. sends_more (success r)"
  shows "\<exists>more. sent (snd (exchange P message success w)) = sent w @ m # more"
proof -
  obtain r w1 where w1: "receive_certain_message message w = (r, w1)" by (cases "receive_certain_message message w")
  from receive_sends_first [OF assms(1)] w1 obtain x where x: "sent w1 = sent w @ m # x" by auto
  show ?thesis
  proof (cases r)
    case (Inl h)
    with w1 x show ?thesis by (simp add: exchange_def bindM_def)
  next
    case (Inr response)
    let ?rest = "bindM (pure_step (get_response_code response)) (\<lambda>response_code.
      bindM (println (str ''Response Code: '' @ dec_int response_code)) (\<lambda>_.
       if response_code \<ge> 400 then deal_with_error_code P response else success response))"
    have "sends_more ?rest" by (intro sends assms(2))
    then obtain y where "sent (snd (?rest w1)) = sent w1 @ y" by (auto simp: sends_more_def)
    with w1 x Inr show ?thesis by (simp add: exchange_def bindM_def [of "receive_certain_message message"])
  qed
qed

section \<open>Credentials\<close>

definition user :: "byte list \<Rightarrow> byte list \<Rightarrow> 'f json" where
  "user name pass = Object [(str ''password'', String pass), (str ''username'', String name)]"

definition credential :: "byte list \<Rightarrow> bool" where
  "credential l \<longleftrightarrow> typed_line l \<and> l \<noteq> [] \<and> 32 \<notin> set l \<and> utf8_valid l"

lemma user_steps:
  "assign_key (str ''username'') (String name) Null = Inr (Object [(str ''username'', String name)] :: 'f json)"
  "assign_key (str ''password'') (String pass) (Object [(str ''username'', String name)]) = Inr (user name pass :: 'f json)"
  "get_field_string (str ''username'') (user name pass) = Inr (name, user name pass)"
  "get_field_string (str ''password'') (user name pass) = Inr (pass, user name pass)"
  by (simp_all add: user_def assign_key_def operator_key_def get_field_string_def get_to_string_def str_def)

lemma ask_user_reads:
  assumes "credential name" "credential pass" "stdin w = name @ 10 # pass @ 10 # rest"
  shows "ask_user w = (Inr (user name pass) :: halt + 'f json,
    after_typing 2 rest (str ''username=password='') w)"
proof -
  have l: "typed_line name" "typed_line pass" "name \<noteq> []" "pass \<noteq> []" "32 \<notin> set name" "32 \<notin> set pass"
    using assms(1,2) by (auto simp: credential_def)
  have p: "str ''username=password='' = str ''username'' @ str ''='' @ str ''password'' @ str ''=''" by (simp add: str_def)
  show ?thesis unfolding numeral_2_eq_2
    using l(3-6) by (simp add: ask_user_def bindM_def json_step_def user_steps refuse_def return_def p
        read_field_typed [OF l(1) assms(3) user_steps(1)] read_field_typed [OF l(2) _ user_steps(2)])
qed

lemma plain_user: "utf8_valid name \<Longrightarrow> utf8_valid pass \<Longrightarrow> plain (user name pass)"
  by (simp add: user_def str_def utf8_valid_def byte_ranges_def)

text \<open>
  The client asks \<open>malloc\<close> for as many bytes as a text has, without the NUL that it writes behind it. Whether the
  block has that byte nevertheless is up to the allocator.
\<close>

definition room :: "'f platform \<Rightarrow> byte list \<Rightarrow> bool" where
  "room P t \<longleftrightarrow> length t < usable P (length t)"

lemma json_text_c_string: "plain v \<Longrightarrow> c_string (json_text F v) = json_text F v"
  using json_text_no_nul(1) [of v F] unfolding c_string_def by (auto intro: takeWhile_eq_all_conv [THEN iffD2])

lemma dump_plain: "plain v \<Longrightarrow> dump_default F v = Inr (json_text F v)"
  using dump_default_cases [of v F] plain_utf8(1) [of v] by simp

lemma strcpy_malloc_room:
  "strcpy_malloc P t = (if room P (c_string t) then Inr (c_string t) else Inl Array_overflow)"
  by (simp add: strcpy_malloc_def Let_def room_def Suc_le_eq)

lemma dump_data_plain:
  "plain v \<Longrightarrow> dump_data P v w =
     ((if room P (json_text P v) then Inr (json_text P v) else Inl (Crash Array_overflow)), w)"
  by (simp add: dump_data_def bindM_def json_step_def dump_plain pure_step_def strcpy_malloc_room json_text_c_string)

text \<open>The request of a command that sends credentials.\<close>

definition auth_request :: "'f platform \<Rightarrow> client \<Rightarrow> string \<Rightarrow> byte list \<Rightarrow> byte list \<Rightarrow> byte list list" where
  "auth_request P c url name pass =
     request_lines (str ''POST '' @ str url @ str '' HTTP/1.1'') host (cookies c) (jwt c) json_payload
       [json_text P (user name pass)]"

lemma cookie_args_ok: "client_ok c \<Longrightarrow> cookie_args c = cookies c"
  by (auto simp: cookie_args_def client_ok_def split: option.splits)

text \<open>The request of a command with a JSON body.\<close>

lemma requests_no_nul: "0 \<notin> set host" "0 \<notin> set json_payload" "no_nul (Some [])"
  by (simp_all add: host_def json_payload_def str_def no_nul_def)

lemma post_message:
  fixes P :: "'f platform"
  assumes "client_ok c" "fits BUFLEN [] (request_lines (str ''POST '' @ str url @ str '' HTTP/1.1'') host (cookies c) (jwt c)
      json_payload [json_text P v])" "0 \<notin> set (str url)" "plain v"
  shows "\<exists>a. compute_post_request host (str url) json_payload [json_text P v] (cookie_args c) (jwt c) = Inr a
    \<and> c_string a = lines (request_lines (str ''POST '' @ str url @ str '' HTTP/1.1'') host (cookies c) (jwt c)
      json_payload [json_text P v])"
proof -
  have b: "no_nul (Some [json_text P v])" using json_text_no_nul(1) [OF assms(4)] by (simp add: no_nul_def)
  have c: "no_nul (cookies c)" "no_nul (map_option (\<lambda>x. [x]) (jwt c))" using assms(1) by (simp_all add: client_ok_def)
  let ?r = "request_lines (str ''POST '' @ str url @ str '' HTTP/1.1'') host (cookies c) (jwt c) json_payload [json_text P v]"
  have "yields (array_of BUFLEN (lines ?r)) (fits BUFLEN [] ?r)
      (compute_post_request host (str url) json_payload [json_text P v] (cookies c) (jwt c))"
    unfolding compute_post_request_def Let_def
    by (rule yields_request [OF first_line_no_nul(2) requests_no_nul(1,2) c b]) (rule assms(3))
  with assms(1,2) show ?thesis by (auto simp: yields_def cookie_args_ok dest: array_of_string)
qed

lemma auth_message:
  fixes P :: "'f platform"
  assumes "client_ok c" "credential name" "credential pass" "fits BUFLEN [] (auth_request P c url name pass)"
    "0 \<notin> set (str url)"
  shows "\<exists>a. compute_post_request host (str url) json_payload [json_text P (user name pass)] (cookie_args c) (jwt c) = Inr a
    \<and> c_string a = lines (auth_request P c url name pass)"
proof -
  have "plain (user name pass :: 'f json)" using assms(2,3) by (auto simp: credential_def intro: plain_user)
  from post_message [OF assms(1) assms(4) [unfolded auth_request_def] assms(5) this] show ?thesis
    unfolding auth_request_def .
qed

lemma user_not_NULL: "json_eq P (user name pass) json_NULL = False"
  by (simp add: user_def json_NULL_def)

section \<open>Sending them\<close>

abbreviation login_answer :: "'f platform \<Rightarrow> byte list \<Rightarrow> unit prog" where
  "login_answer P \<equiv> \<lambda>response. if has_set_cookie response then
      bindM (set_cookie P response) (\<lambda>_.
      bindM (println (str ''Successfully logged in!'')) (\<lambda>_. set_me (\<lambda>c. c\<lparr>logged_in := True\<rparr>)))
    else println (str ''Failed logging in!'')"

abbreviation after_credentials :: "byte list \<Rightarrow> world \<Rightarrow> world" where
  "after_credentials rest \<equiv> after_typing 2 rest (str ''username=password='')"

text \<open>Both commands come to the exchange of their request.\<close>

lemma auth_commands_exchange:
  fixes P :: "'f platform"
  assumes in_: "credential name" "credential pass" "stdin w = name @ 10 # pass @ 10 # rest"
    and P: "room P (json_text P (user name pass))" "client_ok (me w)"
  shows "fits BUFLEN [] (auth_request P (me w) ''/api/v1/tema/auth/register'' name pass) \<Longrightarrow>
      \<exists>a. c_string a = lines (auth_request P (me w) ''/api/v1/tema/auth/register'' name pass)
        \<and> register_client P w = exchange P a (\<lambda>_. println (str ''User created successfuly!'')) (after_credentials rest w)"
    and "fits BUFLEN [] (auth_request P (me w) ''/api/v1/tema/auth/login'' name pass) \<Longrightarrow> \<not> logged_in (me w) \<Longrightarrow>
      \<exists>a. c_string a = lines (auth_request P (me w) ''/api/v1/tema/auth/login'' name pass)
        \<and> login P w = exchange P a (login_answer P) (after_credentials rest w)"
proof -
  note ask = ask_user_reads [OF in_, where 'f = 'f]
  have plain: "plain (user name pass :: 'f json)"
    by (rule plain_user) (use in_ in \<open>simp_all add: credential_def\<close>)
  have dump: "dump_data P (user name pass) u = (Inr (json_text P (user name pass)), u)" for u
    using P(1) by (simp add: dump_data_plain [OF plain])
  have me: "me (after_credentials rest w) = me w" by simp
  have nul: "0 \<notin> set (str ''/api/v1/tema/auth/register'')" "0 \<notin> set (str ''/api/v1/tema/auth/login'')"
    by (simp_all add: str_def)
  show "\<exists>a. c_string a = lines (auth_request P (me w) ''/api/v1/tema/auth/register'' name pass)
      \<and> register_client P w = exchange P a (\<lambda>_. println (str ''User created successfuly!'')) (after_credentials rest w)"
    if fit: "fits BUFLEN [] (auth_request P (me w) ''/api/v1/tema/auth/register'' name pass)"
    using auth_message [OF P(2) in_(1,2) fit nul(1)]
    by (auto simp: register_client_def bindM_def [of ask_user] ask user_not_NULL bindM_def [of "dump_data P _"] dump
        bindM_def [of get_me] get_me_def me bindM_def [of "pure_step _"] pure_step_def)
  show "\<exists>a. c_string a = lines (auth_request P (me w) ''/api/v1/tema/auth/login'' name pass)
      \<and> login P w = exchange P a (login_answer P) (after_credentials rest w)"
    if fit: "fits BUFLEN [] (auth_request P (me w) ''/api/v1/tema/auth/login'' name pass)" and "\<not> logged_in (me w)"
    using auth_message [OF P(2) in_(1,2) fit nul(2)] that(2)
    by (auto simp: login_def bindM_def [of ask_user] ask user_not_NULL bindM_def [of "dump_data P _"] dump
        bindM_def [of get_me] get_me_def me bindM_def [of "pure_step _"] pure_step_def)
qed

text \<open>
  The exchange when the message is taken as a whole and the server answers with a code below 400:
  the command goes on with the whole response, whatever way TCP cuts it.
\<close>

lemma exchange_accepted:
  assumes "c_string a = text" "text \<noteq> []"
    and "writes w = ks @ ws" "\<forall>k \<in> set ks. 0 < k" "sum_list ks = int (length text)"
    and "conn w = map Data segs @ answers" "concat segs = msg" "\<forall>b \<in> set segs. b \<noteq> []"
    and "response_ok msg pre key num mid body" "0 \<notin> set msg"
    and "get_response_code msg = Inr code" "code < 400"
  shows "exchange P a success w = success (msg @ [0])
    (w\<lparr>writes := ws, sent := sent w @ [text], conn := answers,
       printed := printed w @ str ''Response Code: '' @ dec_int code @ [10]\<rparr>)"
proof -
  have send: "send_to_server a (writes w) = Inr (text, ws)"
    using send_takes_message [of ks a ws] assms(1-5) by simp
  have receive: "receive_from_server (conn w) = Inr (msg @ [0], answers)"
    unfolding assms(6) by (rule receive_whole [OF assms(9,7,8)])
  have c: "c_string (msg @ [0]) = msg" "c_string msg = msg"
    using assms(10) c_string_append_nul [of msg "[]"] by (auto simp: c_string_def intro: takeWhile_eq_all_conv [THEN iffD2])
  have "msg \<noteq> []" using assms(9) by (auto simp: response_ok_def)
  then have rc: "receive_certain_message a w =
      (Inr (msg @ [0]), w\<lparr>writes := ws, sent := sent w @ [text], conn := answers\<rparr>)"
    by (subst receive_certain_message.simps) (simp add: send receive c)
  have code: "get_response_code (msg @ [0]) = Inr code" using assms(11) by (simp add: get_response_code_def c)
  show ?thesis
    using assms(12) by (simp add: exchange_def bindM_def rc pure_step_def code println_def print_def)
qed

definition auth_commands :: "'f platform \<Rightarrow> (unit prog \<times> string) set" where
  "auth_commands P = {(register_client P, ''/api/v1/tema/auth/register''), (login P, ''/api/v1/tema/auth/login'')}"

text \<open>
  \<open>malloc (strlen (s))\<close> leaves no room for the NUL: when the block has no byte for it,
  registering and logging in write behind the block before anything is sent.
\<close>

lemma credentials_overflow:
  fixes P :: "'f platform"
  assumes "(command, url) \<in> auth_commands P" "\<not> logged_in (me w)" "\<not> room P (json_text P (user name pass))"
    and "credential name" "credential pass" "stdin w = name @ 10 # pass @ 10 # rest"
  shows "\<exists>w'. command w = (Inl (Crash Array_overflow), w') \<and> sent w' = sent w \<and> me w' = me w"
proof -
  note ask = ask_user_reads [OF assms(4-6), where 'f = 'f]
  have plain: "plain (user name pass :: 'f json)"
    by (rule plain_user) (use assms(4,5) in \<open>simp_all add: credential_def\<close>)
  have "dump_data P (user name pass) v = (Inl (Crash Array_overflow), v)" for v
    using assms(3) by (simp add: dump_data_plain [OF plain])
  with assms(1,2) show ?thesis
    by (auto simp: auth_commands_def register_client_def login_def bindM_def ask user_not_NULL get_me_def)
qed

text \<open>
  C18. Registering or logging in sends the typed name and password: the request is the POST of the
  command with one body, and that body is a JSON text that parses to the object with the two
  members. Whatever the server answers, only more requests follow. This needs the block that \<open>malloc\<close> returns for
  the body to have a byte more than asked for; when it has not, the command writes behind it and nothing is sent.
\<close>

theorem credentials_sent:
  fixes P :: "'f platform"
  assumes "(command, url) \<in> auth_commands P" "\<not> logged_in (me w)" "client_ok (me w)"
    and "credential name" "credential pass" "stdin w = name @ 10 # pass @ 10 # rest"
    and "fits BUFLEN [] (request_lines (str ''POST '' @ str url @ str '' HTTP/1.1'') host (cookies (me w)) (jwt (me w))
      json_payload [body])"
    and "body = json_text P (Object [(str ''password'', String pass), (str ''username'', String name)])"
    and "message = lines (request_lines (str ''POST '' @ str url @ str '' HTTP/1.1'') host (cookies (me w)) (jwt (me w))
      json_payload [body])"
    and "writes w = ks @ ws" "\<forall>k \<in> set ks. 0 < k" "sum_list ks = int (length message)"
  shows "parse_c_string P body = Inr (Object [(str ''password'', String pass), (str ''username'', String name)])
    \<and> (if room P body then \<exists>more. sent (snd (command w)) = sent w @ message # more
       else \<exists>w'. command w = (Inl (Crash Array_overflow), w') \<and> sent w' = sent w)"
proof (intro conjI)
  have plain: "plain (user name pass :: 'f json)"
    by (rule plain_user) (use assms(4,5) in \<open>simp_all add: credential_def\<close>)
  show "parse_c_string P body = Inr (Object [(str ''password'', String pass), (str ''username'', String name)])"
    using json_parse_text [OF plain, of P True] json_text_c_string [OF plain, of P]
    by (simp add: assms(8) parse_c_string_def user_def)
  have body: "body = json_text P (user name pass)" by (simp add: assms(8) user_def)
  have m: "message = lines (auth_request P (me w) url name pass)" "fits BUFLEN [] (auth_request P (me w) url name pass)"
    using assms(7,9) by (simp_all add: auth_request_def body)
  have ne: "message \<noteq> []" by (simp add: m(1) auth_request_def request_lines_def str_def)
  let ?w = "after_credentials rest w"
  have sent: "sent ?w = sent w" "writes ?w = ks @ ws" using assms(10) by simp_all
  have send: "send_to_server a (writes ?w) = Inr (message, ws)" if "c_string a = message" for a
    using send_takes_message [of ks a ws] that assms(11,12) ne sent(2) by simp
  from assms(1) consider "command = register_client P" "url = ''/api/v1/tema/auth/register''"
    | "command = login P" "url = ''/api/v1/tema/auth/login''" by (auto simp: auth_commands_def)
  then have "\<exists>more. sent (snd (command w)) = sent w @ message # more" if "room P body"
  proof cases
    have room: "room P (json_text P (user name pass))" using that by (simp add: body)
    case 1
    from auth_commands_exchange(1) [OF assms(4,5,6) room assms(3) m(2) [unfolded 1]] m(1) 1 obtain a where
      a: "c_string a = message" "command w = exchange P a (\<lambda>_. println (str ''User created successfuly!'')) ?w" by auto
    have "sends_more (println (str ''User created successfuly!''))" by (intro sends)
    from exchange_sends_first [OF send [OF a(1)] this, of P] show ?thesis unfolding a(2) sent(1) .
  next
    have room: "room P (json_text P (user name pass))" using that by (simp add: body)
    case 2
    from auth_commands_exchange(2) [OF assms(4,5,6) room assms(3) m(2) [unfolded 2] assms(2)] m(1) 2 obtain a where
      a: "c_string a = message" "command w = exchange P a (login_answer P) ?w" by auto
    have "sends_more (login_answer P r)" for r by (intro sends)
    from exchange_sends_first [OF send [OF a(1)] this, of P] show ?thesis unfolding a(2) sent(1) .
  qed
  moreover have "\<exists>w'. command w = (Inl (Crash Array_overflow), w') \<and> sent w' = sent w" if "\<not> room P body"
    using credentials_overflow [OF assms(1,2) that [unfolded body] assms(4-6)] by blast
  ultimately show "if room P body then \<exists>more. sent (snd (command w)) = sent w @ message # more
       else \<exists>w'. command w = (Inl (Crash Array_overflow), w') \<and> sent w' = sent w" by simp
qed

text \<open>
  C2. A login that the server accepts with a cookie ends with the client logged in under the value
  of the first Set-Cookie up to its semicolon, whatever way TCP cuts the response; exactly one
  request was sent and the rest of the stream is untouched. The client asks \<open>malloc\<close> for one byte too few for the
  body and for the cookie: when the block of the body has no further byte, it writes behind it before anything is sent,
  and when that of the cookie has none, after its one request.
\<close>

theorem login_succeeds:
  fixes P :: "'f platform"
  assumes "\<not> logged_in (me w)" "client_ok (me w)"
    and "credential name" "credential pass" "stdin w = name @ 10 # pass @ 10 # rest"
    and "r = auth_request P (me w) ''/api/v1/tema/auth/login'' name pass" "fits BUFLEN [] r"
    and "writes w = ks @ ws" "\<forall>k \<in> set ks. 0 < k" "sum_list ks = int (length (lines r))"
    and "conn w = map Data segs @ answers" "concat segs = msg" "\<forall>b \<in> set segs. b \<noteq> []"
    and "response_ok msg pre key num mid body" "0 \<notin> set msg"
    and "get_response_code msg = Inr code" "code < 400"
    and "strstr SET_COOKIE msg = Some (SET_COOKIE @ v @ 59 # attrs)" "59 \<notin> set v"
  shows "if \<not> room P (json_text P (user name pass))
    then \<exists>w'. login P w = (Inl (Crash Array_overflow), w') \<and> sent w' = sent w \<and> me w' = me w
    else if \<not> room P v
    then \<exists>w'. login P w = (Inl (Crash Array_overflow), w') \<and> sent w' = sent w @ [lines r] \<and> me w' = me w
    else \<exists>w'. login P w = (Inr (), w')
      \<and> me w' = (me w)\<lparr>logged_in := True, cookies := Some [v], cookies_length := 1\<rparr>
      \<and> sent w' = sent w @ [lines r] \<and> conn w' = answers \<and> stdin w' = rest"
proof (cases "room P (json_text P (user name pass))")
  case False
  have "(login P, ''/api/v1/tema/auth/login'') \<in> auth_commands P" by (simp add: auth_commands_def)
  from credentials_overflow [OF this assms(1) False assms(3-5)] False show ?thesis by simp
next
  case room: True
  let ?w = "after_credentials rest w"
  have w: "me ?w = me w" "sent ?w = sent w" "writes ?w = ks @ ws" "conn ?w = map Data segs @ answers" "stdin ?w = rest"
    using assms(8,11) by simp_all
  from auth_commands_exchange(2) [OF assms(3-5) room assms(2) _ assms(1)] assms(6,7) obtain a where
    a: "c_string a = lines r" "login P w = exchange P a (login_answer P) ?w" by auto
  have "lines r \<noteq> []" by (simp add: assms(6) auth_request_def request_lines_def str_def)
  note ex = exchange_accepted [OF a(1) this w(3) assms(9,10) w(4) assms(12-17), of P "login_answer P"]
  have c: "c_string (msg @ [0]) = msg" using assms(15) c_string_append_nul [of msg "[]"] by simp
  have semi: "find_sub (str '';'') (v @ 59 # attrs) = Some (length v)"
  proof -
    have "str '';'' = [59]" by (simp add: str_def)
    then show ?thesis using assms(19) by (induction v) auto
  qed
  have cookie: "has_set_cookie (msg @ [0])" "set_cookie P (msg @ [0]) u =
      (if room P v then (Inr (), u\<lparr>me := (me u)\<lparr>cookies := Some [v], cookies_length := 1\<rparr>\<rparr>)
       else (Inl (Crash Array_overflow), u))" for u
    using assms(18) by (simp_all add: has_set_cookie_def set_cookie_def c semi room_def set_me_def halt_with_def)
  show ?thesis
    by (simp add: a(2) ex bindM_def println_def print_def cookie set_me_def w room)
qed

section \<open>Concrete runs\<close>

text \<open>A new client whose user types \<open>ana\<close> and \<open>pw\<close>, and a response that sets a cookie.\<close>

definition typing_world :: world where
  "typing_world = idle_world\<lparr>stdin := str ''ana'' @ 10 # str ''pw'' @ 10 # []\<rparr>"

lemma typing_world_simps:
  "me typing_world = new_client" "stdin typing_world = str ''ana'' @ 10 # str ''pw'' @ 10 # []" "sent typing_world = []"
  by (simp_all add: typing_world_def idle_world_def)

lemma credentials_ana: "credential (str ''ana'')" "credential (str ''pw'')"
  by (simp_all add: credential_def typed_line_def DATA_FIELD_LENGTH_def str_def utf8_valid_def byte_ranges_def)

lemma fits_ana: "fits BUFLEN [] (auth_request glibc_platform new_client ''/api/v1/tema/auth/login'' (str ''ana'') (str ''pw''))"
  by code_simp

lemma room_glibc: "room glibc_platform t \<longleftrightarrow> length t < max 24 ((length t + 23) div 16 * 16 - 8)"
  by (simp add: room_def glibc_platform_def float_ops.defs whole_floats_def)

lemma room_ana: "room glibc_platform (json_text glibc_platform (user (str ''ana'') (str ''pw'')))"
proof -
  have "json_text glibc_platform (user (str ''ana'') (str ''pw'')) = str ''{\"password\":\"pw\",\"username\":\"ana\"}''"
    by (simp add: user_def quote_def escape_text_def escape_byte_def str_def)
  then show ?thesis by (simp add: room_glibc str_def)
qed

text \<open>A cookie of 24 bytes fills its block, and its terminator is written behind it.\<close>

lemma no_room_24: "length v = 24 \<Longrightarrow> \<not> room glibc_platform v"
  by (simp add: room_glibc)

lemma credentials_overflow_example:
  "\<exists>w'. register_client strict_platform typing_world = (Inl (Crash Array_overflow), w') \<and> sent w' = [] \<and> me w' = new_client"
proof -
  have "\<not> room strict_platform t" for t by (simp add: room_def strict_platform_def float_ops.defs whole_floats_def)
  from credentials_overflow [OF _ _ this credentials_ana typing_world_simps(2),
      of "register_client strict_platform" "''/api/v1/tema/auth/register''"]
  show ?thesis by (simp add: auth_commands_def typing_world_simps) (simp add: new_client_def)
qed

theorem credentials_sent_witness:
  "\<exists>w body. parse_c_string glibc_platform body = Inr (Object [(str ''password'', String (str ''pw'')), (str ''username'', String (str ''ana''))])
    \<and> (\<exists>more. sent (snd (login glibc_platform w)) = lines (request_lines (str ''POST '' @ str ''/api/v1/tema/auth/login'' @ str '' HTTP/1.1'')
          host None None json_payload [body]) # more)"
proof -
  let ?b = "json_text glibc_platform (Object [(str ''password'', String (str ''pw'')), (str ''username'', String (str ''ana''))])"
  let ?r = "request_lines (str ''POST '' @ str ''/api/v1/tema/auth/login'' @ str '' HTTP/1.1'') host None None json_payload [?b]"
  let ?w = "typing_world\<lparr>writes := [int (length (lines ?r))]\<rparr>"
  have fit: "fits BUFLEN [] ?r"
    using fits_ana by (simp add: auth_request_def user_def new_client_def)
  have pos: "0 < length (lines ?r)" by (simp add: request_lines_def str_def)
  have "parse_c_string glibc_platform ?b = Inr (Object [(str ''password'', String (str ''pw'')), (str ''username'', String (str ''ana''))])
      \<and> (if room glibc_platform ?b then \<exists>more. sent (snd (login glibc_platform ?w)) = sent ?w @ lines ?r # more
         else \<exists>w'. login glibc_platform ?w = (Inl (Crash Array_overflow), w') \<and> sent w' = sent ?w)"
    by (rule credentials_sent [where url = "''/api/v1/tema/auth/login''" and name = "str ''ana''" and pass = "str ''pw''"
          and rest = "[]" and ks = "[int (length (lines ?r))]" and ws = "[]"])
      (use fit pos client_ok_new credentials_ana in
        \<open>simp_all add: auth_commands_def typing_world_simps new_client_def\<close>)
  with room_ana [unfolded user_def] show ?thesis by (auto simp: typing_world_simps)
qed

definition cookie_response :: "byte list" where
  "cookie_response = str ''HTTP/1.1 200 OK'' @ CRLF @ str ''Set-Cookie: s=1; Path=/'' @ CRLF
     @ str ''Content-Length: 2'' @ CRLF @ CRLF @ str ''ok''"

lemma cookie_response_ok:
  "response_ok cookie_response (str ''HTTP/1.1 200 OK'' @ CRLF @ str ''Set-Cookie: s=1; Path=/'' @ CRLF)
     (str ''Content-Length: '') (str ''2'') [10, 13, 10] (str ''ok'')"
  by (simp add: response_ok_def cookie_response_def str_def dec_less_10 HEADER_TERMINATOR_def CONTENT_LENGTH_def
      CRLF_def tolower_def)

lemma cookie_response_parts:
  "0 \<notin> set cookie_response"
  "strstr SET_COOKIE cookie_response = Some (SET_COOKIE @ str ''s=1'' @ 59 # str '' Path=/'' @ CRLF
     @ str ''Content-Length: 2'' @ CRLF @ CRLF @ str ''ok'')"
  by code_simp+

lemma response_code_200:
  assumes "0 \<notin> set s" "s = str ''HTTP/1.1 200 OK'' @ r"
  shows "get_response_code s = Inr 200"
proof -
  have c: "c_string s = s" using assms(1) unfolding c_string_def by (auto intro: takeWhile_eq_all_conv [THEN iffD2])
  have "strchr 32 s = Some (32 # str ''200 OK'' @ r)" by (simp add: assms(2) strchr_def str_def)
  moreover have "atoi (dec 200 @ str '' OK'' @ r) = 200"
    using atoi_dec [of 200 "str '' OK'' @ r"] assms(1) by (auto simp: assms(2) str_def is_digit_def word_le_def)
  moreover have "str ''200 OK'' = dec 200 @ str '' OK''" by code_simp
  ultimately show ?thesis by (simp add: get_response_code_def c)
qed

lemma cookie_response_code: "get_response_code cookie_response = Inr 200"
  by (rule response_code_200 [OF cookie_response_parts(1)]) (simp add: cookie_response_def)

theorem login_succeeds_witness:
  "\<exists>w w'. login glibc_platform w = (Inr (), w')
    \<and> me w' = new_client\<lparr>logged_in := True, cookies := Some [str ''s=1''], cookies_length := 1\<rparr>
    \<and> conn w' = [Data [7]]"
proof -
  let ?r = "auth_request glibc_platform new_client ''/api/v1/tema/auth/login'' (str ''ana'') (str ''pw'')"
  let ?w = "typing_world\<lparr>writes := [int (length (lines ?r))],
    conn := map Data [take 30 cookie_response, drop 30 cookie_response] @ [Data [7]]\<rparr>"
  have pos: "0 < length (lines ?r)" by (simp add: auth_request_def request_lines_def str_def)
  have cut: "take 30 cookie_response \<noteq> []" "drop 30 cookie_response \<noteq> []"
    by (simp_all add: cookie_response_def str_def CRLF_def)
  have "if \<not> room glibc_platform (json_text glibc_platform (user (str ''ana'') (str ''pw'')))
    then \<exists>w'. login glibc_platform ?w = (Inl (Crash Array_overflow), w') \<and> sent w' = sent ?w \<and> me w' = me ?w
    else if \<not> room glibc_platform (str ''s=1'')
    then \<exists>w'. login glibc_platform ?w = (Inl (Crash Array_overflow), w') \<and> sent w' = sent ?w @ [lines ?r] \<and> me w' = me ?w
    else \<exists>w'. login glibc_platform ?w = (Inr (), w')
      \<and> me w' = (me ?w)\<lparr>logged_in := True, cookies := Some [str ''s=1''], cookies_length := 1\<rparr>
      \<and> sent w' = sent ?w @ [lines ?r] \<and> conn w' = [Data [7]] \<and> stdin w' = []"
    by (rule login_succeeds [where r = ?r and ks = "[int (length (lines ?r))]" and ws = "[]" and name = "str ''ana''"
          and pass = "str ''pw''" and segs = "[take 30 cookie_response, drop 30 cookie_response]"
          and code = 200, OF _ _ credentials_ana _ _ fits_ana _ _ _ _ _ _ cookie_response_ok cookie_response_parts(1) cookie_response_code _ cookie_response_parts(2)])
      (use pos cut client_ok_new in \<open>simp_all add: typing_world_simps, simp_all add: new_client_def str_def\<close>)
  moreover have "room glibc_platform (str ''s=1'')" by (simp add: room_glibc str_def)
  ultimately show ?thesis using room_ana by (auto simp: typing_world_simps)
qed

end
