(* ===== verification/Rest_Library.thy ===== *)
theory Rest_Library
  imports Rest_Login Json_Objects
begin

text \<open>
  The commands on the library: getting access, listing, showing, adding and deleting books and
  logging out, from what the user types over the request to what the server's answer does.
\<close>

named_theorems runs \<open>running a program step by step\<close>

lemma bindM_Inr: "m w = (Inr a, w') \<Longrightarrow> bindM m f w = f a w'"
  by (simp add: bindM_def)

lemma bindM_get_me [runs]: "bindM get_me f w = f (me w) w"
  and bindM_set_me [runs]: "bindM (set_me g) h w = h () (w\<lparr>me := g (me w)\<rparr>)"
  and bindM_println [runs]: "bindM (println bs) h w = h () (w\<lparr>printed := printed w @ bs @ [10]\<rparr>)"
  by (simp_all add: bindM_def get_me_def set_me_def println_def print_def)

lemma bindM_value [runs]: "bindM (pure_step (Inr a)) f w = f a w" "bindM (json_step (Inr a)) f w = f a w"
  "bindM (return a) f w = f a w"
  by (simp_all add: bindM_def pure_step_def json_step_def return_def)

lemma println_runs [runs]: "println bs w = (Inr (), w\<lparr>printed := printed w @ bs @ [10]\<rparr>)"
  by (simp add: println_def print_def)

section \<open>The body of a response\<close>

lemma response_body:
  assumes "response_ok msg pre key num mid body" "0 \<notin> set msg"
  shows "get_response_body (msg @ [0]) = Inr body"
proof -
  have c: "c_string (msg @ [0]) = msg" using assms(2) c_string_append_nul [of msg "[]"] by simp
  have f: "find_sub HEADER_TERMINATOR msg = Some (length msg - length body - 4)"
    and m: "msg = pre @ key @ num @ 13 # mid @ body" "4 \<le> length (13 # mid)"
    using assms(1) by (auto simp: response_ok_def)
  have "drop (length msg - length body) msg = body" by (simp add: m(1))
  moreover have "length msg - length body - 4 + 4 = length msg - length body" using m(2) by (simp add: m(1))
  ultimately have "drop 4 (drop (length msg - length body - 4) msg) = body" by (simp only: drop_drop add.commute)
  then show ?thesis by (simp add: get_response_body_def c strstr_def f)
qed

text \<open>A body that begins with an array or an object is parsed from there.\<close>

lemma strchr_first: "strchr c (c # s) = Some (c # s)"
  by (simp add: strchr_def)

lemma strchr_shorter: "strchr d (c # s) = Some p \<Longrightarrow> d \<noteq> c \<Longrightarrow> length p \<le> length s"
  using length_dropWhile_le [of "\<lambda>b. b \<noteq> d" s] by (cases "dropWhile (\<lambda>b. b \<noteq> d) s") (auto simp: strchr_def)

lemma extract_json:
  assumes "get_response_body s = Inr (c # b)" "c = 123 \<or> c = 91"
  shows "basic_extract_json_response s = Inr (Some (c # b))"
proof -
  show ?thesis
    using assms(2) strchr_shorter [of 91 c b] strchr_shorter [of 123 c b]
    by (fastforce simp: basic_extract_json_response_def assms(1) Let_def strchr_first split: option.split)
qed

lemma json_text_container: "plain (Array es) \<Longrightarrow> json_text F (Array es) = 91 # tl (json_text F (Array es))"
  "json_text F (Object ms) = 123 # tl (json_text F (Object ms))"
  by simp_all

lemma parse_response_dump:
  assumes "get_response_body s = Inr (json_text P v)" "plain v" "(\<exists>es. v = Array es) \<or> (\<exists>ms. v = Object ms)"
  shows "parse_response P s w = (Inr v, w)"
proof -
  have "basic_extract_json_response s = Inr (Some (json_text P v))"
    using assms(1,3) by (elim disjE exE) (simp_all add: extract_json)
  then show ?thesis
    using json_parse_text [OF assms(2), of P True] json_text_c_string [OF assms(2), of P]
    by (simp add: parse_response_def bindM_def pure_step_def json_step_def parse_c_string_def)
qed

section \<open>An answer of the server\<close>

text \<open>
  The server takes the whole request text and answers with a complete response of the given code and
  body, cut into segments in any way; the rest of the stream is \<open>answers\<close>.
\<close>

definition answered :: "world \<Rightarrow> byte list \<Rightarrow> int \<Rightarrow> byte list \<Rightarrow> answer list \<Rightarrow> bool" where
  "answered w text code body answers \<longleftrightarrow>
     (\<exists>ks ws segs pre key num mid.
        writes w = ks @ ws \<and> (\<forall>k \<in> set ks. 0 < k) \<and> sum_list ks = int (length text)
        \<and> conn w = map Data segs @ answers \<and> (\<forall>b \<in> set segs. b \<noteq> [])
        \<and> response_ok (concat segs) pre key num mid body \<and> 0 \<notin> set (concat segs)
        \<and> get_response_code (concat segs) = Inr code \<and> code < 400)"

definition code_line :: "int \<Rightarrow> byte list" where
  "code_line code = str ''Response Code: '' @ dec_int code @ [10]"

lemma exchange_answered:
  assumes "answered w text code body answers" "c_string a = text" "text \<noteq> []"
  shows "\<exists>s ws. get_response_body s = Inr body \<and>
    (\<forall>success. exchange P a success w = success s
      (w\<lparr>writes := ws, sent := sent w @ [text], conn := answers, printed := printed w @ code_line code\<rparr>))"
proof -
  from assms(1) obtain ks ws segs pre key num mid where
    x: "writes w = ks @ ws" "\<forall>k \<in> set ks. 0 < k" "sum_list ks = int (length text)"
      "conn w = map Data segs @ answers" "\<forall>b \<in> set segs. b \<noteq> []"
      "response_ok (concat segs) pre key num mid body" "0 \<notin> set (concat segs)"
      "get_response_code (concat segs) = Inr code" "code < 400"
    unfolding answered_def by (elim exE conjE) (rule that; assumption)
  show ?thesis unfolding code_line_def
    by (intro exI [of _ "concat segs @ [0]"] exI [of _ ws] conjI allI response_body [OF x(6,7)]
        exchange_accepted [OF assms(2,3) x(1-4) refl x(5-9)])
qed

text \<open>The request of a command without a body.\<close>

definition get_request :: "client \<Rightarrow> byte list \<Rightarrow> byte list list" where
  "get_request c url = request_lines (str ''GET '' @ url @ str '' HTTP/1.1'') host (cookies c) (jwt c) [] []"

lemma get_message:
  assumes "client_ok c" "fits BUFLEN [] (get_request c url)" "0 \<notin> set url"
  shows "\<exists>a. compute_get_request host url None (cookie_args c) (jwt c) = Inr a \<and> c_string a = lines (get_request c url)"
proof -
  have c: "no_nul (cookies c)" "no_nul (map_option (\<lambda>x. [x]) (jwt c))" using assms(1) by (simp_all add: client_ok_def)
  have nil: "0 \<notin> set []" "0 \<notin> set (str ''GET '' @ url @ str '' HTTP/1.1'')" using assms(3) by (simp_all add: str_def)
  have "yields (array_of BUFLEN (lines (get_request c url))) (fits BUFLEN [] (get_request c url))
      (compute_get_request host url None (cookies c) (jwt c))"
    unfolding compute_get_request_def Let_def get_request_def option.case
    by (rule yields_request [OF nil(2) requests_no_nul(1) nil(1) c requests_no_nul(3)])
  with assms(1,2) show ?thesis by (auto simp: yields_def cookie_args_ok dest: array_of_string)
qed

lemma request_not_empty: "lines (request_lines first h c a t b) \<noteq> []"
  by (simp add: request_lines_def lines_def CRLF_def)

section \<open>Access to the library\<close>

text \<open>
  C19. A client that is logged in and asks for the library ends with the token of the server's answer, up to its
  first NUL, whatever else the answer has in its object; one request was sent, and nothing else of the
  client's record changes. When the block that \<open>malloc\<close> returns for the token has no byte beyond what was asked for,
  \<open>strcpy\<close> writes behind it instead.
\<close>

theorem library_entered:
  fixes P :: "'f platform"
  assumes "logged_in (me w)" "jwt (me w) = None" "client_ok (me w)"
    and "r = request_lines (str ''GET /api/v1/tema/library/access HTTP/1.1'') host (cookies (me w)) None [] []"
    and "fits BUFLEN [] r" "plain (Object ms)" "map_of ms (str ''token'') = Some (String token)"
    and "answered w (lines r) code (json_text P (Object ms)) answers"
  shows "if room P (c_string token)
    then \<exists>w'. enter_library P w = (Inr (), w') \<and> me w' = (me w)\<lparr>jwt := Some (c_string token)\<rparr>
      \<and> sent w' = sent w @ [lines r] \<and> conn w' = answers
      \<and> printed w' = printed w @ code_line code @ str ''Successfully accessed library!'' @ [10]
    else \<exists>w'. enter_library P w = (Inl (Crash Array_overflow), w') \<and> me w' = me w \<and> sent w' = sent w @ [lines r]"
proof -
  have r: "r = get_request (me w) (str ''/api/v1/tema/library/access'')"
    by (simp add: get_request_def assms(2,4) str_def)
  have nul: "0 \<notin> set (str ''/api/v1/tema/library/access'')" by (simp add: str_def)
  from get_message [OF assms(3) _ nul] assms(5) r obtain a where
    a: "compute_get_request host (str ''/api/v1/tema/library/access'') None (cookie_args (me w)) None = Inr a"
      "c_string a = lines r" by (auto simp: assms(2))
  have "lines r \<noteq> []" unfolding assms(4) by (rule request_not_empty)
  from exchange_answered [OF assms(8) a(2) this, of P] obtain s ws where
    s: "get_response_body s = Inr (json_text P (Object ms))"
      "\<And>success. exchange P a success w = success s
        (w\<lparr>writes := ws, sent := sent w @ [lines r], conn := answers, printed := printed w @ code_line code\<rparr>)"
    by blast
  have ms: "sorted_keys ms" using assms(6) by (simp add: sorted_keys_def)
  have tok: "get_field_string (str ''token'') (Object ms) = Inr (token, Object ms)"
    using object_emplace_present [OF ms assms(7)] assms(7)
    by (simp add: get_field_string_def operator_key_def get_to_string_def)
  have to: "to_cstring P (str ''token'') (Object ms) v =
      (if room P (c_string token) then Inr (c_string token) else Inl (Crash Array_overflow), v)" for v
    by (simp add: to_cstring_def tok runs) (simp add: pure_step_def strcpy_malloc_room)
  have tail: "bindM (to_cstring P (str ''token'') (Object ms)) f v =
      (if room P (c_string token) then f (c_string token) v else (Inl (Crash Array_overflow), v))" for f :: "byte list \<Rightarrow> unit prog" and v
    by (simp add: bindM_def to)
  show ?thesis
    by (simp add: enter_library_def runs assms(1,2) a(1) s(2) bindM_Inr [OF parse_response_dump [OF s(1) assms(6)]] tail)
qed

text \<open>A complete answer with a body, as one segment.\<close>

definition ok_response :: "byte list \<Rightarrow> byte list" where
  "ok_response body = str ''HTTP/1.1 200 OK'' @ CRLF @ str ''Content-Length: '' @ dec (length body) @ CRLF @ CRLF @ body"

lemma answered_ok_response:
  assumes "length body < 100" "0 < length text"
    and "find_sub HEADER_TERMINATOR (ok_response body) = Some (length (ok_response body) - length body - 4)"
    and "find_sub (map tolower CONTENT_LENGTH) (map tolower (ok_response body)) = Some 17"
    and "0 \<notin> set (ok_response body)" "writes w = [int (length text)]" "conn w = Data (ok_response body) # answers"
  shows "answered w text 200 body answers"
proof -
  have len: "length (dec (length body)) \<le> 2" by (rule length_dec_le) (use assms(1) in auto)
  have "response_ok (ok_response body) (str ''HTTP/1.1 200 OK'' @ CRLF) (str ''Content-Length: '') (dec (length body))
      [10, 13, 10] body"
    using assms(1,3,4) len by (simp add: response_ok_def ok_response_def CRLF_def CONTENT_LENGTH_def str_def)
  moreover have "get_response_code (ok_response body) = Inr 200"
    by (rule response_code_200 [OF assms(5)]) (simp add: ok_response_def)
  moreover have ne: "ok_response body \<noteq> []" by (simp add: ok_response_def str_def)
  ultimately have x: "writes w = [int (length text)] @ [] \<and> (\<forall>k \<in> set [int (length text)]. 0 < k)
      \<and> sum_list [int (length text)] = int (length text) \<and> conn w = map Data [ok_response body] @ answers
      \<and> (\<forall>b \<in> set [ok_response body]. b \<noteq> [])
      \<and> response_ok (concat [ok_response body]) (str ''HTTP/1.1 200 OK'' @ CRLF) (str ''Content-Length: '')
          (dec (length body)) [10, 13, 10] body
      \<and> 0 \<notin> set (concat [ok_response body]) \<and> get_response_code (concat [ok_response body]) = Inr 200 \<and> (200::int) < 400"
    using assms(2,5-7) ne by simp
  show ?thesis unfolding answered_def by ((rule exI)+, rule x)
qed

definition token_json :: "int json" where
  "token_json = Object [(str ''token'', String (str ''abc''))]"

lemma token_json_text: "json_text glibc_platform token_json = str ''{\"token\":\"abc\"}''"
  by (simp add: token_json_def quote_def escape_text_def escape_byte_def str_def)

lemma token_response_facts:
  "find_sub HEADER_TERMINATOR (ok_response (str ''{\"token\":\"abc\"}'')) = Some 35"
  "length (ok_response (str ''{\"token\":\"abc\"}'')) = 54"
  "find_sub (map tolower CONTENT_LENGTH) (map tolower (ok_response (str ''{\"token\":\"abc\"}''))) = Some 17"
  "0 \<notin> set (ok_response (str ''{\"token\":\"abc\"}''))"
proof -
  have "dec (length (str ''{\"token\":\"abc\"}'')) = [49, 53]" by code_simp
  then show "find_sub HEADER_TERMINATOR (ok_response (str ''{\"token\":\"abc\"}'')) = Some 35"
  "length (ok_response (str ''{\"token\":\"abc\"}'')) = 54"
  "find_sub (map tolower CONTENT_LENGTH) (map tolower (ok_response (str ''{\"token\":\"abc\"}''))) = Some 17"
  "0 \<notin> set (ok_response (str ''{\"token\":\"abc\"}''))"
    by (simp_all only: ok_response_def) (simp_all add: str_def HEADER_TERMINATOR_def CONTENT_LENGTH_def CRLF_def tolower_def)
qed

definition member_world :: world where
  "member_world = idle_world\<lparr>me := new_client\<lparr>logged_in := True, cookies := Some [str ''s=1''], cookies_length := 1\<rparr>\<rparr>"

lemma member_world_me: "me member_world = new_client\<lparr>logged_in := True, cookies := Some [str ''s=1''], cookies_length := 1\<rparr>"
  by (simp add: member_world_def)

lemma member_client_ok: "client_ok (me member_world)"
  by (simp add: member_world_me client_ok_def new_client_def no_nul_def str_def)

theorem library_entered_witness:
  "\<exists>w w'. me w = me member_world \<and> enter_library glibc_platform w = (Inr (), w')
    \<and> me w' = (me member_world)\<lparr>jwt := Some (str ''abc'')\<rparr> \<and> conn w' = [Data [7]]"
proof -
  let ?r = "request_lines (str ''GET /api/v1/tema/library/access HTTP/1.1'') host (Some [str ''s=1'']) None [] []"
  let ?b = "str ''{\"token\":\"abc\"}''"
  let ?w = "member_world\<lparr>writes := [int (length (lines ?r))], conn := [Data (ok_response ?b), Data [7]]\<rparr>"
  have ms: "json_text glibc_platform (Object [(str ''token'', String (str ''abc''))]) = ?b"
    using token_json_text by (simp add: token_json_def)
  have fit: "fits BUFLEN [] ?r" by code_simp
  have pos: "0 < length (lines ?r)" using request_not_empty by blast
  have ans: "answered ?w (lines ?r) 200 (json_text glibc_platform (Object [(str ''token'', String (str ''abc''))])) [Data [7]]"
    unfolding ms by (rule answered_ok_response) (use pos token_response_facts in \<open>simp_all add: str_def\<close>)
  have "if room glibc_platform (c_string (str ''abc''))
    then \<exists>w'. enter_library glibc_platform ?w = (Inr (), w') \<and> me w' = (me ?w)\<lparr>jwt := Some (c_string (str ''abc''))\<rparr>
      \<and> sent w' = sent ?w @ [lines ?r] \<and> conn w' = [Data [7]]
      \<and> printed w' = printed ?w @ code_line 200 @ str ''Successfully accessed library!'' @ [10]
    else \<exists>w'. enter_library glibc_platform ?w = (Inl (Crash Array_overflow), w') \<and> me w' = me ?w \<and> sent w' = sent ?w @ [lines ?r]"
    by (rule library_entered [where r = ?r and ms = "[(str ''token'', String (str ''abc''))]", OF _ _ _ _ fit _ _ ans])
      (use member_client_ok in \<open>simp_all add: member_world_me new_client_def str_def utf8_valid_def byte_ranges_def\<close>)
  moreover have "c_string (str ''abc'') = str ''abc''" by (simp add: c_string_def str_def)
  moreover have "room glibc_platform (str ''abc'')" by (simp add: room_glibc str_def)
  ultimately show ?thesis by - (rule exI [of _ ?w], auto)
qed

section \<open>Listing the books\<close>

text \<open>The id and the title of an element of the answer, and the line printed for it.\<close>

definition shows_book :: "'f json \<Rightarrow> nat \<times> byte list \<Rightarrow> bool" where
  "shows_book e b \<longleftrightarrow> (\<exists>ms. e = Object ms \<and> map_of ms (str ''id'') = Some (Number_unsigned (of_nat (fst b)))
     \<and> fst b < 2 ^ 31 \<and> map_of ms (str ''title'') = Some (String (snd b)))"

definition book_line :: "nat \<times> byte list \<Rightarrow> byte list" where
  "book_line b = str ''ID: '' @ dec (fst b) @ str '' with title: '' @ c_string (snd b) @ [10]"

lemma member_present:
  assumes "sorted_keys ms" "map_of ms k = Some v"
  shows "operator_key k (Object ms) = Inr (Object ms)" "member k (Object ms) = v"
  using object_emplace_present [OF assms] assms(2) by (simp_all add: operator_key_def)

lemma plain_object_sorted: "plain (Object ms) \<Longrightarrow> sorted_keys ms"
  by (simp add: sorted_keys_def)

lemma get_to_int_small:
  assumes "n < 2 ^ 31"
  shows "get_to_int P (Number_unsigned (of_nat n)) = Inr (int n)"
proof -
  have "ucast (of_nat n :: 64 word) = (of_nat n :: u32)" by (auto intro!: bit_word_eqI simp: bit_ucast_iff bit_of_nat_iff)
  moreover have "sint (of_nat n :: u32) = int n"
  proof -
    have "take_bit 32 n = n" using assms by (simp add: take_bit_nat_eq_self_iff)
    then have "uint (of_nat n :: u32) = int n" by (simp add: unsigned_of_nat)
    then show ?thesis using assms by (simp add: sint_uint signed_take_bit_int_eq_self)
  qed
  ultimately show ?thesis by (simp add: get_to_int_def)
qed

lemma print_books_all:
  assumes "list_all2 shows_book es bs" "list_all (plain) es" "\<forall>k < length is. is ! k = k + d" "length is + d = length es"
  shows "print_books P (Array es) is w
    = (Inr (), w\<lparr>printed := printed w @ concat (map book_line (drop d bs))\<rparr>)"
  using assms(3,4)
proof (induction "is" arbitrary: d w)
  case Nil
  then show ?case using assms(1) by (simp add: return_def list_all2_lengthD)
next
  case (Cons i "is")
  from Cons.prems have i: "i = d" "d < length es" by auto
  have next_indices: "\<forall>k < length is. is ! k = k + Suc d" "length is + Suc d = length es"
    using Cons.prems by auto
  let ?b = "bs ! d"
  have len: "length bs = length es" using assms(1) by (simp add: list_all2_lengthD)
  have "shows_book (es ! d) ?b" using assms(1) i(2) by (rule list_all2_nthD)
  then obtain ms where ms: "es ! d = Object ms" "map_of ms (str ''id'') = Some (Number_unsigned (of_nat (fst ?b)))"
      "fst ?b < 2 ^ 31" "map_of ms (str ''title'') = Some (String (snd ?b))" by (auto simp: shows_book_def)
  have "plain (Object ms)" using assms(2) i(2) ms(1) by (metis list_all_length)
  then have sorted: "sorted_keys ms" by (rule plain_object_sorted)
  have at: "at_index i (Array es) = Inr (Object ms)" using i ms(1) by (simp add: at_index_def)
  have fields: "get_field_string (str ''title'') (Object ms) = Inr (snd ?b, Object ms)"
    "get_field_int P (str ''id'') (Object ms) = Inr (int (fst ?b), Object ms)"
    using member_present [OF sorted ms(4)] member_present [OF sorted ms(2)] get_to_int_small [OF ms(3)]
    by (simp_all add: get_field_string_def get_to_string_def get_field_int_def)
  have "drop d bs = ?b # drop (Suc d) bs" using i(2) len by (simp add: Cons_nth_drop_Suc)
  then show ?case
    using Cons.IH [OF next_indices] by (simp add: at runs fields book_line_def dec_int_def)
qed

lemma plain_elements_all: "plain_elements es \<longleftrightarrow> list_all plain es"
  by (induction es) auto

text \<open>
  C14. A client with access that lists the books prints one line per element of the server's array, in the order
  of the array, with the id and the title up to its first NUL; one request was sent and its record is unchanged.
\<close>

theorem books_listed:
  fixes P :: "'f platform"
  assumes "logged_in (me w)" "jwt (me w) = Some token" "client_ok (me w)"
    and "r = request_lines (str ''GET /api/v1/tema/library/books HTTP/1.1'') host (cookies (me w)) (Some token) [] []"
    and "fits BUFLEN [] r" "plain (Array es)" "list_all2 shows_book es books"
    and "answered w (lines r) code (json_text P (Array es)) answers"
  shows "\<exists>w'. get_books P w = (Inr (), w') \<and> me w' = me w \<and> sent w' = sent w @ [lines r] \<and> conn w' = answers
    \<and> printed w' = printed w @ code_line code @ str ''List of books:'' @ [10] @ concat (map book_line books) @ [10]"
proof -
  have r: "r = get_request (me w) (str ''/api/v1/tema/library/books'')"
    by (simp add: get_request_def assms(2,4) str_def)
  have nul: "0 \<notin> set (str ''/api/v1/tema/library/books'')" by (simp add: str_def)
  from get_message [OF assms(3) _ nul] assms(5) r obtain a where
    a: "compute_get_request host (str ''/api/v1/tema/library/books'') None (cookie_args (me w)) (Some token) = Inr a"
      "c_string a = lines r" by (auto simp: assms(2))
  have "lines r \<noteq> []" unfolding assms(4) by (rule request_not_empty)
  from exchange_answered [OF assms(8) a(2) this, of P] obtain s ws where
    s: "get_response_body s = Inr (json_text P (Array es))"
      "\<And>success. exchange P a success w = success s
        (w\<lparr>writes := ws, sent := sent w @ [lines r], conn := answers, printed := printed w @ code_line code\<rparr>)"
    by blast
  have all: "list_all plain es" using assms(6) by (simp add: plain_elements_all)
  have print: "print_books P (Array es) [0..<length es] v
      = (Inr (), v\<lparr>printed := printed v @ concat (map book_line books)\<rparr>)" for v
    using print_books_all [OF assms(7) all, of "[0..<length es]" 0] by simp
  have verify: "bindM verify_library f w = f True w" for f :: "bool \<Rightarrow> unit prog"
    by (rule bindM_Inr) (simp add: verify_library_def runs assms(1,2) return_def)
  show ?thesis
    by (simp add: get_books_def verify runs assms(2) a(1) s(2)
        bindM_Inr [OF parse_response_dump [OF s(1) assms(6)]] bindM_Inr [OF print])
qed

definition books_json :: "int json" where
  "books_json = Array [Object [(str ''id'', Number_unsigned (of_nat 5)), (str ''title'', String (str ''Ion''))]]"

abbreviation books_text :: "byte list" where
  "books_text \<equiv> str ''[{\"id\":5,\"title\":\"Ion\"}]''"

lemma books_json_text: "json_text glibc_platform books_json = books_text"
  by (simp add: books_json_def quote_def escape_text_def escape_byte_def str_def dec_int_def dec_less_10)

lemma books_response_facts:
  "find_sub HEADER_TERMINATOR (ok_response books_text) = Some 35"
  "length (ok_response books_text) = 63"
  "find_sub (map tolower CONTENT_LENGTH) (map tolower (ok_response books_text)) = Some 17"
  "0 \<notin> set (ok_response books_text)"
proof -
  have "dec (length books_text) = [50, 52]" by code_simp
  then show "find_sub HEADER_TERMINATOR (ok_response books_text) = Some 35"
    "length (ok_response books_text) = 63"
    "find_sub (map tolower CONTENT_LENGTH) (map tolower (ok_response books_text)) = Some 17"
    "0 \<notin> set (ok_response books_text)"
    by (simp_all only: ok_response_def) (simp_all add: str_def HEADER_TERMINATOR_def CONTENT_LENGTH_def CRLF_def tolower_def)
qed

theorem books_listed_witness:
  "\<exists>w w'. get_books glibc_platform w = (Inr (), w') \<and> me w' = (me member_world)\<lparr>jwt := Some (str ''abc'')\<rparr>
    \<and> printed w' = code_line 200 @ str ''List of books:'' @ 10 # str ''ID: 5 with title: Ion'' @ [10, 10]"
proof -
  let ?r = "request_lines (str ''GET /api/v1/tema/library/books HTTP/1.1'') host (Some [str ''s=1'']) (Some (str ''abc'')) [] []"
  let ?w = "member_world\<lparr>me := (me member_world)\<lparr>jwt := Some (str ''abc'')\<rparr>, writes := [int (length (lines ?r))],
    conn := [Data (ok_response books_text)]\<rparr>"
  have fit: "fits BUFLEN [] ?r" by code_simp
  have pos: "0 < length (lines ?r)" using request_not_empty by blast
  have len: "length books_text = 24" by (simp add: str_def)
  have ans: "answered ?w (lines ?r) 200 (json_text glibc_platform books_json) []"
    unfolding books_json_text by (rule answered_ok_response) (use pos books_response_facts in \<open>simp_all add: len\<close>)
  have plain: "plain books_json"
    by (simp add: books_json_def str_def utf8_valid_def byte_ranges_def)
  have ok: "client_ok (me ?w)" using member_client_ok by (simp add: member_world_me client_ok_def no_nul_def str_def)
  have "\<exists>w'. get_books glibc_platform ?w = (Inr (), w') \<and> me w' = me ?w \<and> sent w' = sent ?w @ [lines ?r] \<and> conn w' = []
    \<and> printed w' = printed ?w @ code_line 200 @ str ''List of books:'' @ [10] @ concat (map book_line [(5, str ''Ion'')]) @ [10]"
    by (rule books_listed [where r = ?r and token = "str ''abc''", OF _ _ ok _ fit plain [unfolded books_json_def] _
          ans [unfolded books_json_def]])
      (simp_all add: member_world_me new_client_def shows_book_def str_def)
  moreover have "printed member_world = []" by (simp add: member_world_def idle_world_def)
  moreover have "book_line (5, str ''Ion'') = str ''ID: 5 with title: Ion'' @ [10]"
    by (simp add: book_line_def c_string_def str_def dec_less_10)
  ultimately show ?thesis by - (rule exI [of _ ?w], auto)
qed

section \<open>Adding a book\<close>

lemma answered_typing [simp]: "answered (after_typing n rest p w) text code body answers = answered w text code body answers"
  by (simp add: answered_def)

abbreviation typed_book :: "byte list \<Rightarrow> byte list \<Rightarrow> nat \<Rightarrow> byte list \<Rightarrow> byte list \<Rightarrow> 'f json" where
  "typed_book a g n p t \<equiv> book a g (Number_unsigned (of_nat n)) p t"

lemma typed_book_dump:
  fixes P :: "'f platform"
  assumes "list_all utf8_valid [t, a, g, p]" "n < 2 ^ 31"
  shows "dump_default P (book a g (Number_integer (word_of_int (int n))) p t) = Inr (json_text P (typed_book a g n p t))"
    and "plain (typed_book a g n p t :: 'f json)"
proof -
  have n: "take_bit 64 n = n" using assms(2) by (simp add: take_bit_nat_eq_self_iff)
  have "sint (word_of_int (int n) :: 64 word) = int n" by (rule sint_64) (use assms(2) in auto)
  moreover have "uint (of_nat n :: 64 word) = int n" using n by (simp add: unsigned_of_nat)
  ultimately have t: "json_text P (book a g (Number_integer (word_of_int (int n))) p t) = json_text P (typed_book a g n p t)"
    by (simp add: book_def)
  have "json_utf8 (book a g (Number_integer (word_of_int (int n))) p t :: 'f json)"
    using assms(1) by (simp add: book_def str_def utf8_valid_def byte_ranges_def)
  then show "dump_default P (book a g (Number_integer (word_of_int (int n))) p t) = Inr (json_text P (typed_book a g n p t))"
    using dump_default_cases [of "book a g (Number_integer (word_of_int (int n))) p t" P] t by simp
  show "plain (typed_book a g n p t :: 'f json)"
    using assms(1) by (simp add: book_def str_def utf8_valid_def byte_ranges_def)
qed

text \<open>
  C13. A client with access that adds a book sends what was typed: the body of its one request is a JSON text that
  parses to the object with the five members, the number of pages as a number; the answer is reported and the
  client's record is unchanged. When the block that \<open>malloc\<close> returns for the body has no byte beyond what was asked
  for, \<open>strcpy\<close> writes behind it instead, before anything is sent.
\<close>

theorem book_added:
  fixes P :: "'f platform"
  assumes "logged_in (me w)" "jwt (me w) = Some token" "client_ok (me w)"
    and "list_all typed_line [t, a, g, p]" "list_all utf8_valid [t, a, g, p]" "n < 2 ^ 31"
    and "stdin w = t @ 10 # a @ 10 # g @ 10 # p @ 10 # dec n @ 10 # rest"
    and "body = json_text P (typed_book a g n p t)"
    and "r = request_lines (str ''POST /api/v1/tema/library/books HTTP/1.1'') host (cookies (me w)) (Some token)
      json_payload [body]"
    and "fits BUFLEN [] r" "answered w (lines r) code answer answers"
  shows "parse_c_string P body = Inr (Object [(str ''author'', String a), (str ''genre'', String g),
        (str ''page_count'', Number_unsigned (of_nat n)), (str ''publisher'', String p), (str ''title'', String t)])
    \<and> (if room P body
       then \<exists>w'. add_book P w = (Inr (), w') \<and> me w' = me w \<and> stdin w' = rest \<and> sent w' = sent w @ [lines r]
         \<and> conn w' = answers \<and> printed w' = printed w @ str ''title=author=genre=publisher=page_count='' @ code_line code
             @ str ''Successfully added book!'' @ [10]
       else \<exists>w'. add_book P w = (Inl (Crash Array_overflow), w') \<and> me w' = me w \<and> sent w' = sent w)"
proof
  note dump = typed_book_dump(1) [OF assms(5,6), of P] typed_book_dump(2) [OF assms(5,6), where 'f = 'f]
  show "parse_c_string P body = Inr (Object [(str ''author'', String a), (str ''genre'', String g),
      (str ''page_count'', Number_unsigned (of_nat n)), (str ''publisher'', String p), (str ''title'', String t)])"
    using json_parse_text [OF dump(2), of P True] json_text_c_string [OF dump(2), of P]
    by (simp add: assms(8) parse_c_string_def book_def)
  let ?v = "after_typing 5 rest (str ''title=author=genre=publisher=page_count='') w"
  let ?j = "book a g (Number_integer (word_of_int (int n))) p t :: 'f json"
  have url: "str ''POST /api/v1/tema/library/books HTTP/1.1'' = str ''POST '' @ str ''/api/v1/tema/library/books'' @ str '' HTTP/1.1''"
    "0 \<notin> set (str ''/api/v1/tema/library/books'')" by (simp_all add: str_def)
  have r: "r = request_lines (str ''POST '' @ str ''/api/v1/tema/library/books'' @ str '' HTTP/1.1'') host (cookies (me w)) (jwt (me w))
      json_payload [json_text P (typed_book a g n p t)]"
    by (simp only: assms(2,8,9) url(1))
  from post_message [OF assms(3) assms(10) [unfolded r] url(2) dump(2)] obtain m where
    m: "compute_post_request host (str ''/api/v1/tema/library/books'') json_payload [json_text P (typed_book a g n p t)]
        (cookie_args (me w)) (Some token) = Inr m" "c_string m = lines r" by (auto simp: r assms(2))
  have "lines r \<noteq> []" unfolding assms(9) by (rule request_not_empty)
  from exchange_answered [OF _ m(2) this, of ?v code answer answers P] assms(11) obtain s ws where
    s: "\<And>success. exchange P m success ?v = success s
        (?v\<lparr>writes := ws, sent := sent ?v @ [lines r], conn := answers, printed := printed ?v @ code_line code\<rparr>)"
    by auto
  have verify: "bindM verify_library f w = f True w" for f :: "bool \<Rightarrow> unit prog"
    by (rule bindM_Inr) (simp add: verify_library_def runs assms(1,2) return_def)
  have copy: "strcpy_malloc P (json_text P (typed_book a g n p t)) = (if room P body then Inr body else Inl Array_overflow)"
    by (simp only: strcpy_malloc_room json_text_c_string [OF dump(2)] assms(8))
  have "dump_data P ?j u = (if room P body then Inr body else Inl (Crash Array_overflow), u)" for u
    by (simp only: dump_data_def dump(1) runs copy) (simp add: pure_step_def)
  then have data: "bindM (dump_data P ?j) f u = (if room P body then f body u else (Inl (Crash Array_overflow), u))"
    for f :: "byte list \<Rightarrow> unit prog" and u by (simp add: bindM_def)
  have ask: "bindM ask_add_book f w = f ?j ?v" for f :: "'f json \<Rightarrow> unit prog"
    by (rule bindM_Inr) (rule ask_add_book_reads [OF assms(4,6,7)])
  have eq: "json_eq P ?j json_NULL = False" by (simp add: book_def json_NULL_def)
  have m': "compute_post_request host (str ''/api/v1/tema/library/books'') json_payload [body] (cookie_args (me w)) (Some token) = Inr m"
    using m(1) by (simp only: assms(8))
  show "if room P body
       then \<exists>w'. add_book P w = (Inr (), w') \<and> me w' = me w \<and> stdin w' = rest \<and> sent w' = sent w @ [lines r]
         \<and> conn w' = answers \<and> printed w' = printed w @ str ''title=author=genre=publisher=page_count='' @ code_line code
             @ str ''Successfully added book!'' @ [10]
       else \<exists>w'. add_book P w = (Inl (Crash Array_overflow), w') \<and> me w' = me w \<and> sent w' = sent w"
    unfolding add_book_def verify not_True_eq_False if_False ask eq data
    by (simp add: runs m' s assms(2))
qed

theorem book_added_witness:
  "\<exists>w w' body. parse_c_string glibc_platform body = Inr (Object [(str ''author'', String (str ''B'')),
        (str ''genre'', String (str ''C'')), (str ''page_count'', Number_unsigned (of_nat 7)),
        (str ''publisher'', String (str ''D'')), (str ''title'', String (str ''A''))])
    \<and> add_book glibc_platform w = (Inr (), w') \<and> length (sent w') = 1 \<and> stdin w' = []
    \<and> printed w' = str ''title=author=genre=publisher=page_count='' @ code_line 200 @ str ''Successfully added book!'' @ [10]"
proof -
  let ?body = "json_text glibc_platform (typed_book (str ''B'') (str ''C'') 7 (str ''D'') (str ''A''))"
  let ?r = "request_lines (str ''POST /api/v1/tema/library/books HTTP/1.1'') host (Some [str ''s=1'']) (Some (str ''abc''))
      json_payload [?body]"
  let ?typed = "str ''A'' @ 10 # str ''B'' @ 10 # str ''C'' @ 10 # str ''D'' @ 10 # dec 7 @ 10 # []"
  let ?w = "member_world\<lparr>me := (me member_world)\<lparr>jwt := Some (str ''abc'')\<rparr>, writes := [int (length (lines ?r))],
    stdin := ?typed, conn := [Data (ok_response books_text)]\<rparr>"
  have body: "?body = str ''{\"author\":\"B\",\"genre\":\"C\",\"page_count\":7,\"publisher\":\"D\",\"title\":\"A\"}''"
    by (simp add: book_def quote_def escape_text_def escape_byte_def str_def dec_int_def dec_less_10)
  have fit: "fits BUFLEN [] ?r" unfolding body by code_simp
  have pos: "0 < length (lines ?r)" using request_not_empty by blast
  have len: "length books_text = 24" by (simp add: str_def)
  have ans: "answered ?w (lines ?r) 200 books_text []"
    by (rule answered_ok_response) (use pos books_response_facts in \<open>simp_all add: len\<close>)
  have ok: "client_ok (me ?w)" using member_client_ok by (simp add: member_world_me client_ok_def no_nul_def str_def)
  have l: "list_all typed_line [str ''A'', str ''B'', str ''C'', str ''D'']"
    "list_all utf8_valid [str ''A'', str ''B'', str ''C'', str ''D'']"
    by (simp_all add: typed_line_def DATA_FIELD_LENGTH_def str_def utf8_valid_def byte_ranges_def)
  have "parse_c_string glibc_platform ?body = Inr (Object [(str ''author'', String (str ''B'')),
        (str ''genre'', String (str ''C'')), (str ''page_count'', Number_unsigned (of_nat 7)),
        (str ''publisher'', String (str ''D'')), (str ''title'', String (str ''A''))])
    \<and> (if room glibc_platform ?body
       then \<exists>w'. add_book glibc_platform ?w = (Inr (), w') \<and> me w' = me ?w \<and> stdin w' = [] \<and> sent w' = sent ?w @ [lines ?r]
         \<and> conn w' = [] \<and> printed w' = printed ?w @ str ''title=author=genre=publisher=page_count='' @ code_line 200
             @ str ''Successfully added book!'' @ [10]
       else \<exists>w'. add_book glibc_platform ?w = (Inl (Crash Array_overflow), w') \<and> me w' = me ?w \<and> sent w' = sent ?w)"
    by (rule book_added [where r = ?r and token = "str ''abc''", OF _ _ ok l _ _ refl _ fit ans])
      (simp_all add: member_world_me new_client_def)
  moreover have "room glibc_platform ?body" unfolding body by (simp add: room_glibc str_def)
  moreover have "printed member_world = []" "sent member_world = []" by (simp_all add: member_world_def idle_world_def)
  ultimately show ?thesis by - (rule exI [of _ ?w], auto)
qed

end
