(* ===== verification/Json_Binary.thy ===== *)
theory Json_Binary
  imports Json_Access
begin

text \<open>
  What the binary formats share: the utility functions of \<open>detail/output/binary_writer.hpp\<close> and
  \<open>detail/input/binary_reader.hpp\<close>, on a host with little-endian integers, and the events with a
  length of \<open>json_sax_dom_parser\<close>. What is written is a list of bytes; the reader has the bytes
  that are left and the last character, which is \<open>None\<close> at the end of the input. The number of
  characters read is a natural number: the input is shorter than \<open>2^64\<close>.
\<close>

section \<open>Integers as bytes\<close>

text \<open>\<open>memcpy\<close> of an integer to an array of bytes, and back.\<close>

definition word_bytes :: "'a::len word \<Rightarrow> byte list" where
  "word_bytes n = map (\<lambda>i. ucast (drop_bit (8 * i) n)) [0..<LENGTH('a) div 8]"

fun word_of_bytes :: "byte list \<Rightarrow> 'a::len word" where
  "word_of_bytes [] = 0"
| "word_of_bytes (b # bs) = or (ucast b) (push_bit 8 (word_of_bytes bs))"

definition write_number :: "bool \<Rightarrow> 'a::len word \<Rightarrow> byte list" where
  "write_number little n = (if little then word_bytes n else rev (word_bytes n))"

lemma bit_word_of_bytes:
  "bit (word_of_bytes bs :: 'a::len word) i
     \<longleftrightarrow> i < LENGTH('a) \<and> i div 8 < length bs \<and> bit (bs ! (i div 8)) (i mod 8)"
proof (induction bs arbitrary: i)
  case (Cons b bs)
  show ?case
  proof (cases "i < 8")
    case True
    then show ?thesis by (auto simp: bit_or_iff bit_ucast_iff bit_push_bit_iff)
  next
    case False
    then have i: "i div 8 = Suc ((i - 8) div 8)" "(i - 8) mod 8 = i mod 8"
      by (simp_all add: le_div_geq le_mod_geq)
    have "\<not> bit b i" using False bit_imp_le_length [of b i] by auto
    with False show ?thesis
      by (auto simp: bit_or_iff bit_ucast_iff bit_push_bit_iff Cons.IH i)
  qed
qed simp

lemma word_of_word_bytes [simp]:
  assumes "8 dvd LENGTH('a)"
  shows "word_of_bytes (word_bytes n) = (n :: 'a::len word)"
proof (rule bit_word_eqI)
  fix i assume i: "i < LENGTH('a)"
  then have d: "i div 8 < LENGTH('a) div 8" using assms by (elim dvdE) (simp add: less_mult_imp_div_less mult.commute)
  have "8 * (i div 8) + i mod 8 = i" by simp
  then show "bit (word_of_bytes (word_bytes n) :: 'a word) i = bit n i"
    using i d by (simp add: bit_word_of_bytes word_bytes_def bit_ucast_iff bit_drop_bit_eq)
qed

lemma length_word_bytes [simp]: "length (word_bytes (n :: 'a::len word)) = LENGTH('a) div 8"
  by (simp add: word_bytes_def)

lemma length_write_number [simp]: "length (write_number little (n :: 'a::len word)) = LENGTH('a) div 8"
  by (simp add: write_number_def)

lemma write_number_byte [simp]: "write_number little (b :: 8 word) = [b]"
  by (simp add: write_number_def word_bytes_def)

section \<open>Floating point numbers\<close>

text \<open>
  What the formats use of \<open>double\<close> beside \<open>float_ops\<close>: the tests on it, the bits of the number and of
  its conversion to \<open>float\<close>, the numbers with given bits, and \<open>ldexp\<close>. The test \<open>fits_float\<close> is the
  condition of \<open>write_compact_float\<close>: the number lies between the extreme values of \<open>float\<close>
  and equals its conversion.
\<close>

record 'f image_ops = "'f float_ops" +
  is_nan :: "'f \<Rightarrow> bool"
  is_inf :: "'f \<Rightarrow> bool"
  is_positive :: "'f \<Rightarrow> bool"
  fits_float :: "'f \<Rightarrow> bool"
  float_image :: "'f \<Rightarrow> 32 word"
  double_image :: "'f \<Rightarrow> 64 word"
  of_float_image :: "32 word \<Rightarrow> 'f"
  of_double_image :: "64 word \<Rightarrow> 'f"
  ldexp :: "int \<Rightarrow> int \<Rightarrow> 'f"
  infinity :: 'f
  quiet_nan :: 'f
  negate :: "'f \<Rightarrow> 'f"

text \<open>
  An instance with whole numbers, for evaluating the model: the image of a number is the number in two's
  complement, and the numbers of at most 24 bits fit a \<open>float\<close>.
\<close>

definition whole_images :: "int image_ops" where
  "whole_images = float_ops.extend whole_floats
     \<lparr>is_nan = (\<lambda>_. False), is_inf = (\<lambda>_. False), is_positive = (\<lambda>x. 0 < x), fits_float = (\<lambda>x. \<bar>x\<bar> \<le> 2 ^ 24),
      float_image = word_of_int, double_image = word_of_int, of_float_image = sint, of_double_image = sint,
      ldexp = (\<lambda>m e. if 0 \<le> e then m * 2 ^ nat e else m div 2 ^ nat (- e)), infinity = 2 ^ 63, quiet_nan = 0, negate = uminus\<rparr>"

definition write_compact_float :: "byte \<Rightarrow> byte \<Rightarrow> ('f, 'z) image_ops_scheme \<Rightarrow> 'f \<Rightarrow> byte list" where
  "write_compact_float float_prefix double_prefix F n =
     (if fits_float F n then float_prefix # write_number False (float_image F n)
      else double_prefix # write_number False (double_image F n))"

section \<open>The reader\<close>

datatype input_format_t = F_json | F_cbor | F_msgpack | F_ubjson | F_bson | F_bjdata

record 'f binary_reader =
  br_input :: "byte list"
  br_current :: "byte option"
  br_chars_read :: nat
  br_sax :: "'f dom"

text \<open>A function that answers false has the result \<open>None\<close>; \<open>and_then\<close> is its \<open>&&\<close>.\<close>

type_synonym ('a, 'f) reading = "stop + 'a option \<times> 'f binary_reader"

definition and_then ::
  "('a, 'f) reading \<Rightarrow> ('a \<Rightarrow> 'f binary_reader \<Rightarrow> ('b, 'f) reading) \<Rightarrow> ('b, 'f) reading" where
  "and_then m f = bindE m (\<lambda>(x, s). case x of None \<Rightarrow> Inr (None, s) | Some a \<Rightarrow> f a s)"

lemma and_then_cong [fundef_cong]:
  "m = m' \<Longrightarrow> (\<And>a s. m' = Inr (Some a, s) \<Longrightarrow> f a s = g a s) \<Longrightarrow> and_then m f = and_then m' g"
  by (cases m') (auto simp: and_then_def split: option.split)

lemma and_then_simps [simp]:
  "and_then (Inr (Some a, s)) f = f a s" "and_then (Inr (None, s)) f = Inr (None, s)" "and_then (Inl e) f = Inl e"
  by (simp_all add: and_then_def)

lemma and_then_Some:
  "and_then m f = Inr (Some b, s') \<longleftrightarrow> (\<exists>a s. m = Inr (Some a, s) \<and> f a s = Inr (Some b, s'))"
  by (cases m) (auto simp: and_then_def split: option.splits)

definition on_reader :: "('f dom \<Rightarrow> stop + 'f dom) \<Rightarrow> 'f binary_reader \<Rightarrow> (unit, 'f) reading" where
  "on_reader f s = bindE (f (br_sax s)) (\<lambda>d. Inr (Some (), s\<lparr>br_sax := d\<rparr>))"

definition reader_error :: "json_exception \<Rightarrow> 'f binary_reader \<Rightarrow> ('a, 'f) reading" where
  "reader_error ex s = bindE (sax_parse_error ex (br_sax s)) (\<lambda>d. Inr (None, s\<lparr>br_sax := d\<rparr>))"

definition read_next :: "'f binary_reader \<Rightarrow> 'f binary_reader" where
  "read_next s =
     (case br_input s of
        [] \<Rightarrow> s\<lparr>br_current := None, br_chars_read := br_chars_read s + 1\<rparr>
      | b # bs \<Rightarrow> s\<lparr>br_input := bs, br_current := Some b, br_chars_read := br_chars_read s + 1\<rparr>)"

text \<open>The texts of the errors; \<open>json\<close> is no binary format.\<close>

fun format_name :: "input_format_t \<Rightarrow> byte list" where
  "format_name F_cbor = str ''CBOR''"
| "format_name F_msgpack = str ''MessagePack''"
| "format_name F_ubjson = str ''UBJSON''"
| "format_name F_bson = str ''BSON''"
| "format_name F_bjdata = str ''BJData''"
| "format_name F_json = []"

definition binary_message :: "input_format_t \<Rightarrow> byte list \<Rightarrow> string \<Rightarrow> byte list" where
  "binary_message format detail context =
     str ''syntax error while parsing '' @ format_name format @ str '' '' @ str context @ str '': '' @ detail"

text \<open>\<open>get_token_string\<close>: the last byte with two hexadecimal digits (EOF, -1, is \<open>FF\<close>).\<close>

definition byte_token :: "'f binary_reader \<Rightarrow> byte list" where
  "byte_token s = hex_bytes (case br_current s of None \<Rightarrow> 0xFF | Some b \<Rightarrow> b)"

definition unexpect_eof :: "input_format_t \<Rightarrow> string \<Rightarrow> 'f binary_reader \<Rightarrow> (unit, 'f) reading" where
  "unexpect_eof format context s =
     (if br_current s = None
      then reader_error (parse_error_byte 110 (br_chars_read s)
             (binary_message format (str ''unexpected end of input'') context)) s
      else Inr (Some (), s))"

definition invalid_byte :: "nat \<Rightarrow> input_format_t \<Rightarrow> string \<Rightarrow> string \<Rightarrow> 'f binary_reader \<Rightarrow> ('a, 'f) reading" where
  "invalid_byte eid format detail context s =
     reader_error (parse_error_byte eid (br_chars_read s)
       (binary_message format (str detail @ byte_token s) context)) s"

text \<open>Reading bytes into an array, each at the place the byte order asks for, and the integer in it.\<close>

fun get_vec :: "input_format_t \<Rightarrow> bool \<Rightarrow> nat \<Rightarrow> nat \<Rightarrow> byte list \<Rightarrow> 'f binary_reader \<Rightarrow> (byte list, 'f) reading" where
  "get_vec format little i 0 vec s = Inr (Some vec, s)"
| "get_vec format little i (Suc n) vec s =
     and_then (unexpect_eof format ''number'' (read_next s)) (\<lambda>_ s.
       get_vec format little (i + 1) n
         (vec[if little then i else length vec - i - 1 := the (br_current s)]) s)"

definition get_number :: "input_format_t \<Rightarrow> bool \<Rightarrow> 'f binary_reader \<Rightarrow> ('a::len word, 'f) reading" where
  "get_number format input_is_little_endian s =
     and_then (get_vec format (input_is_little_endian \<or> format = F_bjdata) 0 (LENGTH('a) div 8)
         (replicate (LENGTH('a) div 8) 0) s) (\<lambda>vec s. Inr (Some (word_of_bytes vec), s))"

text \<open>\<open>get_string\<close> and \<open>get_binary\<close>, which differ in the context of the error.\<close>

fun get_bytes :: "input_format_t \<Rightarrow> string \<Rightarrow> nat \<Rightarrow> byte list \<Rightarrow> 'f binary_reader \<Rightarrow> (byte list, 'f) reading" where
  "get_bytes format context 0 result s = Inr (Some result, s)"
| "get_bytes format context (Suc n) result s =
     and_then (unexpect_eof format context (read_next s)) (\<lambda>_ s.
       get_bytes format context n (result @ [the (br_current s)]) s)"

definition get_string :: "input_format_t \<Rightarrow> nat \<Rightarrow> 'f binary_reader \<Rightarrow> (byte list, 'f) reading" where
  "get_string format len = get_bytes format ''string'' len []"

definition get_binary :: "input_format_t \<Rightarrow> nat \<Rightarrow> 'f binary_reader \<Rightarrow> (byte list, 'f) reading" where
  "get_binary format len = get_bytes format ''binary'' len []"

text \<open>Reading never adds to the input, and a character that is read is taken from it.\<close>

definition left :: "'f binary_reader \<Rightarrow> nat" where
  "left s = length (br_input s)"

lemma left_read_next [simp]: "left (read_next s) \<le> left s"
  by (simp add: left_def read_next_def split: list.split)

lemma left_read_next_less: "br_current (read_next s) \<noteq> None \<Longrightarrow> left (read_next s) < left s"
  by (simp add: left_def read_next_def split: list.splits)

lemma left_sax [simp]: "left (s\<lparr>br_sax := d\<rparr>) = left s"
  by (simp add: left_def)

lemma reader_error_Some [simp]: "reader_error ex s \<noteq> Inr (Some a, s')"
  by (cases "sax_parse_error ex (br_sax s)") (auto simp: reader_error_def)

lemma invalid_byte_Some [simp]: "invalid_byte eid f d c s \<noteq> Inr (Some a, s')"
  by (simp add: invalid_byte_def)

lemma unexpect_eof_Some: "unexpect_eof f c s = Inr (Some u, s') \<longleftrightarrow> s' = s \<and> br_current s \<noteq> None"
  by (auto simp: unexpect_eof_def)

definition shrinks :: "('a, 'f) reading \<Rightarrow> 'f binary_reader \<Rightarrow> bool" where
  "shrinks r s \<longleftrightarrow> (\<forall>x s'. r = Inr (x, s') \<longrightarrow> left s' \<le> left s)"

named_theorems shrinking \<open>readers that do not add to the input\<close>

lemma shrinksD: "shrinks r s \<Longrightarrow> r = Inr (x, s') \<Longrightarrow> left s' \<le> left s"
  by (simp add: shrinks_def)

lemma shrinks_Inr [shrinking]: "shrinks (Inr (x, s)) s"
  and shrinks_reader_error [shrinking]: "shrinks (reader_error ex s) s"
  and shrinks_invalid_byte [shrinking]: "shrinks (invalid_byte eid f d c s) s"
  and shrinks_unexpect_eof [shrinking]: "shrinks (unexpect_eof f c s) s"
  and shrinks_on_reader [shrinking]: "shrinks (on_reader e s) s"
  by (auto simp: shrinks_def reader_error_def invalid_byte_def unexpect_eof_def on_reader_def)

lemma shrinks_read_next: "shrinks r (read_next s) \<Longrightarrow> shrinks r s"
  unfolding shrinks_def using left_read_next le_trans by blast

lemma shrinks_bind [shrinking]:
  assumes "shrinks m s" "\<And>x s1. m = Inr (x, s1) \<Longrightarrow> shrinks (f x s1) s1"
  shows "shrinks (bindE m (\<lambda>(x, s). f x s)) s"
proof (cases m)
  case (Inr p)
  obtain x s1 where p: "p = (x, s1)" by (cases p)
  then have "left s1 \<le> left s" "shrinks (f x s1) s1" using assms Inr by (auto dest: shrinksD)
  then show ?thesis by (auto simp: Inr p shrinks_def intro: le_trans)
qed (simp add: shrinks_def)

lemma shrinks_and_then [shrinking]:
  assumes "shrinks m s" "\<And>a s1. m = Inr (Some a, s1) \<Longrightarrow> shrinks (f a s1) s1"
  shows "shrinks (and_then m f) s"
  unfolding and_then_def by (rule shrinks_bind [OF assms(1)]) (auto split: option.split intro: shrinking assms(2))

lemma shrinks_if [shrinking]: "(b \<Longrightarrow> shrinks r s) \<Longrightarrow> (\<not> b \<Longrightarrow> shrinks r' s) \<Longrightarrow> shrinks (if b then r else r') s"
  by simp

lemma shrinks_option [shrinking]:
  "(x = None \<Longrightarrow> shrinks r s) \<Longrightarrow> (\<And>a. x = Some a \<Longrightarrow> shrinks (f a) s) \<Longrightarrow>
   shrinks (case x of None \<Rightarrow> r | Some a \<Rightarrow> f a) s"
  by (cases x) simp_all

lemma shrinks_pair [shrinking]: "(\<And>a b. x = (a, b) \<Longrightarrow> shrinks (f a b s) s) \<Longrightarrow> shrinks ((case x of (a, b) \<Rightarrow> f a b) s) s"
  by (cases x) simp

lemma shrinks_get_vec [shrinking]: "shrinks (get_vec f l i n vec s) s"
proof (induction n arbitrary: i vec s)
  case (Suc n)
  show ?case unfolding get_vec.simps
    by (rule shrinks_read_next) (intro shrinking Suc.IH)
qed (simp add: shrinking)

lemma shrinks_get_number [shrinking]: "shrinks (get_number f l s) s"
  unfolding get_number_def by (intro shrinking)

lemma shrinks_get_bytes [shrinking]: "shrinks (get_bytes f c n r s) s"
proof (induction n arbitrary: r s)
  case (Suc n)
  show ?case unfolding get_bytes.simps
    by (rule shrinks_read_next) (intro shrinking Suc.IH)
qed (simp add: shrinking)

section \<open>The end of the input\<close>

text \<open>The rest of \<open>sax_parse\<close>: in strict mode the value has to be followed by the end of the input.\<close>

definition end_of_value :: "input_format_t \<Rightarrow> bool \<Rightarrow> (unit, 'f) reading \<Rightarrow> (unit, 'f) reading" where
  "end_of_value format strict result =
     and_then result (\<lambda>_ s.
       if strict then
         let s = read_next s in
         if br_current s \<noteq> None
         then invalid_byte 110 format ''expected end of input; last byte: 0x'' ''value'' s
         else Inr (Some (), s)
       else Inr (Some (), s))"

section \<open>Events with a length\<close>

text \<open>
  \<open>start_array\<close> and \<open>start_object\<close>: a length that is not \<open>-1\<close> and is greater than a container can be
  is an error. A node of \<open>std::map<string, basic_json>\<close> takes 80 bytes.
\<close>

definition map_max_size :: nat where
  "map_max_size = (2 ^ 63 - 1) div 80"

definition start_array_len :: "64 word \<Rightarrow> 'f dom \<Rightarrow> stop + 'f dom" where
  "start_array_len len d =
     bindE (start_array d) (\<lambda>d.
       if len \<noteq> - 1 \<and> unat len > vector_max_size
       then Inl (Throw (out_of_range_create 408 (str ''excessive array size: '' @ dec (unat len))))
       else Inr d)"

definition start_object_len :: "64 word \<Rightarrow> 'f dom \<Rightarrow> stop + 'f dom" where
  "start_object_len len d =
     bindE (start_object d) (\<lambda>d.
       if len \<noteq> - 1 \<and> unat len > map_max_size
       then Inl (Throw (out_of_range_create 408 (str ''excessive object size: '' @ dec (unat len))))
       else Inr d)"

section \<open>Creating a reader\<close>

definition reader_init :: "byte list \<Rightarrow> bool \<Rightarrow> 'f binary_reader" where
  "reader_init input allow =
     \<lparr>br_input = input, br_current = None, br_chars_read = 0, br_sax = dom_init allow\<rparr>"

text \<open>What \<open>from_cbor\<close> and \<open>from_msgpack\<close> do with the result.\<close>

definition finished :: "(unit, 'f) reading \<Rightarrow> stop + 'f json" where
  "finished result = bindE result (\<lambda>(res, s). Inr (case res of None \<Rightarrow> Discarded | Some _ \<Rightarrow> root (br_sax s)))"

end
