(* ===== verification/Json_Cbor.thy ===== *)
theory Json_Cbor
  imports Json_Binary
begin

text \<open>
  CBOR: \<open>write_cbor\<close> of \<open>detail/output/binary_writer.hpp\<close>, \<open>parse_cbor_internal\<close> and the functions it
  calls of \<open>detail/input/binary_reader.hpp\<close>, and \<open>to_cbor\<close> and \<open>from_cbor\<close> of \<open>json.hpp\<close>.
\<close>

section \<open>Writing\<close>

text \<open>The control byte and a number or a length: the cases differ in the first byte \<open>base\<close> only.\<close>

definition write_cbor_head :: "byte \<Rightarrow> nat \<Rightarrow> byte list" where
  "write_cbor_head base n =
     (if n \<le> 0x17 then write_number False (of_nat (unat base + n) :: 8 word)
      else if n \<le> 0xFF then (base + 0x18) # write_number False (of_nat n :: 8 word)
      else if n \<le> 0xFFFF then (base + 0x19) # write_number False (of_nat n :: 16 word)
      else if n \<le> 0xFFFFFFFF then (base + 0x1A) # write_number False (of_nat n :: 32 word)
      else (base + 0x1B) # write_number False (of_nat n :: 64 word))"

definition write_cbor_integer :: "64 word \<Rightarrow> byte list" where
  "write_cbor_integer x =
     (if 0 \<le> sint x then write_cbor_head 0x00 (nat (sint x))
      else
        let positive_number = - 1 - sint x in
        if - 24 \<le> sint x then write_number False (word_of_int (0x20 + positive_number) :: 8 word)
        else if positive_number \<le> 0xFF then 0x38 # write_number False (word_of_int positive_number :: 8 word)
        else if positive_number \<le> 0xFFFF then 0x39 # write_number False (word_of_int positive_number :: 16 word)
        else if positive_number \<le> 0xFFFFFFFF then 0x3A # write_number False (word_of_int positive_number :: 32 word)
        else 0x3B # write_number False (word_of_int positive_number :: 64 word))"

definition write_cbor_float :: "('f, 'z) image_ops_scheme \<Rightarrow> 'f \<Rightarrow> byte list" where
  "write_cbor_float F x =
     (if is_nan F x then [0xF9, 0x7E, 0x00]
      else if is_inf F x then [0xF9, if is_positive F x then 0x7C else 0xFC, 0x00]
      else write_compact_float 0xFA 0xFB F x)"

definition write_cbor_subtype :: "64 word \<Rightarrow> byte list" where
  "write_cbor_subtype st =
     (if st \<le> 0xFF then write_number False (0xD8 :: 8 word) @ write_number False (ucast st :: 8 word)
      else if st \<le> 0xFFFF then write_number False (0xD9 :: 8 word) @ write_number False (ucast st :: 16 word)
      else if st \<le> 0xFFFFFFFF then write_number False (0xDA :: 8 word) @ write_number False (ucast st :: 32 word)
      else write_number False (0xDB :: 8 word) @ write_number False st)"

definition write_cbor_string :: "byte list \<Rightarrow> byte list" where
  "write_cbor_string s = write_cbor_head 0x60 (length s) @ s"

definition write_cbor_binary :: "byte list \<Rightarrow> 64 word option \<Rightarrow> byte list" where
  "write_cbor_binary b st =
     (case st of None \<Rightarrow> [] | Some t \<Rightarrow> write_cbor_subtype t) @ write_cbor_head 0x40 (length b) @ b"

fun write_cbor :: "('f, 'z) image_ops_scheme \<Rightarrow> 'f json \<Rightarrow> byte list"
and write_cbor_elements :: "('f, 'z) image_ops_scheme \<Rightarrow> 'f json list \<Rightarrow> byte list"
and write_cbor_members :: "('f, 'z) image_ops_scheme \<Rightarrow> (byte list \<times> 'f json) list \<Rightarrow> byte list" where
  "write_cbor F Null = [0xF6]"
| "write_cbor F (Boolean b) = [if b then 0xF5 else 0xF4]"
| "write_cbor F (Number_integer x) = write_cbor_integer x"
| "write_cbor F (Number_unsigned x) = write_cbor_head 0x00 (unat x)"
| "write_cbor F (Number_float x) = write_cbor_float F x"
| "write_cbor F (String s) = write_cbor_string s"
| "write_cbor F (Array xs) = write_cbor_head 0x80 (length xs) @ write_cbor_elements F xs"
| "write_cbor F (Binary b st) = write_cbor_binary b st"
| "write_cbor F (Object ms) = write_cbor_head 0xA0 (length ms) @ write_cbor_members F ms"
| "write_cbor F Discarded = []"
| "write_cbor_elements F [] = []"
| "write_cbor_elements F (v # xs) = write_cbor F v @ write_cbor_elements F xs"
| "write_cbor_members F [] = []"
| "write_cbor_members F ((k, v) # ms) = write_cbor_string k @ write_cbor F v @ write_cbor_members F ms"

definition to_cbor :: "('f, 'z) image_ops_scheme \<Rightarrow> 'f json \<Rightarrow> byte list" where
  "to_cbor F j = write_cbor F j"

section \<open>Reading strings and byte arrays\<close>

text \<open>
  The number behind the control byte \<open>c\<close>: its low five bits, or the next 1, 2, 4 or 8 bytes. The
  control bytes with \<open>1F\<close> stand for a length that is not known, which is passed on as \<open>-1\<close>.
\<close>

definition cbor_size :: "byte \<Rightarrow> 'f binary_reader \<Rightarrow> (64 word, 'f) reading" where
  "cbor_size c s =
     (let low = and c 0x1F in
      if low \<le> 0x17 then Inr (Some (ucast low), s)
      else if low = 0x18 then
        and_then (get_number F_cbor False s) (\<lambda>(len :: 8 word) s. Inr (Some (ucast len), s))
      else if low = 0x19 then
        and_then (get_number F_cbor False s) (\<lambda>(len :: 16 word) s. Inr (Some (ucast len), s))
      else if low = 0x1A then
        and_then (get_number F_cbor False s) (\<lambda>(len :: 32 word) s. Inr (Some (ucast len), s))
      else if low = 0x1B then get_number F_cbor False s
      else Inr (Some (- 1), s))"

lemma shrinks_cbor_size [shrinking]: "shrinks (cbor_size c s) s"
  unfolding cbor_size_def Let_def by (intro shrinking)

text \<open>
  \<open>get_cbor_string\<close> and \<open>get_cbor_binary\<close>, which differ in the first control byte, the context and
  the message of an error. A string of unknown length is a sequence of strings up to the byte \<open>FF\<close>.
\<close>

function get_cbor_bytes :: "byte \<Rightarrow> string \<Rightarrow> string \<Rightarrow> 'f binary_reader \<Rightarrow> (byte list, 'f) reading"
and get_cbor_chunks :: "byte \<Rightarrow> string \<Rightarrow> string \<Rightarrow> byte list \<Rightarrow> 'f binary_reader \<Rightarrow> (byte list, 'f) reading" where
  "get_cbor_bytes base context detail s =
     and_then (unexpect_eof F_cbor context s) (\<lambda>_ s.
       let c = the (br_current s) in
       if base \<le> c \<and> c \<le> base + 0x1B then
         and_then (cbor_size c s) (\<lambda>len s. get_bytes F_cbor context (unat len) [] s)
       else if c = base + 0x1F then get_cbor_chunks base context detail [] s
       else invalid_byte 113 F_cbor detail context s)"
| "get_cbor_chunks base context detail result s =
     (let s = read_next s in
      if br_current s = Some 0xFF then Inr (Some result, s)
      else and_then (get_cbor_bytes base context detail s) (\<lambda>chunk s.
             get_cbor_chunks base context detail (result @ chunk) s))"
  by pat_completeness auto
termination
proof (relation "measure (\<lambda>x. case x of Inl (_, _, _, s) \<Rightarrow> if br_current s = None then 0 else 2 * left s + 2
    | Inr (_, _, _, _, s) \<Rightarrow> 2 * left s + 1)", goal_cases)
  let ?dom = get_cbor_bytes_get_cbor_chunks_dom
  have le: "?dom (Inl (base, ctx, detail, s)) \<Longrightarrow> shrinks (get_cbor_bytes base ctx detail s) s"
      "?dom (Inr (base, ctx, detail, rs, s)) \<Longrightarrow> shrinks (get_cbor_chunks base ctx detail rs s) s"
      for base ctx detail rs and s :: "'f binary_reader"
  proof (induction base ctx detail s and base ctx detail rs s rule: get_cbor_bytes_get_cbor_chunks.pinduct)
    case (1 base ctx detail s)
    show ?case unfolding get_cbor_bytes.psimps [OF 1(1)] Let_def by (intro shrinking 1(2) [OF _ refl])
  next
    case (2 base ctx detail rs s)
    show ?case unfolding get_cbor_chunks.psimps [OF 2(1)] Let_def
      by (rule shrinks_read_next) (intro shrinking 2(2,3) [OF refl])
  qed
  {
    case 1
    then show ?case by simp
  }
  {
    case (2 base ctx detail s u s1 c)
    then show ?case by (auto simp: unexpect_eof_Some)
  }
  {
    case (3 base ctx detail rs s s1)
    then show ?case using left_read_next_less [of s] by auto
  }
  {
    case (4 base ctx detail rs s s1 c s2)
    have "br_current s1 \<noteq> None"
      using 4(3) by (auto simp: get_cbor_bytes.psimps [OF 4(4)] and_then_Some unexpect_eof_Some)
    then show ?case using 4(1) left_read_next_less [of s] shrinksD [OF le(1) [OF 4(4)] 4(3)] by auto
  }
qed

declare get_cbor_bytes.simps [simp del] get_cbor_chunks.simps [simp del]

lemma shrinks_get_cbor_bytes [shrinking]: "shrinks (get_cbor_bytes base ctx detail s) s"
  and "shrinks (get_cbor_chunks base ctx detail rs s) s"
proof (induction base ctx detail s and base ctx detail rs s rule: get_cbor_bytes_get_cbor_chunks.induct)
  case (1 base ctx detail s)
  show ?case unfolding get_cbor_bytes.simps [of base ctx detail s] Let_def by (intro shrinking 1(1) [OF _ refl])
next
  case (2 base ctx detail rs s)
  show ?case unfolding get_cbor_chunks.simps [of base ctx detail rs s] Let_def
    by (rule shrinks_read_next) (intro shrinking 2 [OF refl])
qed

definition get_cbor_string :: "'f binary_reader \<Rightarrow> (byte list, 'f) reading" where
  "get_cbor_string = get_cbor_bytes 0x60 ''string''
     ''expected length specification (0x60-0x7B) or indefinite string type (0x7F); last byte: 0x''"

definition get_cbor_binary :: "'f binary_reader \<Rightarrow> (byte list, 'f) reading" where
  "get_cbor_binary = get_cbor_bytes 0x40 ''binary''
     ''expected length specification (0x40-0x5B) or indefinite binary array type (0x5F); last byte: 0x''"

lemma shrinks_get_cbor_string [shrinking]: "shrinks (get_cbor_string s) s"
  and shrinks_get_cbor_binary [shrinking]: "shrinks (get_cbor_binary s) s"
  unfolding get_cbor_string_def get_cbor_binary_def by (intro shrinking)+

lemma get_cbor_string_current: "get_cbor_string s = Inr (Some t, s') \<Longrightarrow> br_current s \<noteq> None"
  by (auto simp: get_cbor_string_def get_cbor_bytes.simps and_then_Some unexpect_eof_Some)

section \<open>Reading values\<close>

text \<open>The events of the values that are no containers.\<close>

definition sax_json :: "'f json \<Rightarrow> 'f binary_reader \<Rightarrow> (unit, 'f) reading" where
  "sax_json v = on_reader (sax_value v)"

lemma shrinks_sax_json [shrinking]: "shrinks (sax_json v s) s"
  unfolding sax_json_def by (intro shrinking)

text \<open>The control bytes \<open>00\<close> to \<open>1B\<close> and \<open>20\<close> to \<open>3B\<close>.\<close>

definition cbor_number :: "byte \<Rightarrow> 'f binary_reader \<Rightarrow> (unit, 'f) reading" where
  "cbor_number c s =
     (if c \<le> 0x17 then sax_json (Number_unsigned (ucast c)) s
      else if c = 0x18 then
        and_then (get_number F_cbor False s) (\<lambda>(n :: 8 word) s. sax_json (Number_unsigned (ucast n)) s)
      else if c = 0x19 then
        and_then (get_number F_cbor False s) (\<lambda>(n :: 16 word) s. sax_json (Number_unsigned (ucast n)) s)
      else if c = 0x1A then
        and_then (get_number F_cbor False s) (\<lambda>(n :: 32 word) s. sax_json (Number_unsigned (ucast n)) s)
      else if c = 0x1B then
        and_then (get_number F_cbor False s) (\<lambda>(n :: 64 word) s. sax_json (Number_unsigned n) s)
      else if c \<le> 0x37 then sax_json (Number_integer (word_of_int (0x20 - 1 - uint c))) s
      else if c = 0x38 then
        and_then (get_number F_cbor False s) (\<lambda>(n :: 8 word) s. sax_json (Number_integer (- 1 - ucast n)) s)
      else if c = 0x39 then
        and_then (get_number F_cbor False s) (\<lambda>(n :: 16 word) s. sax_json (Number_integer (- 1 - ucast n)) s)
      else if c = 0x3A then
        and_then (get_number F_cbor False s) (\<lambda>(n :: 32 word) s. sax_json (Number_integer (- 1 - ucast n)) s)
      else
        and_then (get_number F_cbor False s) (\<lambda>(n :: 64 word) s. sax_json (Number_integer (- 1 - n)) s))"

text \<open>The half-precision number in two bytes, the decoder of RFC 7049.\<close>

definition half_value :: "('f, 'z) image_ops_scheme \<Rightarrow> byte \<Rightarrow> byte \<Rightarrow> 'f" where
  "half_value F byte1 byte2 =
     (let half = push_bit 8 (ucast byte1) + ucast byte2 :: 32 word;
          exp = uint (and (drop_bit 10 half) 0x1F);
          mant = uint (and half 0x3FF);
          val = (if exp = 0 then ldexp F mant (- 24)
                 else if exp = 31 then (if mant = 0 then infinity F else quiet_nan F)
                 else ldexp F (mant + 1024) (exp - 25))
      in if and half 0x8000 \<noteq> 0 then negate F val else val)"

definition cbor_half :: "('f, 'z) image_ops_scheme \<Rightarrow> 'f binary_reader \<Rightarrow> (unit, 'f) reading" where
  "cbor_half F s =
     and_then (unexpect_eof F_cbor ''number'' (read_next s)) (\<lambda>_ s1.
     and_then (unexpect_eof F_cbor ''number'' (read_next s1)) (\<lambda>_ s2.
       sax_json (Number_float (half_value F (the (br_current s1)) (the (br_current s2)))) s2))"

datatype cbor_tag_handler_t = Tag_error | Tag_ignore | Tag_store

text \<open>The number of a tag: \<open>C6\<close> to \<open>D4\<close> have none behind the control byte.\<close>

definition cbor_tag_number :: "byte \<Rightarrow> 'f binary_reader \<Rightarrow> (64 word, 'f) reading" where
  "cbor_tag_number c s =
     (if c = 0xD8 then
        and_then (get_number F_cbor False s) (\<lambda>(n :: 8 word) s. Inr (Some (ucast n), s))
      else if c = 0xD9 then
        and_then (get_number F_cbor False s) (\<lambda>(n :: 16 word) s. Inr (Some (ucast n), s))
      else if c = 0xDA then
        and_then (get_number F_cbor False s) (\<lambda>(n :: 32 word) s. Inr (Some (ucast n), s))
      else if c = 0xDB then get_number F_cbor False s
      else Inr (Some 0, s))"

lemma shrinks_cbor_tag_number [shrinking]: "shrinks (cbor_tag_number c s) s"
  unfolding cbor_tag_number_def by (intro shrinking)

definition cbor_invalid :: "'f binary_reader \<Rightarrow> (unit, 'f) reading" where
  "cbor_invalid s = invalid_byte 112 F_cbor ''invalid byte: 0x'' ''value'' s"

text \<open>Text, byte arrays, literals and floating point numbers; anything else is invalid.\<close>

definition cbor_simple :: "('f, 'z) image_ops_scheme \<Rightarrow> byte \<Rightarrow> 'f binary_reader \<Rightarrow> (unit, 'f) reading" where
  "cbor_simple F c s =
     (if c \<le> 0x1B \<or> 0x20 \<le> c \<and> c \<le> 0x3B then cbor_number c s
      else if 0x40 \<le> c \<and> c \<le> 0x5B \<or> c = 0x5F then
        and_then (get_cbor_binary s) (\<lambda>b s. sax_json (Binary b None) s)
      else if 0x60 \<le> c \<and> c \<le> 0x7B \<or> c = 0x7F then
        and_then (get_cbor_string s) (\<lambda>t s. sax_json (String t) s)
      else if c = 0xF4 then sax_json (Boolean False) s
      else if c = 0xF5 then sax_json (Boolean True) s
      else if c = 0xF6 then sax_json Null s
      else if c = 0xF9 then cbor_half F s
      else if c = 0xFA then
        and_then (get_number F_cbor False s) (\<lambda>n s. sax_json (Number_float (of_float_image F n)) s)
      else if c = 0xFB then
        and_then (get_number F_cbor False s) (\<lambda>n s. sax_json (Number_float (of_double_image F n)) s)
      else cbor_invalid s)"

text \<open>A tag in front of a byte array, stored as its subtype; when its number cannot be read it is 0.\<close>

definition cbor_tagged :: "byte \<Rightarrow> 'f binary_reader \<Rightarrow> (unit, 'f) reading" where
  "cbor_tagged c s =
     bindE (cbor_tag_number c s) (\<lambda>(n, s).
     and_then (get_cbor_binary (read_next s)) (\<lambda>b s.
       sax_json (Binary b (Some (case n of None \<Rightarrow> 0 | Some n \<Rightarrow> n))) s))"

lemma shrinks_cbor_simple [shrinking]:
  "shrinks (cbor_number c s) s" "shrinks (cbor_half F s) s" "shrinks (cbor_invalid s) s" "shrinks (cbor_tagged c s) s"
  "shrinks (cbor_simple F c s) s"
proof -
  show n: "shrinks (cbor_number c s) s" unfolding cbor_number_def by (intro shrinking)
  show h: "shrinks (cbor_half F s) s" unfolding cbor_half_def
    by (rule shrinks_read_next, intro shrinking, rule shrinks_read_next, intro shrinking)
  show i: "shrinks (cbor_invalid s) s" unfolding cbor_invalid_def by (intro shrinking)
  show "shrinks (cbor_tagged c s) s" unfolding cbor_tagged_def
    by (intro shrinking, rule shrinks_read_next, intro shrinking)
  show "shrinks (cbor_simple F c s) s" unfolding cbor_simple_def by (intro shrinking n h i)
qed

function parse_cbor :: "('f, 'z) image_ops_scheme \<Rightarrow> cbor_tag_handler_t \<Rightarrow> bool \<Rightarrow> 'f binary_reader \<Rightarrow> (unit, 'f) reading"
and get_cbor_array :: "('f, 'z) image_ops_scheme \<Rightarrow> cbor_tag_handler_t \<Rightarrow> 64 word \<Rightarrow> 'f binary_reader \<Rightarrow> (unit, 'f) reading"
and cbor_elements :: "('f, 'z) image_ops_scheme \<Rightarrow> cbor_tag_handler_t \<Rightarrow> nat \<Rightarrow> 'f binary_reader \<Rightarrow> (unit, 'f) reading"
and cbor_elements_until :: "('f, 'z) image_ops_scheme \<Rightarrow> cbor_tag_handler_t \<Rightarrow> 'f binary_reader \<Rightarrow> (unit, 'f) reading"
and get_cbor_object :: "('f, 'z) image_ops_scheme \<Rightarrow> cbor_tag_handler_t \<Rightarrow> 64 word \<Rightarrow> 'f binary_reader \<Rightarrow> (unit, 'f) reading"
and cbor_members :: "('f, 'z) image_ops_scheme \<Rightarrow> cbor_tag_handler_t \<Rightarrow> nat \<Rightarrow> 'f binary_reader \<Rightarrow> (unit, 'f) reading"
and cbor_members_until :: "('f, 'z) image_ops_scheme \<Rightarrow> cbor_tag_handler_t \<Rightarrow> 'f binary_reader \<Rightarrow> (unit, 'f) reading" where
  "parse_cbor F tag_handler get_char s =
     (let s = (if get_char then read_next s else s) in
      case br_current s of
        None \<Rightarrow> unexpect_eof F_cbor ''value'' s
      | Some c \<Rightarrow>
          if 0x80 \<le> c \<and> c \<le> 0x9B \<or> c = 0x9F then
            and_then (cbor_size c s) (\<lambda>len s. get_cbor_array F tag_handler len s)
          else if 0xA0 \<le> c \<and> c \<le> 0xBB \<or> c = 0xBF then
            and_then (cbor_size c s) (\<lambda>len s. get_cbor_object F tag_handler len s)
          else if 0xC6 \<le> c \<and> c \<le> 0xD4 \<or> 0xD8 \<le> c \<and> c \<le> 0xDB then
            (case tag_handler of
               Tag_error \<Rightarrow> cbor_invalid s
             | Tag_ignore \<Rightarrow> bindE (cbor_tag_number c s) (\<lambda>(_, s). parse_cbor F tag_handler True s)
             | Tag_store \<Rightarrow> if 0xD8 \<le> c then cbor_tagged c s else parse_cbor F tag_handler True s)
          else cbor_simple F c s)"
| "get_cbor_array F tag_handler len s =
     and_then (on_reader (start_array_len len) s) (\<lambda>_ s.
     and_then (if len \<noteq> - 1 then cbor_elements F tag_handler (unat len) s else cbor_elements_until F tag_handler s) (\<lambda>_ s.
       on_reader end_array s))"
| "cbor_elements F tag_handler n s =
     (if n = 0 then Inr (Some (), s)
      else and_then (parse_cbor F tag_handler True s) (\<lambda>_ s. cbor_elements F tag_handler (n - 1) s))"
| "cbor_elements_until F tag_handler s =
     (let s = read_next s in
      if br_current s = Some 0xFF then Inr (Some (), s)
      else and_then (parse_cbor F tag_handler False s) (\<lambda>_ s. cbor_elements_until F tag_handler s))"
| "get_cbor_object F tag_handler len s =
     and_then (on_reader (start_object_len len) s) (\<lambda>_ s.
     and_then (if len \<noteq> - 1 then cbor_members F tag_handler (unat len) s else cbor_members_until F tag_handler s) (\<lambda>_ s.
       on_reader end_object s))"
| "cbor_members F tag_handler n s =
     (if n = 0 then Inr (Some (), s)
      else
        and_then (get_cbor_string (read_next s)) (\<lambda>key s.
        and_then (on_reader (sax_key key) s) (\<lambda>_ s.
        and_then (parse_cbor F tag_handler True s) (\<lambda>_ s. cbor_members F tag_handler (n - 1) s))))"
| "cbor_members_until F tag_handler s =
     (let s = read_next s in
      if br_current s = Some 0xFF then Inr (Some (), s)
      else
        and_then (get_cbor_string s) (\<lambda>key s.
        and_then (on_reader (sax_key key) s) (\<lambda>_ s.
        and_then (parse_cbor F tag_handler True s) (\<lambda>_ s. cbor_members_until F tag_handler s))))"
  by pat_completeness auto
termination
proof (relation "measures [\<lambda>x. case x of
       Inl (Inl (F, h, get_char, s)) \<Rightarrow>
         if get_char then 3 * left s else if br_current s = None then 0 else 3 * left s + 3
     | Inl (Inr (Inl (F, h, len, s))) \<Rightarrow> 3 * left s + 2
     | Inl (Inr (Inr (F, h, n, s))) \<Rightarrow> 3 * left s + 1
     | Inr (Inl (Inl (F, h, s))) \<Rightarrow> 3 * left s + 1
     | Inr (Inl (Inr (F, h, len, s))) \<Rightarrow> 3 * left s + 2
     | Inr (Inr (Inl (F, h, n, s))) \<Rightarrow> 3 * left s + 1
     | Inr (Inr (Inr (F, h, s))) \<Rightarrow> 3 * left s + 1,
     \<lambda>x. case x of Inl (Inr (Inr (F, h, n, s))) \<Rightarrow> n | Inr (Inr (Inl (F, h, n, s))) \<Rightarrow> n | _ \<Rightarrow> 0]", goal_cases)
  let ?dom = parse_cbor_get_cbor_array_cbor_elements_cbor_elements_until_get_cbor_object_cbor_members_cbor_members_until_dom
  have le: "?dom (Inl (Inl (F, h, get_char, s))) \<Longrightarrow> shrinks (parse_cbor F h get_char s) (if get_char then read_next s else s)"
      "?dom (Inl (Inr (Inl (F, h, len, s)))) \<Longrightarrow> shrinks (get_cbor_array F h len s) s"
      "?dom (Inl (Inr (Inr (F, h, n, s)))) \<Longrightarrow> shrinks (cbor_elements F h n s) s"
      "?dom (Inr (Inl (Inl (F, h, s)))) \<Longrightarrow> shrinks (cbor_elements_until F h s) s"
      "?dom (Inr (Inl (Inr (F, h, len, s)))) \<Longrightarrow> shrinks (get_cbor_object F h len s) s"
      "?dom (Inr (Inr (Inl (F, h, n, s)))) \<Longrightarrow> shrinks (cbor_members F h n s) s"
      "?dom (Inr (Inr (Inr (F, h, s)))) \<Longrightarrow> shrinks (cbor_members_until F h s) s"
    for F :: "('f, 'z) image_ops_scheme" and h get_char len n s
  proof (induction F h get_char s and F h len s and F h n s and F h s and F h len s and F h n s and F h s
      rule: parse_cbor_get_cbor_array_cbor_elements_cbor_elements_until_get_cbor_object_cbor_members_cbor_members_until.pinduct)
    case (1 F h get_char s)
    note step = 1(4) [OF refl _ _ _ _ _ _ refl, unfolded if_True, THEN shrinks_read_next]
      1(5) [OF refl, unfolded if_True, THEN shrinks_read_next]
    show ?case
    proof (cases h)
      case Tag_error
      then show ?thesis unfolding parse_cbor.psimps [OF 1(1)] Let_def
        by (simp only: cbor_tag_handler_t.case) (intro shrinking 1(2,3) [OF refl, unfolded Tag_error])
    next
      case Tag_ignore
      then show ?thesis unfolding parse_cbor.psimps [OF 1(1)] Let_def
        by (simp only: cbor_tag_handler_t.case)
          (intro shrinking 1(2,3) [OF refl, unfolded Tag_ignore] step(1) [unfolded Tag_ignore] refl)
    next
      case Tag_store
      then show ?thesis unfolding parse_cbor.psimps [OF 1(1)] Let_def
        by (simp only: cbor_tag_handler_t.case)
          (intro shrinking 1(2,3) [OF refl, unfolded Tag_store] step(2) [unfolded Tag_store] refl)
    qed
  next
    case (2 F h len s)
    show ?case unfolding get_cbor_array.psimps [OF 2(1)] by (intro shrinking 2(2,3))
  next
    case (3 F h n s)
    show ?case unfolding cbor_elements.psimps [OF 3(1)]
      by (intro shrinking 3(2) [unfolded if_True, THEN shrinks_read_next] 3(3))
  next
    case (4 F h s)
    show ?case unfolding cbor_elements_until.psimps [OF 4(1)] Let_def
      by (rule shrinks_read_next) (intro shrinking 4(2,3) [OF refl, unfolded if_False])
  next
    case (5 F h len s)
    show ?case unfolding get_cbor_object.psimps [OF 5(1)] by (intro shrinking 5(2,3))
  next
    case (6 F h n s)
    show ?case unfolding cbor_members.psimps [OF 6(1)]
      by (intro shrinking 6(2) [unfolded if_True, THEN shrinks_read_next] 6(3) shrinks_read_next [OF shrinks_get_cbor_string])
  next
    case (7 F h s)
    show ?case unfolding cbor_members_until.psimps [OF 7(1)] Let_def
      by (rule shrinks_read_next) (intro shrinking 7(2) [OF refl, unfolded if_True, THEN shrinks_read_next] 7(3) [OF refl])
  qed
  have byte: "left (read_next s) < left s" if "br_current (read_next s) = Some b" for s :: "'f binary_reader" and b
    using that by (intro left_read_next_less) simp
  have read: "left t \<le> left s" if "left t \<le> left (read_next s)" for s t :: "'f binary_reader"
    using that left_read_next le_trans by blast
  note left = shrinksD [OF shrinks_cbor_size] shrinksD [OF shrinks_get_cbor_string] shrinksD [OF shrinks_cbor_tag_number]
    shrinksD [OF shrinks_on_reader] le(1) [THEN shrinksD]
  { case 1 then show ?case by (auto dest!: left byte split: if_splits) }
  { case 2 then show ?case by (auto dest!: left byte split: if_splits) }
  { case 3 then show ?case by (auto dest!: left byte split: if_splits) }
  { case 4 then show ?case by (auto dest!: left byte split: if_splits) }
  { case 5 then show ?case by (auto dest!: left byte split: if_splits) }
  { case 6 then show ?case by (auto dest!: left byte split: if_splits) }
  { case 7 then show ?case by (auto dest!: left byte split: if_splits) }
  { case 8 then show ?case by (auto dest!: left byte split: if_splits) }
  {
    case (9 F h n s u s1)
    then have "left s1 \<le> left s" by (auto dest!: left intro: le_trans [OF _ left_read_next])
    with 9 show ?case by auto
  }
  { case 10 then show ?case by (auto dest!: left byte split: if_splits) }
  {
    case (11 F h s s1 u s2)
    have "br_current s1 \<noteq> None"
      using 11(3) by (auto simp: parse_cbor.psimps [OF 11(4)] unexpect_eof_Some split: option.splits)
    with 11 left_read_next_less [of s] show ?case by (auto dest!: left)
  }
  { case 12 then show ?case by (auto dest!: left byte split: if_splits) }
  { case 13 then show ?case by (auto dest!: left byte split: if_splits) }
  { case 14 then show ?case by (auto dest!: left read split: if_splits) }
  { case 15 then show ?case by (auto dest!: left read split: if_splits) }
  { case 16 then show ?case by (auto dest!: left read split: if_splits) }
  {
    case (17 F h s s1 k s2 u s3 v s4)
    have "br_current s1 \<noteq> None" using get_cbor_string_current [OF 17(3)] .
    moreover have "left s4 \<le> left s3" using shrinksD [OF le(1) [OF 17(6)] 17(5)] by (simp add: read)
    then have "left s4 \<le> left s1" using 17(3,4) by (auto dest!: left)
    ultimately show ?case using 17(1) left_read_next_less [of s] by auto
  }
qed

declare parse_cbor.simps [simp del] get_cbor_array.simps [simp del] cbor_elements.simps [simp del]
  cbor_elements_until.simps [simp del] get_cbor_object.simps [simp del] cbor_members.simps [simp del]
  cbor_members_until.simps [simp del]

section \<open>The interface\<close>

definition from_cbor ::
  "('f, 'z) image_ops_scheme \<Rightarrow> byte list \<Rightarrow> bool \<Rightarrow> bool \<Rightarrow> cbor_tag_handler_t \<Rightarrow> stop + 'f json" where
  "from_cbor F i strict allow tag_handler =
     finished (end_of_value F_cbor strict (parse_cbor F tag_handler True (reader_init i allow)))"

end
