(* ===== verification/Json_Binary_Facts.thy ===== *)
theory Json_Binary_Facts
  imports Json_Binary
begin

text \<open>
  What the readers of the binary formats deliver when they read what the writers wrote: numbers, strings,
  and the values of arrays and objects, for which the locale \<open>codec\<close> states what a format provides.
\<close>

section \<open>Numbers and strings\<close>

text \<open>A reader delivers \<open>v\<close> from the bytes \<open>bs\<close> and leaves the builder alone.\<close>

definition delivers :: "byte list \<Rightarrow> ('f binary_reader \<Rightarrow> ('a, 'f) reading) \<Rightarrow> 'a \<Rightarrow> bool" where
  "delivers bs r v \<longleftrightarrow> (\<forall>s rest. br_input s = bs @ rest \<longrightarrow>
     (\<exists>s'. r s = Inr (Some v, s') \<and> br_input s' = rest \<and> br_sax s' = br_sax s))"

lemma deliversI:
  assumes "\<And>s rest. br_input s = bs @ rest \<Longrightarrow> \<exists>s'. r s = Inr (Some v, s') \<and> br_input s' = rest \<and> br_sax s' = br_sax s"
  shows "delivers bs r v"
  using assms by (simp add: delivers_def)

lemma deliversD:
  assumes "delivers bs r v" "br_input s = bs @ rest"
  obtains s' where "r s = Inr (Some v, s')" "br_input s' = rest" "br_sax s' = br_sax s"
  using assms by (auto simp: delivers_def)

lemma delivers_and_then:
  fixes r :: "'f binary_reader \<Rightarrow> ('a, 'f) reading"
  assumes "delivers as1 r u" "delivers bs (f u) v"
  shows "delivers (as1 @ bs) (\<lambda>s. and_then (r s) f) v"
proof (rule deliversI)
  fix s :: "'f binary_reader" and rest
  assume "br_input s = (as1 @ bs) @ rest"
  then obtain s1 where s1: "r s = Inr (Some u, s1)" "br_input s1 = bs @ rest" "br_sax s1 = br_sax s"
    using deliversD [OF assms(1), of s "bs @ rest"] by auto
  then show "\<exists>s'. and_then (r s) f = Inr (Some v, s') \<and> br_input s' = rest \<and> br_sax s' = br_sax s"
    using deliversD [OF assms(2) s1(2)] by auto
qed

lemma delivers_value: "delivers [] (\<lambda>s. Inr (Some v, s)) v"
  by (simp add: delivers_def)

lemma read_next_Cons:
  "br_input s = b # bs \<Longrightarrow> read_next s = s\<lparr>br_input := bs, br_current := Some b, br_chars_read := br_chars_read s + 1\<rparr>"
  by (simp add: read_next_def)

lemma unexpect_eof_byte [simp]: "br_current s = Some b \<Longrightarrow> unexpect_eof f c s = Inr (Some (), s)"
  by (simp add: unexpect_eof_def)

lemma get_vec_big:
  assumes "length bs = n" "length vec = i + n" "br_input s = bs @ rest"
  shows "\<exists>s'. get_vec f False i n vec s = Inr (Some (rev bs @ drop n vec), s') \<and> br_input s' = rest \<and> br_sax s' = br_sax s"
  using assms
proof (induction n arbitrary: i bs vec s)
  case (Suc n)
  then obtain b bs' where bs: "bs = b # bs'" "length bs' = n" by (cases bs) auto
  let ?s = "s\<lparr>br_input := bs' @ rest, br_current := Some b, br_chars_read := br_chars_read s + 1\<rparr>"
  have read: "read_next s = ?s" using Suc.prems(3) bs by (simp add: read_next_Cons)
  have place: "length vec - Suc i = n" using Suc.prems(2) by simp
  from Suc.IH [OF bs(2), of "vec[n := b]" "i + 1" ?s] Suc.prems(2) obtain s' where
    s': "get_vec f False (i + 1) n (vec[n := b]) ?s = Inr (Some (rev bs' @ drop n (vec[n := b])), s')"
      "br_input s' = rest" "br_sax s' = br_sax s" by auto
  have "drop n (vec[n := b]) = b # drop (Suc n) vec"
    using Suc.prems(2) by (subst Cons_nth_drop_Suc [symmetric]) auto
  with s' show ?case by (simp add: read place bs(1))
qed auto

lemma delivers_number:
  fixes n :: "'a::len word"
  assumes "f \<noteq> F_bjdata" "8 dvd LENGTH('a)"
  shows "delivers (write_number False n) (get_number f False :: 'f binary_reader \<Rightarrow> _) n"
proof (rule deliversI)
  fix s :: "'f binary_reader" and rest
  assume "br_input s = write_number False n @ rest"
  then show "\<exists>s'. get_number f False s = Inr (Some n, s') \<and> br_input s' = rest \<and> br_sax s' = br_sax s"
    using get_vec_big [of "write_number False n" "LENGTH('a) div 8" "replicate (LENGTH('a) div 8) 0" 0 s rest f] assms
    by (auto simp: get_number_def write_number_def)
qed

lemma delivers_get_bytes:
  assumes "length bs = n"
  shows "delivers bs (get_bytes f c n r :: 'f binary_reader \<Rightarrow> _) (r @ bs)"
  using assms
proof (induction n arbitrary: bs r)
  case 0
  then show ?case by (simp add: delivers_def)
next
  case (Suc n)
  then obtain b bs' where bs: "bs = b # bs'" "length bs' = n" by (cases bs) auto
  show ?case
  proof (rule deliversI)
    fix s :: "'f binary_reader" and rest
    assume s: "br_input s = bs @ rest"
    let ?s = "s\<lparr>br_input := bs' @ rest, br_current := Some b, br_chars_read := br_chars_read s + 1\<rparr>"
    have "read_next s = ?s" using s bs by (simp add: read_next_Cons)
    then show "\<exists>s'. get_bytes f c (Suc n) r s = Inr (Some (r @ bs), s') \<and> br_input s' = rest \<and> br_sax s' = br_sax s"
      using deliversD [OF Suc.IH [OF bs(2), of "r @ [b]"], of ?s rest] bs(1) by auto
  qed
qed

section \<open>Widths\<close>

text \<open>Facts about the bytes up to a bound, for evaluation.\<close>

lemma byte_upto:
  fixes c k :: byte
  assumes "\<forall>m \<in> set [0..<Suc (unat k)]. P (of_nat m)" "c \<le> k"
  shows "P c"
proof -
  have "unat c \<in> set [0..<Suc (unat k)]" using assms(2) by (auto simp: word_le_nat_alt order_le_less)
  with assms(1) have "P (of_nat (unat c))" by blast
  then show ?thesis by simp
qed

text \<open>A number in fewer bits and back.\<close>

lemma unat_narrow: "n < 2 ^ LENGTH('a) \<Longrightarrow> unat (of_nat n :: 'a::len word) = n"
  by (subst unsigned_of_nat, subst take_bit_nat_eq_self) simp_all

lemma ucast_of_nat: "n < 2 ^ LENGTH('a) \<Longrightarrow> ucast (of_nat n :: 'a::len word) = (of_nat n :: 64 word)"
  by (simp add: unsigned_of_nat take_bit_nat_eq_self)

lemma narrow_wide:
  fixes st :: "64 word"
  assumes "unat st < 2 ^ LENGTH('a)"
  shows "ucast (ucast st :: 'a::len word) = st"
  using assms by (simp add: word_unat_eq_iff unsigned_ucast_eq unsigned_take_bit_eq take_bit_nat_eq_self)

lemma ucast_sint:
  fixes x :: "64 word"
  assumes "LENGTH('a) \<le> 64"
  shows "ucast x = (word_of_int (sint x) :: 'a::len word)"
proof (rule bit_word_eqI)
  fix n assume "n < LENGTH('a)"
  then have "min 63 n = n" using assms by simp
  then show "bit (ucast x :: 'a word) n = bit (word_of_int (sint x) :: 'a word) n"
    by (simp add: bit_ucast_iff bit_signed_iff)
qed

lemma narrow_wide_signed:
  fixes x :: "64 word"
  assumes "- (2 ^ (LENGTH('a) - 1)) \<le> sint x" "sint x < 2 ^ (LENGTH('a) - 1)" "LENGTH('a) \<le> 64"
  shows "scast (ucast x :: 'a::len word) = x"
proof -
  note ucast_sint [OF assms(3)]
  moreover have "sint (word_of_int (sint x) :: 'a word) = sint x"
    using assms(1,2) by (subst signed_of_int, subst signed_take_bit_int_eq_self) simp_all
  ultimately show ?thesis by (metis scast_eq scast_id)
qed

lemma delivers_counted:
  fixes w :: "'a::len word" and r :: "nat \<Rightarrow> 'f binary_reader \<Rightarrow> ('b, 'f) reading"
  assumes "delivers bs (r n) v" "f \<noteq> F_bjdata" "unat w = n" "8 dvd LENGTH('a)"
  shows "delivers (write_number False w @ bs) (\<lambda>s. and_then (get_number f False s) (\<lambda>(len :: 'a word) s. r (unat len) s)) v"
  using assms by (intro delivers_and_then [OF delivers_number]) simp_all

lemma delivers_sized:
  fixes w :: "'a::len word"
  assumes "f \<noteq> F_bjdata" "8 dvd LENGTH('a)" "ucast w = v"
  shows "delivers (write_number False w) (\<lambda>s. and_then (get_number f False s) (\<lambda>(len :: 'a word) s. Inr (Some (ucast len), s))) (v :: 64 word)"
  using delivers_and_then [where f = "\<lambda>len s. Inr (Some (ucast len), s)" and v = v and bs = "[]",
      OF delivers_number [of f w]] delivers_value [of v] assms by simp

section \<open>Values\<close>

text \<open>A reader builds the value \<open>v\<close> from the bytes \<open>bs\<close> where the builder expects one.\<close>

definition builds :: "byte list \<Rightarrow> ('f binary_reader \<Rightarrow> (unit, 'f) reading) \<Rightarrow> 'f json \<Rightarrow> bool" where
  "builds bs r v \<longleftrightarrow> (\<forall>s rest. br_input s = bs @ rest \<longrightarrow> accepts (br_sax s) \<longrightarrow>
     (\<exists>s'. r s = Inr (Some (), s') \<and> br_input s' = rest \<and> root (br_sax s') = place v (br_sax s)
        \<and> ref_stack (br_sax s') = ref_stack (br_sax s)))"

lemma buildsI:
  assumes "\<And>s rest. br_input s = bs @ rest \<Longrightarrow> accepts (br_sax s) \<Longrightarrow>
    \<exists>s'. r s = Inr (Some (), s') \<and> br_input s' = rest \<and> root (br_sax s') = place v (br_sax s)
      \<and> ref_stack (br_sax s') = ref_stack (br_sax s)"
  shows "builds bs r v"
  using assms by (simp add: builds_def)

lemma buildsD:
  assumes "builds bs r v" "br_input s = bs @ rest" "accepts (br_sax s)"
  obtains s' where "r s = Inr (Some (), s')" "br_input s' = rest" "root (br_sax s') = place v (br_sax s)"
    "ref_stack (br_sax s') = ref_stack (br_sax s)"
  using assms by (auto simp: builds_def)

lemma builds_sax_value: "builds [] (on_reader (sax_value v)) v"
  by (rule buildsI) (auto simp: on_reader_def sax_value_accepts)

lemma builds_and_then:
  fixes r :: "'f binary_reader \<Rightarrow> ('a, 'f) reading"
  assumes "delivers as1 r u" "builds bs (f u) v"
  shows "builds (as1 @ bs) (\<lambda>s. and_then (r s) f) v"
proof (rule buildsI)
  fix s :: "'f binary_reader" and rest
  assume "br_input s = (as1 @ bs) @ rest" and acc: "accepts (br_sax s)"
  then obtain s1 where s1: "r s = Inr (Some u, s1)" "br_input s1 = bs @ rest" "br_sax s1 = br_sax s"
    using deliversD [OF assms(1), of s "bs @ rest"] by auto
  with acc obtain s' where "f u s1 = Inr (Some (), s')" "br_input s' = rest" "root (br_sax s') = place v (br_sax s1)"
    "ref_stack (br_sax s') = ref_stack (br_sax s1)"
    using buildsD [OF assms(2) s1(2)] by auto
  with s1 show "\<exists>s'. and_then (r s) f = Inr (Some (), s') \<and> br_input s' = rest \<and> root (br_sax s') = place v (br_sax s)
      \<and> ref_stack (br_sax s') = ref_stack (br_sax s)" by simp
qed

lemma builds_delivered: "delivers bs r u \<Longrightarrow> (\<And>s. f u s = on_reader (sax_value v) s) \<Longrightarrow> builds bs (\<lambda>s. and_then (r s) f) v"
  using builds_and_then [of bs r u "[]" f v] builds_sax_value [of v] by (simp add: builds_def)

text \<open>A reader that depends on the character it is called with, read from a byte in front.\<close>

lemma delivers_byte:
  fixes r :: "'f binary_reader \<Rightarrow> ('a, 'f) reading"
  assumes "delivers bs r' v" "\<And>s. br_current s = Some c \<Longrightarrow> r s = r' s"
  shows "delivers (c # bs) (\<lambda>s. r (read_next s)) v"
proof (rule deliversI)
  fix s :: "'f binary_reader" and rest
  assume "br_input s = (c # bs) @ rest"
  then have "br_input (read_next s) = bs @ rest" "br_current (read_next s) = Some c" "br_sax (read_next s) = br_sax s"
    by (simp_all add: read_next_Cons)
  with deliversD [OF assms(1) this(1)] assms(2)
  show "\<exists>s'. r (read_next s) = Inr (Some v, s') \<and> br_input s' = rest \<and> br_sax s' = br_sax s" by metis
qed

lemma builds_byte:
  fixes r :: "'f binary_reader \<Rightarrow> (unit, 'f) reading"
  assumes "builds bs r' v" "\<And>s. br_current s = Some c \<Longrightarrow> r s = r' s"
  shows "builds (c # bs) (\<lambda>s. r (read_next s)) v"
proof (rule buildsI)
  fix s :: "'f binary_reader" and rest
  assume s: "br_input s = (c # bs) @ rest" "accepts (br_sax s)"
  then have "br_input (read_next s) = bs @ rest" "br_current (read_next s) = Some c" "br_sax (read_next s) = br_sax s"
    by (simp_all add: read_next_Cons)
  with buildsD [OF assms(1) this(1)] s(2) assms(2)
  show "\<exists>s'. r (read_next s) = Inr (Some (), s') \<and> br_input s' = rest \<and> root (br_sax s') = place v (br_sax s)
      \<and> ref_stack (br_sax s') = ref_stack (br_sax s)" by metis
qed

lemma and_then_assoc: "and_then (and_then m f) g = and_then m (\<lambda>a s. and_then (f a s) g)"
  by (cases m) (auto simp: and_then_def split: option.split)

text \<open>The whole input is read: \<open>rest\<close> may follow the value when the reader is not strict.\<close>

lemma finished_built:
  assumes "builds bs r v" "strict \<longrightarrow> rest = []"
  shows "finished (end_of_value format strict (r (reader_init (bs @ rest) allow))) = Inr v"
proof -
  have "accepts (br_sax (reader_init (bs @ rest) allow))" "br_input (reader_init (bs @ rest) allow) = bs @ rest"
    by (simp_all add: reader_init_def dom_init_def accepts_def)
  from buildsD [OF assms(1) this(2,1)] obtain s' where
    "r (reader_init (bs @ rest) allow) = Inr (Some (), s')" "br_input s' = rest" "root (br_sax s') = v"
    by (auto simp: reader_init_def dom_init_def place_def handle_value_def)
  with assms(2) show ?thesis
    by (auto simp: finished_def end_of_value_def read_next_def split: list.split)
qed

text \<open>A number of type \<open>double\<close> that the conversions of \<open>write_compact_float\<close> give back.\<close>

definition compact_faithful :: "('f, 'z) image_ops_scheme \<Rightarrow> 'f \<Rightarrow> bool" where
  "compact_faithful F x \<longleftrightarrow>
     (if fits_float F x then of_float_image F (float_image F x) = x else of_double_image F (double_image F x) = x)"

text \<open>Lengths of containers are kept in 64 bits and differ from the one that is not known.\<close>

lemma container_length:
  assumes "n \<le> vector_max_size \<or> n \<le> map_max_size"
  shows "unat (of_nat n :: 64 word) = n" "(of_nat n :: 64 word) \<noteq> - 1"
proof -
  have n: "n < 2 ^ 64 - 1" using assms by (auto simp: vector_max_size_def map_max_size_def)
  then show u: "unat (of_nat n :: 64 word) = n" by (simp add: unsigned_of_nat take_bit_nat_eq_self)
  have "unat (- 1 :: 64 word) = 2 ^ 64 - 1" by (simp add: unsigned_minus_1_eq_mask mask_eq_exp_minus_1)
  with u n show "(of_nat n :: 64 word) \<noteq> - 1" by (metis less_irrefl)
qed

text \<open>
  The values a format can carry: lengths are below \<open>limit\<close> and within what the containers hold, the keys of objects
  are in order, and \<open>ok\<close> holds of every value that is no container.
\<close>

fun encodable :: "nat \<Rightarrow> ('f json \<Rightarrow> bool) \<Rightarrow> 'f json \<Rightarrow> bool"
and encodable_members :: "nat \<Rightarrow> ('f json \<Rightarrow> bool) \<Rightarrow> (byte list \<times> 'f json) list \<Rightarrow> bool"
and encodable_elements :: "nat \<Rightarrow> ('f json \<Rightarrow> bool) \<Rightarrow> 'f json list \<Rightarrow> bool" where
  "encodable limit ok (Object ms) =
     (length ms < limit \<and> length ms \<le> map_max_size \<and> sorted_keys ms \<and> encodable_members limit ok ms)"
| "encodable limit ok (Array xs) =
     (length xs < limit \<and> length xs \<le> vector_max_size \<and> encodable_elements limit ok xs)"
| "encodable limit ok (String s) = (length s < limit)"
| "encodable limit ok (Binary b st) = (length b < limit \<and> ok (Binary b st))"
| "encodable limit ok v = ok v"
| "encodable_members limit ok [] = True"
| "encodable_members limit ok ((k, v) # ms) = (length k < limit \<and> encodable limit ok v \<and> encodable_members limit ok ms)"
| "encodable_elements limit ok [] = True"
| "encodable_elements limit ok (v # xs) = (encodable limit ok v \<and> encodable_elements limit ok xs)"

lemma encodable_elements_iff: "encodable_elements limit ok xs \<longleftrightarrow> (\<forall>v \<in> set xs. encodable limit ok v)"
  by (induction xs) auto

lemma encodable_members_iff:
  "encodable_members limit ok ms \<longleftrightarrow> (\<forall>(k, v) \<in> set ms. length k < limit \<and> encodable limit ok v)"
  by (induction ms) auto

definition array_reader :: "64 word \<Rightarrow> (nat \<Rightarrow> 'f binary_reader \<Rightarrow> (unit, 'f) reading) \<Rightarrow> 'f binary_reader \<Rightarrow> (unit, 'f) reading" where
  "array_reader len elements s =
     and_then (on_reader (start_array_len len) s) (\<lambda>_ s.
     and_then (elements (unat len) s) (\<lambda>_ s. on_reader end_array s))"

definition object_reader :: "64 word \<Rightarrow> (nat \<Rightarrow> 'f binary_reader \<Rightarrow> (unit, 'f) reading) \<Rightarrow> 'f binary_reader \<Rightarrow> (unit, 'f) reading" where
  "object_reader len members s =
     and_then (on_reader (start_object_len len) s) (\<lambda>_ s.
     and_then (members (unat len) s) (\<lambda>_ s. on_reader end_object s))"

text \<open>One element of an array is read, and one member of an object whose key is the greatest.\<close>

lemma element_read:
  assumes "builds bs value v" "br_input s = bs @ rest"
    "ref_stack (br_sax s) = p # ps" "deref p (root (br_sax s)) = Some (Array ys)"
  obtains s' where "value s = Inr (Some (), s')" "br_input s' = rest"
    "root (br_sax s') = modify p (\<lambda>_. Array (ys @ [v])) (root (br_sax s))" "ref_stack (br_sax s') = p # ps"
    "deref p (root (br_sax s')) = Some (Array (ys @ [v]))"
proof -
  note acc = accepts_array [OF assms(3,4)]
  obtain s1 where s1: "value s = Inr (Some (), s1)" "br_input s1 = rest"
    "root (br_sax s1) = modify p (\<lambda>_. Array (ys @ [v])) (root (br_sax s))" "ref_stack (br_sax s1) = p # ps"
    using buildsD [OF assms(1,2)] acc assms(3) by auto
  have "deref p (root (br_sax s1)) = Some (Array (ys @ [v]))"
    using json_pointers.look_const [of p "root (br_sax s)"] assms(4) s1(3) by simp
  with s1 that show thesis by blast
qed

lemma member_read:
  assumes "builds bs value v" "br_input s = bs @ rest" "sorted_keys (ys @ (k, v) # ms)"
    "ref_stack (br_sax s) = p # ps" "deref p (root (br_sax s)) = Some (Object ys)"
  obtains s1 s' where "on_reader (sax_key k) s = Inr (Some (), s1)" "value s1 = Inr (Some (), s')" "br_input s' = rest"
    "root (br_sax s') = modify p (\<lambda>_. Object (ys @ [(k, v)])) (root (br_sax s))" "ref_stack (br_sax s') = p # ps"
    "deref p (root (br_sax s')) = Some (Object (ys @ [(k, v)]))"
proof -
  let ?d = "(br_sax s)\<lparr>object_element := Some (p @ [Member k]), root := modify p (\<lambda>_. Object (ys @ [(k, Null)])) (root (br_sax s))\<rparr>"
  have less: "\<forall>l \<in> fst ` set ys. key_less l k" using assms(3) by (auto simp: sorted_keys_def sorted_wrt_append)
  have "modify p (emplace_null k) (root (br_sax s)) = modify p (\<lambda>_. Object (ys @ [(k, Null)])) (root (br_sax s))"
    by (rule json_pointers.change_cong [OF assms(5)]) (simp add: object_emplace_last less)
  then have key: "on_reader (sax_key k) s = Inr (Some (), s\<lparr>br_sax := ?d\<rparr>)"
    using assms(4) by (simp add: on_reader_def sax_key_def)
  have d: "ref_stack ?d = p # ps" "deref p (root ?d) = Some (Object (ys @ (k, Null) # []))"
      "object_element ?d = Some (p @ [Member k])"
    using assms(4,5) json_pointers.look_const [of p "root (br_sax s)"] by simp_all
  have "k \<notin> fst ` set ys" using less key_less_irrefl by auto
  note acc = accepts_object [OF d(1,2) this d(3)]
  obtain s2 where s2: "value (s\<lparr>br_sax := ?d\<rparr>) = Inr (Some (), s2)" "br_input s2 = rest"
    "root (br_sax s2) = modify p (\<lambda>_. Object (ys @ [(k, v)])) (root ?d)" "ref_stack (br_sax s2) = p # ps"
    using buildsD [OF assms(1), of "s\<lparr>br_sax := ?d\<rparr>" rest] assms(2) acc d(1) by auto
  have "deref p (root (br_sax s2)) = Some (Object (ys @ [(k, v)]))"
    using json_pointers.look_const [of p "root ?d"] d(2) s2(3) by simp
  moreover have "root (br_sax s2) = modify p (\<lambda>_. Object (ys @ [(k, v)])) (root (br_sax s))"
    using s2(3) by (simp add: json_pointers.change_const)
  ultimately show thesis using that key s2(1,2,4) by blast
qed

text \<open>An array and an object are opened, filled from the bytes \<open>bs\<close>, and closed.\<close>

definition fills :: "byte list \<Rightarrow> ('f binary_reader \<Rightarrow> (unit, 'f) reading) \<Rightarrow> 'f json \<Rightarrow> 'f json \<Rightarrow> bool" where
  "fills bs r v w \<longleftrightarrow> (\<forall>s rest p ps. br_input s = bs @ rest \<longrightarrow> ref_stack (br_sax s) = p # ps \<longrightarrow> deref p (root (br_sax s)) = Some v \<longrightarrow>
     (\<exists>s'. r s = Inr (Some (), s') \<and> br_input s' = rest \<and> root (br_sax s') = modify p (\<lambda>_. w) (root (br_sax s))
        \<and> ref_stack (br_sax s') = p # ps))"

lemma fillsD:
  assumes "fills bs r v w" "br_input s = bs @ rest" "ref_stack (br_sax s) = p # ps" "deref p (root (br_sax s)) = Some v"
  obtains s' where "r s = Inr (Some (), s')" "br_input s' = rest" "root (br_sax s') = modify p (\<lambda>_. w) (root (br_sax s))"
    "ref_stack (br_sax s') = p # ps"
  using assms unfolding fills_def by metis

lemma builds_array:
  fixes fill :: "'f binary_reader \<Rightarrow> (unit, 'f) reading"
  assumes "fills bs fill (Array []) (Array xs)" "len = - 1 \<or> unat len \<le> vector_max_size"
  shows "builds bs (\<lambda>s. and_then (on_reader (start_array_len len) s) (\<lambda>_ s. and_then (fill s) (\<lambda>_ s. on_reader end_array s))) (Array xs)"
proof (rule buildsI)
  fix s :: "'f binary_reader" and rest
  assume s: "br_input s = bs @ rest" and acc: "accepts (br_sax s)"
  obtain q d where d: "start_array (br_sax s) = Inr d" "enters q (Array []) (br_sax s) d"
    using start_array_accepts [OF acc] by blast
  have start: "on_reader (start_array_len len) s = Inr (Some (), s\<lparr>br_sax := d\<rparr>)"
    using d(1) assms(2) by (auto simp: on_reader_def start_array_len_def)
  have at: "br_input (s\<lparr>br_sax := d\<rparr>) = bs @ rest" "ref_stack (br_sax (s\<lparr>br_sax := d\<rparr>)) = q # ref_stack (br_sax s)"
    "deref q (root (br_sax (s\<lparr>br_sax := d\<rparr>))) = Some (Array [])"
    using s d(2) by (auto simp: enters_def)
  obtain s' where
    "fill (s\<lparr>br_sax := d\<rparr>) = Inr (Some (), s')" "br_input s' = rest"
    "root (br_sax s') = place (Array xs) (br_sax s)" "ref_stack (br_sax s') = q # ref_stack (br_sax s)"
    by (rule fillsD [OF assms(1) at]) (use d(2) in \<open>auto simp: enters_def\<close>)
  then show "\<exists>s'. and_then (on_reader (start_array_len len) s) (\<lambda>_ s. and_then (fill s) (\<lambda>_ s. on_reader end_array s)) = Inr (Some (), s')
      \<and> br_input s' = rest \<and> root (br_sax s') = place (Array xs) (br_sax s) \<and> ref_stack (br_sax s') = ref_stack (br_sax s)"
    by (simp add: start) (simp add: on_reader_def end_array_def)
qed

lemma builds_object:
  fixes fill :: "'f binary_reader \<Rightarrow> (unit, 'f) reading"
  assumes "fills bs fill (Object []) (Object ms)" "len = - 1 \<or> unat len \<le> map_max_size"
  shows "builds bs (\<lambda>s. and_then (on_reader (start_object_len len) s) (\<lambda>_ s. and_then (fill s) (\<lambda>_ s. on_reader end_object s))) (Object ms)"
proof (rule buildsI)
  fix s :: "'f binary_reader" and rest
  assume s: "br_input s = bs @ rest" and acc: "accepts (br_sax s)"
  obtain q d where d: "start_object (br_sax s) = Inr d" "enters q (Object []) (br_sax s) d"
    using start_object_accepts [OF acc] by blast
  have start: "on_reader (start_object_len len) s = Inr (Some (), s\<lparr>br_sax := d\<rparr>)"
    using d(1) assms(2) by (auto simp: on_reader_def start_object_len_def)
  have at: "br_input (s\<lparr>br_sax := d\<rparr>) = bs @ rest" "ref_stack (br_sax (s\<lparr>br_sax := d\<rparr>)) = q # ref_stack (br_sax s)"
    "deref q (root (br_sax (s\<lparr>br_sax := d\<rparr>))) = Some (Object [])"
    using s d(2) by (auto simp: enters_def)
  obtain s' where
    "fill (s\<lparr>br_sax := d\<rparr>) = Inr (Some (), s')" "br_input s' = rest"
    "root (br_sax s') = place (Object ms) (br_sax s)" "ref_stack (br_sax s') = q # ref_stack (br_sax s)"
    by (rule fillsD [OF assms(1) at]) (use d(2) in \<open>auto simp: enters_def\<close>)
  then show "\<exists>s'. and_then (on_reader (start_object_len len) s) (\<lambda>_ s. and_then (fill s) (\<lambda>_ s. on_reader end_object s)) = Inr (Some (), s')
      \<and> br_input s' = rest \<and> root (br_sax s') = place (Object ms) (br_sax s) \<and> ref_stack (br_sax s') = ref_stack (br_sax s)"
    by (simp add: start) (simp add: on_reader_def end_object_def)
qed

text \<open>
  What a format provides: how it writes and reads a value and a key, and its loops over the elements of an array and
  the members of an object.
\<close>

locale codec =
  fixes encode :: "'f json \<Rightarrow> byte list" and write_key :: "byte list \<Rightarrow> byte list"
    and encode_elements :: "'f json list \<Rightarrow> byte list" and encode_members :: "(byte list \<times> 'f json) list \<Rightarrow> byte list"
    and parse :: "'f binary_reader \<Rightarrow> (unit, 'f) reading" and read_key :: "'f binary_reader \<Rightarrow> (byte list, 'f) reading"
    and elements :: "nat \<Rightarrow> 'f binary_reader \<Rightarrow> (unit, 'f) reading"
    and members :: "nat \<Rightarrow> 'f binary_reader \<Rightarrow> (unit, 'f) reading"
    and limit :: nat and ok :: "'f json \<Rightarrow> bool"
  assumes encode_elements: "encode_elements [] = []" "encode_elements (v # xs) = encode v @ encode_elements xs"
    and encode_members: "encode_members [] = []" "encode_members ((k, v) # ms) = write_key k @ encode v @ encode_members ms"
    and elements: "elements 0 s = Inr (Some (), s)"
      "elements (Suc n) s = and_then (parse s) (\<lambda>_ s. elements n s)"
    and members: "members 0 s = Inr (Some (), s)"
      "members (Suc n) s =
         and_then (read_key s) (\<lambda>key s.
         and_then (on_reader (sax_key key) s) (\<lambda>_ s.
         and_then (parse s) (\<lambda>_ s. members n s)))"
    and key: "length k < limit \<Longrightarrow> delivers (write_key k) read_key k"
    and atom: "atomic v \<Longrightarrow> encodable limit ok v \<Longrightarrow> builds (encode v) parse v"
    and array: "length xs < limit \<Longrightarrow> length xs \<le> vector_max_size \<Longrightarrow>
      builds (encode_elements xs) (array_reader (of_nat (length xs)) elements) (Array xs) \<Longrightarrow> builds (encode (Array xs)) parse (Array xs)"
    and obj: "length ms < limit \<Longrightarrow> length ms \<le> map_max_size \<Longrightarrow>
      builds (encode_members ms) (object_reader (of_nat (length ms)) members) (Object ms) \<Longrightarrow> builds (encode (Object ms)) parse (Object ms)"
begin

lemma elements_read:
  assumes "\<forall>v \<in> set xs. builds (encode v) parse v"
  shows "fills (encode_elements xs) (elements (length xs)) (Array ys) (Array (ys @ xs))"
  using assms
proof (induction xs arbitrary: ys)
  case Nil
  then show ?case by (simp add: elements encode_elements modify_same fills_def)
next
  case (Cons v xs)
  show ?case unfolding fills_def
  proof (intro allI impI)
    fix s :: "'f binary_reader" and rest p ps
    assume s: "br_input s = encode_elements (v # xs) @ rest" "ref_stack (br_sax s) = p # ps" "deref p (root (br_sax s)) = Some (Array ys)"
    have v: "builds (encode v) parse v" "br_input s = encode v @ encode_elements xs @ rest"
      using Cons.prems s(1) by (simp_all add: encode_elements)
    obtain s1 where s1: "parse s = Inr (Some (), s1)" "br_input s1 = encode_elements xs @ rest"
      "root (br_sax s1) = modify p (\<lambda>_. Array (ys @ [v])) (root (br_sax s))" "ref_stack (br_sax s1) = p # ps"
      "deref p (root (br_sax s1)) = Some (Array (ys @ [v]))"
      by (rule element_read [OF v s(2,3)])
    from Cons.IH [of "ys @ [v]"] Cons.prems s1(2,4,5)
    show "\<exists>s'. elements (length (v # xs)) s = Inr (Some (), s') \<and> br_input s' = rest
        \<and> root (br_sax s') = modify p (\<lambda>_. Array (ys @ v # xs)) (root (br_sax s)) \<and> ref_stack (br_sax s') = p # ps"
      by (fastforce simp: fills_def elements s1(1,3) json_pointers.change_const)
  qed
qed

lemma members_read:
  assumes "\<forall>(k, v) \<in> set ms. length k < limit \<and> builds (encode v) parse v" "sorted_keys (ys @ ms)"
  shows "fills (encode_members ms) (members (length ms)) (Object ys) (Object (ys @ ms))"
  using assms
proof (induction ms arbitrary: ys)
  case Nil
  then show ?case by (simp add: members encode_members modify_same fills_def)
next
  case (Cons m ms)
  obtain k v where m: "m = (k, v)" by (cases m)
  show ?case unfolding fills_def
  proof (intro allI impI)
    fix s :: "'f binary_reader" and rest p ps
    assume s: "br_input s = encode_members (m # ms) @ rest" "ref_stack (br_sax s) = p # ps" "deref p (root (br_sax s)) = Some (Object ys)"
    have v: "builds (encode v) parse v" using Cons.prems by (simp add: m)
    obtain s1 where s1: "read_key s = Inr (Some k, s1)" "br_input s1 = encode v @ encode_members ms @ rest" "br_sax s1 = br_sax s"
      using deliversD [OF key, of k s "encode v @ encode_members ms @ rest"] Cons.prems(1) s(1) by (auto simp: m encode_members)
    obtain s2 s3 where s3: "on_reader (sax_key k) s1 = Inr (Some (), s2)" "parse s2 = Inr (Some (), s3)" "br_input s3 = encode_members ms @ rest"
      "root (br_sax s3) = modify p (\<lambda>_. Object (ys @ [(k, v)])) (root (br_sax s))" "ref_stack (br_sax s3) = p # ps"
      "deref p (root (br_sax s3)) = Some (Object (ys @ [(k, v)]))"
      using member_read [OF v s1(2), of ys k ms p ps] Cons.prems(2) s(2,3) s1(3) by (auto simp: m)
    from Cons.IH [of "ys @ [(k, v)]"] Cons.prems s3(3,5,6)
    show "\<exists>s'. members (length (m # ms)) s = Inr (Some (), s') \<and> br_input s' = rest
        \<and> root (br_sax s') = modify p (\<lambda>_. Object (ys @ m # ms)) (root (br_sax s)) \<and> ref_stack (br_sax s') = p # ps"
      by (fastforce simp: m fills_def members s1(1) s3(1,2,4) json_pointers.change_const)
  qed
qed

lemma array_built:
  assumes "\<forall>v \<in> set xs. builds (encode v) parse v" "unat len = length xs" "length xs \<le> vector_max_size"
  shows "builds (encode_elements xs) (array_reader len elements) (Array xs)"
  using builds_array [OF elements_read [OF assms(1), of "[]", simplified]] assms(2,3) by (simp add: array_reader_def [abs_def])

lemma object_built:
  assumes "\<forall>(k, v) \<in> set ms. length k < limit \<and> builds (encode v) parse v" "sorted_keys ms"
    "unat len = length ms" "length ms \<le> map_max_size"
  shows "builds (encode_members ms) (object_reader len members) (Object ms)"
  using builds_object [OF members_read [OF assms(1), of "[]", simplified]] assms(2-4) by (simp add: object_reader_def [abs_def])

lemma value_read_at:
  assumes "limit' = limit" "ok' = ok"
  shows "encodable limit' ok' v \<Longrightarrow> builds (encode v) parse v"
    "encodable_members limit' ok' ms \<Longrightarrow> \<forall>(k, v) \<in> set ms. length k < limit \<and> builds (encode v) parse v"
    "encodable_elements limit' ok' xs \<Longrightarrow> \<forall>v \<in> set xs. builds (encode v) parse v"
  using assms
proof (induction limit' ok' v and limit' ok' ms and limit' ok' xs rule: encodable_encodable_members_encodable_elements.induct)
  case (1 limit' ok' ms)
  then show ?case by (intro obj object_built) (auto simp: container_length)
next
  case (2 limit' ok' xs)
  then show ?case by (intro array array_built) (auto simp: container_length)
qed (auto intro: atom)

lemmas value_read = value_read_at(1) [OF refl refl]

end

end
