(* ===== verification/Json_Cbor_Props.thy ===== *)
theory Json_Cbor_Props
  imports Json_Cbor Json_Binary_Facts
begin

text \<open>
  CBOR is read back: \<open>from_cbor\<close> of what \<open>to_cbor\<close> writes is the value.
\<close>

section \<open>Control bytes and lengths\<close>

lemma cbor_low:
  assumes "n \<le> 0x17" "base \<in> {0, 0x40, 0x60, 0x80, 0xA0}"
  shows "base \<le> of_nat (unat base + n) \<and> of_nat (unat base + n) \<le> (base + 0x17 :: byte)
    \<and> and (of_nat (unat base + n)) 0x1F = (of_nat n :: byte) \<and> (of_nat n :: byte) \<le> 0x17
    \<and> ucast (of_nat n :: byte) = (of_nat n :: 64 word)"
proof -
  have "\<forall>m \<in> set [0..<Suc 0x17]. \<forall>b \<in> {0, 0x40, 0x60, 0x80, 0xA0 :: byte}. b \<le> of_nat (unat b + m) \<and> of_nat (unat b + m) \<le> b + 0x17
    \<and> and (of_nat (unat b + m)) 0x1F = (of_nat m :: byte) \<and> (of_nat m :: byte) \<le> 0x17 \<and> ucast (of_nat m :: byte) = (of_nat m :: 64 word)"
    by code_simp
  moreover have "n \<in> set [0..<Suc 0x17]" using assms(1) by simp
  ultimately show ?thesis using assms(2) by blast
qed

lemma cbor_head_size:
  assumes "n < 2 ^ 64" "base \<in> {0, 0x40, 0x60, 0x80, 0xA0}"
  obtains c bs where "write_cbor_head base n = c # bs" "base \<le> c" "c \<le> base + 0x1B"
    "delivers bs (cbor_size c) (of_nat n)"
proof -
  consider "n \<le> 0x17" | "0x17 < n" "n \<le> 0xFF" | "0xFF < n" "n \<le> 0xFFFF" | "0xFFFF < n" "n \<le> 0xFFFFFFFF" | "0xFFFFFFFF < n"
    by linarith
  then show thesis
  proof cases
    case 1
    note low = cbor_low [OF 1 assms(2)]
    have "base + 0x17 \<le> base + 0x1B" using assms(2) by auto
    then show thesis using 1 low
      by (intro that [of "of_nat (unat base + n)" "[]"]) (auto simp: write_cbor_head_def cbor_size_def [abs_def] delivers_value)
  next
    case 2
    then show thesis using delivers_sized [of F_cbor "of_nat n :: 8 word" "of_nat n"] assms(2)
      by (intro that [of "base + 0x18" "write_number False (of_nat n :: 8 word)"]) 
         (auto simp: write_cbor_head_def cbor_size_def [abs_def] ucast_of_nat)
  next
    case 3
    then show thesis using delivers_sized [of F_cbor "of_nat n :: 16 word" "of_nat n"] assms(2)
      by (intro that [of "base + 0x19" "write_number False (of_nat n :: 16 word)"]) 
         (auto simp: write_cbor_head_def cbor_size_def [abs_def] ucast_of_nat)
  next
    case 4
    then show thesis using delivers_sized [of F_cbor "of_nat n :: 32 word" "of_nat n"] assms(2)
      by (intro that [of "base + 0x1A" "write_number False (of_nat n :: 32 word)"]) 
         (auto simp: write_cbor_head_def cbor_size_def [abs_def] ucast_of_nat)
  next
    case 5
    then show thesis using delivers_number [of F_cbor "of_nat n :: 64 word"] assms
      by (intro that [of "base + 0x1B" "write_number False (of_nat n :: 64 word)"]) 
         (auto simp: write_cbor_head_def cbor_size_def [abs_def])
  qed
qed

section \<open>Strings and byte arrays\<close>

lemma delivers_cbor_bytes:
  assumes "length bs < 2 ^ 64" "base \<in> {0x40, 0x60}"
  obtains c cs where "write_cbor_head base (length bs) @ bs = c # cs" "base \<le> c" "c \<le> base + 0x1B"
    "\<And>ctx detail. delivers (c # cs) (\<lambda>s :: 'f binary_reader. get_cbor_bytes base ctx detail (read_next s)) bs"
proof -
  have "base \<in> {0, 0x40, 0x60, 0x80, 0xA0}" using assms(2) by blast
  from cbor_head_size [OF assms(1) this] obtain c cs where c: "write_cbor_head base (length bs) = c # cs" "base \<le> c" "c \<le> base + 0x1B"
    "delivers cs (cbor_size c :: 'f binary_reader \<Rightarrow> _) (of_nat (length bs))" .
  have "unat (of_nat (length bs) :: 64 word) = length bs" using assms(1) by (simp add: unsigned_of_nat take_bit_nat_eq_self)
  then have "delivers (cs @ bs) (\<lambda>s :: 'f binary_reader. and_then (cbor_size c s) (\<lambda>len s. get_bytes F_cbor ctx (unat len) [] s)) bs" for ctx
    using delivers_and_then [OF c(4), of bs "\<lambda>len. get_bytes F_cbor ctx (unat len) []" bs]
      delivers_get_bytes [where 'f = 'f, of bs "length bs" F_cbor ctx "[]"] by simp
  then have "delivers (c # cs @ bs) (\<lambda>s :: 'f binary_reader. get_cbor_bytes base ctx detail (read_next s)) bs" for ctx detail
    by (rule delivers_byte) (simp add: get_cbor_bytes.simps c(2,3))
  then show thesis using c by (intro that) simp_all
qed

section \<open>Values\<close>

lemma parse_cbor_True: "parse_cbor F h True = (\<lambda>s. parse_cbor F h False (read_next s))"
  by (rule ext) (simp add: parse_cbor.simps)

lemma builds_cbor:
  assumes "builds bs r v" "\<And>s. br_current s = Some c \<Longrightarrow> parse_cbor F h False s = r s"
  shows "builds (c # bs) (parse_cbor F h True) v"
  unfolding parse_cbor_True using assms by (rule builds_byte)

lemma cbor_simple_byte:
  fixes c :: byte
  assumes "c < 0x80 \<or> 0xF4 \<le> c"
  shows "\<not> (0x80 \<le> c \<and> c \<le> 0x9B \<or> c = 0x9F)" "\<not> (0xA0 \<le> c \<and> c \<le> 0xBB \<or> c = 0xBF)"
    "\<not> (0xC6 \<le> c \<and> c \<le> 0xD4 \<or> 0xD8 \<le> c \<and> c \<le> 0xDB)"
  using assms by (auto simp: word_le_nat_alt word_less_nat_alt)

lemma parse_cbor_simple: "br_current s = Some c \<Longrightarrow> c < 0x80 \<or> 0xF4 \<le> c \<Longrightarrow> parse_cbor F h False s = cbor_simple F c s"
  by (subst parse_cbor.simps) (simp only: Let_def cbor_simple_byte if_False option.case)

lemma cbor_number_size:
  assumes "c \<le> 0x1B"
  shows "cbor_number c s = and_then (cbor_size c s) (\<lambda>n s. sax_json (Number_unsigned n) s)"
proof (cases "c \<le> 0x17")
  case True
  then have "and c 0x1F = c" by (rule byte_upto [rotated]) code_simp
  with True show ?thesis by (simp add: cbor_number_def cbor_size_def)
next
  case False
  have "c \<le> 0x17 \<or> c = 0x18 \<or> c = 0x19 \<or> c = 0x1A \<or> c = 0x1B"
    using assms by (rule byte_upto [rotated]) code_simp
  with False show ?thesis by (auto simp: cbor_number_def cbor_size_def and_then_assoc)
qed

lemma builds_cbor_unsigned:
  fixes F :: "('f, 'z) image_ops_scheme"
  assumes "n < 2 ^ 64"
  shows "builds (write_cbor_head 0 n) (parse_cbor F h True) (Number_unsigned (of_nat n))"
proof -
  from assms obtain c bs where c: "write_cbor_head 0 n = c # bs" "c \<le> 0x1B" "delivers bs (cbor_size c :: 'f binary_reader \<Rightarrow> _) (of_nat n)"
    using cbor_head_size [of n 0] by auto
  have "builds bs (\<lambda>s :: 'f binary_reader. and_then (cbor_size c s) (\<lambda>n s. sax_json (Number_unsigned n) s)) (Number_unsigned (of_nat n))"
    using builds_delivered [OF c(3), where f = "\<lambda>n s. sax_json (Number_unsigned n) s" and v = "Number_unsigned (of_nat n)"] by (simp add: sax_json_def)
  then have "builds (c # bs) (parse_cbor F h True) (Number_unsigned (of_nat n))"
    by (rule builds_cbor) (use c(2) in \<open>auto simp: parse_cbor_simple cbor_simple_def cbor_number_size le_less_trans\<close>)
  then show ?thesis by (simp add: c(1))
qed

text \<open>A number behind the byte \<open>c\<close>, and a byte alone.\<close>

lemma builds_cbor_number:
  fixes w :: "'a::len word"
  assumes "8 dvd LENGTH('a)" "c < 0x80 \<or> 0xF4 \<le> c"
    "\<And>s. cbor_simple F c s = and_then (get_number F_cbor False s) (\<lambda>(n :: 'a word) s. sax_json (f n) s)"
  shows "builds (c # write_number False w) (parse_cbor F h True) (f w)"
  by (rule builds_cbor [OF builds_delivered [OF delivers_number [of F_cbor w], where f = "\<lambda>n s. sax_json (f n) s" and v = "f w"]])
    (use assms in \<open>auto simp: parse_cbor_simple sax_json_def\<close>)

lemma builds_cbor_byte:
  assumes "c < 0x80 \<or> 0xF4 \<le> c" "\<And>s. br_current s = Some c \<Longrightarrow> cbor_simple F c s = sax_json v s"
  shows "builds [c] (parse_cbor F h True) v"
  by (rule builds_cbor [OF builds_sax_value]) (use assms in \<open>simp add: parse_cbor_simple sax_json_def\<close>)

lemma widen_complement:
  assumes "0 \<le> p" "p < 2 ^ LENGTH('a)" "word_of_int p = - 1 - x"
  shows "- 1 - ucast (word_of_int p :: 'a::len word) = (x :: 64 word)"
proof -
  have "ucast (word_of_int p :: 'a word) = (word_of_int p :: 64 word)"
    using assms(1,2) by (simp add: unsigned_of_int take_bit_int_eq_self)
  with assms(3) show ?thesis by simp
qed

lemma builds_cbor_integer:
  assumes "sint x < 0"
  shows "builds (write_cbor_integer x) (parse_cbor F h True) (Number_integer x)"
proof -
  define p where "p = - 1 - sint x"
  have p: "0 \<le> p" "p < 2 ^ 63" "word_of_int p = - 1 - x"
    using assms sint_ge [of x] by (simp_all add: p_def)
  consider "p < 0x18" | "0x18 \<le> p" "p \<le> 0xFF" | "0xFF < p" "p \<le> 0xFFFF" | "0xFFFF < p" "p \<le> 0xFFFFFFFF" | "0xFFFFFFFF < p"
    by linarith
  then show ?thesis
  proof cases
    case 1
    obtain b :: byte where b: "b = word_of_int (0x20 + p)" by simp
    have c: "write_cbor_integer x = [b]"
      using 1 assms by (simp add: write_cbor_integer_def p_def b)
    have u: "uint b = 0x20 + p" unfolding b using 1 p(1) by (subst unsigned_of_int, subst take_bit_int_eq_self) simp_all
    have "\<not> b \<le> 0x1B" "\<not> b \<le> 0x17" "b \<noteq> 0x18" "b \<noteq> 0x19" "b \<noteq> 0x1A" "b \<noteq> 0x1B" "0x20 \<le> b" "b \<le> 0x37" "b \<le> 0x3B" "b < 0x80"
      using 1 p(1) u by (auto simp: word_le_def word_less_def)
    moreover have "word_of_int (0x20 - 1 - uint b) = x" unfolding u by (simp add: p_def)
    ultimately show ?thesis unfolding c by (intro builds_cbor_byte) (auto simp: cbor_simple_def cbor_number_def)
  next
    case 2
    then show ?thesis
      using builds_cbor_number [of "0x38" F "\<lambda>n :: 8 word. Number_integer (- 1 - ucast n)" "word_of_int p" h] widen_complement [of p x, where 'a = 8] p assms
      by (simp add: write_cbor_integer_def p_def cbor_simple_def cbor_number_def)
  next
    case 3
    then show ?thesis
      using builds_cbor_number [of "0x39" F "\<lambda>n :: 16 word. Number_integer (- 1 - ucast n)" "word_of_int p" h] widen_complement [of p x, where 'a = 16] p assms
      by (simp add: write_cbor_integer_def p_def cbor_simple_def cbor_number_def)
  next
    case 4
    then show ?thesis
      using builds_cbor_number [of "0x3A" F "\<lambda>n :: 32 word. Number_integer (- 1 - ucast n)" "word_of_int p" h] widen_complement [of p x, where 'a = 32] p assms
      by (simp add: write_cbor_integer_def p_def cbor_simple_def cbor_number_def)
  next
    case 5
    then show ?thesis
      using builds_cbor_number [of "0x3B" F "\<lambda>n :: 64 word. Number_integer (- 1 - n)" "word_of_int p" h] widen_complement [of p x, where 'a = 64] p assms
      by (simp add: write_cbor_integer_def p_def cbor_simple_def cbor_number_def)
  qed
qed

lemma cbor_string_read:
  assumes "length bs < 2 ^ 64"
  obtains c cs where "write_cbor_string bs = c # cs" "0x60 \<le> c" "c \<le> 0x7B"
    "delivers (c # cs) (\<lambda>s :: 'f binary_reader. get_cbor_string (read_next s)) bs"
proof (rule delivers_cbor_bytes [OF assms, of "0x60"])
  fix c cs
  assume "write_cbor_head 0x60 (length bs) @ bs = c # cs" "0x60 \<le> c" "c \<le> 0x60 + 0x1B"
    "\<And>ctx detail. delivers (c # cs) (\<lambda>s :: 'f binary_reader. get_cbor_bytes 0x60 ctx detail (read_next s)) bs"
  then show thesis by (intro that [of c cs]) (simp_all add: write_cbor_string_def get_cbor_string_def)
qed simp

lemma cbor_binary_read:
  assumes "length bs < 2 ^ 64"
  obtains c cs where "write_cbor_binary bs None = c # cs" "0x40 \<le> c" "c \<le> 0x5B"
    "delivers (c # cs) (\<lambda>s :: 'f binary_reader. get_cbor_binary (read_next s)) bs"
proof (rule delivers_cbor_bytes [OF assms, of "0x40"])
  fix c cs
  assume "write_cbor_head 0x40 (length bs) @ bs = c # cs" "0x40 \<le> c" "c \<le> 0x40 + 0x1B"
    "\<And>ctx detail. delivers (c # cs) (\<lambda>s :: 'f binary_reader. get_cbor_bytes 0x40 ctx detail (read_next s)) bs"
  then show thesis by (intro that [of c cs]) (simp_all add: write_cbor_binary_def get_cbor_binary_def)
qed simp

text \<open>A string or byte array is read again from its control byte.\<close>

lemma builds_read_again:
  fixes F :: "('f, 'z) image_ops_scheme"
  assumes "delivers (c # cs) (\<lambda>s. read (read_next s)) bs" "c < 0x80"
    "\<And>s. cbor_simple F c s = and_then (read s) (\<lambda>t s. sax_json (f t) s)"
  shows "builds (c # cs) (parse_cbor F h True) (f bs)"
proof -
  have "builds (c # cs) (\<lambda>s. and_then (read (read_next s)) (\<lambda>t s. sax_json (f t) s)) (f bs)"
    using builds_delivered [OF assms(1), where f = "\<lambda>t s. sax_json (f t) s" and v = "f bs"] by (simp add: sax_json_def)
  then show ?thesis
    using assms(2,3) by (simp add: builds_def parse_cbor_True parse_cbor_simple read_next_Cons)
qed

lemma builds_cbor_string:
  fixes F :: "('f, 'z) image_ops_scheme"
  assumes "length bs < 2 ^ 64"
  shows "builds (write_cbor_string bs) (parse_cbor F h True) (String bs)"
proof (rule cbor_string_read [OF assms])
  fix c cs
  assume c: "write_cbor_string bs = c # cs" "0x60 \<le> c" "c \<le> 0x7B"
    "delivers (c # cs) (\<lambda>s :: 'f binary_reader. get_cbor_string (read_next s)) bs"
  have "builds (c # cs) (parse_cbor F h True) (String bs)"
    by (rule builds_read_again [OF c(4)]) (use c(2,3) in \<open>auto simp: cbor_simple_def word_le_nat_alt word_less_nat_alt\<close>)
  then show ?thesis by (simp add: c(1))
qed

lemma builds_cbor_binary:
  fixes F :: "('f, 'z) image_ops_scheme"
  assumes "length bs < 2 ^ 64"
  shows "builds (write_cbor_binary bs None) (parse_cbor F h True) (Binary bs None)"
proof (rule cbor_binary_read [OF assms])
  fix c cs
  assume c: "write_cbor_binary bs None = c # cs" "0x40 \<le> c" "c \<le> 0x5B"
    "delivers (c # cs) (\<lambda>s :: 'f binary_reader. get_cbor_binary (read_next s)) bs"
  have "builds (c # cs) (parse_cbor F h True) (Binary bs None)"
    by (rule builds_read_again [OF c(4), where f = "\<lambda>b. Binary b None"])
      (use c(2,3) in \<open>auto simp: cbor_simple_def word_le_nat_alt word_less_nat_alt\<close>)
  then show ?thesis by (simp add: c(1))
qed

text \<open>A byte array behind the tag of its subtype.\<close>

lemma delivers_cbor_subtype:
  obtains d nb where "write_cbor_subtype st = d # nb" "d \<in> {0xD8, 0xD9, 0xDA, 0xDB}" "delivers nb (cbor_tag_number d) st"
proof -
  consider "st \<le> 0xFF" | "\<not> st \<le> 0xFF" "st \<le> 0xFFFF" | "\<not> st \<le> 0xFF" "\<not> st \<le> 0xFFFF" "st \<le> 0xFFFFFFFF"
    | "\<not> st \<le> 0xFF" "\<not> st \<le> 0xFFFF" "\<not> st \<le> 0xFFFFFFFF" by blast
  then show thesis
  proof cases
    case 1
    then have "delivers (write_number False (ucast st :: 8 word)) (cbor_tag_number 0xD8) st"
      using delivers_sized [of F_cbor "ucast st :: 8 word" st] narrow_wide [of st, where 'a = 8]
      by (simp add: cbor_tag_number_def [abs_def] word_le_nat_alt)
    with 1 show thesis by (intro that) (auto simp: write_cbor_subtype_def)
  next
    case 2
    then have "delivers (write_number False (ucast st :: 16 word)) (cbor_tag_number 0xD9) st"
      using delivers_sized [of F_cbor "ucast st :: 16 word" st] narrow_wide [of st, where 'a = 16]
      by (simp add: cbor_tag_number_def [abs_def] word_le_nat_alt)
    with 2 show thesis by (intro that) (auto simp: write_cbor_subtype_def)
  next
    case 3
    then have "delivers (write_number False (ucast st :: 32 word)) (cbor_tag_number 0xDA) st"
      using delivers_sized [of F_cbor "ucast st :: 32 word" st] narrow_wide [of st, where 'a = 32]
      by (simp add: cbor_tag_number_def [abs_def] word_le_nat_alt)
    with 3 show thesis by (intro that) (auto simp: write_cbor_subtype_def)
  next
    case 4
    have "delivers (write_number False st) (cbor_tag_number 0xDB) st"
      using delivers_number [of F_cbor st] by (simp add: cbor_tag_number_def [abs_def])
    with 4 show thesis by (intro that) (auto simp: write_cbor_subtype_def)
  qed
qed

lemma builds_tagged:
  assumes "delivers nb (cbor_tag_number d :: 'f binary_reader \<Rightarrow> _) n"
    "builds cs (\<lambda>s :: 'f binary_reader. and_then (get_cbor_binary (read_next s)) (\<lambda>b s. sax_json (Binary b (Some n)) s)) v"
  shows "builds (nb @ cs) (cbor_tagged d) v"
proof (rule buildsI)
  fix s :: "'f binary_reader" and rest
  assume s: "br_input s = (nb @ cs) @ rest" "accepts (br_sax s)"
  then obtain s1 where s1: "cbor_tag_number d s = Inr (Some n, s1)" "br_input s1 = cs @ rest" "br_sax s1 = br_sax s"
    using deliversD [OF assms(1), of s "cs @ rest"] by auto
  with s(2) buildsD [OF assms(2) s1(2)]
  show "\<exists>s'. cbor_tagged d s = Inr (Some (), s') \<and> br_input s' = rest \<and> root (br_sax s') = place v (br_sax s)
      \<and> ref_stack (br_sax s') = ref_stack (br_sax s)"
    by (auto simp: cbor_tagged_def)
qed

lemma builds_cbor_subtyped:
  fixes F :: "('f, 'z) image_ops_scheme"
  assumes "length bs < 2 ^ 64"
  shows "builds (write_cbor_binary bs (Some st)) (parse_cbor F Tag_store True) (Binary bs (Some st))"
proof (rule cbor_binary_read [OF assms])
  fix c cs
  assume c: "write_cbor_binary bs None = c # cs"
    "delivers (c # cs) (\<lambda>s :: 'f binary_reader. get_cbor_binary (read_next s)) bs"
  obtain d nb where d: "write_cbor_subtype st = d # nb" "d \<in> {0xD8, 0xD9, 0xDA, 0xDB}"
    "delivers nb (cbor_tag_number d :: 'f binary_reader \<Rightarrow> _) st" by (rule delivers_cbor_subtype)
  have "builds (c # cs) (\<lambda>s :: 'f binary_reader. and_then (get_cbor_binary (read_next s)) (\<lambda>b s. sax_json (Binary b (Some st)) s))
      (Binary bs (Some st))"
    using builds_delivered [OF c(2), where f = "\<lambda>b s. sax_json (Binary b (Some st)) s" and v = "Binary bs (Some st)"]
    by (simp add: sax_json_def)
  from builds_tagged [OF d(3) this] have "builds (d # nb @ c # cs) (parse_cbor F Tag_store True) (Binary bs (Some st))"
    by (rule builds_cbor) (use d(2) in \<open>auto simp: parse_cbor.simps\<close>)
  moreover have "write_cbor_binary bs (Some st) = d # nb @ c # cs"
    using c(1) by (simp add: write_cbor_binary_def d(1))
  ultimately show ?thesis by simp
qed

text \<open>
  A number of type \<open>double\<close> that is read back: it is not NaN, of which only one is written, it is one of the two
  infinities, or the conversions give it back.
\<close>

definition cbor_faithful :: "('f, 'z) image_ops_scheme \<Rightarrow> 'f \<Rightarrow> bool" where
  "cbor_faithful F x \<longleftrightarrow> \<not> is_nan F x \<and>
     (if is_inf F x then x = (if is_positive F x then infinity F else negate F (infinity F)) else compact_faithful F x)"

lemma builds_cbor_compact:
  assumes "compact_faithful F x"
  shows "builds (write_compact_float 0xFA 0xFB F x) (parse_cbor F h True) (Number_float x)"
  using assms builds_cbor_number [of "0xFA" F "\<lambda>n :: 32 word. Number_float (of_float_image F n)" "float_image F x" h]
    builds_cbor_number [of "0xFB" F "\<lambda>n :: 64 word. Number_float (of_double_image F n)" "double_image F x" h]
  by (auto simp: write_compact_float_def compact_faithful_def cbor_simple_def)

lemma half_infinity: "half_value F 0x7C 0 = infinity F" "half_value F 0xFC 0 = negate F (infinity F)"
proof -
  have "and (drop_bit 10 (0x7C00 :: 32 word)) 0x1F = 31" "and (0x7C00 :: 32 word) 0x3FF = 0" "and (0x7C00 :: 32 word) 0x8000 = 0"
    "and (drop_bit 10 (0xFC00 :: 32 word)) 0x1F = 31" "and (0xFC00 :: 32 word) 0x3FF = 0" "and (0xFC00 :: 32 word) 0x8000 \<noteq> 0"
    "push_bit 8 (ucast (0x7C :: byte)) = (0x7C00 :: 32 word)" "push_bit 8 (ucast (0xFC :: byte)) = (0xFC00 :: 32 word)"
    by code_simp+
  then show "half_value F 0x7C 0 = infinity F" "half_value F 0xFC 0 = negate F (infinity F)"
    by (simp_all add: half_value_def)
qed

lemma builds_cbor_half: "builds [0xF9, b1, b2] (parse_cbor F h True) (Number_float (half_value F b1 b2))"
proof -
  have "builds [b1, b2] (cbor_half F) (Number_float (half_value F b1 b2))"
    by (rule buildsI) (simp add: cbor_half_def read_next_Cons sax_json_def on_reader_def sax_value_accepts)
  then show ?thesis by (rule builds_cbor) (simp add: parse_cbor_simple cbor_simple_def)
qed

lemma builds_cbor_float:
  assumes "cbor_faithful F x"
  shows "builds (write_cbor_float F x) (parse_cbor F h True) (Number_float x)"
  using assms builds_cbor_compact [of F x h] builds_cbor_half [of "0x7C" 0 F h] builds_cbor_half [of "0xFC" 0 F h]
  by (auto simp: write_cbor_float_def half_infinity cbor_faithful_def split: if_splits)

section \<open>The round trip\<close>

text \<open>
  The values that are read back as they are, with the handler \<open>h\<close> for tags: a signed number is negative, a
  number of type \<open>double\<close> is given back by the conversions, a subtype is stored, and there is no discarded value.
\<close>

fun cbor_atom :: "('f, 'z) image_ops_scheme \<Rightarrow> cbor_tag_handler_t \<Rightarrow> 'f json \<Rightarrow> bool" where
  "cbor_atom F h (Number_integer x) = (sint x < 0)"
| "cbor_atom F h (Number_float x) = cbor_faithful F x"
| "cbor_atom F h (Binary b st) = (st = None \<or> h = Tag_store)"
| "cbor_atom F h Discarded = False"
| "cbor_atom F h v = True"

lemma builds_cbor_atom:
  assumes "atomic v" "encodable (2 ^ 64) (cbor_atom F h) v"
  shows "builds (write_cbor F v) (parse_cbor F h True) v"
proof (cases v)
  case Null
  then show ?thesis by (auto intro: builds_cbor_byte simp: cbor_simple_def)
next
  case (Boolean b)
  then show ?thesis by (auto intro: builds_cbor_byte simp: cbor_simple_def)
next
  case (Number_unsigned x)
  then show ?thesis using builds_cbor_unsigned [of "unat x" F h] unsigned_less [of x, where 'a = nat] by simp
next
  case (Binary b st)
  then show ?thesis using assms(2) by (cases st) (auto intro: builds_cbor_binary builds_cbor_subtyped)
qed (use assms in \<open>auto intro: builds_cbor_integer builds_cbor_float builds_cbor_string\<close>)

lemma cbor_array_byte:
  fixes c :: byte
  assumes "0x80 \<le> c" "c \<le> 0x9B"
  shows "0x80 \<le> c \<and> c \<le> 0x9B \<or> c = 0x9F"
  using assms by simp

lemma cbor_object_byte:
  fixes c :: byte
  assumes "0xA0 \<le> c" "c \<le> 0xBB"
  shows "\<not> (0x80 \<le> c \<and> c \<le> 0x9B \<or> c = 0x9F)" "0xA0 \<le> c \<and> c \<le> 0xBB \<or> c = 0xBF"
  using assms by (auto simp: word_le_nat_alt)

lemma builds_cbor_array:
  fixes F :: "('f, 'z) image_ops_scheme"
  assumes "length xs \<le> vector_max_size"
    "builds (write_cbor_elements F xs) (array_reader (of_nat (length xs)) (cbor_elements F h)) (Array xs)"
  shows "builds (write_cbor F (Array xs)) (parse_cbor F h True) (Array xs)"
proof -
  have n: "length xs < 2 ^ 64" using assms(1) by (simp add: vector_max_size_def)
  then obtain c bs where c: "write_cbor_head 0x80 (length xs) = c # bs" "0x80 \<le> c" "c \<le> 0x9B"
    "delivers bs (cbor_size c :: 'f binary_reader \<Rightarrow> _) (of_nat (length xs))"
    using cbor_head_size [of "length xs" "0x80"] by auto
  have "(of_nat (length xs) :: 64 word) \<noteq> - 1" using assms(1) container_length(2) by blast
  then have "get_cbor_array F h (of_nat (length xs)) s = array_reader (of_nat (length xs)) (cbor_elements F h) s" for s
    by (simp add: get_cbor_array.simps array_reader_def)
  then have "builds (bs @ write_cbor_elements F xs) (\<lambda>s. and_then (cbor_size c s) (\<lambda>len s. get_cbor_array F h len s)) (Array xs)"
    using assms(2) by (intro builds_and_then [OF c(4)]) (simp add: builds_def)
  then have "builds (c # bs @ write_cbor_elements F xs) (parse_cbor F h True) (Array xs)"
    by (rule builds_cbor) (subst parse_cbor.simps, simp only: Let_def if_False option.case cbor_array_byte [OF c(2,3)] if_True)
  then show ?thesis by (simp add: c(1))
qed

lemma builds_cbor_object:
  fixes F :: "('f, 'z) image_ops_scheme"
  assumes "length ms \<le> map_max_size"
    "builds (write_cbor_members F ms) (object_reader (of_nat (length ms)) (cbor_members F h)) (Object ms)"
  shows "builds (write_cbor F (Object ms)) (parse_cbor F h True) (Object ms)"
proof -
  have n: "length ms < 2 ^ 64" using assms(1) by (simp add: map_max_size_def)
  then obtain c bs where c: "write_cbor_head 0xA0 (length ms) = c # bs" "0xA0 \<le> c" "c \<le> 0xBB"
    "delivers bs (cbor_size c :: 'f binary_reader \<Rightarrow> _) (of_nat (length ms))"
    using cbor_head_size [of "length ms" "0xA0"] by auto
  have "(of_nat (length ms) :: 64 word) \<noteq> - 1" using assms(1) container_length(2) by blast
  then have "get_cbor_object F h (of_nat (length ms)) s = object_reader (of_nat (length ms)) (cbor_members F h) s" for s
    by (simp add: get_cbor_object.simps object_reader_def)
  then have "builds (bs @ write_cbor_members F ms) (\<lambda>s. and_then (cbor_size c s) (\<lambda>len s. get_cbor_object F h len s)) (Object ms)"
    using assms(2) by (intro builds_and_then [OF c(4)]) (simp add: builds_def)
  then have "builds (c # bs @ write_cbor_members F ms) (parse_cbor F h True) (Object ms)"
    by (rule builds_cbor) (subst parse_cbor.simps, simp only: Let_def if_False option.case cbor_object_byte [OF c(2,3)] if_True)
  then show ?thesis by (simp add: c(1))
qed

text \<open>CBOR is a codec on these values.\<close>

interpretation cbor: codec "write_cbor F" write_cbor_string "write_cbor_elements F" "write_cbor_members F" "parse_cbor F h True"
    "\<lambda>s. get_cbor_string (read_next s)" "cbor_elements F h" "cbor_members F h" "2 ^ 64" "cbor_atom F h" for F h
proof (unfold_locales, goal_cases)
  case (6 n s)
  show ?case by (subst cbor_elements.simps) simp
next
  case (8 n s)
  show ?case by (subst cbor_members.simps) simp
next
  case (9 k)
  then show ?case by (rule cbor_string_read) simp
next
  case (10 v)
  then show ?case by (rule builds_cbor_atom)
next
  case (11 xs)
  from 11(2,3) show ?case by (rule builds_cbor_array)
next
  case (12 ms)
  from 12(2,3) show ?case by (rule builds_cbor_object)
qed (simp_all add: cbor_elements.simps cbor_members.simps)

text \<open>
  C10. CBOR round trip: \<open>from_cbor\<close> reads from what \<open>to_cbor\<close> writes the value it was given, whatever follows when it is
  not strict, and whether or not it throws on errors, for every value whose lengths fit the format, whose keys are in
  order and whose numbers and byte arrays are ones that CBOR can tell apart (\<open>cbor_atom\<close>).
\<close>

theorem cbor_roundtrip:
  assumes "encodable (2 ^ 64) (cbor_atom F tag_handler) j" "strict \<longrightarrow> rest = []"
  shows "from_cbor F (to_cbor F j @ rest) strict allow tag_handler = Inr j"
  unfolding from_cbor_def to_cbor_def by (rule finished_built [OF cbor.value_read [OF assms(1)] assms(2)])

theorem cbor_roundtrip_witness:
  "from_cbor whole_images (to_cbor whole_images (Object
      [(str ''a'', Array [Number_integer (- 300), Number_unsigned 70000, Number_float 5]), (str ''b'', Binary [1, 2] (Some 42))]) @ [7])
    False True Tag_store =
   Inr (Object [(str ''a'', Array [Number_integer (- 300), Number_unsigned 70000, Number_float 5]), (str ''b'', Binary [1, 2] (Some 42))])"
  by (rule cbor_roundtrip)
    (simp_all add: str_def map_max_size_def vector_max_size_def sorted_keys_def cbor_faithful_def compact_faithful_def
      whole_images_def float_ops.defs)

section \<open>Values that are not read as they should\<close>

text \<open>A negative integer below the range of 64 bits becomes one that is not negative: \<open>-1 - n\<close> wraps around.\<close>

lemma cbor_negative_wraps:
  "from_cbor F (0x3B # write_number False (2 ^ 63 :: 64 word)) True allow h = Inr (Number_integer (2 ^ 63 - 1))"
  using finished_built [of _ _ _ True "[]", OF builds_cbor_number [of "0x3B" F "\<lambda>n :: 64 word. Number_integer (- 1 - n)" "2 ^ 63" h]]
  by (simp add: from_cbor_def cbor_simple_def cbor_number_def)

text \<open>The length \<open>2^64 - 1\<close> is taken for one that is not known, so that the array ends with the byte \<open>FF\<close>.\<close>

lemma cbor_long_array:
  fixes F :: "('f, 'z) image_ops_scheme"
  obtains s where "br_input s = rest" "br_sax s = dom_init allow"
    "from_cbor F (0x9B # write_number False n @ rest) strict allow h = finished (end_of_value F_cbor strict (get_cbor_array F h n s))"
proof -
  let ?s = "\<lparr>br_input = write_number False n @ rest, br_current = Some 0x9B, br_chars_read = Suc 0, br_sax = dom_init allow\<rparr> :: 'f binary_reader"
  obtain s where s: "get_number F_cbor False ?s = Inr (Some n, s)" "br_input s = rest" "br_sax s = dom_init allow"
    using deliversD [OF delivers_number [of F_cbor n], of ?s rest] by auto
  have "parse_cbor F h True (reader_init (0x9B # write_number False n @ rest) allow) = get_cbor_array F h n s"
    by (subst parse_cbor.simps) (simp add: reader_init_def read_next_def cbor_size_def s)
  with s show thesis by (intro that) (simp_all add: from_cbor_def)
qed

lemma cbor_length_unknown:
  "from_cbor F (0x9B # write_number False (- 1 :: 64 word) @ [0xF6, 0xFF]) True allow h = Inr (Array [Null])"
proof (rule cbor_long_array)
  fix s
  assume s: "br_input s = [0xF6, 0xFF]" "br_sax s = dom_init allow"
    "from_cbor F (0x9B # write_number False (- 1 :: 64 word) @ [0xF6, 0xFF]) True allow h =
     finished (end_of_value F_cbor True (get_cbor_array F h (- 1) s))"
  then show ?thesis
    by (simp add: get_cbor_array.simps cbor_elements_until.simps parse_cbor.simps read_next_def on_reader_def start_array_len_def
        start_array_def handle_value_def dom_init_def Let_def cbor_simple_def sax_json_def sax_value_def end_array_def
        end_of_value_def finished_def)
qed

text \<open>A length no array can have is an exception even when exceptions are not allowed.\<close>

lemma cbor_length_throws:
  "from_cbor F (0x9B # write_number False (2 ^ 63 :: 64 word)) True False h =
   Inl (Throw (out_of_range_create 408 (str ''excessive array size: '' @ dec (2 ^ 63))))"
proof (rule cbor_long_array [of "[]" False F "2 ^ 63" True h])
  fix s
  assume s: "br_input s = []" "br_sax s = dom_init False"
    "from_cbor F (0x9B # write_number False (2 ^ 63 :: 64 word) @ []) True False h =
     finished (end_of_value F_cbor True (get_cbor_array F h (2 ^ 63) s))"
  then show ?thesis
    by (simp add: get_cbor_array.simps on_reader_def start_array_len_def start_array_def handle_value_def dom_init_def
        vector_max_size_def end_of_value_def finished_def)
qed

text \<open>Infinities are written in half precision, and numbers down to -256 with one byte.\<close>

lemma cbor_half_written: "\<not> is_nan F x \<Longrightarrow> is_inf F x \<Longrightarrow> hd (to_cbor F (Number_float x)) = 0xF9"
  by (simp add: to_cbor_def write_cbor_float_def)

lemma cbor_one_byte: "to_cbor F (Number_integer (- 256)) = [0x38, 0xFF]"
  by (simp add: to_cbor_def write_cbor_integer_def)

end
