(* ===== verification/Json_Msgpack.thy ===== *)
theory Json_Msgpack
  imports Json_Binary
begin

text \<open>
  MessagePack: \<open>write_msgpack\<close> of \<open>detail/output/binary_writer.hpp\<close>, \<open>parse_msgpack_internal\<close> and the
  functions it calls of \<open>detail/input/binary_reader.hpp\<close>, and \<open>to_msgpack\<close> and \<open>from_msgpack\<close> of
  \<open>json.hpp\<close>. A length that does not fit 32 bits has no head: the writer then writes the contents alone.
\<close>

section \<open>Writing\<close>

definition write_msgpack_unsigned :: "64 word \<Rightarrow> byte list" where
  "write_msgpack_unsigned x =
     (if x < 128 then write_number False (ucast x :: 8 word)
      else if x \<le> 0xFF then 0xCC # write_number False (ucast x :: 8 word)
      else if x \<le> 0xFFFF then 0xCD # write_number False (ucast x :: 16 word)
      else if x \<le> 0xFFFFFFFF then 0xCE # write_number False (ucast x :: 32 word)
      else 0xCF # write_number False x)"

definition write_msgpack_integer :: "64 word \<Rightarrow> byte list" where
  "write_msgpack_integer x =
     (if 0 \<le> sint x then write_msgpack_unsigned x
      else if - 32 \<le> sint x then write_number False (ucast x :: 8 word)
      else if - (2 ^ 7) \<le> sint x then 0xD0 # write_number False (ucast x :: 8 word)
      else if - (2 ^ 15) \<le> sint x then 0xD1 # write_number False (ucast x :: 16 word)
      else if - (2 ^ 31) \<le> sint x then 0xD2 # write_number False (ucast x :: 32 word)
      else 0xD3 # write_number False x)"

definition write_msgpack_string :: "byte list \<Rightarrow> byte list" where
  "write_msgpack_string s =
     (let N = length s in
      if N \<le> 31 then write_number False (or 0xA0 (of_nat N) :: 8 word)
      else if N \<le> 0xFF then 0xD9 # write_number False (of_nat N :: 8 word)
      else if N \<le> 0xFFFF then 0xDA # write_number False (of_nat N :: 16 word)
      else if N \<le> 0xFFFFFFFF then 0xDB # write_number False (of_nat N :: 32 word)
      else []) @ s"

definition write_msgpack_array_head :: "nat \<Rightarrow> byte list" where
  "write_msgpack_array_head N =
     (if N \<le> 15 then write_number False (or 0x90 (of_nat N) :: 8 word)
      else if N \<le> 0xFFFF then 0xDC # write_number False (of_nat N :: 16 word)
      else if N \<le> 0xFFFFFFFF then 0xDD # write_number False (of_nat N :: 32 word)
      else [])"

definition write_msgpack_object_head :: "nat \<Rightarrow> byte list" where
  "write_msgpack_object_head N =
     (if N \<le> 15 then write_number False (or 0x80 (and (of_nat N) 0xF) :: 8 word)
      else if N \<le> 0xFFFF then 0xDE # write_number False (of_nat N :: 16 word)
      else if N \<le> 0xFFFFFFFF then 0xDF # write_number False (of_nat N :: 32 word)
      else [])"

text \<open>A byte array with a subtype is an extension; five lengths have a control byte of their own.\<close>

definition write_msgpack_binary_head :: "bool \<Rightarrow> nat \<Rightarrow> byte list" where
  "write_msgpack_binary_head use_ext N =
     (if N \<le> 0xFF then
        (if use_ext then
           (if N = 1 then [0xD4] else if N = 2 then [0xD5] else if N = 4 then [0xD6] else if N = 8 then [0xD7]
            else if N = 16 then [0xD8] else 0xC7 # write_number False (of_nat N :: 8 word))
         else 0xC4 # write_number False (of_nat N :: 8 word))
      else if N \<le> 0xFFFF then (if use_ext then 0xC8 else 0xC5) # write_number False (of_nat N :: 16 word)
      else if N \<le> 0xFFFFFFFF then (if use_ext then 0xC9 else 0xC6) # write_number False (of_nat N :: 32 word)
      else [])"

definition write_msgpack_binary :: "byte list \<Rightarrow> 64 word option \<Rightarrow> byte list" where
  "write_msgpack_binary b st =
     write_msgpack_binary_head (st \<noteq> None) (length b) @
     (case st of None \<Rightarrow> [] | Some t \<Rightarrow> write_number False (ucast t :: 8 word)) @ b"

fun write_msgpack :: "('f, 'z) image_ops_scheme \<Rightarrow> 'f json \<Rightarrow> byte list"
and write_msgpack_elements :: "('f, 'z) image_ops_scheme \<Rightarrow> 'f json list \<Rightarrow> byte list"
and write_msgpack_members :: "('f, 'z) image_ops_scheme \<Rightarrow> (byte list \<times> 'f json) list \<Rightarrow> byte list" where
  "write_msgpack F Null = [0xC0]"
| "write_msgpack F (Boolean b) = [if b then 0xC3 else 0xC2]"
| "write_msgpack F (Number_integer x) = write_msgpack_integer x"
| "write_msgpack F (Number_unsigned x) = write_msgpack_unsigned x"
| "write_msgpack F (Number_float x) = write_compact_float 0xCA 0xCB F x"
| "write_msgpack F (String s) = write_msgpack_string s"
| "write_msgpack F (Array xs) = write_msgpack_array_head (length xs) @ write_msgpack_elements F xs"
| "write_msgpack F (Binary b st) = write_msgpack_binary b st"
| "write_msgpack F (Object ms) = write_msgpack_object_head (length ms) @ write_msgpack_members F ms"
| "write_msgpack F Discarded = []"
| "write_msgpack_elements F [] = []"
| "write_msgpack_elements F (v # xs) = write_msgpack F v @ write_msgpack_elements F xs"
| "write_msgpack_members F [] = []"
| "write_msgpack_members F ((k, v) # ms) = write_msgpack_string k @ write_msgpack F v @ write_msgpack_members F ms"

definition to_msgpack :: "('f, 'z) image_ops_scheme \<Rightarrow> 'f json \<Rightarrow> byte list" where
  "to_msgpack F j = write_msgpack F j"

section \<open>Reading strings and byte arrays\<close>

definition get_msgpack_string :: "'f binary_reader \<Rightarrow> (byte list, 'f) reading" where
  "get_msgpack_string s =
     and_then (unexpect_eof F_msgpack ''string'' s) (\<lambda>_ s.
       let c = the (br_current s) in
       if 0xA0 \<le> c \<and> c \<le> 0xBF then get_string F_msgpack (unat (and c 0x1F)) s
       else if c = 0xD9 then
         and_then (get_number F_msgpack False s) (\<lambda>(len :: 8 word) s. get_string F_msgpack (unat len) s)
       else if c = 0xDA then
         and_then (get_number F_msgpack False s) (\<lambda>(len :: 16 word) s. get_string F_msgpack (unat len) s)
       else if c = 0xDB then
         and_then (get_number F_msgpack False s) (\<lambda>(len :: 32 word) s. get_string F_msgpack (unat len) s)
       else invalid_byte 113 F_msgpack
         ''expected length specification (0xA0-0xBF, 0xD9-0xDB); last byte: 0x'' ''string'' s)"

text \<open>The bytes alone, and the subtype with the bytes behind it.\<close>

definition msgpack_bin :: "nat \<Rightarrow> 'f binary_reader \<Rightarrow> (byte list \<times> 64 word option, 'f) reading" where
  "msgpack_bin len s = and_then (get_binary F_msgpack len s) (\<lambda>b s. Inr (Some (b, None), s))"

definition msgpack_ext :: "nat \<Rightarrow> 'f binary_reader \<Rightarrow> (byte list \<times> 64 word option, 'f) reading" where
  "msgpack_ext len s =
     and_then (get_number F_msgpack False s) (\<lambda>(subtype :: 8 word) s.
     and_then (get_binary F_msgpack len s) (\<lambda>b s. Inr (Some (b, Some (ucast subtype)), s)))"

definition get_msgpack_binary :: "'f binary_reader \<Rightarrow> (byte list \<times> 64 word option, 'f) reading" where
  "get_msgpack_binary s =
     (case br_current s of
        None \<Rightarrow> Inr (None, s)
      | Some c \<Rightarrow>
          if c = 0xC4 then and_then (get_number F_msgpack False s) (\<lambda>(len :: 8 word) s. msgpack_bin (unat len) s)
          else if c = 0xC5 then and_then (get_number F_msgpack False s) (\<lambda>(len :: 16 word) s. msgpack_bin (unat len) s)
          else if c = 0xC6 then and_then (get_number F_msgpack False s) (\<lambda>(len :: 32 word) s. msgpack_bin (unat len) s)
          else if c = 0xC7 then and_then (get_number F_msgpack False s) (\<lambda>(len :: 8 word) s. msgpack_ext (unat len) s)
          else if c = 0xC8 then and_then (get_number F_msgpack False s) (\<lambda>(len :: 16 word) s. msgpack_ext (unat len) s)
          else if c = 0xC9 then and_then (get_number F_msgpack False s) (\<lambda>(len :: 32 word) s. msgpack_ext (unat len) s)
          else if c = 0xD4 then msgpack_ext 1 s
          else if c = 0xD5 then msgpack_ext 2 s
          else if c = 0xD6 then msgpack_ext 4 s
          else if c = 0xD7 then msgpack_ext 8 s
          else if c = 0xD8 then msgpack_ext 16 s
          else Inr (None, s))"

lemma shrinks_msgpack_bytes [shrinking]:
  "shrinks (get_msgpack_string s) s" "shrinks (msgpack_bin len s) s" "shrinks (msgpack_ext len s) s"
  "shrinks (get_msgpack_binary s) s"
proof -
  show b: "shrinks (msgpack_bin len s) s" for len and s :: "'f binary_reader"
    unfolding msgpack_bin_def get_binary_def by (intro shrinking)
  show e: "shrinks (msgpack_ext len s) s" for len and s :: "'f binary_reader"
    unfolding msgpack_ext_def get_binary_def by (intro shrinking)
  show "shrinks (get_msgpack_binary s) s" for s :: "'f binary_reader"
    unfolding get_msgpack_binary_def by (intro shrinking b e)
  show "shrinks (get_msgpack_string s) s" for s :: "'f binary_reader"
    unfolding get_msgpack_string_def Let_def get_string_def by (intro shrinking)
qed

section \<open>Reading values\<close>

text \<open>The numbers behind the control bytes \<open>CA\<close> to \<open>D3\<close>.\<close>

definition msgpack_number :: "('f, 'z) image_ops_scheme \<Rightarrow> byte \<Rightarrow> 'f binary_reader \<Rightarrow> (unit, 'f) reading" where
  "msgpack_number F c s =
     (if c = 0xCA then
        and_then (get_number F_msgpack False s) (\<lambda>n s. on_reader (sax_value (Number_float (of_float_image F n))) s)
      else if c = 0xCB then
        and_then (get_number F_msgpack False s) (\<lambda>n s. on_reader (sax_value (Number_float (of_double_image F n))) s)
      else if c = 0xCC then
        and_then (get_number F_msgpack False s) (\<lambda>(n :: 8 word) s. on_reader (sax_value (Number_unsigned (ucast n))) s)
      else if c = 0xCD then
        and_then (get_number F_msgpack False s) (\<lambda>(n :: 16 word) s. on_reader (sax_value (Number_unsigned (ucast n))) s)
      else if c = 0xCE then
        and_then (get_number F_msgpack False s) (\<lambda>(n :: 32 word) s. on_reader (sax_value (Number_unsigned (ucast n))) s)
      else if c = 0xCF then
        and_then (get_number F_msgpack False s) (\<lambda>(n :: 64 word) s. on_reader (sax_value (Number_unsigned n)) s)
      else if c = 0xD0 then
        and_then (get_number F_msgpack False s) (\<lambda>(n :: 8 word) s. on_reader (sax_value (Number_integer (scast n))) s)
      else if c = 0xD1 then
        and_then (get_number F_msgpack False s) (\<lambda>(n :: 16 word) s. on_reader (sax_value (Number_integer (scast n))) s)
      else if c = 0xD2 then
        and_then (get_number F_msgpack False s) (\<lambda>(n :: 32 word) s. on_reader (sax_value (Number_integer (scast n))) s)
      else
        and_then (get_number F_msgpack False s) (\<lambda>(n :: 64 word) s. on_reader (sax_value (Number_integer n)) s))"

definition msgpack_simple :: "('f, 'z) image_ops_scheme \<Rightarrow> byte \<Rightarrow> 'f binary_reader \<Rightarrow> (unit, 'f) reading" where
  "msgpack_simple F c s =
     (if c \<le> 0x7F then on_reader (sax_value (Number_unsigned (ucast c))) s
      else if 0xA0 \<le> c \<and> c \<le> 0xBF \<or> 0xD9 \<le> c \<and> c \<le> 0xDB then
        and_then (get_msgpack_string s) (\<lambda>t s. on_reader (sax_value (String t)) s)
      else if c = 0xC0 then on_reader (sax_value Null) s
      else if c = 0xC2 then on_reader (sax_value (Boolean False)) s
      else if c = 0xC3 then on_reader (sax_value (Boolean True)) s
      else if 0xC4 \<le> c \<and> c \<le> 0xC9 \<or> 0xD4 \<le> c \<and> c \<le> 0xD8 then
        and_then (get_msgpack_binary s) (\<lambda>(b, st) s. on_reader (sax_value (Binary b st)) s)
      else if 0xCA \<le> c \<and> c \<le> 0xD3 then msgpack_number F c s
      else if 0xE0 \<le> c then on_reader (sax_value (Number_integer (scast c))) s
      else invalid_byte 112 F_msgpack ''invalid byte: 0x'' ''value'' s)"

lemma shrinks_msgpack_simple [shrinking]: "shrinks (msgpack_simple F c s) s"
  unfolding msgpack_simple_def msgpack_number_def by (intro shrinking)

text \<open>The length of an array or an object: in the control byte, or in the next 2 or 4 bytes.\<close>

definition msgpack_length :: "byte \<Rightarrow> 'f binary_reader \<Rightarrow> (64 word, 'f) reading" where
  "msgpack_length c s =
     (if c \<le> 0x9F then Inr (Some (ucast (and c 0x0F)), s)
      else if c = 0xDC \<or> c = 0xDE then
        and_then (get_number F_msgpack False s) (\<lambda>(len :: 16 word) s. Inr (Some (ucast len), s))
      else and_then (get_number F_msgpack False s) (\<lambda>(len :: 32 word) s. Inr (Some (ucast len), s)))"

lemma shrinks_msgpack_length [shrinking]: "shrinks (msgpack_length c s) s"
  unfolding msgpack_length_def by (intro shrinking)

function parse_msgpack :: "('f, 'z) image_ops_scheme \<Rightarrow> 'f binary_reader \<Rightarrow> (unit, 'f) reading"
and get_msgpack_array :: "('f, 'z) image_ops_scheme \<Rightarrow> 64 word \<Rightarrow> 'f binary_reader \<Rightarrow> (unit, 'f) reading"
and msgpack_elements :: "('f, 'z) image_ops_scheme \<Rightarrow> nat \<Rightarrow> 'f binary_reader \<Rightarrow> (unit, 'f) reading"
and get_msgpack_object :: "('f, 'z) image_ops_scheme \<Rightarrow> 64 word \<Rightarrow> 'f binary_reader \<Rightarrow> (unit, 'f) reading"
and msgpack_members :: "('f, 'z) image_ops_scheme \<Rightarrow> nat \<Rightarrow> 'f binary_reader \<Rightarrow> (unit, 'f) reading" where
  "parse_msgpack F s =
     (let s = read_next s in
      case br_current s of
        None \<Rightarrow> unexpect_eof F_msgpack ''value'' s
      | Some c \<Rightarrow>
          if 0x80 \<le> c \<and> c \<le> 0x8F \<or> c = 0xDE \<or> c = 0xDF then
            and_then (msgpack_length c s) (\<lambda>len s. get_msgpack_object F len s)
          else if 0x90 \<le> c \<and> c \<le> 0x9F \<or> c = 0xDC \<or> c = 0xDD then
            and_then (msgpack_length c s) (\<lambda>len s. get_msgpack_array F len s)
          else msgpack_simple F c s)"
| "get_msgpack_array F len s =
     and_then (on_reader (start_array_len len) s) (\<lambda>_ s.
     and_then (msgpack_elements F (unat len) s) (\<lambda>_ s. on_reader end_array s))"
| "msgpack_elements F n s =
     (if n = 0 then Inr (Some (), s)
      else and_then (parse_msgpack F s) (\<lambda>_ s. msgpack_elements F (n - 1) s))"
| "get_msgpack_object F len s =
     and_then (on_reader (start_object_len len) s) (\<lambda>_ s.
     and_then (msgpack_members F (unat len) s) (\<lambda>_ s. on_reader end_object s))"
| "msgpack_members F n s =
     (if n = 0 then Inr (Some (), s)
      else
        and_then (get_msgpack_string (read_next s)) (\<lambda>key s.
        and_then (on_reader (sax_key key) s) (\<lambda>_ s.
        and_then (parse_msgpack F s) (\<lambda>_ s. msgpack_members F (n - 1) s))))"
  by pat_completeness auto
termination
proof (relation "measures [\<lambda>x. case x of
       Inl (Inl (F, s)) \<Rightarrow> 3 * left s
     | Inl (Inr (F, len, s)) \<Rightarrow> 3 * left s + 2
     | Inr (Inl (F, n, s)) \<Rightarrow> 3 * left s + 1
     | Inr (Inr (Inl (F, len, s))) \<Rightarrow> 3 * left s + 2
     | Inr (Inr (Inr (F, n, s))) \<Rightarrow> 3 * left s + 1,
     \<lambda>x. case x of Inr (Inl (F, n, s)) \<Rightarrow> n | Inr (Inr (Inr (F, n, s))) \<Rightarrow> n | _ \<Rightarrow> 0]", goal_cases)
  let ?dom = parse_msgpack_get_msgpack_array_msgpack_elements_get_msgpack_object_msgpack_members_dom
  have le: "?dom (Inl (Inl (F, s))) \<Longrightarrow> shrinks (parse_msgpack F s) s"
      "?dom (Inl (Inr (F, len, s))) \<Longrightarrow> shrinks (get_msgpack_array F len s) s"
      "?dom (Inr (Inl (F, n, s))) \<Longrightarrow> shrinks (msgpack_elements F n s) s"
      "?dom (Inr (Inr (Inl (F, len, s)))) \<Longrightarrow> shrinks (get_msgpack_object F len s) s"
      "?dom (Inr (Inr (Inr (F, n, s)))) \<Longrightarrow> shrinks (msgpack_members F n s) s"
    for F :: "('f, 'z) image_ops_scheme" and len n s
  proof (induction F s and F len s and F n s and F len s and F n s
      rule: parse_msgpack_get_msgpack_array_msgpack_elements_get_msgpack_object_msgpack_members.pinduct)
    case (1 F s)
    show ?case unfolding parse_msgpack.psimps [OF 1(1)] Let_def
      by (rule shrinks_read_next) (intro shrinking 1(2,3) [OF refl])
  next
    case (2 F len s)
    show ?case unfolding get_msgpack_array.psimps [OF 2(1)] by (intro shrinking 2(2))
  next
    case (3 F n s)
    show ?case unfolding msgpack_elements.psimps [OF 3(1)] by (intro shrinking 3(2,3))
  next
    case (4 F len s)
    show ?case unfolding get_msgpack_object.psimps [OF 4(1)] by (intro shrinking 4(2))
  next
    case (5 F n s)
    show ?case unfolding msgpack_members.psimps [OF 5(1)]
      by (intro shrinking 5(2,3) shrinks_read_next [OF shrinks_msgpack_bytes(1)])
  qed
  have byte: "left (read_next s) < left s" if "br_current (read_next s) = Some b" for s :: "'f binary_reader" and b
    using that by (intro left_read_next_less) simp
  have read: "left t \<le> left s" if "left t \<le> left (read_next s)" for s t :: "'f binary_reader"
    using that left_read_next le_trans by blast
  note left = shrinksD [OF shrinks_msgpack_length] shrinksD [OF shrinks_msgpack_bytes(1)] shrinksD [OF shrinks_on_reader]
    le(1) [THEN shrinksD]
  { case 1 then show ?case by (auto dest!: left byte) }
  { case 2 then show ?case by (auto dest!: left byte) }
  { case 3 then show ?case by (auto dest!: left byte) }
  { case 4 then show ?case by (auto dest!: left byte) }
  { case 5 then show ?case by (auto dest!: left byte) }
  { case 6 then show ?case by (auto dest!: left byte) }
  { case 7 then show ?case by (auto dest!: left byte) }
  { case 8 then show ?case by (auto dest!: left read) }
  { case 9 then show ?case by (auto dest!: left read) }
qed

declare parse_msgpack.simps [simp del] get_msgpack_array.simps [simp del] msgpack_elements.simps [simp del]
  get_msgpack_object.simps [simp del] msgpack_members.simps [simp del]

section \<open>The interface\<close>

definition from_msgpack :: "('f, 'z) image_ops_scheme \<Rightarrow> byte list \<Rightarrow> bool \<Rightarrow> bool \<Rightarrow> stop + 'f json" where
  "from_msgpack F i strict allow =
     finished (end_of_value F_msgpack strict (parse_msgpack F (reader_init i allow)))"

end
