(* ===== verification/Json_Msgpack_Props.thy ===== *)
theory Json_Msgpack_Props
  imports Json_Msgpack Json_Binary_Facts
begin

text \<open>
  MessagePack is read back: \<open>from_msgpack\<close> of what \<open>to_msgpack\<close> writes is the value.
\<close>

section \<open>Reading by the control byte\<close>

definition msgpack_value :: "('f, 'z) image_ops_scheme \<Rightarrow> 'f binary_reader \<Rightarrow> (unit, 'f) reading" where
  "msgpack_value F s =
     (case br_current s of
        None \<Rightarrow> unexpect_eof F_msgpack ''value'' s
      | Some c \<Rightarrow>
          if 0x80 \<le> c \<and> c \<le> 0x8F \<or> c = 0xDE \<or> c = 0xDF then
            and_then (msgpack_length c s) (\<lambda>len s. get_msgpack_object F len s)
          else if 0x90 \<le> c \<and> c \<le> 0x9F \<or> c = 0xDC \<or> c = 0xDD then
            and_then (msgpack_length c s) (\<lambda>len s. get_msgpack_array F len s)
          else msgpack_simple F c s)"

lemma parse_msgpack_value: "parse_msgpack F = (\<lambda>s. msgpack_value F (read_next s))"
  by (rule ext) (simp add: parse_msgpack.simps msgpack_value_def Let_def)

lemma msgpack_simple_byte:
  fixes c :: byte
  assumes "c \<le> 0x7F \<or> 0xA0 \<le> c \<and> c \<le> 0xDB \<or> 0xE0 \<le> c"
  shows "\<not> (0x80 \<le> c \<and> c \<le> 0x8F \<or> c = 0xDE \<or> c = 0xDF)" "\<not> (0x90 \<le> c \<and> c \<le> 0x9F \<or> c = 0xDC \<or> c = 0xDD)"
  using assms by (auto simp: word_le_nat_alt)

lemma msgpack_value_simple:
  "br_current s = Some c \<Longrightarrow> c \<le> 0x7F \<or> 0xA0 \<le> c \<and> c \<le> 0xDB \<or> 0xE0 \<le> c \<Longrightarrow> msgpack_value F s = msgpack_simple F c s"
  unfolding msgpack_value_def by (simp only: msgpack_simple_byte if_False option.case)

lemma builds_msgpack:
  assumes "builds bs r v" "\<And>s. br_current s = Some c \<Longrightarrow> msgpack_value F s = r s"
  shows "builds (c # bs) (parse_msgpack F) v"
  unfolding parse_msgpack_value using assms by (rule builds_byte)

lemma builds_msgpack_byte:
  assumes "c \<le> 0x7F \<or> 0xA0 \<le> c \<and> c \<le> 0xDB \<or> 0xE0 \<le> c" "\<And>s. msgpack_simple F c s = on_reader (sax_value v) s"
  shows "builds [c] (parse_msgpack F) v"
  by (rule builds_msgpack [OF builds_sax_value]) (use assms in \<open>simp add: msgpack_value_simple\<close>)

lemma builds_msgpack_number:
  fixes w :: "'a::len word"
  assumes "8 dvd LENGTH('a)" "0xCA \<le> c" "c \<le> 0xD3"
    "\<And>s. msgpack_number F c s = and_then (get_number F_msgpack False s) (\<lambda>(n :: 'a word) s. on_reader (sax_value (f n)) s)"
  shows "builds (c # write_number False w) (parse_msgpack F) (f w)"
proof -
  have "msgpack_simple F c s = msgpack_number F c s" for s
    using assms(2,3) by (auto simp: msgpack_simple_def word_le_nat_alt)
  moreover have "0xA0 \<le> c" "c \<le> 0xDB" using assms(2,3) by (auto simp: word_le_nat_alt)
  ultimately show ?thesis using assms(1,4)
    by (intro builds_msgpack [OF builds_delivered [OF delivers_number [of F_msgpack w], where f = "\<lambda>n s. on_reader (sax_value (f n)) s" and v = "f w"]])
      (simp_all add: msgpack_value_simple)
qed

section \<open>Numbers\<close>

lemma builds_msgpack_unsigned: "builds (write_msgpack_unsigned x) (parse_msgpack F) (Number_unsigned x)"
proof -
  consider "x < 128" | "\<not> x < 128" "x \<le> 0xFF" | "\<not> x \<le> 0xFF" "x \<le> 0xFFFF" | "\<not> x \<le> 0xFFFF" "x \<le> 0xFFFFFFFF" | "\<not> x \<le> 0xFFFFFFFF"
    by blast
  then show ?thesis
  proof cases
    case 1
    then have b: "ucast (ucast x :: 8 word) = x" by (intro narrow_wide) (simp add: word_less_nat_alt)
    have "(ucast x :: 8 word) \<le> 0x7F"
      using 1 by (simp add: word_le_nat_alt word_less_nat_alt unsigned_ucast_eq unsigned_take_bit_eq take_bit_nat_eq_self)
    with 1 b show ?thesis by (auto simp: write_msgpack_unsigned_def msgpack_simple_def intro!: builds_msgpack_byte)
  next
    case 2
    then have "ucast (ucast x :: 8 word) = x" by (intro narrow_wide) (simp add: word_le_nat_alt)
    with 2 builds_msgpack_number [of "0xCC" F "\<lambda>n :: 8 word. Number_unsigned (ucast n)" "ucast x"]
    show ?thesis by (simp add: write_msgpack_unsigned_def msgpack_number_def)
  next
    case 3
    then have "ucast (ucast x :: 16 word) = x" by (intro narrow_wide) (simp add: word_le_nat_alt)
    with 3 builds_msgpack_number [of "0xCD" F "\<lambda>n :: 16 word. Number_unsigned (ucast n)" "ucast x"]
    show ?thesis by (auto simp: write_msgpack_unsigned_def msgpack_number_def word_le_nat_alt word_less_nat_alt)
  next
    case 4
    then have "ucast (ucast x :: 32 word) = x" by (intro narrow_wide) (simp add: word_le_nat_alt)
    with 4 builds_msgpack_number [of "0xCE" F "\<lambda>n :: 32 word. Number_unsigned (ucast n)" "ucast x"]
    show ?thesis by (auto simp: write_msgpack_unsigned_def msgpack_number_def word_le_nat_alt word_less_nat_alt)
  next
    case 5
    with builds_msgpack_number [of "0xCF" F "\<lambda>n :: 64 word. Number_unsigned n" x]
    show ?thesis by (auto simp: write_msgpack_unsigned_def msgpack_number_def word_le_nat_alt word_less_nat_alt)
  qed
qed

lemma msgpack_negative: "0xE0 \<le> c \<Longrightarrow> msgpack_simple F c s = on_reader (sax_value (Number_integer (scast c))) s"
  by (auto simp: msgpack_simple_def word_le_nat_alt)

lemma builds_msgpack_integer:
  assumes "sint x < 0"
  shows "builds (write_msgpack_integer x) (parse_msgpack F) (Number_integer x)"
proof -
  consider "- 32 \<le> sint x" | "sint x < - 32" "- (2 ^ 7) \<le> sint x" | "sint x < - (2 ^ 7)" "- (2 ^ 15) \<le> sint x"
    | "sint x < - (2 ^ 15)" "- (2 ^ 31) \<le> sint x" | "sint x < - (2 ^ 31)" by linarith
  then show ?thesis
  proof cases
    case 1
    then have b: "scast (ucast x :: 8 word) = x" using assms by (intro narrow_wide_signed) simp_all
    have "ucast x = (word_of_int (sint x + 256) :: byte)" using ucast_sint [of x, where 'a = 8] by simp
    moreover have "uint (word_of_int (sint x + 256) :: byte) = sint x + 256"
      using 1 assms by (subst unsigned_of_int, subst take_bit_int_eq_self) simp_all
    ultimately have "0xE0 \<le> (ucast x :: byte)" using 1 by (simp only: word_le_def) simp
    then have "builds [ucast x] (parse_msgpack F) (Number_integer (scast (ucast x :: byte)))"
      by (intro builds_msgpack_byte msgpack_negative disjI2)
    moreover have "write_msgpack_integer x = [ucast x]" using 1 assms by (simp add: write_msgpack_integer_def)
    ultimately show ?thesis by (simp only: b)
  next
    case 2
    then have "scast (ucast x :: 8 word) = x" using assms by (intro narrow_wide_signed) simp_all
    with 2 assms builds_msgpack_number [of "0xD0" F "\<lambda>n :: 8 word. Number_integer (scast n)" "ucast x"]
    show ?thesis by (simp add: write_msgpack_integer_def msgpack_number_def)
  next
    case 3
    then have "scast (ucast x :: 16 word) = x" using assms by (intro narrow_wide_signed) simp_all
    with 3 assms builds_msgpack_number [of "0xD1" F "\<lambda>n :: 16 word. Number_integer (scast n)" "ucast x"]
    show ?thesis by (simp add: write_msgpack_integer_def msgpack_number_def)
  next
    case 4
    then have "scast (ucast x :: 32 word) = x" using assms by (intro narrow_wide_signed) simp_all
    with 4 assms builds_msgpack_number [of "0xD2" F "\<lambda>n :: 32 word. Number_integer (scast n)" "ucast x"]
    show ?thesis by (simp add: write_msgpack_integer_def msgpack_number_def)
  next
    case 5
    with assms builds_msgpack_number [of "0xD3" F "\<lambda>n :: 64 word. Number_integer n" x]
    show ?thesis by (simp add: write_msgpack_integer_def msgpack_number_def)
  qed
qed

lemma builds_msgpack_float:
  assumes "compact_faithful F x"
  shows "builds (write_compact_float 0xCA 0xCB F x) (parse_msgpack F) (Number_float x)"
  using assms builds_msgpack_number [of "0xCA" F "\<lambda>n :: 32 word. Number_float (of_float_image F n)" "float_image F x"]
    builds_msgpack_number [of "0xCB" F "\<lambda>n :: 64 word. Number_float (of_double_image F n)" "double_image F x"]
  by (auto simp: write_compact_float_def compact_faithful_def msgpack_number_def)

section \<open>Strings and byte arrays\<close>

lemma msgpack_string_read:
  assumes "length bs < 2 ^ 32"
  obtains c cs where "write_msgpack_string bs = c # cs" "0xA0 \<le> c \<and> c \<le> 0xBF \<or> 0xD9 \<le> c \<and> c \<le> 0xDB"
    "delivers (c # cs) (\<lambda>s :: 'f binary_reader. get_msgpack_string (read_next s)) bs"
proof -
  have bytes: "delivers bs (get_string F_msgpack (length bs) :: 'f binary_reader \<Rightarrow> _) bs"
    using delivers_get_bytes [where 'f = 'f, of bs "length bs" F_msgpack "''string''" "[]"] by (simp add: get_string_def)
  consider "length bs \<le> 31" | "31 < length bs" "length bs \<le> 0xFF" | "0xFF < length bs" "length bs \<le> 0xFFFF" | "0xFFFF < length bs"
    by linarith
  then show thesis
  proof cases
    case 1
    have "\<forall>m \<in> set [0..<32]. 0xA0 \<le> (or 0xA0 (of_nat m) :: byte) \<and> (or 0xA0 (of_nat m) :: byte) \<le> 0xBF
        \<and> unat (and (or 0xA0 (of_nat m)) 0x1F :: byte) = m" by code_simp
    then have c: "0xA0 \<le> (or 0xA0 (of_nat (length bs)) :: byte) \<and> (or 0xA0 (of_nat (length bs)) :: byte) \<le> 0xBF
        \<and> unat (and (or 0xA0 (of_nat (length bs))) 0x1F :: byte) = length bs" by (rule bspec) (use 1 in auto)
    have "delivers (or 0xA0 (of_nat (length bs)) # bs) (\<lambda>s :: 'f binary_reader. get_msgpack_string (read_next s)) bs"
      by (rule delivers_byte [OF bytes]) (simp add: get_msgpack_string_def c)
    with 1 c show thesis by (intro that) (auto simp: write_msgpack_string_def)
  next
    case 2
    have "delivers (0xD9 # write_number False (of_nat (length bs) :: 8 word) @ bs) (\<lambda>s :: 'f binary_reader. get_msgpack_string (read_next s)) bs"
      by (rule delivers_byte [OF delivers_counted [where r = "get_string F_msgpack" and f = F_msgpack, OF bytes]]) (use 2 in \<open>simp_all add: get_msgpack_string_def unat_narrow\<close>)
    with 2 show thesis by (intro that) (auto simp: write_msgpack_string_def)
  next
    case 3
    have "delivers (0xDA # write_number False (of_nat (length bs) :: 16 word) @ bs) (\<lambda>s :: 'f binary_reader. get_msgpack_string (read_next s)) bs"
      by (rule delivers_byte [OF delivers_counted [where r = "get_string F_msgpack" and f = F_msgpack, OF bytes]]) (use 3 in \<open>simp_all add: get_msgpack_string_def unat_narrow\<close>)
    with 3 show thesis by (intro that) (auto simp: write_msgpack_string_def)
  next
    case 4
    have "delivers (0xDB # write_number False (of_nat (length bs) :: 32 word) @ bs) (\<lambda>s :: 'f binary_reader. get_msgpack_string (read_next s)) bs"
      by (rule delivers_byte [OF delivers_counted [where r = "get_string F_msgpack" and f = F_msgpack, OF bytes]]) (use 4 assms in \<open>simp_all add: get_msgpack_string_def unat_narrow\<close>)
    with 4 assms show thesis by (intro that) (auto simp: write_msgpack_string_def)
  qed
qed

lemma builds_msgpack_string:
  fixes F :: "('f, 'z) image_ops_scheme"
  assumes "length bs < 2 ^ 32"
  shows "builds (write_msgpack_string bs) (parse_msgpack F) (String bs)"
proof (rule msgpack_string_read [OF assms])
  fix c cs
  assume c: "write_msgpack_string bs = c # cs" "0xA0 \<le> c \<and> c \<le> 0xBF \<or> 0xD9 \<le> c \<and> c \<le> 0xDB"
    "delivers (c # cs) (\<lambda>s :: 'f binary_reader. get_msgpack_string (read_next s)) bs"
  have r: "msgpack_value F s = and_then (get_msgpack_string s) (\<lambda>t s. on_reader (sax_value (String t)) s)"
    if "br_current s = Some c" for s
    using that c(2) by (subst msgpack_value_simple [OF that]) (auto simp: msgpack_simple_def word_le_nat_alt)
  have "builds (c # cs) (\<lambda>s :: 'f binary_reader. and_then (get_msgpack_string (read_next s)) (\<lambda>t s. on_reader (sax_value (String t)) s)) (String bs)"
    using builds_delivered [OF c(3), where f = "\<lambda>t s. on_reader (sax_value (String t)) s" and v = "String bs"] by simp
  then show ?thesis
    by (simp add: c(1) builds_def parse_msgpack_value r read_next_Cons)
qed

text \<open>The head of a byte array, and the reading of what follows it.\<close>

lemma delivers_bin: "delivers bs (msgpack_bin (length bs)) (bs, None)"
  using delivers_and_then [OF delivers_get_bytes [of bs "length bs" F_msgpack "''binary''" "[]"],
      where bs = "[]" and f = "\<lambda>b s. Inr (Some (b, None), s)" and v = "(bs, None)"] delivers_value [of "(bs, None)"]
  by (simp add: msgpack_bin_def [abs_def] get_binary_def)

lemma delivers_ext:
  fixes t :: "64 word"
  assumes "t \<le> 0xFF"
  shows "delivers (ucast t # bs) (msgpack_ext (length bs)) (bs, Some t)"
proof -
  have t: "ucast (ucast t :: 8 word) = t" using assms by (intro narrow_wide) (simp add: word_le_nat_alt)
  have "delivers (bs @ []) (\<lambda>s :: 'b binary_reader. and_then (get_binary F_msgpack (length bs) s)
      (\<lambda>b s. Inr (Some (b, Some (ucast (ucast t :: 8 word))), s))) (bs, Some t)"
    using delivers_value [of "(bs, Some t)"] delivers_get_bytes [where 'f = 'b, of bs "length bs" F_msgpack "''binary''" "[]"]
    by (intro delivers_and_then [where u = bs]) (simp_all add: get_binary_def t)
  then have "delivers (write_number False (ucast t :: 8 word) @ bs @ []) (msgpack_ext (length bs) :: 'b binary_reader \<Rightarrow> _) (bs, Some t)"
    unfolding msgpack_ext_def [abs_def]
    by (intro delivers_and_then [OF delivers_number]) simp_all
  then show ?thesis by simp
qed

lemma msgpack_binary_read:
  assumes "length bs < 2 ^ 32" "\<And>t. st = Some t \<Longrightarrow> t \<le> 0xFF"
  obtains c cs where "write_msgpack_binary bs st = c # cs" "0xC4 \<le> c \<and> c \<le> 0xC9 \<or> 0xD4 \<le> c \<and> c \<le> 0xD8"
    "delivers (c # cs) (\<lambda>s :: 'f binary_reader. get_msgpack_binary (read_next s)) (bs, st)"
proof -
  define r :: "nat \<Rightarrow> 'f binary_reader \<Rightarrow> _" where "r = (if st = None then msgpack_bin else msgpack_ext)"
  define body where "body = (case st of None \<Rightarrow> [] | Some t \<Rightarrow> [ucast t]) @ bs"
  have body: "delivers body (r (length bs)) (bs, st)"
    using assms(2) delivers_bin [of bs] delivers_ext [of _ bs] by (auto simp: r_def body_def split: option.split)
  have w: "write_msgpack_binary bs st = write_msgpack_binary_head (st \<noteq> None) (length bs) @ body"
    by (auto simp: write_msgpack_binary_def body_def split: option.split)
  have plain: "delivers (c # body) (\<lambda>s :: 'f binary_reader. get_msgpack_binary (read_next s)) (bs, st)"
    if "\<And>s. br_current s = Some c \<Longrightarrow> get_msgpack_binary s = r (length bs) s" for c
    by (rule delivers_byte [OF body that])
  have counted8: "delivers (c # write_number False (of_nat (length bs) :: 8 word) @ body) (\<lambda>s :: 'f binary_reader. get_msgpack_binary (read_next s)) (bs, st)"
    if "length bs \<le> 0xFF" "c = (if st = None then 0xC4 else 0xC7)" for c
    by (rule delivers_byte [OF delivers_counted [where r = r and f = F_msgpack, OF body]])
      (use that in \<open>simp_all add: unat_narrow get_msgpack_binary_def r_def\<close>)
  have counted16: "delivers (c # write_number False (of_nat (length bs) :: 16 word) @ body) (\<lambda>s :: 'f binary_reader. get_msgpack_binary (read_next s)) (bs, st)"
    if "length bs \<le> 0xFFFF" "c = (if st = None then 0xC5 else 0xC8)" for c
    by (rule delivers_byte [OF delivers_counted [where r = r and f = F_msgpack, OF body]])
      (use that in \<open>simp_all add: unat_narrow get_msgpack_binary_def r_def\<close>)
  have counted32: "delivers (c # write_number False (of_nat (length bs) :: 32 word) @ body) (\<lambda>s :: 'f binary_reader. get_msgpack_binary (read_next s)) (bs, st)"
    if "c = (if st = None then 0xC6 else 0xC9)" for c
    by (rule delivers_byte [OF delivers_counted [where r = r and f = F_msgpack, OF body]])
      (use that assms(1) in \<open>simp_all add: unat_narrow get_msgpack_binary_def r_def\<close>)
  consider "st \<noteq> None" "length bs \<in> {1, 2, 4, 8, 16}" | "st = None \<or> length bs \<notin> {1, 2, 4, 8, 16}" "length bs \<le> 0xFF"
    | "0xFF < length bs" "length bs \<le> 0xFFFF" | "0xFFFF < length bs"
    by linarith
  then show thesis
  proof cases
    case 1
    define c :: byte where "c = (if length bs = 1 then 0xD4 else if length bs = 2 then 0xD5 else if length bs = 4 then 0xD6
      else if length bs = 8 then 0xD7 else 0xD8)"
    have head: "write_msgpack_binary bs st = c # body" unfolding w using 1 by (auto simp: write_msgpack_binary_head_def c_def)
    have "get_msgpack_binary s = r (length bs) s" if "br_current s = Some c" for s
      using 1 that by (auto simp: c_def get_msgpack_binary_def r_def)
    then show thesis by (intro that [OF head _ plain]) (auto simp: c_def)
  next
    case 2
    have "write_msgpack_binary bs st = (if st = None then 0xC4 else 0xC7) # write_number False (of_nat (length bs) :: 8 word) @ body"
      unfolding w using 2 by (auto simp: write_msgpack_binary_head_def)
    then show thesis by (rule that [OF _ _ counted8]) (use 2 in auto)
  next
    case 3
    have "write_msgpack_binary bs st = (if st = None then 0xC5 else 0xC8) # write_number False (of_nat (length bs) :: 16 word) @ body"
      unfolding w using 3 by (auto simp: write_msgpack_binary_head_def)
    then show thesis by (rule that [OF _ _ counted16]) (use 3 in auto)
  next
    case 4
    have "write_msgpack_binary bs st = (if st = None then 0xC6 else 0xC9) # write_number False (of_nat (length bs) :: 32 word) @ body"
      unfolding w using 4 assms(1) by (auto simp: write_msgpack_binary_head_def)
    then show thesis by (rule that [OF _ _ counted32]) auto
  qed
qed

lemma builds_msgpack_binary:
  fixes F :: "('f, 'z) image_ops_scheme"
  assumes "length bs < 2 ^ 32" "\<And>t. st = Some t \<Longrightarrow> t \<le> 0xFF"
  shows "builds (write_msgpack_binary bs st) (parse_msgpack F) (Binary bs st)"
proof (rule msgpack_binary_read [OF assms])
  fix c cs
  assume c: "write_msgpack_binary bs st = c # cs" "0xC4 \<le> c \<and> c \<le> 0xC9 \<or> 0xD4 \<le> c \<and> c \<le> 0xD8"
    "delivers (c # cs) (\<lambda>s :: 'f binary_reader. get_msgpack_binary (read_next s)) (bs, st)"
  have r: "msgpack_value F s = and_then (get_msgpack_binary s) (\<lambda>(b, st) s. on_reader (sax_value (Binary b st)) s)"
    if "br_current s = Some c" for s
    using that c(2) by (subst msgpack_value_simple [OF that]) (auto simp: msgpack_simple_def word_le_nat_alt)
  have "builds (c # cs) (\<lambda>s :: 'f binary_reader. and_then (get_msgpack_binary (read_next s)) (\<lambda>(b, st) s. on_reader (sax_value (Binary b st)) s)) (Binary bs st)"
    using builds_delivered [OF c(3), where f = "\<lambda>(b, st) s. on_reader (sax_value (Binary b st)) s" and v = "Binary bs st"] by simp
  then show ?thesis
    by (simp add: c(1) builds_def parse_msgpack_value r read_next_Cons)
qed

section \<open>Containers\<close>

lemma msgpack_array_length:
  assumes "n < 2 ^ 32"
  obtains c bs where "write_msgpack_array_head n = c # bs" "0x90 \<le> c \<and> c \<le> 0x9F \<or> c = 0xDC \<or> c = 0xDD"
    "delivers bs (msgpack_length c) (of_nat n)"
proof -
  consider "n \<le> 15" | "15 < n" "n \<le> 0xFFFF" | "0xFFFF < n" by linarith
  then show thesis
  proof cases
    case 1
    have "\<forall>m \<in> set [0..<16]. 0x90 \<le> (or 0x90 (of_nat m) :: byte) \<and> (or 0x90 (of_nat m) :: byte) \<le> 0x9F
      \<and> ucast (and (or 0x90 (of_nat m)) 0x0F :: byte) = (of_nat m :: 64 word)" by code_simp
    then have "0x90 \<le> (or 0x90 (of_nat n) :: byte) \<and> (or 0x90 (of_nat n) :: byte) \<le> 0x9F
      \<and> ucast (and (or 0x90 (of_nat n)) 0x0F :: byte) = (of_nat n :: 64 word)" by (rule bspec) (use 1 in auto)
    with 1 show thesis
      by (intro that [of "or 0x90 (of_nat n)" "[]"]) (simp_all add: write_msgpack_array_head_def msgpack_length_def [abs_def] delivers_value)
  next
    case 2
    with delivers_sized [of F_msgpack "of_nat n :: 16 word" "of_nat n"] show thesis
      by (intro that [of "0xDC" "write_number False (of_nat n :: 16 word)"])
        (simp_all add: write_msgpack_array_head_def msgpack_length_def [abs_def] ucast_of_nat)
  next
    case 3
    with delivers_sized [of F_msgpack "of_nat n :: 32 word" "of_nat n"] assms show thesis
      by (intro that [of "0xDD" "write_number False (of_nat n :: 32 word)"])
        (simp_all add: write_msgpack_array_head_def msgpack_length_def [abs_def] ucast_of_nat)
  qed
qed

lemma msgpack_object_length:
  assumes "n < 2 ^ 32"
  obtains c bs where "write_msgpack_object_head n = c # bs" "0x80 \<le> c \<and> c \<le> 0x8F \<or> c = 0xDE \<or> c = 0xDF"
    "delivers bs (msgpack_length c) (of_nat n)"
proof -
  consider "n \<le> 15" | "15 < n" "n \<le> 0xFFFF" | "0xFFFF < n" by linarith
  then show thesis
  proof cases
    case 1
    have "\<forall>m \<in> set [0..<16]. 0x80 \<le> (or 0x80 (and (of_nat m) 0xF) :: byte) \<and> (or 0x80 (and (of_nat m) 0xF) :: byte) \<le> 0x8F
      \<and> ucast (and (or 0x80 (and (of_nat m) 0xF)) 0x0F :: byte) = (of_nat m :: 64 word)
      \<and> (or 0x80 (and (of_nat m) 0xF) :: byte) \<le> 0x9F" by code_simp
    then have "0x80 \<le> (or 0x80 (and (of_nat n) 0xF) :: byte) \<and> (or 0x80 (and (of_nat n) 0xF) :: byte) \<le> 0x8F
      \<and> ucast (and (or 0x80 (and (of_nat n) 0xF)) 0x0F :: byte) = (of_nat n :: 64 word)
      \<and> (or 0x80 (and (of_nat n) 0xF) :: byte) \<le> 0x9F" by (rule bspec) (use 1 in auto)
    with 1 show thesis
      by (intro that [of "or 0x80 (and (of_nat n) 0xF)" "[]"])
        (simp_all only: write_msgpack_object_head_def msgpack_length_def [abs_def] if_True delivers_value write_number_byte simp_thms)
  next
    case 2
    with delivers_sized [of F_msgpack "of_nat n :: 16 word" "of_nat n"] show thesis
      by (intro that [of "0xDE" "write_number False (of_nat n :: 16 word)"])
        (simp_all add: write_msgpack_object_head_def msgpack_length_def [abs_def] ucast_of_nat)
  next
    case 3
    with delivers_sized [of F_msgpack "of_nat n :: 32 word" "of_nat n"] assms show thesis
      by (intro that [of "0xDF" "write_number False (of_nat n :: 32 word)"])
        (simp_all add: write_msgpack_object_head_def msgpack_length_def [abs_def] ucast_of_nat)
  qed
qed

lemma msgpack_array_byte:
  fixes c :: byte
  assumes "0x90 \<le> c \<and> c \<le> 0x9F \<or> c = 0xDC \<or> c = 0xDD"
  shows "\<not> (0x80 \<le> c \<and> c \<le> 0x8F \<or> c = 0xDE \<or> c = 0xDF)"
  using assms by (auto simp: word_le_nat_alt)

lemma builds_msgpack_array:
  fixes F :: "('f, 'z) image_ops_scheme"
  assumes "length xs < 2 ^ 32"
    "builds (write_msgpack_elements F xs) (array_reader (of_nat (length xs)) (msgpack_elements F)) (Array xs)"
  shows "builds (write_msgpack F (Array xs)) (parse_msgpack F) (Array xs)"
proof -
  obtain c bs where c: "write_msgpack_array_head (length xs) = c # bs" "0x90 \<le> c \<and> c \<le> 0x9F \<or> c = 0xDC \<or> c = 0xDD"
    "delivers bs (msgpack_length c :: 'f binary_reader \<Rightarrow> _) (of_nat (length xs))"
    by (rule msgpack_array_length [OF assms(1)])
  have "builds (bs @ write_msgpack_elements F xs) (\<lambda>s. and_then (msgpack_length c s) (\<lambda>len s. get_msgpack_array F len s)) (Array xs)"
    using assms(2) by (intro builds_and_then [OF c(3)]) (simp add: builds_def get_msgpack_array.simps array_reader_def)
  then have "builds (c # bs @ write_msgpack_elements F xs) (parse_msgpack F) (Array xs)"
    by (rule builds_msgpack) (simp only: msgpack_value_def if_False option.case msgpack_array_byte [OF c(2)] c(2) if_True)
  then show ?thesis by (simp add: c(1))
qed

lemma builds_msgpack_object:
  fixes F :: "('f, 'z) image_ops_scheme"
  assumes "length ms < 2 ^ 32"
    "builds (write_msgpack_members F ms) (object_reader (of_nat (length ms)) (msgpack_members F)) (Object ms)"
  shows "builds (write_msgpack F (Object ms)) (parse_msgpack F) (Object ms)"
proof -
  obtain c bs where c: "write_msgpack_object_head (length ms) = c # bs" "0x80 \<le> c \<and> c \<le> 0x8F \<or> c = 0xDE \<or> c = 0xDF"
    "delivers bs (msgpack_length c :: 'f binary_reader \<Rightarrow> _) (of_nat (length ms))"
    by (rule msgpack_object_length [OF assms(1)])
  have "builds (bs @ write_msgpack_members F ms) (\<lambda>s. and_then (msgpack_length c s) (\<lambda>len s. get_msgpack_object F len s)) (Object ms)"
    using assms(2) by (intro builds_and_then [OF c(3)]) (simp add: builds_def get_msgpack_object.simps object_reader_def)
  then have "builds (c # bs @ write_msgpack_members F ms) (parse_msgpack F) (Object ms)"
    by (rule builds_msgpack) (simp only: msgpack_value_def option.case c(2) if_True)
  then show ?thesis by (simp add: c(1))
qed

section \<open>The round trip\<close>

text \<open>
  The values that are read back as they are: a signed number is negative, a number of type \<open>double\<close> is given back
  by the conversions, a subtype fits a byte, and there is no discarded value.
\<close>

fun msgpack_atom :: "('f, 'z) image_ops_scheme \<Rightarrow> 'f json \<Rightarrow> bool" where
  "msgpack_atom F (Number_integer x) = (sint x < 0)"
| "msgpack_atom F (Number_float x) = compact_faithful F x"
| "msgpack_atom F (Binary b (Some t)) = (t \<le> 0xFF)"
| "msgpack_atom F Discarded = False"
| "msgpack_atom F v = True"

lemma builds_msgpack_atom:
  assumes "atomic v" "encodable (2 ^ 32) (msgpack_atom F) v"
  shows "builds (write_msgpack F v) (parse_msgpack F) v"
proof (cases v)
  case Null
  then show ?thesis by (auto intro: builds_msgpack_byte simp: msgpack_simple_def)
next
  case (Boolean b)
  then show ?thesis by (auto intro: builds_msgpack_byte simp: msgpack_simple_def)
next
  case (Binary b st)
  then show ?thesis using assms(2) builds_msgpack_binary [of b st F] by (cases st) auto
qed (use assms in \<open>auto intro: builds_msgpack_integer builds_msgpack_unsigned builds_msgpack_float builds_msgpack_string\<close>)

interpretation msgpack: codec "write_msgpack F" write_msgpack_string "write_msgpack_elements F" "write_msgpack_members F" "parse_msgpack F"
    "\<lambda>s. get_msgpack_string (read_next s)" "msgpack_elements F" "msgpack_members F" "2 ^ 32" "msgpack_atom F" for F
proof (unfold_locales, goal_cases)
  case (6 n s)
  show ?case by (subst msgpack_elements.simps) simp
next
  case (8 n s)
  show ?case by (subst msgpack_members.simps) simp
next
  case (9 k)
  then show ?case by (rule msgpack_string_read) simp
next
  case (10 v)
  then show ?case by (rule builds_msgpack_atom)
next
  case (11 xs)
  from 11(1,3) show ?case by (rule builds_msgpack_array)
next
  case (12 ms)
  from 12(1,3) show ?case by (rule builds_msgpack_object)
qed (simp_all add: msgpack_elements.simps msgpack_members.simps)

text \<open>
  C23. MessagePack round trip: \<open>from_msgpack\<close> reads from what \<open>to_msgpack\<close> writes the value it was given, whatever
  follows when it is not strict, for every value whose lengths fit the format, whose keys are in order and whose
  numbers and subtypes are ones that MessagePack can tell apart (\<open>msgpack_atom\<close>).
\<close>

theorem msgpack_roundtrip:
  assumes "encodable (2 ^ 32) (msgpack_atom F) j" "strict \<longrightarrow> rest = []"
  shows "from_msgpack F (to_msgpack F j @ rest) strict allow = Inr j"
  unfolding from_msgpack_def to_msgpack_def by (rule finished_built [OF msgpack.value_read [OF assms(1)] assms(2)])

theorem msgpack_roundtrip_witness:
  "from_msgpack whole_images (to_msgpack whole_images (Object
      [(str ''a'', Array [Number_integer (- 300), Number_unsigned 70000, Number_float 5]), (str ''b'', Binary [1, 2] (Some 42))]) @ [])
    True False =
   Inr (Object [(str ''a'', Array [Number_integer (- 300), Number_unsigned 70000, Number_float 5]), (str ''b'', Binary [1, 2] (Some 42))])"
  by (rule msgpack_roundtrip)
    (simp_all add: str_def map_max_size_def vector_max_size_def sorted_keys_def compact_faithful_def whole_images_def float_ops.defs)

text \<open>Of a subtype of 64 bits only the last 8 are written.\<close>

lemma msgpack_subtype_cut: "to_msgpack F (Binary b (Some t)) = to_msgpack F (Binary b (Some (and t 0xFF)))"
proof -
  have word_FF_mask: "(0xFF :: 64 word) = mask 8" by (simp add: mask_eq_exp_minus_1)
  have "(ucast (and t 0xFF) :: byte) = ucast t"
    by (rule bit_word_eqI) (auto simp: bit_ucast_iff bit_and_iff bit_mask_iff word_FF_mask)
  then show ?thesis by (simp add: to_msgpack_def write_msgpack_binary_def)
qed

end
