(* ===== verification/Json_Bson.thy ===== *)
theory Json_Bson
  imports Json_Binary
begin

text \<open>
  BSON: \<open>write_bson\<close> and the functions it calls of \<open>detail/output/binary_writer.hpp\<close>, \<open>parse_bson_internal\<close> and the
  functions it calls of \<open>detail/input/binary_reader.hpp\<close>, and \<open>to_bson\<close> and \<open>from_bson\<close> of \<open>json.hpp\<close>. A document
  starts with its size, which the writer computes beforehand and the reader ignores. Sizes are natural numbers: what
  fits the memory is below \<open>2^64\<close>.
\<close>

section \<open>Sizes\<close>

definition calc_bson_entry_header_size :: "byte list \<Rightarrow> stop + nat" where
  "calc_bson_entry_header_size name =
     (if 0 \<in> set name
      then Inl (Throw (out_of_range_create 409 (str ''BSON key cannot contain code point U+0000 (at byte ''
             @ dec (length (takeWhile (\<lambda>b. b \<noteq> 0) name)) @ str '')'')))
      else Inr (1 + length name + 1))"

definition calc_bson_string_size :: "byte list \<Rightarrow> nat" where
  "calc_bson_string_size s = 4 + length s + 1"

definition calc_bson_integer_size :: "64 word \<Rightarrow> nat" where
  "calc_bson_integer_size x = (if - (2 ^ 31) \<le> sint x \<and> sint x \<le> 2 ^ 31 - 1 then 4 else 8)"

definition calc_bson_unsigned_size :: "64 word \<Rightarrow> nat" where
  "calc_bson_unsigned_size x = (if unat x \<le> 2 ^ 31 - 1 then 4 else 8)"

definition calc_bson_binary_size :: "byte list \<Rightarrow> nat" where
  "calc_bson_binary_size b = 4 + length b + 1"

text \<open>The size of a value behind its header, of the elements of an array from an index on, and of members.\<close>

fun calc_bson_value_size :: "'f json \<Rightarrow> stop + nat"
and calc_bson_elements_size :: "nat \<Rightarrow> 'f json list \<Rightarrow> stop + nat"
and calc_bson_members_size :: "(byte list \<times> 'f json) list \<Rightarrow> stop + nat" where
  "calc_bson_value_size (Object ms) = bindE (calc_bson_members_size ms) (\<lambda>n. Inr (4 + n + 1))"
| "calc_bson_value_size (Array xs) = bindE (calc_bson_elements_size 0 xs) (\<lambda>n. Inr (4 + n + 1))"
| "calc_bson_value_size (Binary b st) = Inr (calc_bson_binary_size b)"
| "calc_bson_value_size (Boolean b) = Inr 1"
| "calc_bson_value_size (Number_float x) = Inr 8"
| "calc_bson_value_size (Number_integer x) = Inr (calc_bson_integer_size x)"
| "calc_bson_value_size (Number_unsigned x) = Inr (calc_bson_unsigned_size x)"
| "calc_bson_value_size (String s) = Inr (calc_bson_string_size s)"
| "calc_bson_value_size Null = Inr 0"
| "calc_bson_value_size Discarded = Inl (Undefined Assertion)"
| "calc_bson_elements_size i [] = Inr 0"
| "calc_bson_elements_size i (v # xs) =
     bindE (calc_bson_entry_header_size (dec i)) (\<lambda>h.
     bindE (calc_bson_value_size v) (\<lambda>n.
     bindE (calc_bson_elements_size (i + 1) xs) (\<lambda>m. Inr (h + n + m))))"
| "calc_bson_members_size [] = Inr 0"
| "calc_bson_members_size ((k, v) # ms) =
     bindE (calc_bson_entry_header_size k) (\<lambda>h.
     bindE (calc_bson_value_size v) (\<lambda>n.
     bindE (calc_bson_members_size ms) (\<lambda>m. Inr (h + n + m))))"

definition calc_bson_object_size :: "(byte list \<times> 'f json) list \<Rightarrow> stop + nat" where
  "calc_bson_object_size ms = bindE (calc_bson_members_size ms) (\<lambda>n. Inr (4 + n + 1))"

definition calc_bson_array_size :: "'f json list \<Rightarrow> stop + nat" where
  "calc_bson_array_size xs = bindE (calc_bson_elements_size 0 xs) (\<lambda>n. Inr (4 + n + 1))"

section \<open>Writing\<close>

definition write_bson_entry_header :: "byte list \<Rightarrow> byte \<Rightarrow> byte list" where
  "write_bson_entry_header name element_type = element_type # name @ [0]"

definition write_bson_boolean :: "byte list \<Rightarrow> bool \<Rightarrow> byte list" where
  "write_bson_boolean name b = write_bson_entry_header name 0x08 @ [if b then 1 else 0]"

definition write_bson_double :: "('f, 'z) image_ops_scheme \<Rightarrow> byte list \<Rightarrow> 'f \<Rightarrow> byte list" where
  "write_bson_double F name x = write_bson_entry_header name 0x01 @ write_number True (double_image F x)"

definition write_bson_string :: "byte list \<Rightarrow> byte list \<Rightarrow> byte list" where
  "write_bson_string name s =
     write_bson_entry_header name 0x02 @ write_number True (of_nat (length s + 1) :: 32 word) @ s @ [0]"

definition write_bson_null :: "byte list \<Rightarrow> byte list" where
  "write_bson_null name = write_bson_entry_header name 0x0A"

definition write_bson_integer :: "byte list \<Rightarrow> 64 word \<Rightarrow> byte list" where
  "write_bson_integer name x =
     (if - (2 ^ 31) \<le> sint x \<and> sint x \<le> 2 ^ 31 - 1
      then write_bson_entry_header name 0x10 @ write_number True (ucast x :: 32 word)
      else write_bson_entry_header name 0x12 @ write_number True x)"

definition write_bson_unsigned :: "byte list \<Rightarrow> 64 word \<Rightarrow> stop + byte list" where
  "write_bson_unsigned name x =
     (if unat x \<le> 2 ^ 31 - 1 then Inr (write_bson_entry_header name 0x10 @ write_number True (ucast x :: 32 word))
      else if unat x \<le> 2 ^ 63 - 1 then Inr (write_bson_entry_header name 0x12 @ write_number True x)
      else Inl (Throw (out_of_range_create 407 (str ''integer number '' @ dec (unat x)
             @ str '' cannot be represented by BSON as it does not fit int64''))))"

definition write_bson_binary :: "byte list \<Rightarrow> byte list \<Rightarrow> 64 word option \<Rightarrow> byte list" where
  "write_bson_binary name b st =
     write_bson_entry_header name 0x05 @ write_number True (of_nat (length b) :: 32 word)
       @ write_number False ((case st of None \<Rightarrow> 0 | Some t \<Rightarrow> ucast t) :: 8 word) @ b"

fun write_bson_element :: "('f, 'z) image_ops_scheme \<Rightarrow> byte list \<Rightarrow> 'f json \<Rightarrow> stop + byte list"
and write_bson_elements :: "('f, 'z) image_ops_scheme \<Rightarrow> nat \<Rightarrow> 'f json list \<Rightarrow> stop + byte list"
and write_bson_members :: "('f, 'z) image_ops_scheme \<Rightarrow> (byte list \<times> 'f json) list \<Rightarrow> stop + byte list" where
  "write_bson_element F name (Object ms) =
     bindE (calc_bson_object_size ms) (\<lambda>n.
     bindE (write_bson_members F ms) (\<lambda>bs.
       Inr (write_bson_entry_header name 0x03 @ write_number True (of_nat n :: 32 word) @ bs @ [0])))"
| "write_bson_element F name (Array xs) =
     bindE (calc_bson_array_size xs) (\<lambda>n.
     bindE (write_bson_elements F 0 xs) (\<lambda>bs.
       Inr (write_bson_entry_header name 0x04 @ write_number True (of_nat n :: 32 word) @ bs @ [0])))"
| "write_bson_element F name (Binary b st) = Inr (write_bson_binary name b st)"
| "write_bson_element F name (Boolean b) = Inr (write_bson_boolean name b)"
| "write_bson_element F name (Number_float x) = Inr (write_bson_double F name x)"
| "write_bson_element F name (Number_integer x) = Inr (write_bson_integer name x)"
| "write_bson_element F name (Number_unsigned x) = write_bson_unsigned name x"
| "write_bson_element F name (String s) = Inr (write_bson_string name s)"
| "write_bson_element F name Null = Inr (write_bson_null name)"
| "write_bson_element F name Discarded = Inl (Undefined Assertion)"
| "write_bson_elements F i [] = Inr []"
| "write_bson_elements F i (v # xs) =
     bindE (write_bson_element F (dec i) v) (\<lambda>bs. bindE (write_bson_elements F (i + 1) xs) (\<lambda>cs. Inr (bs @ cs)))"
| "write_bson_members F [] = Inr []"
| "write_bson_members F ((k, v) # ms) =
     bindE (write_bson_element F k v) (\<lambda>bs. bindE (write_bson_members F ms) (\<lambda>cs. Inr (bs @ cs)))"

definition write_bson_object :: "('f, 'z) image_ops_scheme \<Rightarrow> (byte list \<times> 'f json) list \<Rightarrow> stop + byte list" where
  "write_bson_object F ms =
     bindE (calc_bson_object_size ms) (\<lambda>n.
     bindE (write_bson_members F ms) (\<lambda>bs. Inr (write_number True (of_nat n :: 32 word) @ bs @ [0])))"

definition to_bson :: "('f, 'z) image_ops_scheme \<Rightarrow> 'f json \<Rightarrow> stop + byte list" where
  "to_bson F j =
     (case j of
        Object ms \<Rightarrow> write_bson_object F ms
      | _ \<Rightarrow> Inl (Throw (type_error_create 317
               (str ''to serialize to BSON, top-level type must be object, but is '' @ type_name j))))"

section \<open>Reading strings and byte arrays\<close>

function get_bson_cstr :: "byte list \<Rightarrow> 'f binary_reader \<Rightarrow> (byte list, 'f) reading" where
  "get_bson_cstr result s =
     (let s = read_next s in
      and_then (unexpect_eof F_bson ''cstring'' s) (\<lambda>_ s.
        if br_current s = Some 0 then Inr (Some result, s)
        else get_bson_cstr (result @ [the (br_current s)]) s))"
  by pat_completeness auto
termination
  by (relation "measure (\<lambda>(_, s). left s)") (auto simp: unexpect_eof_Some intro!: left_read_next_less)

declare get_bson_cstr.simps [simp del]

definition get_bson_string :: "32 word \<Rightarrow> 'f binary_reader \<Rightarrow> (byte list, 'f) reading" where
  "get_bson_string len s =
     (if sint len < 1
      then reader_error (parse_error_byte 112 (br_chars_read s)
             (binary_message F_bson (str ''string length must be at least 1, is '' @ dec_int (sint len)) ''string'')) s
      else
        and_then (get_string F_bson (nat (sint len - 1)) s) (\<lambda>result s.
          let s = read_next s in
          if br_current s \<noteq> None then Inr (Some result, s) else Inr (None, s)))"

definition get_bson_binary :: "32 word \<Rightarrow> 'f binary_reader \<Rightarrow> (byte list \<times> 64 word option, 'f) reading" where
  "get_bson_binary len s =
     (if sint len < 0
      then reader_error (parse_error_byte 112 (br_chars_read s)
             (binary_message F_bson (str ''byte array length cannot be negative, is '' @ dec_int (sint len)) ''binary'')) s
      else
        bindE (get_number F_bson False s) (\<lambda>(subtype :: 8 word option, s).
        and_then (get_binary F_bson (nat (sint len)) s) (\<lambda>b s.
          Inr (Some (b, Some (case subtype of None \<Rightarrow> 0 | Some t \<Rightarrow> ucast t)), s))))"

lemma shrinks_bson_bytes [shrinking]:
  "shrinks (get_bson_cstr result s) s" "shrinks (get_bson_string len s) s" "shrinks (get_bson_binary len s) s"
proof -
  show "shrinks (get_bson_cstr result s) s"
  proof (induction result s rule: get_bson_cstr.induct)
    case (1 result s)
    show ?case unfolding get_bson_cstr.simps [of result s] Let_def
      by (rule shrinks_read_next) (intro shrinking 1 [OF refl])
  qed
  show "shrinks (get_bson_binary len s) s"
    unfolding get_bson_binary_def get_binary_def by (intro shrinking)
  have "shrinks (Inr (x, read_next t)) t" for x :: "byte list option" and t :: "'b binary_reader" by (simp add: shrinks_def)
  then show "shrinks (get_bson_string len s) s"
    unfolding get_bson_string_def get_string_def Let_def by (intro shrinking) 
qed

section \<open>Reading documents\<close>

text \<open>The elements that are no documents.\<close>

definition bson_simple :: "('f, 'z) image_ops_scheme \<Rightarrow> byte \<Rightarrow> nat \<Rightarrow> 'f binary_reader \<Rightarrow> (unit, 'f) reading" where
  "bson_simple F element_type position s =
     (if element_type = 0x01 then
        and_then (get_number F_bson True s) (\<lambda>n s. on_reader (sax_value (Number_float (of_double_image F n))) s)
      else if element_type = 0x02 then
        and_then (get_number F_bson True s) (\<lambda>len s.
        and_then (get_bson_string len s) (\<lambda>t s. on_reader (sax_value (String t)) s))
      else if element_type = 0x05 then
        and_then (get_number F_bson True s) (\<lambda>len s.
        and_then (get_bson_binary len s) (\<lambda>(b, st) s. on_reader (sax_value (Binary b st)) s))
      else if element_type = 0x08 then
        (let s = read_next s in on_reader (sax_value (Boolean (br_current s \<noteq> Some 0))) s)
      else if element_type = 0x0A then on_reader (sax_value Null) s
      else if element_type = 0x10 then
        and_then (get_number F_bson True s) (\<lambda>(n :: 32 word) s. on_reader (sax_value (Number_integer (scast n))) s)
      else if element_type = 0x12 then
        and_then (get_number F_bson True s) (\<lambda>n s. on_reader (sax_value (Number_integer n)) s)
      else reader_error (parse_error_byte 114 position (str ''Unsupported BSON record type 0x'' @ hex_bytes element_type)) s)"

lemma shrinks_bson_simple [shrinking]: "shrinks (bson_simple F c p s) s"
proof -
  have "shrinks (on_reader e (read_next s)) s" for e by (rule shrinks_read_next) (intro shrinking)
  then show ?thesis unfolding bson_simple_def Let_def by (intro shrinking)
qed

text \<open>
  The size of a document is read and ignored, even where it cannot be read. A document is a list of elements up to
  the byte 0; the keys of an array are skipped.
\<close>

function parse_bson :: "('f, 'z) image_ops_scheme \<Rightarrow> 'f binary_reader \<Rightarrow> (unit, 'f) reading"
and parse_bson_array :: "('f, 'z) image_ops_scheme \<Rightarrow> 'f binary_reader \<Rightarrow> (unit, 'f) reading"
and parse_bson_element :: "('f, 'z) image_ops_scheme \<Rightarrow> byte \<Rightarrow> nat \<Rightarrow> 'f binary_reader \<Rightarrow> (unit, 'f) reading"
and parse_bson_element_list :: "('f, 'z) image_ops_scheme \<Rightarrow> bool \<Rightarrow> 'f binary_reader \<Rightarrow> (unit, 'f) reading" where
  "parse_bson F s =
     bindE (get_number F_bson True s) (\<lambda>(document_size :: 32 word option, s).
     and_then (on_reader (start_object_len (- 1)) s) (\<lambda>_ s.
     and_then (parse_bson_element_list F False s) (\<lambda>_ s. on_reader end_object s)))"
| "parse_bson_array F s =
     bindE (get_number F_bson True s) (\<lambda>(document_size :: 32 word option, s).
     and_then (on_reader (start_array_len (- 1)) s) (\<lambda>_ s.
     and_then (parse_bson_element_list F True s) (\<lambda>_ s. on_reader end_array s)))"
| "parse_bson_element F element_type position s =
     (if element_type = 0x03 then parse_bson F s
      else if element_type = 0x04 then parse_bson_array F s
      else bson_simple F element_type position s)"
| "parse_bson_element_list F is_array s =
     (let s = read_next s in
      if br_current s = Some 0 then Inr (Some (), s)
      else
        and_then (unexpect_eof F_bson ''element list'' s) (\<lambda>_ s1.
        and_then (get_bson_cstr [] s1) (\<lambda>key s.
        and_then (if is_array then Inr (Some (), s) else on_reader (sax_key key) s) (\<lambda>_ s.
        and_then (parse_bson_element F (the (br_current s1)) (br_chars_read s1) s) (\<lambda>_ s.
          parse_bson_element_list F is_array s)))))"
  by pat_completeness auto
termination
proof (relation "measure (\<lambda>x. case x of
       Inl (Inl (F, s)) \<Rightarrow> 4 * left s + 2
     | Inl (Inr (F, s)) \<Rightarrow> 4 * left s + 2
     | Inr (Inl (F, c, p, s)) \<Rightarrow> 4 * left s + 3
     | Inr (Inr (F, a, s)) \<Rightarrow> 4 * left s + 1)", goal_cases)
  let ?dom = parse_bson_parse_bson_array_parse_bson_element_parse_bson_element_list_dom
  have le: "?dom (Inl (Inl (F, s))) \<Longrightarrow> shrinks (parse_bson F s) s"
      "?dom (Inl (Inr (F, s))) \<Longrightarrow> shrinks (parse_bson_array F s) s"
      "?dom (Inr (Inl (F, c, p, s))) \<Longrightarrow> shrinks (parse_bson_element F c p s) s"
      "?dom (Inr (Inr (F, a, s))) \<Longrightarrow> shrinks (parse_bson_element_list F a s) s"
    for F :: "('f, 'z) image_ops_scheme" and a c p s
  proof (induction F s and F s and F c p s and F a s
      rule: parse_bson_parse_bson_array_parse_bson_element_parse_bson_element_list.pinduct)
    case (1 F s)
    show ?case unfolding parse_bson.psimps [OF 1(1)] by (intro shrinking 1(2) [OF _ refl])
  next
    case (2 F s)
    show ?case unfolding parse_bson_array.psimps [OF 2(1)] by (intro shrinking 2(2) [OF _ refl])
  next
    case (3 F c p s)
    show ?case unfolding parse_bson_element.psimps [OF 3(1)] by (intro shrinking 3(2,3))
  next
    case (4 F a s)
    show ?case unfolding parse_bson_element_list.psimps [OF 4(1)] Let_def
      by (rule shrinks_read_next) (intro shrinking 4(2,3) [OF refl])
  qed
  note left = shrinksD [OF shrinks_get_number] shrinksD [OF shrinks_on_reader] shrinksD [OF shrinks_bson_bytes(1)]
    le(3) [THEN shrinksD]
  { case 1 then show ?case by simp }
  { case 2 then show ?case by (auto dest!: left) }
  { case 3 then show ?case by (auto dest!: left) }
  { case 4 then show ?case by auto }
  { case 5 then show ?case by auto }
  {
    case (6 F a s s1 u s2 k s3 v s4)
    then show ?case using left_read_next_less [of s] by (auto simp: unexpect_eof_Some dest!: left split: if_splits)
  }
  {
    case (7 F a s s1 u s2 k s3 v s4 w s5)
    then show ?case using left_read_next_less [of s] by (auto simp: unexpect_eof_Some dest!: left split: if_splits)
  }
qed

declare parse_bson.simps [simp del] parse_bson_array.simps [simp del] parse_bson_element.simps [simp del]
  parse_bson_element_list.simps [simp del]

section \<open>The interface\<close>

definition from_bson :: "('f, 'z) image_ops_scheme \<Rightarrow> byte list \<Rightarrow> bool \<Rightarrow> bool \<Rightarrow> stop + 'f json" where
  "from_bson F i strict allow =
     finished (end_of_value F_bson strict (parse_bson F (reader_init i allow)))"

end
