(* ===== verification/Json_Bson_Props.thy ===== *)
theory Json_Bson_Props
  imports Json_Bson Json_Binary_Facts
begin

text \<open>
  BSON is read back: \<open>from_bson\<close> of what \<open>to_bson\<close> writes is the value, and the size in front of a document is
  the number of bytes written for it.
\<close>

section \<open>Sizes\<close>

lemma bson_header_size:
  "calc_bson_entry_header_size k = Inr h \<Longrightarrow> h = length (write_bson_entry_header k c) \<and> 0 \<notin> set k"
  by (auto simp: calc_bson_entry_header_size_def write_bson_entry_header_def split: if_splits)

lemma bson_element_length:
  "write_bson_element F k v = Inr bs \<Longrightarrow> calc_bson_value_size v = Inr n \<Longrightarrow> length bs = length k + 2 + n"
  "write_bson_elements F i xs = Inr bs \<Longrightarrow> calc_bson_elements_size i xs = Inr n \<Longrightarrow> length bs = n"
  "write_bson_members F ms = Inr bs \<Longrightarrow> calc_bson_members_size ms = Inr n \<Longrightarrow> length bs = n"
proof (induction F k v and F i xs and F ms arbitrary: bs n and bs n and bs n
    rule: write_bson_element_write_bson_elements_write_bson_members.induct)
  case (12 F i v xs)
  then show ?case by (fastforce dest: bson_header_size simp: write_bson_entry_header_def)
next
  case (14 F k v ms)
  then show ?case by (fastforce dest: bson_header_size simp: write_bson_entry_header_def)
qed (fastforce simp: calc_bson_object_size_def calc_bson_array_size_def write_bson_entry_header_def write_bson_binary_def
    calc_bson_binary_size_def write_bson_boolean_def write_bson_double_def write_bson_integer_def calc_bson_integer_size_def
    write_bson_unsigned_def calc_bson_unsigned_size_def write_bson_string_def calc_bson_string_size_def write_bson_null_def
    split: if_splits)+

lemma bson_object_length:
  assumes "write_bson_object F ms = Inr bs"
  shows "calc_bson_object_size ms = Inr (length bs)" "take 4 bs = write_number True (of_nat (length bs) :: 32 word)"
  using assms by (auto simp: write_bson_object_def calc_bson_object_size_def dest: bson_element_length(3))

section \<open>Numbers and strings\<close>

lemma get_vec_little:
  assumes "length bs = n" "length vec = i + n" "br_input s = bs @ rest"
  shows "\<exists>s'. get_vec f True i n vec s = Inr (Some (take i vec @ bs), s') \<and> br_input s' = rest \<and> br_sax s' = br_sax s"
  using assms
proof (induction n arbitrary: i bs vec s)
  case (Suc n)
  then obtain b bs' where bs: "bs = b # bs'" "length bs' = n" by (cases bs) auto
  let ?s = "s\<lparr>br_input := bs' @ rest, br_current := Some b, br_chars_read := br_chars_read s + 1\<rparr>"
  have read: "read_next s = ?s" using Suc.prems(3) bs by (simp add: read_next_Cons)
  from Suc.IH [OF bs(2), of "vec[i := b]" "i + 1" ?s] Suc.prems(2) obtain s' where
    s': "get_vec f True (i + 1) n (vec[i := b]) ?s = Inr (Some (take (i + 1) (vec[i := b]) @ bs'), s')"
      "br_input s' = rest" "br_sax s' = br_sax s" by auto
  have "take (i + 1) (vec[i := b]) = take i vec @ [b]"
    using Suc.prems(2) by (simp add: take_Suc_conv_app_nth)
  with s' show ?case by (simp add: read bs(1))
qed auto

lemma delivers_number_little:
  fixes n :: "'a::len word"
  assumes "8 dvd LENGTH('a)"
  shows "delivers (write_number True n) (get_number f True :: 'f binary_reader \<Rightarrow> _) n"
proof (rule deliversI)
  fix s :: "'f binary_reader" and rest
  assume "br_input s = write_number True n @ rest"
  then show "\<exists>s'. get_number f True s = Inr (Some n, s') \<and> br_input s' = rest \<and> br_sax s' = br_sax s"
    using get_vec_little [of "write_number True n" "LENGTH('a) div 8" "replicate (LENGTH('a) div 8) 0" 0 s rest f] assms
    by (auto simp: get_number_def write_number_def)
qed

lemma delivers_cstr:
  assumes "0 \<notin> set k"
  shows "delivers (k @ [0]) (get_bson_cstr r :: 'f binary_reader \<Rightarrow> _) (r @ k)"
  using assms
proof (induction k arbitrary: r)
  case Nil
  show ?case by (rule deliversI) (subst get_bson_cstr.simps, simp add: read_next_Cons Let_def)
next
  case (Cons b k)
  show ?case
  proof (rule deliversI)
    fix s :: "'f binary_reader" and rest
    assume s: "br_input s = ((b # k) @ [0]) @ rest"
    let ?s = "s\<lparr>br_input := (k @ [0]) @ rest, br_current := Some b, br_chars_read := br_chars_read s + 1\<rparr>"
    have "read_next s = ?s" using s by (simp add: read_next_Cons)
    then have "get_bson_cstr r s = get_bson_cstr (r @ [b]) ?s"
      using Cons.prems by (subst get_bson_cstr.simps) (simp add: Let_def)
    with deliversD [OF Cons.IH [of "r @ [b]"], of ?s rest] Cons.prems
    show "\<exists>s'. get_bson_cstr r s = Inr (Some (r @ b # k), s') \<and> br_input s' = rest \<and> br_sax s' = br_sax s" by auto
  qed
qed

lemma sint_length: "n < 2 ^ 31 \<Longrightarrow> sint (of_nat n :: 32 word) = int n"
  using signed_of_int [of "int n", where 'a = int and 'b = 32] by (simp add: signed_take_bit_int_eq_self)

lemma delivers_bson_string:
  assumes "length t + 1 < 2 ^ 31"
  shows "delivers (t @ [b]) (get_bson_string (of_nat (length t + 1)) :: 'f binary_reader \<Rightarrow> _) t"
proof -
  have len: "sint (of_nat (length t + 1) :: 32 word) = int (length t) + 1" using sint_length [OF assms] by simp
  have "delivers t (get_string F_bson (length t) :: 'f binary_reader \<Rightarrow> _) t"
    using delivers_get_bytes [where 'f = 'f, of t "length t" F_bson "''string''" "[]"] by (simp add: get_string_def)
  moreover have "delivers [b] (\<lambda>s :: 'f binary_reader. let s = read_next s in
      if br_current s \<noteq> None then Inr (Some t, s) else Inr (None, s)) t"
    by (rule deliversI) (simp add: read_next_Cons Let_def)
  ultimately show ?thesis
    unfolding get_bson_string_def [abs_def] len by (simp add: delivers_and_then)
qed

lemma delivers_bson_binary:
  fixes t :: "64 word"
  assumes "length b < 2 ^ 31" "t \<le> 0xFF"
  shows "delivers (ucast t # b) (get_bson_binary (of_nat (length b)) :: 'f binary_reader \<Rightarrow> _) (b, Some t)"
proof (rule deliversI)
  fix s :: "'f binary_reader" and rest
  assume s: "br_input s = (ucast t # b) @ rest"
  have len: "sint (of_nat (length b) :: 32 word) = int (length b)" by (rule sint_length [OF assms(1)])
  have t: "ucast (ucast t :: 8 word) = t" using assms(2) by (intro narrow_wide) (simp add: word_le_nat_alt)
  obtain s1 where s1: "get_number F_bson False s = Inr (Some (ucast t :: 8 word), s1)" "br_input s1 = b @ rest" "br_sax s1 = br_sax s"
    using deliversD [OF delivers_number [of F_bson "ucast t :: 8 word"], of s "b @ rest"] s by auto
  obtain s2 where "get_binary F_bson (length b) s1 = Inr (Some b, s2)" "br_input s2 = rest" "br_sax s2 = br_sax s"
    using deliversD [OF delivers_get_bytes [of b "length b" F_bson "''binary''" "[]"] s1(2)] s1(3) by (auto simp: get_binary_def)
  then show "\<exists>s'. get_bson_binary (of_nat (length b)) s = Inr (Some (b, Some t), s') \<and> br_input s' = rest \<and> br_sax s' = br_sax s"
    by (simp add: get_bson_binary_def len s1(1) t)
qed

section \<open>Elements\<close>

text \<open>
  The values that are read back as they are: keys are in order and have no byte 0, strings and byte arrays are
  shorter than \<open>2^31\<close>, a byte array has a subtype of 8 bits, a number of type \<open>double\<close> is given by its image, and there
  is no unsigned number, which would be read as a signed one, and no discarded value.
\<close>

fun bson_ok :: "('f, 'z) image_ops_scheme \<Rightarrow> 'f json \<Rightarrow> bool"
and bson_members_ok :: "('f, 'z) image_ops_scheme \<Rightarrow> (byte list \<times> 'f json) list \<Rightarrow> bool"
and bson_elements_ok :: "('f, 'z) image_ops_scheme \<Rightarrow> 'f json list \<Rightarrow> bool" where
  "bson_ok F (Object ms) = (sorted_keys ms \<and> bson_members_ok F ms)"
| "bson_ok F (Array xs) = bson_elements_ok F xs"
| "bson_ok F (String s) = (length s + 1 < 2 ^ 31)"
| "bson_ok F (Binary b st) = (length b < 2 ^ 31 \<and> (case st of None \<Rightarrow> False | Some t \<Rightarrow> t \<le> 0xFF))"
| "bson_ok F (Number_float x) = (of_double_image F (double_image F x) = x)"
| "bson_ok F (Number_unsigned x) = False"
| "bson_ok F Discarded = False"
| "bson_ok F v = True"
| "bson_members_ok F [] = True"
| "bson_members_ok F ((k, v) # ms) = (0 \<notin> set k \<and> bson_ok F v \<and> bson_members_ok F ms)"
| "bson_elements_ok F [] = True"
| "bson_elements_ok F (v # xs) = (bson_ok F v \<and> bson_elements_ok F xs)"

text \<open>An element is written with its size behind any key, and read again from the bytes behind the key.\<close>

definition element_reads :: "('f, 'z) image_ops_scheme \<Rightarrow> 'f json \<Rightarrow> byte \<Rightarrow> byte list \<Rightarrow> bool" where
  "element_reads F v c b \<longleftrightarrow>
     (\<exists>n. calc_bson_value_size v = Inr n) \<and> (\<forall>k. write_bson_element F k v = Inr (write_bson_entry_header k c @ b)) \<and>
     c \<noteq> 0 \<and> (\<forall>position. builds b (parse_bson_element F c position) v)"

lemma element_readsI:
  assumes "calc_bson_value_size v = Inr n" "\<And>k. write_bson_element F k v = Inr (write_bson_entry_header k c @ b)" "c \<noteq> 0"
    "\<And>position. builds b (parse_bson_element F c position) v"
  shows "element_reads F v c b"
  using assms by (auto simp: element_reads_def)

lemma parse_bson_element_simple:
  "c \<noteq> 0x03 \<Longrightarrow> c \<noteq> 0x04 \<Longrightarrow> parse_bson_element F c position = bson_simple F c position"
  by (rule ext) (simp add: parse_bson_element.simps)

lemma builds_bson_number:
  fixes n :: "'a::len word"
  assumes "8 dvd LENGTH('a)" "c \<noteq> 0x03" "c \<noteq> 0x04"
    "\<And>s. bson_simple F c position s = and_then (get_number F_bson True s) (\<lambda>(n :: 'a word) s. on_reader (sax_value (f n)) s)"
  shows "builds (write_number True n) (parse_bson_element F c position) (f n)"
proof -
  have "builds (write_number True n)
      (\<lambda>s. and_then (get_number F_bson True s) (\<lambda>(n :: 'a word) s. on_reader (sax_value (f n)) s)) (f n)"
    by (rule builds_delivered [OF delivers_number_little [OF assms(1)]]) simp
  then show ?thesis by (simp add: parse_bson_element_simple [OF assms(2,3)] assms(4) builds_def)
qed

lemma element_reads_integer: "\<exists>c b. element_reads F (Number_integer x) c b"
proof (cases "- (2 ^ 31) \<le> sint x \<and> sint x \<le> 2 ^ 31 - 1")
  case True
  then have w: "scast (ucast x :: 32 word) = x" by (intro narrow_wide_signed) simp_all
  have "element_reads F (Number_integer x) 0x10 (write_number True (ucast x :: 32 word))"
    using builds_bson_number [of "0x10" F _ "\<lambda>n :: 32 word. Number_integer (scast n)" "ucast x"] True
    by (intro element_readsI) (auto simp: write_bson_integer_def bson_simple_def w)
  then show ?thesis by blast
next
  case False
  have "element_reads F (Number_integer x) 0x12 (write_number True x)"
    using builds_bson_number [of "0x12" F _ "\<lambda>n :: 64 word. Number_integer n" x] False
    by (intro element_readsI) (auto simp: write_bson_integer_def bson_simple_def)
  then show ?thesis by blast
qed

lemma element_reads_string:
  assumes "length t + 1 < 2 ^ 31"
  shows "element_reads F (String t) 0x02 (write_number True (of_nat (length t + 1) :: 32 word) @ t @ [0])"
proof (rule element_readsI)
  fix position
  have "builds (t @ [0]) (\<lambda>s. and_then (get_bson_string (of_nat (length t + 1)) s) (\<lambda>t s. on_reader (sax_value (String t)) s)) (String t)"
    by (rule builds_delivered [OF delivers_bson_string [OF assms]]) simp
  then have "builds (write_number True (of_nat (length t + 1) :: 32 word) @ t @ [0]) (\<lambda>s. and_then (get_number F_bson True s)
      (\<lambda>len s. and_then (get_bson_string len s) (\<lambda>t s. on_reader (sax_value (String t)) s))) (String t)"
    by (intro builds_and_then [OF delivers_number_little]) simp_all
  then show "builds (write_number True (of_nat (length t + 1) :: 32 word) @ t @ [0]) (parse_bson_element F 0x02 position) (String t)"
    by (simp add: parse_bson_element_simple bson_simple_def [abs_def])
qed (simp_all add: write_bson_string_def)

lemma element_reads_binary:
  assumes "length b < 2 ^ 31" "t \<le> 0xFF"
  shows "element_reads F (Binary b (Some t)) 0x05 (write_number True (of_nat (length b) :: 32 word) @ ucast t # b)"
proof (rule element_readsI)
  fix position
  have "builds (ucast t # b) (\<lambda>s. and_then (get_bson_binary (of_nat (length b)) s) (\<lambda>(b, st) s. on_reader (sax_value (Binary b st)) s))
      (Binary b (Some t))"
    by (rule builds_delivered [OF delivers_bson_binary [OF assms]]) simp
  then have "builds (write_number True (of_nat (length b) :: 32 word) @ ucast t # b) (\<lambda>s. and_then (get_number F_bson True s)
      (\<lambda>len s. and_then (get_bson_binary len s) (\<lambda>(b, st) s. on_reader (sax_value (Binary b st)) s))) (Binary b (Some t))"
    by (intro builds_and_then [OF delivers_number_little]) simp_all
  then show "builds (write_number True (of_nat (length b) :: 32 word) @ ucast t # b) (parse_bson_element F 0x05 position) (Binary b (Some t))"
    by (simp add: parse_bson_element_simple bson_simple_def [abs_def])
qed (simp_all add: write_bson_binary_def)

lemma builds_bson_boolean: "builds [if b then 1 else 0] (parse_bson_element F 0x08 position) (Boolean b)"
  by (rule buildsI) (simp add: parse_bson_element_simple bson_simple_def read_next_Cons Let_def on_reader_def sax_value_accepts)

lemma builds_bson_null: "builds [] (parse_bson_element F 0x0A position) Null"
  using builds_sax_value [of Null] by (simp add: parse_bson_element_simple bson_simple_def [abs_def])

lemma element_reads_boolean: "\<exists>c d. element_reads F (Boolean b) c d"
proof -
  have "element_reads F (Boolean b) 0x08 [if b then 1 else 0]"
    by (rule element_readsI) (use builds_bson_boolean [of b F] in \<open>auto simp: write_bson_boolean_def\<close>)
  then show ?thesis by blast
qed

lemma element_reads_null: "\<exists>c d. element_reads F Null c d"
proof -
  have "element_reads F Null 0x0A []"
    by (rule element_readsI) (use builds_bson_null in \<open>auto simp: write_bson_null_def\<close>)
  then show ?thesis by blast
qed

section \<open>Documents\<close>

lemma builds_ignored:
  assumes "delivers as1 r u" "builds bs f v"
  shows "builds (as1 @ bs) (\<lambda>s. bindE (r s) (\<lambda>(_, s). f s)) v"
proof (rule buildsI)
  fix s :: "'a binary_reader" and rest
  assume "br_input s = (as1 @ bs) @ rest" "accepts (br_sax s)"
  then obtain s1 where "r s = Inr (Some u, s1)" "br_input s1 = bs @ rest" "br_sax s1 = br_sax s"
    using deliversD [OF assms(1), of s "bs @ rest"] by auto
  then show "\<exists>s'. bindE (r s) (\<lambda>(_, s). f s) = Inr (Some (), s') \<and> br_input s' = rest \<and> root (br_sax s') = place v (br_sax s)
      \<and> ref_stack (br_sax s') = ref_stack (br_sax s)"
    using buildsD [OF assms(2), of s1 rest] \<open>accepts (br_sax s)\<close> by auto
qed

lemma bson_list_end:
  "br_input s = 0 # rest \<Longrightarrow> \<exists>s'. parse_bson_element_list F a s = Inr (Some (), s') \<and> br_input s' = rest \<and> br_sax s' = br_sax s"
  by (subst parse_bson_element_list.simps) (simp add: read_next_Cons Let_def)

lemma bson_list_element:
  fixes s :: "'f binary_reader"
  assumes "c \<noteq> 0" "0 \<notin> set k" "br_input s = write_bson_entry_header k c @ bs"
  obtains s1 position where "br_input s1 = bs" "br_sax s1 = br_sax s"
    "parse_bson_element_list F a s =
       and_then (if a then Inr (Some (), s1) else on_reader (sax_key k) s1) (\<lambda>_ s.
       and_then (parse_bson_element F c position s) (\<lambda>_ s. parse_bson_element_list F a s))"
proof -
  let ?s = "s\<lparr>br_input := (k @ [0]) @ bs, br_current := Some c, br_chars_read := br_chars_read s + 1\<rparr>"
  have at: "read_next s = ?s" using assms(3) by (simp add: read_next_Cons write_bson_entry_header_def)
  obtain s1 where s1: "get_bson_cstr [] ?s = Inr (Some k, s1)" "br_input s1 = bs" "br_sax s1 = br_sax s"
    using deliversD [OF delivers_cstr [OF assms(2), of "[]"], of ?s bs] by auto
  then have "parse_bson_element_list F a s =
       and_then (if a then Inr (Some (), s1) else on_reader (sax_key k) s1) (\<lambda>_ s'.
       and_then (parse_bson_element F c (br_chars_read s + 1) s') (\<lambda>_ s. parse_bson_element_list F a s))"
    using assms(1) by (subst parse_bson_element_list.simps) (simp add: at Let_def)
  with s1 that show thesis by blast
qed

lemma dec_no_nul: "0 \<notin> set (dec n)"
  using dec_digits [of n] digit_not_special by fastforce

lemma bson_elements_read:
  assumes "\<forall>v \<in> set xs. \<exists>c b. element_reads F v c b"
  shows "\<exists>bs n. calc_bson_elements_size i xs = Inr n \<and> write_bson_elements F i xs = Inr bs
    \<and> (\<forall>ys. fills (bs @ [0]) (parse_bson_element_list F True) (Array ys) (Array (ys @ xs)))"
  using assms
proof (induction xs arbitrary: i)
  case Nil
  then show ?case by (auto simp: fills_def modify_same dest!: bson_list_end)
next
  case (Cons v xs)
  obtain bs n where IH: "calc_bson_elements_size (i + 1) xs = Inr n" "write_bson_elements F (i + 1) xs = Inr bs"
    "\<And>ys. fills (bs @ [0]) (parse_bson_element_list F True) (Array ys) (Array (ys @ xs))"
    using Cons.IH [of "i + 1"] Cons.prems by auto
  obtain c b m where v: "calc_bson_value_size v = Inr m" "\<And>k. write_bson_element F k v = Inr (write_bson_entry_header k c @ b)"
    "c \<noteq> 0" "\<And>position. builds b (parse_bson_element F c position) v"
    using Cons.prems by (auto simp: element_reads_def)
  let ?bs = "write_bson_entry_header (dec i) c @ b @ bs"
  have "fills (?bs @ [0]) (parse_bson_element_list F True) (Array ys) (Array (ys @ v # xs))" for ys
    unfolding fills_def
  proof (intro allI impI)
    fix s :: "'a binary_reader" and rest p ps
    assume s: "br_input s = (?bs @ [0]) @ rest" "ref_stack (br_sax s) = p # ps" "deref p (root (br_sax s)) = Some (Array ys)"
    obtain s1 position where s1: "br_input s1 = b @ (bs @ [0]) @ rest" "br_sax s1 = br_sax s"
      "parse_bson_element_list F True s =
         and_then (parse_bson_element F c position s1) (\<lambda>_ s. parse_bson_element_list F True s)"
      by (rule bson_list_element [OF v(3) dec_no_nul, of s i "b @ (bs @ [0]) @ rest" F True]) (use s(1) in auto)
    obtain s2 where "parse_bson_element F c position s1 = Inr (Some (), s2)" "br_input s2 = (bs @ [0]) @ rest"
      "root (br_sax s2) = modify p (\<lambda>_. Array (ys @ [v])) (root (br_sax s))" "ref_stack (br_sax s2) = p # ps"
      "deref p (root (br_sax s2)) = Some (Array (ys @ [v]))"
      using element_read [OF v(4) s1(1)] s(2,3) s1(2) by metis
    with fillsD [OF IH(3) this(2,4,5)]
    show "\<exists>s'. parse_bson_element_list F True s = Inr (Some (), s') \<and> br_input s' = rest
        \<and> root (br_sax s') = modify p (\<lambda>_. Array (ys @ v # xs)) (root (br_sax s)) \<and> ref_stack (br_sax s') = p # ps"
      by (auto simp: s1(3) json_pointers.change_const)
  qed
  moreover have "calc_bson_entry_header_size (dec i) = Inr (1 + length (dec i) + 1)"
    by (simp add: calc_bson_entry_header_size_def dec_no_nul)
  ultimately show ?case using IH(1,2) v(1,2) by auto
qed

lemma bson_members_read:
  assumes "\<forall>(k, v) \<in> set ms. 0 \<notin> set k \<and> (\<exists>c b. element_reads F v c b)"
  shows "\<exists>bs n. calc_bson_members_size ms = Inr n \<and> write_bson_members F ms = Inr bs
    \<and> (\<forall>ys. sorted_keys (ys @ ms) \<longrightarrow> fills (bs @ [0]) (parse_bson_element_list F False) (Object ys) (Object (ys @ ms)))"
  using assms
proof (induction ms)
  case Nil
  then show ?case by (auto simp: fills_def modify_same dest!: bson_list_end)
next
  case (Cons m ms)
  obtain k v where m: "m = (k, v)" by (cases m)
  obtain bs n where IH: "calc_bson_members_size ms = Inr n" "write_bson_members F ms = Inr bs"
    "\<And>ys. sorted_keys (ys @ ms) \<Longrightarrow> fills (bs @ [0]) (parse_bson_element_list F False) (Object ys) (Object (ys @ ms))"
    using Cons.IH Cons.prems by auto
  obtain c b l where k: "0 \<notin> set k" and v: "calc_bson_value_size v = Inr l" "\<And>k. write_bson_element F k v = Inr (write_bson_entry_header k c @ b)"
    "c \<noteq> 0" "\<And>position. builds b (parse_bson_element F c position) v"
    using Cons.prems by (auto simp: m element_reads_def)
  let ?bs = "write_bson_entry_header k c @ b @ bs"
  have "fills (?bs @ [0]) (parse_bson_element_list F False) (Object ys) (Object (ys @ m # ms))" if sorted: "sorted_keys (ys @ m # ms)" for ys
    unfolding fills_def
  proof (intro allI impI)
    fix s :: "'a binary_reader" and rest p ps
    assume s: "br_input s = (?bs @ [0]) @ rest" "ref_stack (br_sax s) = p # ps" "deref p (root (br_sax s)) = Some (Object ys)"
    obtain s1 position where s1: "br_input s1 = b @ (bs @ [0]) @ rest" "br_sax s1 = br_sax s"
      "parse_bson_element_list F False s =
         and_then (on_reader (sax_key k) s1) (\<lambda>_ s.
         and_then (parse_bson_element F c position s) (\<lambda>_ s. parse_bson_element_list F False s))"
      by (rule bson_list_element [OF v(3) k, of s "b @ (bs @ [0]) @ rest" F False]) (use s(1) in auto)
    obtain s2 s3 where "on_reader (sax_key k) s1 = Inr (Some (), s2)" "parse_bson_element F c position s2 = Inr (Some (), s3)"
      and s3: "br_input s3 = (bs @ [0]) @ rest" "root (br_sax s3) = modify p (\<lambda>_. Object (ys @ [(k, v)])) (root (br_sax s))"
      "ref_stack (br_sax s3) = p # ps" "deref p (root (br_sax s3)) = Some (Object (ys @ [(k, v)]))"
      using member_read [OF v(4) s1(1) sorted [unfolded m]] s(2,3) s1(2) by metis
    with fillsD [OF IH(3) s3(1,3,4)] sorted
    show "\<exists>s'. parse_bson_element_list F False s = Inr (Some (), s') \<and> br_input s' = rest
        \<and> root (br_sax s') = modify p (\<lambda>_. Object (ys @ m # ms)) (root (br_sax s)) \<and> ref_stack (br_sax s') = p # ps"
      by (auto simp: s1(3) m json_pointers.change_const)
  qed
  moreover have "calc_bson_entry_header_size k = Inr (1 + length k + 1)"
    by (simp add: calc_bson_entry_header_size_def k)
  ultimately show ?case using IH(1,2) v(1,2) by (auto simp: m)
qed

lemma bson_object_read:
  assumes "\<forall>(k, v) \<in> set ms. 0 \<notin> set k \<and> (\<exists>c b. element_reads F v c b)" "sorted_keys ms"
  obtains bs n where "calc_bson_members_size ms = Inr n" "write_bson_members F ms = Inr bs"
    "fills (bs @ [0]) (parse_bson_element_list F False) (Object []) (Object ms)"
proof -
  obtain bs n where bs: "calc_bson_members_size ms = Inr n" "write_bson_members F ms = Inr bs"
    and "\<forall>ys. sorted_keys (ys @ ms) \<longrightarrow> fills (bs @ [0]) (parse_bson_element_list F False) (Object ys) (Object (ys @ ms))"
    using bson_members_read [OF assms(1)] by blast
  from this(3) [THEN spec, of "[]"] assms(2) show thesis by (intro that [OF bs]) simp
qed

lemma bson_array_read:
  assumes "\<forall>v \<in> set xs. \<exists>c b. element_reads F v c b"
  obtains bs n where "calc_bson_elements_size 0 xs = Inr n" "write_bson_elements F 0 xs = Inr bs"
    "fills (bs @ [0]) (parse_bson_element_list F True) (Array []) (Array xs)"
proof -
  obtain bs n where bs: "calc_bson_elements_size 0 xs = Inr n" "write_bson_elements F 0 xs = Inr bs"
    and "\<forall>ys. fills (bs @ [0]) (parse_bson_element_list F True) (Array ys) (Array (ys @ xs))"
    using bson_elements_read [OF assms, of 0] by blast
  from this(3) [THEN spec, of "[]"] show thesis by (intro that [OF bs]) simp
qed

lemma builds_bson_document:
  assumes "fills bs (parse_bson_element_list F False) (Object []) (Object ms)"
  shows "builds (write_number True (n :: 32 word) @ bs) (parse_bson F) (Object ms)"
proof -
  have "builds (write_number True n @ bs) (\<lambda>s. bindE (get_number F_bson True s) (\<lambda>(_ :: 32 word option, s).
      and_then (on_reader (start_object_len (- 1)) s) (\<lambda>_ s.
      and_then (parse_bson_element_list F False s) (\<lambda>_ s. on_reader end_object s)))) (Object ms)"
    by (intro builds_ignored [OF delivers_number_little] builds_object assms) simp_all
  then show ?thesis by (simp add: parse_bson.simps [abs_def])
qed

lemma builds_bson_array:
  assumes "fills bs (parse_bson_element_list F True) (Array []) (Array xs)"
  shows "builds (write_number True (n :: 32 word) @ bs) (parse_bson_array F) (Array xs)"
proof -
  have "builds (write_number True n @ bs) (\<lambda>s. bindE (get_number F_bson True s) (\<lambda>(_ :: 32 word option, s).
      and_then (on_reader (start_array_len (- 1)) s) (\<lambda>_ s.
      and_then (parse_bson_element_list F True s) (\<lambda>_ s. on_reader end_array s)))) (Array xs)"
    by (intro builds_ignored [OF delivers_number_little] builds_array assms) simp_all
  then show ?thesis by (simp add: parse_bson_array.simps [abs_def])
qed

lemma bson_ok_reads:
  "bson_ok F v \<Longrightarrow> \<exists>c b. element_reads F v c b"
  "bson_members_ok F ms \<Longrightarrow> \<forall>(k, v) \<in> set ms. 0 \<notin> set k \<and> (\<exists>c b. element_reads F v c b)"
  "bson_elements_ok F xs \<Longrightarrow> \<forall>v \<in> set xs. \<exists>c b. element_reads F v c b"
proof (induction F v and F ms and F xs rule: bson_ok_bson_members_ok_bson_elements_ok.induct)
  case (1 F ms)
  then have "\<forall>(k, v) \<in> set ms. 0 \<notin> set k \<and> (\<exists>c b. element_reads F v c b)" "sorted_keys ms" by simp_all
  then obtain bs n where bs: "calc_bson_members_size ms = Inr n" "write_bson_members F ms = Inr bs"
    "fills (bs @ [0]) (parse_bson_element_list F False) (Object []) (Object ms)" by (rule bson_object_read)
  from builds_bson_document [OF bs(3), of "of_nat (4 + n + 1)"] bs(1,2)
  have "element_reads F (Object ms) 0x03 (write_number True (of_nat (4 + n + 1) :: 32 word) @ bs @ [0])"
    by (intro element_readsI) (simp_all add: calc_bson_object_size_def parse_bson_element.simps [abs_def])
  then show ?case by blast
next
  case (2 F xs)
  then have "\<forall>v \<in> set xs. \<exists>c b. element_reads F v c b" by simp
  then obtain bs n where bs: "calc_bson_elements_size 0 xs = Inr n" "write_bson_elements F 0 xs = Inr bs"
    "fills (bs @ [0]) (parse_bson_element_list F True) (Array []) (Array xs)"
    by (rule bson_array_read)
  from builds_bson_array [OF bs(3), of "of_nat (4 + n + 1)"] bs(1,2)
  have "element_reads F (Array xs) 0x04 (write_number True (of_nat (4 + n + 1) :: 32 word) @ bs @ [0])"
    by (intro element_readsI) (simp_all add: calc_bson_array_size_def parse_bson_element.simps [abs_def])
  then show ?case by blast
next
  case (3 F s)
  then show ?case using element_reads_string by auto
next
  case (4 F b st)
  then obtain t where "st = Some t" "length b < 2 ^ 31" "t \<le> 0xFF" by (auto split: option.splits)
  then show ?case using element_reads_binary by blast
next
  case (5 F x)
  then have "element_reads F (Number_float x) 0x01 (write_number True (double_image F x))"
    using builds_bson_number [of "0x01" F _ "\<lambda>n. Number_float (of_double_image F n)" "double_image F x"]
    by (intro element_readsI) (auto simp: write_bson_double_def bson_simple_def)
  then show ?case by blast
qed (auto intro: element_reads_integer element_reads_null element_reads_boolean)

section \<open>The round trip\<close>

text \<open>
  C24. BSON round trip: what \<open>to_bson\<close> writes of an object starts with its own length in 32 bits, and \<open>from_bson\<close>
  reads from it the object again, whatever follows when it is not strict, and whether or not it throws on errors, for
  the objects whose values BSON can tell apart (\<open>bson_ok\<close>).
\<close>

theorem bson_roundtrip:
  assumes "bson_ok F (Object ms)" "strict \<longrightarrow> rest = []"
  shows "\<exists>bs. to_bson F (Object ms) = Inr bs \<and> take 4 bs = write_number True (of_nat (length bs) :: 32 word)
    \<and> from_bson F (bs @ rest) strict allow = Inr (Object ms)"
proof -
  have "\<forall>(k, v) \<in> set ms. 0 \<notin> set k \<and> (\<exists>c b. element_reads F v c b)" "sorted_keys ms"
    using bson_ok_reads(2) [of F ms] assms(1) by simp_all
  then obtain bs n where bs: "calc_bson_members_size ms = Inr n" "write_bson_members F ms = Inr bs"
    "fills (bs @ [0]) (parse_bson_element_list F False) (Object []) (Object ms)" by (rule bson_object_read)
  let ?bs = "write_number True (of_nat (4 + n + 1) :: 32 word) @ bs @ [0]"
  have "to_bson F (Object ms) = Inr ?bs"
    using bs(1,2) by (simp add: to_bson_def write_bson_object_def calc_bson_object_size_def)
  moreover from this have "take 4 ?bs = write_number True (of_nat (length ?bs) :: 32 word)"
    by (intro bson_object_length(2)) (simp add: to_bson_def)
  moreover have "from_bson F (?bs @ rest) strict allow = Inr (Object ms)"
    unfolding from_bson_def by (rule finished_built [OF builds_bson_document [OF bs(3)] assms(2)])
  ultimately show ?thesis by blast
qed

theorem bson_roundtrip_witness:
  "\<exists>bs. to_bson whole_images (Object [(str ''a'', Array [Number_integer (- 300), Boolean True]), (str ''b'', Binary [1, 2] (Some 42))])
      = Inr bs \<and> take 4 bs = write_number True (of_nat (length bs) :: 32 word)
    \<and> from_bson whole_images (bs @ [7]) False True =
      Inr (Object [(str ''a'', Array [Number_integer (- 300), Boolean True]), (str ''b'', Binary [1, 2] (Some 42))])"
  by (rule bson_roundtrip) (simp_all add: str_def sorted_keys_def)

section \<open>What is not checked\<close>

text \<open>
  Input that ends before the byte behind a string is given back as discarded, without an exception; the byte behind a
  string need not be 0; and a boolean that is missing is true.
\<close>

lemma bson_string_cut:
  assumes "get_string F_bson 0 s = Inr (Some t, s')" "br_input s' = []"
  shows "\<exists>s'. get_bson_string 1 s = Inr (None, s')"
  using assms by (simp add: get_bson_string_def read_next_def)

lemma bson_boolean_cut:
  "br_input s = [] \<Longrightarrow> \<exists>s'. bson_simple F 0x08 position s = on_reader (sax_value (Boolean True)) s'"
  by (auto simp: bson_simple_def read_next_def Let_def)

end
