(* ===== verification/Json_Binary_Safety.thy ===== *)
theory Json_Binary_Safety
  imports Json_Cbor Json_Msgpack Json_Bson Json_Binary_Facts
begin

text \<open>
  What the readers of the binary formats do with arbitrary bytes: they end with a value, without one, or with an
  exception, but never in undefined behaviour.
\<close>

section \<open>Ends without undefined behaviour\<close>

text \<open>A reading that delivers something leaves a builder for which \<open>P\<close> holds.\<close>

definition ends :: "('a, 'f) reading \<Rightarrow> ('f dom \<Rightarrow> bool) \<Rightarrow> bool" where
  "ends r P \<longleftrightarrow> (\<forall>u. r \<noteq> Inl (Undefined u)) \<and> (\<forall>a s. r = Inr (Some a, s) \<longrightarrow> P (br_sax s))"

lemma endsD: "ends r P \<Longrightarrow> r = Inr (Some a, s) \<Longrightarrow> P (br_sax s)"
  by (simp add: ends_def)

lemma ends_and_then:
  assumes "ends m P" "\<And>a s. m = Inr (Some a, s) \<Longrightarrow> P (br_sax s) \<Longrightarrow> ends (f a s) Q"
  shows "ends (and_then m f) Q"
proof (cases m)
  case (Inr p)
  then show ?thesis using assms by (cases p, cases "fst p") (auto simp: ends_def and_then_def)
qed (use assms in \<open>auto simp: ends_def\<close>)

text \<open>A reading that leaves the builder as it was.\<close>

definition quiet :: "('a, 'f) reading \<Rightarrow> 'f binary_reader \<Rightarrow> bool" where
  "quiet r s \<longleftrightarrow> ends r (\<lambda>d. d = br_sax s)"

named_theorems quieting \<open>readers that leave the builder alone\<close>

lemma quiet_ends: "quiet r s \<Longrightarrow> P (br_sax s) \<Longrightarrow> ends r P"
  by (auto simp: quiet_def ends_def)

lemma ends_quiet_then:
  assumes "quiet m s" "\<And>a s1. m = Inr (Some a, s1) \<Longrightarrow> br_sax s1 = br_sax s \<Longrightarrow> ends (f a s1) Q"
  shows "ends (and_then m f) Q"
  by (rule ends_and_then [OF assms(1) [unfolded quiet_def]]) (rule assms(2))

lemma br_sax_read_next [simp]: "br_sax (read_next s) = br_sax s"
  by (simp add: read_next_def split: list.split)

lemma quiet_read_next: "quiet r (read_next s) \<longleftrightarrow> quiet r s"
  by (simp add: quiet_def)

lemma quiet_Inr [quieting]: "quiet (Inr (x, s)) s"
  by (simp add: quiet_def ends_def)

lemma ends_error: "ends (reader_error ex s) P"
  by (auto simp: ends_def reader_error_def sax_parse_error_def)

lemma ends_invalid_byte: "ends (invalid_byte eid f d c s) P"
  unfolding invalid_byte_def by (rule ends_error)

lemma quiet_invalid_byte [quieting]: "quiet (invalid_byte eid f d c s) s"
  unfolding quiet_def by (rule ends_invalid_byte)

lemma quiet_unexpect_eof [quieting]: "quiet (unexpect_eof f c s) s"
  by (auto simp: unexpect_eof_def quiet_def ends_error) (simp add: ends_def)

lemma quiet_and_then [quieting]:
  assumes "quiet m s" "\<And>a s1. m = Inr (Some a, s1) \<Longrightarrow> quiet (f a s1) s1"
  shows "quiet (and_then m f) s"
  unfolding quiet_def by (rule ends_quiet_then [OF assms(1)]) (rule quiet_ends [OF assms(2)])

lemma quiet_if [quieting]: "(b \<Longrightarrow> quiet r s) \<Longrightarrow> (\<not> b \<Longrightarrow> quiet r' s) \<Longrightarrow> quiet (if b then r else r') s"
  by simp

lemma quiet_option [quieting]: "quiet r s \<Longrightarrow> (\<And>a. quiet (f a) s) \<Longrightarrow> quiet (case x of None \<Rightarrow> r | Some a \<Rightarrow> f a) s"
  by (cases x) simp_all

lemma quiet_get_vec [quieting]: "quiet (get_vec f l i n vec s) s"
proof (induction n arbitrary: i vec s)
  case (Suc n)
  show ?case unfolding get_vec.simps
    by (subst quiet_read_next [symmetric]) (intro quieting Suc.IH)
qed (simp add: quieting)

lemma quiet_get_number [quieting]: "quiet (get_number f l s) s"
  unfolding get_number_def by (intro quieting)

lemma quiet_get_bytes [quieting]: "quiet (get_bytes f c n r s) s"
proof (induction n arbitrary: r s)
  case (Suc n)
  show ?case unfolding get_bytes.simps
    by (subst quiet_read_next [symmetric]) (intro quieting Suc.IH)
qed (simp add: quieting)

section \<open>Values and containers\<close>

text \<open>A value has been put where the builder expected one.\<close>

definition placed :: "'f dom \<Rightarrow> 'f dom \<Rightarrow> bool" where
  "placed d d' \<longleftrightarrow> (\<exists>v. root d' = place v d) \<and> ref_stack d' = ref_stack d"

lemma ends_value: "accepts (br_sax s) \<Longrightarrow> ends (on_reader (sax_value v) s) (placed (br_sax s))"
  by (auto simp: ends_def on_reader_def sax_value_accepts placed_def)

lemma ends_quiet_value:
  assumes "accepts (br_sax s)" "quiet m s"
  shows "ends (and_then m (\<lambda>a s. on_reader (sax_value (f a)) s)) (placed (br_sax s))"
  by (rule ends_quiet_then [OF assms(2)]) (metis assms(1) ends_value)

text \<open>The builder is at the array or object behind \<open>p\<close>; its contents may change.\<close>

definition in_array :: "json_ref \<Rightarrow> 'f dom \<Rightarrow> 'f dom \<Rightarrow> bool" where
  "in_array p d d' \<longleftrightarrow> ref_stack d' = ref_stack d \<and> (\<exists>xs. root d' = modify p (\<lambda>_. Array xs) (root d))"

definition in_object :: "json_ref \<Rightarrow> 'f dom \<Rightarrow> 'f dom \<Rightarrow> bool" where
  "in_object p d d' \<longleftrightarrow> ref_stack d' = ref_stack d \<and> (\<exists>ms. root d' = modify p (\<lambda>_. Object ms) (root d))"

definition at_array :: "json_ref \<Rightarrow> 'f dom \<Rightarrow> bool" where
  "at_array p d \<longleftrightarrow> (\<exists>ps xs. ref_stack d = p # ps \<and> deref p (root d) = Some (Array xs))"

definition at_object :: "json_ref \<Rightarrow> 'f dom \<Rightarrow> bool" where
  "at_object p d \<longleftrightarrow> (\<exists>ps ms. ref_stack d = p # ps \<and> deref p (root d) = Some (Object ms))"

lemma in_array_refl: "at_array p d \<Longrightarrow> in_array p d d"
  by (auto simp: at_array_def in_array_def) (metis modify_same)

lemma in_object_refl: "at_object p d \<Longrightarrow> in_object p d d"
  by (auto simp: at_object_def in_object_def) (metis modify_same)

lemma in_array_trans: "in_array p d d1 \<Longrightarrow> in_array p d1 d2 \<Longrightarrow> in_array p d d2"
  by (auto simp: in_array_def json_pointers.change_const)

lemma in_object_trans: "in_object p d d1 \<Longrightarrow> in_object p d1 d2 \<Longrightarrow> in_object p d d2"
  by (auto simp: in_object_def json_pointers.change_const)

lemma in_array_at: "at_array p d \<Longrightarrow> in_array p d d' \<Longrightarrow> at_array p d'"
  using json_pointers.look_const [of p "root d"] by (auto simp: at_array_def in_array_def)

lemma in_object_at: "at_object p d \<Longrightarrow> in_object p d d' \<Longrightarrow> at_object p d'"
  using json_pointers.look_const [of p "root d"] by (auto simp: at_object_def in_object_def)

lemma placed_in_array: "at_array p d \<Longrightarrow> accepts d \<and> (placed d d' \<longrightarrow> in_array p d d')"
  using accepts_array by (fastforce simp: at_array_def in_array_def placed_def)

lemma sax_key_member:
  assumes "at_object p d"
  obtains d' where "sax_key k d = Inr d'" "in_object p d d'" "accepts d'" "\<And>d''. placed d' d'' \<Longrightarrow> in_object p d' d''"
proof -
  obtain ps ms where o: "ref_stack d = p # ps" "deref p (root d) = Some (Object ms)"
    using assms by (auto simp: at_object_def)
  let ?ms = "object_emplace k Null ms"
  let ?d = "d\<lparr>object_element := Some (p @ [Member k]), root := modify p (\<lambda>_. Object ?ms) (root d)\<rparr>"
  have "modify p (emplace_null k) (root d) = modify p (\<lambda>_. Object ?ms) (root d)"
    by (rule json_pointers.change_cong [OF o(2)]) simp
  then have key: "sax_key k d = Inr ?d" using o(1) by (simp add: sax_key_def)
  have m: "deref p (root ?d) = Some (Object ?ms)" using json_pointers.look_const [of p "root d"] o(2) by simp
  have in_obj: "in_object p d ?d" by (auto simp: in_object_def)
  have "k \<in> fst ` set ?ms" by simp
  then obtain w where "map_of ?ms k = Some w" by (metis map_of_eq_None_iff not_None_eq)
  with o(1) m have acc: "accepts ?d" by (auto simp: accepts_def)
  have "in_object p ?d d''" if pl: "placed ?d d''" for d''
  proof -
    obtain v where v: "root d'' = place v ?d" "ref_stack d'' = p # ps" using pl o(1) by (auto simp: placed_def)
    have "place v ?d = modify (p @ [Member k]) (\<lambda>_. v) (root ?d)" using o(1) m by (simp add: place_def handle_value_def)
    also have "\<dots> = modify p (\<lambda>_. Object (object_update k (\<lambda>_. v) ?ms)) (root ?d)"
      unfolding modify_append by (rule json_pointers.change_cong [OF m]) simp
    finally show ?thesis using v o(1) by (auto simp: in_object_def)
  qed
  from that [OF key in_obj acc this] show thesis .
qed

text \<open>An array and an object are opened, filled and closed.\<close>

lemma ends_array:
  assumes "accepts (br_sax s)"
    "\<And>q s1. on_reader (start_array_len len) s = Inr (Some (), s1) \<Longrightarrow> at_array q (br_sax s1) \<Longrightarrow> ends (fill s1) (in_array q (br_sax s1))"
  shows "ends (and_then (on_reader (start_array_len len) s) (\<lambda>_ s. and_then (fill s) (\<lambda>_ s. on_reader end_array s))) (placed (br_sax s))"
proof -
  obtain q d where d: "start_array (br_sax s) = Inr d" "enters q (Array []) (br_sax s) d"
    using start_array_accepts [OF assms(1)] by blast
  have at: "at_array q d" using d(2) by (auto simp: at_array_def enters_def)
  have close: "ends (on_reader end_array s1) (placed (br_sax s))" if "in_array q d (br_sax s1)" for s1
    using that d(2) by (auto simp: ends_def on_reader_def end_array_def in_array_def enters_def placed_def)
  show ?thesis
  proof (rule ends_and_then [where P = "(=) d"])
    show "ends (on_reader (start_array_len len) s) ((=) d)"
      using d(1) by (auto simp: ends_def on_reader_def start_array_len_def)
    show "ends (and_then (fill s1) (\<lambda>_ s. on_reader end_array s)) (placed (br_sax s))"
      if "on_reader (start_array_len len) s = Inr (Some u, s1)" "d = br_sax s1" for s1 and u
      using assms(2) [of s1 q] at that by (intro ends_and_then [OF _ close]) simp_all
  qed
qed

lemma ends_object:
  assumes "accepts (br_sax s)"
    "\<And>q s1. on_reader (start_object_len len) s = Inr (Some (), s1) \<Longrightarrow> at_object q (br_sax s1) \<Longrightarrow> ends (fill s1) (in_object q (br_sax s1))"
  shows "ends (and_then (on_reader (start_object_len len) s) (\<lambda>_ s. and_then (fill s) (\<lambda>_ s. on_reader end_object s))) (placed (br_sax s))"
proof -
  obtain q d where d: "start_object (br_sax s) = Inr d" "enters q (Object []) (br_sax s) d"
    using start_object_accepts [OF assms(1)] by blast
  have at: "at_object q d" using d(2) by (auto simp: at_object_def enters_def)
  have close: "ends (on_reader end_object s1) (placed (br_sax s))" if "in_object q d (br_sax s1)" for s1
    using that d(2) by (auto simp: ends_def on_reader_def end_object_def in_object_def enters_def placed_def)
  show ?thesis
  proof (rule ends_and_then [where P = "(=) d"])
    show "ends (on_reader (start_object_len len) s) ((=) d)"
      using d(1) by (auto simp: ends_def on_reader_def start_object_len_def)
    show "ends (and_then (fill s1) (\<lambda>_ s. on_reader end_object s)) (placed (br_sax s))"
      if "on_reader (start_object_len len) s = Inr (Some u, s1)" "d = br_sax s1" for s1 and u
      using assms(2) [of s1 q] at that by (intro ends_and_then [OF _ close]) simp_all
  qed
qed

text \<open>One element of an array, one member of an object, and the rest.\<close>

lemma ends_element:
  assumes "at_array q (br_sax s)" "accepts (br_sax s) \<Longrightarrow> ends (value s) (placed (br_sax s))"
    "\<And>s1. value s = Inr (Some (), s1) \<Longrightarrow> at_array q (br_sax s1) \<Longrightarrow> ends (rest s1) (in_array q (br_sax s1))"
  shows "ends (and_then (value s) (\<lambda>_ s. rest s)) (in_array q (br_sax s))"
proof (rule ends_and_then)
  show "ends (value s) (in_array q (br_sax s))"
    using placed_in_array [OF assms(1)] assms(2) by (fastforce simp: ends_def)
  show "ends (rest s1) (in_array q (br_sax s))" if "value s = Inr (Some u, s1)" "in_array q (br_sax s) (br_sax s1)" for u s1
    using assms(3) [of s1] that in_array_at [OF assms(1) that(2)] in_array_trans [OF that(2)] by (auto simp: ends_def)
qed

lemma ends_member:
  fixes s :: "'f binary_reader"
  assumes "at_object q (br_sax s)" "quiet (key s) s"
    "\<And>k s1 s2. key s = Inr (Some k, s1) \<Longrightarrow> on_reader (sax_key k) s1 = Inr (Some (), s2) \<Longrightarrow> accepts (br_sax s2) \<Longrightarrow>
      ends (value s2) (placed (br_sax s2))"
    "\<And>k s1 s2 s3. key s = Inr (Some k, s1) \<Longrightarrow> on_reader (sax_key k) s1 = Inr (Some (), s2) \<Longrightarrow> value s2 = Inr (Some (), s3) \<Longrightarrow>
      at_object q (br_sax s3) \<Longrightarrow> ends (rest s3) (in_object q (br_sax s3))"
  shows "ends (and_then (key s) (\<lambda>k s. and_then (on_reader (sax_key k) s) (\<lambda>_ s. and_then (value s) (\<lambda>_ s. rest s))))
    (in_object q (br_sax s))"
proof (rule ends_quiet_then [OF assms(2)])
  fix k s1 assume key: "key s = Inr (Some k, s1)" and s1: "br_sax s1 = br_sax s"
  obtain d where d: "sax_key k (br_sax s) = Inr d" "in_object q (br_sax s) d" "accepts d"
      "\<And>d''. placed d d'' \<Longrightarrow> in_object q d d''"
    by (rule sax_key_member [OF assms(1)]) blast
  note at = in_object_at [OF assms(1) d(2)]
  show "ends (and_then (on_reader (sax_key k) s1) (\<lambda>_ s. and_then (value s) (\<lambda>_ s. rest s))) (in_object q (br_sax s))"
  proof (rule ends_and_then)
    show "ends (on_reader (sax_key k) s1) (\<lambda>d'. d' = d)" by (auto simp: ends_def on_reader_def s1 d(1))
    fix u s2 assume s2: "on_reader (sax_key k) s1 = Inr (Some u, s2)" "br_sax s2 = d"
    show "ends (and_then (value s2) (\<lambda>_ s. rest s)) (in_object q (br_sax s))"
    proof (rule ends_and_then)
      show "ends (value s2) (in_object q d)" using assms(3) [OF key] s2 d(3,4) by (auto simp: ends_def)
      fix w s3 assume s3: "value s2 = Inr (Some w, s3)" "in_object q d (br_sax s3)"
      show "ends (rest s3) (in_object q (br_sax s))"
        using assms(4) [OF key, of s2 s3] s2 s3 in_object_at [OF at s3(2)] in_object_trans [OF in_object_trans [OF d(2) s3(2)]]
        by (auto simp: ends_def)
    qed
  qed
qed

section \<open>The whole input\<close>

lemma finished_ends:
  assumes "\<And>s :: 'f binary_reader. accepts (br_sax s) \<Longrightarrow> ends (parse s) (placed (br_sax s))"
  shows "finished (end_of_value format strict (parse (reader_init i allow))) \<noteq> Inl (Undefined u)"
proof -
  have "accepts (br_sax (reader_init i allow :: 'f binary_reader))" by (simp add: reader_init_def dom_init_def accepts_def)
  note ends = assms [OF this]
  have "ends (end_of_value format strict (parse (reader_init i allow))) (\<lambda>_. True)"
    unfolding end_of_value_def
    by (rule ends_and_then [OF ends]) (auto simp: Let_def intro!: ends_invalid_byte, simp_all add: ends_def)
  then show ?thesis
    by (cases "end_of_value format strict (parse (reader_init i allow))") (auto simp: ends_def finished_def)
qed

lemma ends_if: "(b \<Longrightarrow> ends r P) \<Longrightarrow> (\<not> b \<Longrightarrow> ends r' P) \<Longrightarrow> ends (if b then r else r') P"
  by simp

section \<open>CBOR\<close>

lemma quiet_cbor_size [quieting]: "quiet (cbor_size c s) s"
  unfolding cbor_size_def Let_def by (intro quieting)

lemma quiet_cbor_tag_number [quieting]: "quiet (cbor_tag_number c s) s"
  unfolding cbor_tag_number_def by (intro quieting)

lemma quiet_get_cbor_bytes [quieting]: "quiet (get_cbor_bytes base ctx detail s) s"
  and "quiet (get_cbor_chunks base ctx detail rs s) s"
proof (induction base ctx detail s and base ctx detail rs s rule: get_cbor_bytes_get_cbor_chunks.induct)
  case (1 base ctx detail s)
  show ?case unfolding get_cbor_bytes.simps [of base ctx detail s] Let_def by (intro quieting 1(1) [OF _ refl])
next
  case (2 base ctx detail rs s)
  show ?case unfolding get_cbor_chunks.simps [of base ctx detail rs s] Let_def
    by (subst quiet_read_next [symmetric]) (intro quieting 2 [OF refl])
qed

lemma quiet_get_cbor_string [quieting]: "quiet (get_cbor_string s) s"
  and quiet_get_cbor_binary [quieting]: "quiet (get_cbor_binary s) s"
  unfolding get_cbor_string_def get_cbor_binary_def by (intro quieting)+

lemma ends_cbor_number: "accepts (br_sax s) \<Longrightarrow> ends (cbor_number c s) (placed (br_sax s))"
  unfolding cbor_number_def sax_json_def by (intro ends_if ends_value ends_quiet_value quieting)

lemma ends_cbor_half:
  assumes "accepts (br_sax s)"
  shows "ends (cbor_half F s) (placed (br_sax s))"
  unfolding cbor_half_def
proof (rule ends_quiet_then)
  show "quiet (unexpect_eof F_cbor ''number'' (read_next s)) s" by (subst quiet_read_next [symmetric]) (rule quieting)
  fix u and s1 :: "'a binary_reader" assume s1: "br_sax s1 = br_sax s"
  show "ends (and_then (unexpect_eof F_cbor ''number'' (read_next s1)) (\<lambda>_ s2.
       sax_json (Number_float (half_value F (the (br_current s1)) (the (br_current s2)))) s2)) (placed (br_sax s))"
  proof (rule ends_quiet_then)
    show "quiet (unexpect_eof F_cbor ''number'' (read_next s1)) s" 
      using quiet_unexpect_eof [of F_cbor "''number''" "read_next s1"] by (simp add: quiet_def s1)
  qed (use assms in \<open>metis sax_json_def ends_value\<close>)
qed

text \<open>When the number of a tag cannot be read, the input has ended, and the byte array behind it cannot be read either.\<close>

lemma get_vec_failed:
  "get_vec f l i n vec s = Inr (None, s') \<Longrightarrow> br_input s' = [] \<and> br_sax s' = (br_sax s)\<lparr>errored := True\<rparr>"
proof (induction n arbitrary: i vec s)
  case (Suc n)
  show ?case
  proof (cases "br_current (read_next s)")
    case None
    then have "br_input s = []" by (auto simp: read_next_def split: list.splits)
    with Suc.prems show ?thesis by (auto simp: unexpect_eof_def reader_error_def sax_parse_error_def read_next_def split: if_splits)
  next
    case (Some b)
    with Suc show ?thesis by (auto simp: unexpect_eof_def)
  qed
qed simp

lemma get_number_failed:
  "get_number f l s = Inr (None, s') \<Longrightarrow> br_input s' = [] \<and> br_sax s' = (br_sax s)\<lparr>errored := True\<rparr>"
  by (auto simp: get_number_def and_then_def split: option.splits dest: get_vec_failed)

lemma cbor_tag_number_fails: "cbor_tag_number c s = Inr (None, s') \<Longrightarrow> br_input s' = []"
  by (auto simp: cbor_tag_number_def and_then_def split: if_splits option.splits dest: get_number_failed)

lemma ends_cbor_tagged:
  fixes s :: "'f binary_reader"
  assumes "accepts (br_sax s)"
  shows "ends (cbor_tagged c s) (placed (br_sax s))"
proof -
  have bytes: "ends (and_then (get_cbor_binary (read_next s1)) (\<lambda>b s. sax_json (Binary b st) s)) (placed (br_sax s1))"
    if "accepts (br_sax s1)" for s1 :: "'f binary_reader" and st
    unfolding sax_json_def using that by (rule ends_quiet_value) (subst quiet_read_next [symmetric], rule quieting)
  show ?thesis
  proof (cases "cbor_tag_number c s")
    case (Inl e)
    then show ?thesis using quiet_cbor_tag_number [of c s] by (simp add: cbor_tagged_def ends_def quiet_def)
  next
    case (Inr p)
    obtain n s1 where p: "p = (n, s1)" by (cases p)
    show ?thesis
    proof (cases n)
      case None
      then have "br_current (read_next s1) = None" using cbor_tag_number_fails [of c s s1] Inr p by (simp add: read_next_def)
      then show ?thesis
        by (auto simp: cbor_tagged_def Inr p get_cbor_binary_def get_cbor_bytes.simps unexpect_eof_def reader_error_def
            sax_parse_error_def ends_def)
    next
      case (Some m)
      then have "br_sax s1 = br_sax s" using quiet_cbor_tag_number [of c s] Inr p by (simp add: quiet_def ends_def)
      with bytes [of s1] assms show ?thesis by (simp add: cbor_tagged_def Inr p Some)
    qed
  qed
qed

lemma ends_cbor_simple: "accepts (br_sax s) \<Longrightarrow> ends (cbor_simple F c s) (placed (br_sax s))"
  unfolding cbor_simple_def cbor_invalid_def sax_json_def
  by (intro ends_if ends_value ends_quiet_value quieting ends_cbor_number ends_cbor_half ends_invalid_byte)

lemma ends_cbor_at_end:
  assumes "br_input s = []"
  shows "ends (parse_cbor F h True s) P"
  using assms by (subst parse_cbor.simps) (simp add: read_next_def unexpect_eof_def ends_error)

lemma ends_cbor_ignored:
  assumes "accepts (br_sax s)"
    "\<And>n s1. cbor_tag_number c s = Inr (n, s1) \<Longrightarrow> accepts (br_sax s1) \<Longrightarrow> ends (parse_cbor F h True s1) (placed (br_sax s1))"
  shows "ends (bindE (cbor_tag_number c s) (\<lambda>(_, s). parse_cbor F h True s)) (placed (br_sax s))"
proof (cases "cbor_tag_number c s")
  case (Inl e)
  then show ?thesis using quiet_cbor_tag_number [of c s] by (simp add: ends_def quiet_def)
next
  case (Inr p)
  obtain n s1 where p: "p = (n, s1)" by (cases p)
  show ?thesis
  proof (cases n)
    case None
    then show ?thesis using cbor_tag_number_fails [of c s s1] Inr p by (simp add: ends_cbor_at_end)
  next
    case (Some m)
    then have "br_sax s1 = br_sax s" using quiet_cbor_tag_number [of c s] Inr p by (simp add: quiet_def ends_def)
    with assms(2) [of n s1] assms(1) show ?thesis by (simp add: Inr p)
  qed
qed

lemma ends_cbor:
  fixes F :: "('f, 'z) image_ops_scheme"
  shows "accepts (br_sax s) \<Longrightarrow> ends (parse_cbor F h get_char s) (placed (br_sax s))"
    and "accepts (br_sax s) \<Longrightarrow> ends (get_cbor_array F h len s) (placed (br_sax s))"
    and "\<And>q. at_array q (br_sax s) \<Longrightarrow> ends (cbor_elements F h n s) (in_array q (br_sax s))"
    and "\<And>q. at_array q (br_sax s) \<Longrightarrow> ends (cbor_elements_until F h s) (in_array q (br_sax s))"
    and "accepts (br_sax s) \<Longrightarrow> ends (get_cbor_object F h len s) (placed (br_sax s))"
    and "\<And>q. at_object q (br_sax s) \<Longrightarrow> ends (cbor_members F h n s) (in_object q (br_sax s))"
    and "\<And>q. at_object q (br_sax s) \<Longrightarrow> ends (cbor_members_until F h s) (in_object q (br_sax s))"
proof (induction F h get_char s and F h len s and F h n s and F h s and F h len s and F h n s and F h s
    rule: parse_cbor_get_cbor_array_cbor_elements_cbor_elements_until_get_cbor_object_cbor_members_cbor_members_until.induct)
  case (1 F h get_char s)
  define t where "t = (if get_char then read_next s else s)"
  have sax: "br_sax t = br_sax s" by (simp add: t_def)
  note step = parse_cbor.simps [of F h get_char s, folded t_def, unfolded Let_def]
  show ?case
  proof (cases "br_current t")
    case None
    then show ?thesis by (simp add: step unexpect_eof_def ends_error)
  next
    case (Some c)
    have arr: "ends (and_then (cbor_size c t) (\<lambda>len s. get_cbor_array F h len s)) (placed (br_sax s))"
      if "0x80 \<le> c \<and> c \<le> 0x9B \<or> c = 0x9F"
      using 1(1) [OF t_def Some that] 1(5) sax by (intro ends_quiet_then [OF quiet_cbor_size]) auto
    have obj: "ends (and_then (cbor_size c t) (\<lambda>len s. get_cbor_object F h len s)) (placed (br_sax s))"
      if "\<not> (0x80 \<le> c \<and> c \<le> 0x9B \<or> c = 0x9F)" "0xA0 \<le> c \<and> c \<le> 0xBB \<or> c = 0xBF"
      using 1(2) [OF t_def Some that] 1(5) sax by (intro ends_quiet_then [OF quiet_cbor_size]) auto
    have tag: "ends (case h of Tag_error \<Rightarrow> cbor_invalid t
             | Tag_ignore \<Rightarrow> bindE (cbor_tag_number c t) (\<lambda>(_, s). parse_cbor F h True s)
             | Tag_store \<Rightarrow> if 0xD8 \<le> c then cbor_tagged c t else parse_cbor F h True t) (placed (br_sax s))"
      if c: "\<not> (0x80 \<le> c \<and> c \<le> 0x9B \<or> c = 0x9F)" "\<not> (0xA0 \<le> c \<and> c \<le> 0xBB \<or> c = 0xBF)"
        "0xC6 \<le> c \<and> c \<le> 0xD4 \<or> 0xD8 \<le> c \<and> c \<le> 0xDB"
    proof (cases h)
      case Tag_error
      then show ?thesis by (simp add: cbor_invalid_def ends_invalid_byte)
    next
      case Tag_ignore
      with 1(3) [OF t_def Some c Tag_ignore] 1(5) sax ends_cbor_ignored [of t c F Tag_ignore] show ?thesis by simp
    next
      case Tag_store
      with 1(4) [OF t_def Some c Tag_store] 1(5) sax ends_cbor_tagged [of t c] show ?thesis by simp
    qed
    show ?thesis unfolding step Some option.case
      using 1(5) sax ends_cbor_simple [of t F c] by (intro ends_if arr obj tag) simp_all
  qed
next
  case (2 F h len s)
  show ?case unfolding get_cbor_array.simps [of F h len s] using 2(1,2,3)
    by (intro ends_array) auto
next
  case (3 F h n s)
  show ?case unfolding cbor_elements.simps [of F h n s] using 3
    by (intro ends_if ends_element) (auto simp: in_array_refl ends_def)
next
  case (4 F h s)
  show ?case unfolding cbor_elements_until.simps [of F h s] Let_def using 4(1,2) [OF refl] 4(3)
    ends_element [of q "read_next s" "parse_cbor F h False" "cbor_elements_until F h"]
    by (intro ends_if) (auto simp: in_array_refl ends_def)
next
  case (5 F h len s)
  show ?case unfolding get_cbor_object.simps [of F h len s] using 5
    by (intro ends_object) auto
next
  case (6 F h n s)
  show ?case unfolding cbor_members.simps [of F h n s] using 6(1,2) 6(3) quiet_get_cbor_string [of "read_next s", unfolded quiet_read_next]
    ends_member [of q s "\<lambda>s. get_cbor_string (read_next s)" "parse_cbor F h True" "cbor_members F h (n - 1)"]
    by (intro ends_if) (auto simp: in_object_refl ends_def)
next
  case (7 F h s)
  show ?case unfolding cbor_members_until.simps [of F h s] Let_def using 7(1,2) [OF refl] 7(3) quiet_get_cbor_string [of "read_next s"]
    ends_member [of q "read_next s" get_cbor_string "parse_cbor F h True" "cbor_members_until F h"]
    by (intro ends_if) (auto simp: in_object_refl ends_def)
qed

section \<open>MessagePack\<close>

lemma quiet_get_msgpack_string [quieting]: "quiet (get_msgpack_string s) s"
  unfolding get_msgpack_string_def Let_def get_string_def by (intro quieting)

lemma quiet_get_msgpack_binary [quieting]: "quiet (get_msgpack_binary s) s"
  unfolding get_msgpack_binary_def msgpack_bin_def msgpack_ext_def get_binary_def by (intro quieting)

lemma quiet_msgpack_length [quieting]: "quiet (msgpack_length c s) s"
  unfolding msgpack_length_def by (intro quieting)

lemma ends_msgpack_simple:
  assumes "accepts (br_sax s)"
  shows "ends (msgpack_simple F c s) (placed (br_sax s))"
proof -
  have number: "ends (msgpack_number F c s) (placed (br_sax s))"
    using assms unfolding msgpack_number_def by (intro ends_if ends_value ends_quiet_value quieting)
  have bytes: "ends (and_then (get_msgpack_binary s) (\<lambda>(b, st) s. on_reader (sax_value (Binary b st)) s)) (placed (br_sax s))"
    using ends_quiet_value [OF assms quiet_get_msgpack_binary, of "\<lambda>(b, st). Binary b st"] by (simp add: case_prod_unfold)
  show ?thesis using assms unfolding msgpack_simple_def
    by (intro ends_if ends_value ends_quiet_value quieting number bytes ends_invalid_byte)
qed

lemma ends_msgpack:
  fixes F :: "('f, 'z) image_ops_scheme"
  shows "accepts (br_sax s) \<Longrightarrow> ends (parse_msgpack F s) (placed (br_sax s))"
    and "accepts (br_sax s) \<Longrightarrow> ends (get_msgpack_array F len s) (placed (br_sax s))"
    and "\<And>q. at_array q (br_sax s) \<Longrightarrow> ends (msgpack_elements F n s) (in_array q (br_sax s))"
    and "accepts (br_sax s) \<Longrightarrow> ends (get_msgpack_object F len s) (placed (br_sax s))"
    and "\<And>q. at_object q (br_sax s) \<Longrightarrow> ends (msgpack_members F n s) (in_object q (br_sax s))"
proof (induction F s and F len s and F n s and F len s and F n s
    rule: parse_msgpack_get_msgpack_array_msgpack_elements_get_msgpack_object_msgpack_members.induct)
  case (1 F s)
  define t where "t = read_next s"
  have sax: "br_sax t = br_sax s" by (simp add: t_def)
  note step = parse_msgpack.simps [of F s, folded t_def, unfolded Let_def]
  show ?case
  proof (cases "br_current t")
    case None
    then show ?thesis by (simp add: step unexpect_eof_def ends_error)
  next
    case (Some c)
    have obj: "ends (and_then (msgpack_length c t) (\<lambda>len s. get_msgpack_object F len s)) (placed (br_sax s))"
      if "0x80 \<le> c \<and> c \<le> 0x8F \<or> c = 0xDE \<or> c = 0xDF"
      using 1(1) [OF t_def Some that] 1(3) sax by (intro ends_quiet_then [OF quiet_msgpack_length]) auto
    have arr: "ends (and_then (msgpack_length c t) (\<lambda>len s. get_msgpack_array F len s)) (placed (br_sax s))"
      if "\<not> (0x80 \<le> c \<and> c \<le> 0x8F \<or> c = 0xDE \<or> c = 0xDF)" "0x90 \<le> c \<and> c \<le> 0x9F \<or> c = 0xDC \<or> c = 0xDD"
      using 1(2) [OF t_def Some that] 1(3) sax by (intro ends_quiet_then [OF quiet_msgpack_length]) auto
    show ?thesis unfolding step Some option.case
      using 1(3) sax ends_msgpack_simple [of t F c] by (intro ends_if arr obj) simp_all
  qed
next
  case (2 F len s)
  show ?case unfolding get_msgpack_array.simps [of F len s] using 2
    by (intro ends_array) auto
next
  case (3 F n s)
  show ?case unfolding msgpack_elements.simps [of F n s] using 3
    by (intro ends_if ends_element) (auto simp: in_array_refl ends_def)
next
  case (4 F len s)
  show ?case unfolding get_msgpack_object.simps [of F len s] using 4
    by (intro ends_object) auto
next
  case (5 F n s)
  show ?case unfolding msgpack_members.simps [of F n s] using 5 quiet_get_msgpack_string [of "read_next s", unfolded quiet_read_next]
    ends_member [of q s "\<lambda>s. get_msgpack_string (read_next s)" "parse_msgpack F" "msgpack_members F (n - 1)"]
    by (intro ends_if) (auto simp: in_object_refl ends_def)
qed

section \<open>BSON\<close>

lemma quiet_get_bson_cstr [quieting]: "quiet (get_bson_cstr result s) s"
proof (induction result s rule: get_bson_cstr.induct)
  case (1 result s)
  show ?case unfolding get_bson_cstr.simps [of result s] Let_def
    by (subst quiet_read_next [symmetric]) (intro quieting 1 [OF refl])
qed

lemma quiet_reader_error [quieting]: "quiet (reader_error ex s) s"
  by (simp add: quiet_def ends_error)

lemma quiet_get_bson_string [quieting]: "quiet (get_bson_string len s) s"
proof -
  have last: "quiet (if br_current (read_next t) \<noteq> None then Inr (Some x, read_next t) else Inr (None, read_next t)) t"
    for x :: "byte list" and t :: "'a binary_reader"
    by (subst quiet_read_next [symmetric]) (intro quieting)
  show ?thesis unfolding get_bson_string_def get_string_def Let_def by (intro quieting last)
qed

text \<open>When a size or a subtype cannot be read, the reader goes on; only the mark for an error is left in the builder.\<close>

lemma accepts_errored [simp]: "accepts (d\<lparr>errored := e\<rparr>) = accepts d"
  by (cases "ref_stack d") (simp_all add: accepts_def)

lemma placed_errored [simp]: "placed (d\<lparr>errored := e\<rparr>) = placed d"
proof -
  have "place v (d\<lparr>errored := e\<rparr>) = place v d" for v
  proof (cases "ref_stack d")
    case (Cons p ps)
    then show ?thesis
      by (cases "deref p (root d)" rule: option.exhaust; cases "the (deref p (root d))"; cases "object_element d")
        (simp_all add: place_def handle_value_def)
  qed (simp add: place_def handle_value_def)
  then show ?thesis by (intro ext) (simp add: placed_def)
qed

lemma ends_get_bson_binary: "ends (get_bson_binary len s) (\<lambda>d. \<exists>e. d = (br_sax s)\<lparr>errored := e\<rparr>)"
proof (cases "get_number F_bson False s :: (8 word, 'a) reading")
  case (Inl e)
  then show ?thesis using quiet_get_number [of F_bson False s, where 'a = 8]
    by (auto simp: get_bson_binary_def ends_error) (simp add: ends_def quiet_def)
next
  case (Inr p)
  obtain t s1 where p: "p = (t, s1)" by (cases p)
  have "br_sax s1 = br_sax s \<or> br_sax s1 = (br_sax s)\<lparr>errored := True\<rparr>"
    using Inr get_number_failed [of F_bson False s s1, where 'a = 8] quiet_get_number [of F_bson False s, where 'a = 8]
    by (cases t) (auto simp: p quiet_def ends_def)
  moreover have "br_sax s = (br_sax s)\<lparr>errored := errored (br_sax s)\<rparr>" by simp
  ultimately have s1: "\<exists>e. br_sax s1 = (br_sax s)\<lparr>errored := e\<rparr>" by metis
  have "quiet (get_binary F_bson (nat (sint len)) s1) s1" unfolding get_binary_def by (rule quieting)
  then have "ends (and_then (get_binary F_bson (nat (sint len)) s1) (\<lambda>b s. Inr (Some (b, x), s)))
      (\<lambda>d. \<exists>e. d = (br_sax s)\<lparr>errored := e\<rparr>)" for x :: "64 word option"
    by (rule ends_quiet_then) (use s1 in \<open>simp add: ends_def\<close>)
  then show ?thesis by (simp add: get_bson_binary_def Inr p ends_error)
qed

lemma ends_bson_simple:
  assumes "accepts (br_sax s)"
  shows "ends (bson_simple F c position s) (placed (br_sax s))"
proof -
  have string: "ends (and_then (get_number F_bson True s) (\<lambda>len s.
      and_then (get_bson_string len s) (\<lambda>t s. on_reader (sax_value (String t)) s))) (placed (br_sax s))"
    by (rule ends_quiet_then [OF quiet_get_number]) (metis assms ends_quiet_value quiet_get_bson_string)
  have binary: "ends (and_then (get_number F_bson True s) (\<lambda>len s.
      and_then (get_bson_binary len s) (\<lambda>(b, st) s. on_reader (sax_value (Binary b st)) s))) (placed (br_sax s))"
  proof (rule ends_quiet_then [OF quiet_get_number])
    fix len and s1 :: "'a binary_reader" assume s1: "br_sax s1 = br_sax s"
    show "ends (and_then (get_bson_binary len s1) (\<lambda>(b, st) s. on_reader (sax_value (Binary b st)) s)) (placed (br_sax s))"
    proof (rule ends_and_then [OF ends_get_bson_binary])
      fix x :: "byte list \<times> 64 word option" and s2 :: "'a binary_reader" assume "\<exists>e. br_sax s2 = (br_sax s1)\<lparr>errored := e\<rparr>"
      with s1 assms ends_value [of s2] show "ends ((case x of (b, st) \<Rightarrow> \<lambda>s. on_reader (sax_value (Binary b st)) s) s2) (placed (br_sax s))"
        by (auto split: prod.split)
    qed
  qed
  have boolean: "ends (on_reader (sax_value v) (read_next s)) (placed (br_sax s))" for v
    using ends_value [of "read_next s" v] assms by simp
  show ?thesis using assms unfolding bson_simple_def Let_def
    by (intro ends_if ends_value ends_quiet_value quieting string binary boolean ends_error)
qed

text \<open>At the end of the input the list of elements of a document is an error.\<close>

lemma ends_error_then: "ends (and_then (reader_error ex s) f) P"
  by (rule ends_and_then [OF ends_error, where P = "\<lambda>_. False"]) simp

lemma bson_list_cut: "br_input s = [] \<Longrightarrow> ends (parse_bson_element_list F a s) P"
  by (subst parse_bson_element_list.simps) (simp add: Let_def read_next_def unexpect_eof_def ends_error_then)

lemma ends_bson_document:
  fixes s :: "'f binary_reader"
  assumes "accepts (br_sax s)" "\<And>s1. accepts (br_sax s1) \<Longrightarrow> br_input s1 = [] \<Longrightarrow> ends (f s1) (placed (br_sax s1))"
    "\<And>n s1. get_number F_bson True s = Inr (Some (n :: 32 word), s1) \<Longrightarrow> accepts (br_sax s1) \<Longrightarrow> ends (f s1) (placed (br_sax s1))"
  shows "ends (bindE (get_number F_bson True s) (\<lambda>(document_size :: 32 word option, s). f s)) (placed (br_sax s))"
proof (cases "get_number F_bson True s :: (32 word, 'f) reading")
  case (Inl e)
  then show ?thesis using quiet_get_number [of F_bson True s, where 'a = 32] by (simp add: ends_def quiet_def)
next
  case (Inr p)
  obtain n s1 where p: "p = (n, s1)" by (cases p)
  show ?thesis
  proof (cases n)
    case None
    with Inr get_number_failed [of F_bson True s s1, where 'a = 32] assms(1) assms(2) [of s1] show ?thesis by (simp add: p)
  next
    case (Some m)
    then have "br_sax s1 = br_sax s" using quiet_get_number [of F_bson True s, where 'a = 32] Inr p by (simp add: quiet_def ends_def)
    with assms(1) assms(3) [of m s1] Inr show ?thesis by (simp add: p Some)
  qed
qed

lemma br_input_on_reader: "on_reader e s = Inr (a, s') \<Longrightarrow> br_input s' = br_input s"
  by (cases "e (br_sax s)") (auto simp: on_reader_def)

lemma ends_bson:
  fixes F :: "('f, 'z) image_ops_scheme"
  shows "accepts (br_sax s) \<Longrightarrow> ends (parse_bson F s) (placed (br_sax s))"
    and "accepts (br_sax s) \<Longrightarrow> ends (parse_bson_array F s) (placed (br_sax s))"
    and "accepts (br_sax s) \<Longrightarrow> ends (parse_bson_element F c position s) (placed (br_sax s))"
    and "\<And>q. (if a then at_array q (br_sax s) else at_object q (br_sax s)) \<Longrightarrow>
      ends (parse_bson_element_list F a s) (if a then in_array q (br_sax s) else in_object q (br_sax s))"
proof (induction F s and F s and F c position s and F a s
    rule: parse_bson_parse_bson_array_parse_bson_element_parse_bson_element_list.induct)
  case (1 F s)
  note size = 1(1) [OF _ refl] and acc = 1(2)
  show ?case unfolding parse_bson.simps [of F s]
  proof (rule ends_bson_document [OF acc])
    fix s1 :: "'f binary_reader" assume "accepts (br_sax s1)" "br_input s1 = []"
    then show "ends (and_then (on_reader (start_object_len (- 1)) s1) (\<lambda>_ s.
        and_then (parse_bson_element_list F False s) (\<lambda>_ s. on_reader end_object s))) (placed (br_sax s1))"
      by (intro ends_object bson_list_cut) (auto dest: br_input_on_reader)
  next
    fix n and s1 :: "'f binary_reader" assume s1: "get_number F_bson True s = Inr (Some (n :: 32 word), s1)" "accepts (br_sax s1)"
    from size [OF s1(1)] show "ends (and_then (on_reader (start_object_len (- 1)) s1) (\<lambda>_ s.
        and_then (parse_bson_element_list F False s) (\<lambda>_ s. on_reader end_object s))) (placed (br_sax s1))"
      by (intro ends_object s1(2)) auto
  qed
next
  case (2 F s)
  note size = 2(1) [OF _ refl] and acc = 2(2)
  show ?case unfolding parse_bson_array.simps [of F s]
  proof (rule ends_bson_document [OF acc])
    fix s1 :: "'f binary_reader" assume "accepts (br_sax s1)" "br_input s1 = []"
    then show "ends (and_then (on_reader (start_array_len (- 1)) s1) (\<lambda>_ s.
        and_then (parse_bson_element_list F True s) (\<lambda>_ s. on_reader end_array s))) (placed (br_sax s1))"
      by (intro ends_array bson_list_cut) (auto dest: br_input_on_reader)
  next
    fix n and s1 :: "'f binary_reader" assume s1: "get_number F_bson True s = Inr (Some (n :: 32 word), s1)" "accepts (br_sax s1)"
    from size [OF s1(1)] show "ends (and_then (on_reader (start_array_len (- 1)) s1) (\<lambda>_ s.
        and_then (parse_bson_element_list F True s) (\<lambda>_ s. on_reader end_array s))) (placed (br_sax s1))"
      by (intro ends_array s1(2)) auto
  qed
next
  case (3 F c position s)
  then show ?case unfolding parse_bson_element.simps [of F c position s] by (intro ends_if ends_bson_simple) simp_all
next
  case (4 F a s)
  let ?P = "if a then in_array q (br_sax s) else in_object q (br_sax s)"
  define t where "t = read_next s"
  have sax: "br_sax t = br_sax s" by (simp add: t_def)
  have rest: "ends (and_then (get_bson_cstr [] s1) (\<lambda>key s.
      and_then (if a then Inr (Some (), s) else on_reader (sax_key key) s) (\<lambda>_ s.
      and_then (parse_bson_element F (the (br_current s1)) (br_chars_read s1) s) (\<lambda>_ s. parse_bson_element_list F a s)))) ?P"
    if c: "br_current t \<noteq> Some 0" and eof: "unexpect_eof F_bson ''element list'' t = Inr (Some u, s1)" "br_sax s1 = br_sax t" for u s1
  proof (cases a)
    case True
    have "ends (and_then (parse_bson_element F (the (br_current s1)) (br_chars_read s1) s2) (\<lambda>_ s. parse_bson_element_list F True s)) ?P"
      if s2: "get_bson_cstr [] s1 = Inr (Some key, s2)" "br_sax s2 = br_sax s1" for key s2
    proof -
      note val = 4(1) [OF t_def c eof(1) s2(1)] and list = 4(2) [OF t_def c eof(1) s2(1)]
      have "ends (and_then (parse_bson_element F (the (br_current s1)) (br_chars_read s1) s2) (\<lambda>_ s. parse_bson_element_list F True s))
          (in_array q (br_sax s2))"
        using True 4(3) s2(2) eof(2) sax val list by (intro ends_element) auto
      with True s2(2) eof(2) sax show ?thesis by simp
    qed
    then show ?thesis using True by (intro ends_quiet_then [OF quiet_get_bson_cstr]) simp
  next
    case False
    have "ends (and_then (get_bson_cstr [] s1) (\<lambda>key s. and_then (on_reader (sax_key key) s) (\<lambda>_ s.
      and_then (parse_bson_element F (the (br_current s1)) (br_chars_read s1) s) (\<lambda>_ s. parse_bson_element_list F False s)))) 
      (in_object q (br_sax s1))"
      using False 4(3) eof(2) sax 4(1,2) [OF t_def c eof(1)] by (intro ends_member [OF _ quiet_get_bson_cstr]) auto
    with False eof(2) sax show ?thesis by simp
  qed
  have "ends (Inr (Some (), t)) ?P"
    using 4(3) sax by (auto simp: ends_def in_array_refl in_object_refl split: if_splits)
  then show ?case unfolding parse_bson_element_list.simps [of F a s, folded t_def, unfolded Let_def]
    by (intro ends_if ends_quiet_then [OF quiet_unexpect_eof] rest)
qed

section \<open>Arbitrary input\<close>

text \<open>
  C16. Whatever bytes they are given, in strict mode or not, \<open>from_cbor\<close> (with each handler for tags),
  \<open>from_msgpack\<close> and \<open>from_bson\<close> return a value or throw an exception: no assertion of the builder fails, no empty stack is popped, and the input is
  never read past its end. That they return at all is part of the definitions, whose recursion terminates.
\<close>

theorem binary_input_defined:
  "from_cbor F i strict allow tag_handler \<noteq> Inl (Undefined u) \<and> from_msgpack F i strict allow \<noteq> Inl (Undefined u)
     \<and> from_bson F i strict allow \<noteq> Inl (Undefined u)"
  unfolding from_cbor_def from_msgpack_def from_bson_def
  by (intro conjI finished_ends ends_cbor(1) ends_msgpack(1) ends_bson(1))

end
