(* ===== verification/Spec2Isabelle.thy ===== *)
theory Spec2Isabelle
  imports Prelude Router_Props Server_Props Subscriber_Props Broker_System Json_Props Json_Patch_Props Http_Props Rest_Props
    Rest_Login Rest_Library Json_Cbor_Props Json_Msgpack_Props Json_Bson_Props Json_Binary_Safety
begin

text \<open>
  Verification of the networking homeworks in this repository: a software router (\<open>src/tema1\<close>, C), a
  publish/subscribe broker with its subscriber (\<open>src/tema2\<close>, C++), and a REST client
  (\<open>src/tema3\<close>, C++) on the JSON library that is kept beside it
  (\<open>src/tema3/json-develop\<close>).

  \<^bold>\<open>How the code is modelled.\<close> A structure is a record with the names of the source, an \<open>n\<close>-bit integer
  an \<open>n word\<close>, a byte array a list of bytes. Undefined behaviour (reading or writing outside an array,
  an empty deque, a null pointer, an invalid \<open>bool\<close>, a failed \<open>assert\<close>) is a value of \<open>fault\<close>; an
  exception of the JSON library, \<open>exit\<close>, and a call that waits for ever are values too, so every early
  end of the source is a branch. What comes from outside (the answers of \<open>poll\<close>, \<open>recv\<close>, \<open>read\<close> and
  \<open>write\<close>, lines of the user, the content of uninitialised memory, operations on \<open>double\<close>, the usable
  size of a block of \<open>malloc\<close>, the bytes that a \<open>memcpy\<close> between overlapping places leaves) is an argument. A recursion that need not end is a
  \<open>partial_function (option)\<close>, whose value \<open>None\<close> means that it does not return; the other loops
  are functions with a termination proof, so no fuel occurs anywhere.

  \<^bold>\<open>Shared.\<close> \<open>Prelude\<close>: faults, C strings, memory images of integers, \<open>strtol\<close>, \<open>atoi\<close>, \<open>%d\<close>,
  \<open>fgets\<close>, \<open>strtok\<close>, searching, sequencing of results.

  \<^bold>\<open>tema1.\<close> \<open>Fifo_Queue\<close> (\<open>list.c\<close>, \<open>queue.c\<close>): the queue on linked cells with explicit addresses; the
  interface \<open>fifo\<close> is a locale, interpreted on these operations. \<open>Route_Table\<close>
  (\<open>read_rtable\<close>, \<open>hwaddr_aton\<close> of \<open>skel.c\<close>; \<open>rtable_comp\<close>, \<open>binary_search\<close> of \<open>router.c\<close>), with
  \<open>Route_Table_Props\<close>: the table is read back as written; the search finds a route when all masks are the
  same and can miss one otherwise. \<open>Checksum\<close> (\<open>icmp_checksum\<close>, \<open>ip_checksum\<close>): equal to
  the Internet checksum of RFC 1071. \<open>Router\<close> (\<open>router.c\<close> and the frames of \<open>skel.c\<close>): forwarding, ICMP, ARP and
  the main loop; \<open>Router_Facts\<close> has the invariants, \<open>Router_Props\<close> the properties: no fault on any
  traffic but the overlapping \<open>memcpy\<close> of an ICMP error, packets wait exactly for unresolved next hops and leave in order, when the search returns.

  \<^bold>\<open>tema2.\<close> \<open>Tcp_Common\<close> (\<open>common.h\<close>, \<open>common.cpp\<close>): packed structures, \<open>read_data\<close>, \<open>place_back\<close>.
  \<open>Server\<close> (\<open>server.h\<close>, \<open>server.cpp\<close>): slots, identifiers, parsing, publishing, the main loop.
  \<open>Server_Facts\<close>: invariants of the slot table, the identifiers and the subscriber sets, each preserved by
  every operation. \<open>Server_Streams\<close>: how a byte stream in any segmentation is parsed. \<open>Server_Props\<close>: the
  abstract service \<open>broker\<close>, the refinement, delivery, store and forward, and what a reused descriptor
  or a second identifier breaks. \<open>Subscriber\<close>, \<open>Subscriber_Props\<close> (\<open>subscriber.cpp\<close>): commands,
  framing, decoding. \<open>Broker_System\<close> and the end of this file put the two programs together.

  \<^bold>\<open>JSON\<close> (\<open>include/nlohmann\<close>; the client includes the same code from \<open>single_include\<close>).
  \<open>Json_Value\<close> (\<open>json.hpp\<close>, \<open>exceptions.hpp\<close>, \<open>value_t.hpp\<close>, \<open>from_json.hpp\<close>): values, comparison,
  access. \<open>Json_Lexer\<close> (\<open>lexer.hpp\<close>), \<open>Json_Parser\<close> (\<open>parser.hpp\<close>, \<open>json_sax.hpp\<close>),
  \<open>Json_Serializer\<close> (\<open>serializer.hpp\<close>). \<open>Json_Text\<close>: the reference text of a value and UTF-8.
  \<open>Json_Lexer_Facts\<close>, \<open>Json_Tokens\<close>, \<open>Json_Dump\<close>, \<open>Json_Roundtrip\<close>: that the lexer reads the text of each
  token, the serializer writes the reference text, and the parser builds the value from it.
  \<open>Json_Props\<close>: the round trip and the other properties. \<open>Json_Objects\<close>: the ordered map of an object as a
  dictionary, the locale \<open>dictionary\<close> with its interpretation. \<open>Json_Access\<close> (\<open>json.hpp\<close>): initializer lists,
  access, insertion, erasure and update, with the invariant \<open>json_ok\<close> of well-formed values.
  \<open>Json_Pointer\<close> (\<open>json_pointer.hpp\<close>, \<open>string_escape.hpp\<close>): the text of a pointer and its walks, where a
  C++ reference into a value is the path to it; \<open>Json_Pointer_Facts\<close>: the text determines the pointer, and the
  walks agree. \<open>Json_Patch\<close> (\<open>patch\<close>, \<open>diff\<close>, \<open>merge_patch\<close> of \<open>json.hpp\<close>), \<open>Json_Patch_Facts\<close>,
  \<open>Json_Patch_Props\<close>: a pointer leads where RFC 6901 says, a patch from \<open>diff\<close> leads to the target, what the operations
  do to an array, patches keep values well-formed, and what a merge leaves in an object.

  \<^bold>\<open>Binary formats of the JSON library\<close> (\<open>binary_writer.hpp\<close>, \<open>binary_reader.hpp\<close>). \<open>Json_Binary\<close>: integers
  as bytes, the reader, its errors, the events with a length. \<open>Json_Cbor\<close>, \<open>Json_Msgpack\<close>, \<open>Json_Bson\<close>: the writer
  and the reader of CBOR, MessagePack and BSON, control byte by control byte; the readers are functions whose recursion ends
  because every value takes a character from the input, also where a length or a tag is wrong. \<open>Json_Binary_Facts\<close>:
  what readers deliver from written bytes; the locale \<open>codec\<close> states what a format provides, and
  is interpreted on the first two formats in \<open>Json_Cbor_Props\<close> and \<open>Json_Msgpack_Props\<close>, which prove the round trips
  and the values that are read wrongly; \<open>Json_Bson_Props\<close> has the round trip of BSON, whose containers end with a
  byte and start with a size that nobody reads. \<open>Json_Binary_Safety\<close>: arbitrary bytes lead to a value or an
  exception. The depth of the C++ stack is not bounded in the model.

  \<^bold>\<open>tema3.\<close> \<open>Http_Buffer\<close> (\<open>buffer.cpp\<close>), \<open>Http_Helpers\<close> (\<open>helpers.cpp\<close>), \<open>Http_Requests\<close>
  (\<open>requests.cpp\<close>), \<open>Http_Props\<close>: the exact text of a request or the overflow of an array, and the
  reassembly of a response. \<open>Rest_Client\<close> (\<open>client.cpp\<close>): every command as a program on the state of the
  client and its surroundings, and the loop of \<open>main\<close>. \<open>Rest_Facts\<close>: rules for such programs, the invariant of
  the client's record. \<open>Rest_Props\<close>, \<open>Rest_Login\<close>: input, types of what is asked for, registering
  and logging in from the keyboard over the request and the response to the stored cookie. \<open>Rest_Library\<close>:
  access to the library, the list of books and a new book, in the same way. The client allocates its strings one byte
  too short: the properties that meet such a block say what happens when it has a further byte (\<open>room\<close>), and when it has none.

  \<^bold>\<open>Not modelled.\<close> Opening sockets; freeing and leaking of memory, except where a pointer is read
  afterwards; the decimal form of floating point numbers; the parts of the JSON library that the client does not
  reach (UBJSON, BJData, iterators, user callbacks, \<open>to_chars\<close>) except pointers, patches, CBOR, MessagePack and BSON; the
  Python test drivers; \<open>parse_arp_table\<close> of \<open>skel.c\<close>, which nothing calls.
\<close>

section \<open>The two programs of tema2 together\<close>

text \<open>
  C7. From the keyboard to the broker: a user of the identifier \<open>name\<close> types any number of commands
  \<open>subscribe T S\<close>. However TCP cuts what the client writes, the server that reads it has \<open>name\<close>
  online under the descriptor of the connection and each topic with its flag among its interests, in
  the order of the commands.
\<close>

theorem commands_reach_broker:
  assumes "sub_init name sd 0 = Inr (Some c)" "0 \<notin> set name" "topics \<noteq> []"
    and "list_all2 (\<lambda>e t. writable e \<and> sin_line e = command_line t \<and> good_topic t) es topics"
    and "writable e" "sin_line e = []"
    and "subscriber_run (es @ [e]) c = Inr c'"
    and "id_to_fd s name = None" "r_buffer_for_fd s fd = []"
    and "concat segments = written c'" "[] \<notin> set segments"
  shows "\<exists>s'. feed s fd i segments = Inr s' \<and> r_buffer_for_fd s' fd = []
    \<and> abs_broker s' = fold (\<lambda>(t, sf). set_interest t name (Some sf)) topics
        ((abs_broker s)\<lparr>online := (online (abs_broker s))(fd \<mapsto> name)\<rparr>)"
proof -
  from session_written [OF assms(1,3,4,5,6)] assms(7) obtain stack ms where
    w: "length stack = ID_LEN + 1" "list_all2 message_for ms topics"
      "written c' = tcp_con_msg_bytes (con_msg name stack) @ concat (map tcp_sub_msg_bytes ms)" by auto
  have name: "length name \<le> ID_LEN" using assms(1) by (auto simp: sub_init_def split: if_splits)
  let ?a = "name @ 0 # drop (length name + 1) stack"
  let ?ms = "Connect ?a # map msg_for ms"
  have bytes: "written c' = encode_stream ?ms"
    unfolding w(3) encode_session [OF w(2)] con_msg_def ..
  have a: "c_string ?a = name" "length ?a = ID_LEN + 1" "0 \<in> set ?a"
    using assms(2) name w(1) by simp_all
  have session: "session s fd ?ms"
    using a assms(8) session_subscribes [OF w(2), of "apply_msg fd (Connect ?a) s" fd] by simp
  have "feed s fd i segments = Inr (set_rbuf fd [] (apply_msgs fd ?ms s))"
  proof -
    have "written c' \<noteq> []" by (simp add: bytes encode_simps)
    then have "segments \<noteq> []" using assms(10) by auto
    with feed_session [OF session assms(9), of segments i] assms(10,11) bytes show ?thesis by simp
  qed
  moreover have "abs_broker (apply_msgs fd ?ms s) = fold (\<lambda>(t, sf). set_interest t name (Some sf)) topics
      ((abs_broker s)\<lparr>online := (online (abs_broker s))(fd \<mapsto> name)\<rparr>)"
    unfolding abs_apply_msgs
    using broker_subscribes [OF w(2), of "broker_step fd (Connect ?a) (abs_broker s)" fd name] a(1)
    by simp
  ultimately show ?thesis by simp
qed

definition demo_env :: "byte list \<Rightarrow> subscriber_env" where
  "demo_env l = \<lparr>sin_line = l, spoll_ret = 1, srevents = POLLOUT, speek_ret = 1, ssend_ret = 1, srecv_ret = None,
     stack_sf = 7, stack_id = replicate 11 9, stack_news = []\<rparr>"

theorem commands_reach_broker_witness:
  "\<exists>c c' s'. sub_init (str ''bob'') 5 0 = Inr (Some c)
    \<and> subscriber_run [demo_env (command_line (str ''news'', True)), demo_env []] c = Inr c'
    \<and> feed demo_server 5 2 (map (\<lambda>b. [b]) (written c')) = Inr s'
    \<and> abs_broker s' = set_interest (str ''news'') (str ''bob'') (Some True)
        ((abs_broker demo_server)\<lparr>online := (online (abs_broker demo_server))(5 \<mapsto> str ''bob'')\<rparr>)"
proof -
  let ?c = "\<lparr>sub_id = str ''bob'', sub_sd = 5, buffer_w = [], buffer_r = [], sent_id = False, sub_log = []\<rparr>"
  let ?t = "[(str ''news'', True)]"
  have init: "sub_init (str ''bob'') 5 0 = Inr (Some ?c)" by (simp add: sub_init_def str_def)
  have e: "list_all2 (\<lambda>e t. writable e \<and> sin_line e = command_line t \<and> good_topic t)
      [demo_env (command_line (str ''news'', True))] ?t" "writable (demo_env [])" "sin_line (demo_env []) = []"
    by (simp_all add: demo_env_def writable_def good_topic_def token_def str_def is_delim_def)
  from session_written [OF init _ e] obtain c' where
    run: "subscriber_run ([demo_env (command_line (str ''news'', True))] @ [demo_env []]) ?c = Inr c'" by auto
  have "concat (map (\<lambda>b. [b]) (written c')) = written c'" by simp
  then obtain s' where "feed demo_server 5 2 (map (\<lambda>b. [b]) (written c')) = Inr s'"
    "abs_broker s' = fold (\<lambda>(t, sf). set_interest t (str ''bob'') (Some sf)) ?t
        ((abs_broker demo_server)\<lparr>online := (online (abs_broker demo_server))(5 \<mapsto> str ''bob'')\<rparr>)"
    using commands_reach_broker [OF init _ _ e run, of demo_server 5 "map (\<lambda>b. [b]) (written c')" 2]
    by (auto simp: str_def)
  with init run show ?thesis by auto
qed

text \<open>
  C11. From a news source to the screen: in a reachable state the datagram of a topic that the
  connected identifier is interested in goes to its descriptor behind the messages its mailbox
  already held, all of them in order, within as many writable rounds as there are messages. The
  bytes sent for it, received whole into an empty buffer, make the subscriber print the address,
  the port, the topic and the value, and leave nothing in its buffer. The value is decoded from
  the datagram continued by the bytes that the subscriber's \<open>union\<close> held before.
\<close>

theorem datagram_reaches_screen:
  fixes stack :: "byte list"
  assumes "server_main argn ie es = Inr s" "recvfrom_ret e = Some (d, from)"
    and "TOPIC_LEN < length d" "length d \<le> sizeof_udp_news" "length (stack_u_n e) = sizeof_udp_news"
    and "fd_to_id s fd = Some c" "c \<noteq> []"
    and "topic = c_string (take TOPIC_LEN d @ [0])" "interest (abs_broker s) topic c \<noteq> None"
    and "buffer_r sub = []"
  defines "s' \<equiv> (flush_one fd ^^ Suc (length (w_buffer_for_id s c))) (serve_udp e s)"
  shows "\<exists>b. server_log s' = server_log s @ map (\<lambda>w. Sent fd (sent_bytes w)) (w_buffer_for_id s c) @ [Sent fd b]
    \<and> w_buffer_for_id s' c = []
    \<and> receive_msg stack (sub\<lparr>buffer_r := b\<rparr>) = Inr (sub_event
        (Printed (sin_addr from) (sin_port from) topic (news_value_of (udp_news_of_bytes (d @ drop (length d) stack)))) sub)"
proof -
  let ?u = "wrap_datagram d (stack_u_n e) from"
  let ?bytes = "d @ drop (length d) (stack_u_n e)"
  have len: "length ?bytes = 1551" using assms(4,5) by simp
  have u: "wrap_len ?u = int (length d) + 10" "wrap_addr ?u = sin_addr from" "wrap_port ?u = sin_port from"
    "wrap_u_n ?u = udp_news_of_bytes ?bytes" by (simp_all add: wrap_datagram_def)
  have ok: "udp_news_ok (wrap_u_n ?u)" unfolding u(4) by (rule udp_news_of_bytes_ok [OF len])
  have data: "take (length d) (udp_news_bytes (wrap_u_n ?u)) = d"
    unfolding u(4) udp_news_bytes_of_bytes [OF len] by simp
  have topic: "c_string (news_s (wrap_u_n ?u) @ [0]) = topic"
    using assms(3) by (simp add: u(4) udp_news_of_bytes_def assms(8))
  note online = server_ids [OF assms(1,6,7)]
  have dgram: "take 1551 d = d" using assms(4) by simp
  have box: "w_buffer_for_id (serve_udp e s) c = w_buffer_for_id s c @ [?u]"
    using mailbox_publish [OF reachable_ok(3) [OF assms(1)], of topic ?u c] assms(2,9) online topic
    by (auto simp: serve_udp_def Let_def dgram)
  have id: "fd_to_id (serve_udp e s) fd = Some c" using assms(6) by (simp add: serve_udp_frame)
  have flush: "server_log s' = server_log s @ map (\<lambda>w. Sent fd (sent_bytes w)) (w_buffer_for_id s c)
      @ [Sent fd (sent_bytes ?u)]" "w_buffer_for_id s' c = []"
    using flush_many [OF id, of "Suc (length (w_buffer_for_id s c))"] box
    by (simp_all add: s'_def serve_udp_frame del: funpow.simps)
  have "receive_msg stack (sub\<lparr>buffer_r := sent_bytes ?u\<rparr>) = Inr (sub_event
      (Printed (wrap_addr ?u) (wrap_port ?u) (c_string (news_s (udp_news_of_bytes (d @ drop (length d) stack)) @ [0]))
        (news_value_of (udp_news_of_bytes (d @ drop (length d) stack)))) (sub\<lparr>buffer_r := []\<rparr>))"
    using receive_msg_whole [OF u(1) _ ok, of "sub\<lparr>buffer_r := sent_bytes ?u\<rparr>" "[]" stack] assms(4)
    by (simp add: sent_bytes_def data)
  moreover have "c_string (news_s (udp_news_of_bytes (d @ drop (length d) stack)) @ [0]) = topic"
    using assms(3) by (simp add: udp_news_of_bytes_def assms(8))
  moreover have "sub\<lparr>buffer_r := []\<rparr> = sub" using assms(10) by simp
  ultimately show ?thesis using flush u(2,3) by auto
qed

text \<open>A second datagram arrives while the first one is still in the mailbox.\<close>

definition busy_env :: server_env where
  "busy_env = idle_env\<lparr>poll_ret := 1, revents := (\<lambda>i. if i = 1 then POLLIN else 0),
     recvfrom_ret := recvfrom_ret news_env\<rparr>"

lemma busy_run:
  "\<exists>s u. server_main 2 demo_init [accept_env, joining_env, busy_env] = Inr s \<and> fd_to_id s 5 = Some (str ''ann'')
    \<and> w_buffer_for_id s (str ''ann'') = [u] \<and> interest (abs_broker s) (str ''news'') (str ''ann'') = Some False"
proof -
  from joining_run obtain s where s: "server_main 2 demo_init [accept_env, joining_env] = Inr s"
    "fd_to_id s 5 = Some (str ''ann'')" "w_buffer_for_id s (str ''ann'') = []"
    "interest (abs_broker s) (str ''news'') (str ''ann'') = Some False"
    "fds s = [3, 4, 5]" "sd_tcp s = 3" "sd_udp s = 4" by auto
  have "server_main 2 demo_init [accept_env, joining_env, busy_env] = server_pass busy_env s"
    using s(1) by (auto simp: server_main_def split: option.splits sum.splits)
  also have "\<dots> = Inr (serve_udp busy_env s)"
    using s(5-7) by (simp add: server_pass_def serve_slot_def serve_client_def serve_udp_frame busy_env_def idle_env_def
        str_def upt_rec)
  finally have run: "server_main 2 demo_init [accept_env, joining_env, busy_env] = Inr (serve_udp busy_env s)" .
  let ?d = "str ''news'' @ replicate 46 0 @ 3 # str ''hi''" and ?from = "\<lparr>sin_addr = 16777343, sin_port = 80\<rparr>"
  let ?u = "wrap_datagram (take sizeof_udp_news ?d) (stack_u_n busy_env) ?from"
  have d: "take sizeof_udp_news ?d = ?d" by (simp add: str_def)
  have t: "c_string (news_s (wrap_u_n ?u) @ [0]) = str ''news''"
    unfolding d by (simp add: wrap_datagram_def udp_news_of_bytes_def str_def c_string_def)
  have "w_buffer_for_id (serve_udp busy_env s) (str ''ann'') = w_buffer_for_id s (str ''ann'') @ [?u]"
    using mailbox_publish [OF reachable_ok(3) [OF s(1)], of "str ''news''" ?u "str ''ann''"] s(4)
      server_ids [OF s(1,2)] t
    by (simp add: serve_udp_def busy_env_def news_env_def Let_def str_def)
  with run s(2-4) show ?thesis
    by (intro exI [of _ "serve_udp busy_env s"] exI [of _ ?u]) (simp add: serve_udp_frame serve_udp_broker)
qed

theorem datagram_reaches_screen_witness:
  "\<exists>s u b sub. server_main 2 demo_init [accept_env, joining_env, busy_env] = Inr s
    \<and> server_log ((flush_one 5 ^^ 2) (serve_udp news_env s)) = server_log s @ [Sent 5 (sent_bytes u), Sent 5 b]
    \<and> receive_msg (replicate 1551 0) (sub\<lparr>buffer_r := b\<rparr>) = Inr (sub_event
        (Printed 16777343 80 (str ''news'') (V_STRING (str ''hi''))) sub)"
proof -
  from busy_run obtain s u where s: "server_main 2 demo_init [accept_env, joining_env, busy_env] = Inr s"
    "fd_to_id s 5 = Some (str ''ann'')" "w_buffer_for_id s (str ''ann'') = [u]"
    "interest (abs_broker s) (str ''news'') (str ''ann'') = Some False" by auto
  let ?d = "str ''news'' @ replicate 46 0 @ 3 # str ''hi''"
  let ?from = "\<lparr>sin_addr = 16777343, sin_port = 80\<rparr>"
  let ?sub = "\<lparr>sub_id = [], sub_sd = 5, buffer_w = [], buffer_r = [], sent_id = True, sub_log = []\<rparr>"
  have v: "news_value_of (udp_news_of_bytes (?d @ drop (length ?d) (replicate 1551 0))) = V_STRING (str ''hi'')"
    by (simp add: news_value_of_def udp_news_of_bytes_def str_def nth_append c_string_def)
  have h: "recvfrom_ret news_env = Some (?d, ?from)" "TOPIC_LEN < length ?d" "length ?d \<le> sizeof_udp_news"
    "length (stack_u_n news_env) = sizeof_udp_news" "str ''ann'' \<noteq> []" "str ''news'' = c_string (take TOPIC_LEN ?d @ [0])"
    "interest (abs_broker s) (str ''news'') (str ''ann'') \<noteq> None" "buffer_r ?sub = []"
    by (simp_all add: news_env_def idle_env_def s(4), simp_all add: str_def c_string_def)
  from datagram_reaches_screen [OF s(1) h(1-4) s(2) h(5-8), of "replicate 1551 0"]
  obtain b where "server_log ((flush_one 5 ^^ 2) (serve_udp news_env s)) = server_log s @ [Sent 5 (sent_bytes u), Sent 5 b]"
    "receive_msg (replicate 1551 0) (?sub\<lparr>buffer_r := b\<rparr>) = Inr (sub_event
        (Printed 16777343 80 (str ''news'') (V_STRING (str ''hi''))) ?sub)"
    unfolding v by (auto simp: s(3) eval_nat_numeral)
  with s(1) show ?thesis by (intro exI [of _ s] exI [of _ u] exI [of _ b] exI [of _ ?sub] conjI)
qed

end
